(* ===== verification/Prelude.thy ===== *)
theory Prelude
  imports Main "HOL-Library.Sublist"
begin

text \<open>
  Shared vocabulary of the development: Go's error values, the result types of fallible
  pure functions and of effectful commands, the collections of facts the component
  theories add to, and generic lemmas on lists and options.
\<close>

named_theorems gostr \<open>facts about the modelled functions of Go's strings package\<close>
named_theorems gopath \<open>facts about the modelled functions of Go's path/filepath package\<close>
named_theorems keeps \<open>preservation rules: one per command of the effect monad\<close>

section \<open>Go errors\<close>

text \<open>
  Error values. \<open>Sys\<close> is an error number of the operating system, \<open>Msg\<close> an error made
  by \<^verbatim>\<open>fmt.Errorf\<close> without a cause, \<open>Wrap\<close> one with a cause (the verb
  \<^verbatim>\<open>%w\<close>) and \<open>Joined\<close> the result of \<^verbatim>\<open>errors.Join\<close>. The distinction that the
  code relies on is kept: \<^verbatim>\<open>errors.Is\<close> looks through wrapped errors,
  \<^verbatim>\<open>os.IsNotExist\<close> does not.
\<close>

datatype errno = ENOENT | EEXIST | EWOULDBLOCK | ENOTEMPTY | ENOTDIR | EISDIR | EADDRINUSE | ESRCH | EIO | EINVAL | ECONNREFUSED
  | ENOTSUP | ENODATA | EPERM

datatype error =
    Sys errno
  | Msg string
  | Wrap string error
  | Joined "error list"

type_synonym 'a result = "error + 'a"

fun errors_Is :: "error \<Rightarrow> errno \<Rightarrow> bool" where
  "errors_Is (Sys e) n = (e = n)"
| "errors_Is (Msg s) n = False"
| "errors_Is (Wrap s e) n = errors_Is e n"
| "errors_Is (Joined es) n = list_ex (\<lambda>e. errors_Is e n) es"

fun os_IsNotExist :: "error \<Rightarrow> bool" where
  "os_IsNotExist (Sys e) = (e = ENOENT)"
| "os_IsNotExist e = False"

fun result_bind :: "'a result \<Rightarrow> ('a \<Rightarrow> 'b result) \<Rightarrow> 'b result" where
  "result_bind (Inl e) f = Inl e"
| "result_bind (Inr x) f = f x"

lemma result_bind_Inr_iff [simp]:
  "result_bind r f = Inr y \<longleftrightarrow> (\<exists>x. r = Inr x \<and> f x = Inr y)"
  by (cases r) auto

lemma result_bind_Inl_iff:
  "result_bind r f = Inl e \<longleftrightarrow> r = Inl e \<or> (\<exists>x. r = Inr x \<and> f x = Inl e)"
  by (cases r) auto

lemma result_bind_assoc: "result_bind (result_bind r f) g = result_bind r (\<lambda>x. result_bind (f x) g)"
  by (cases r) auto

fun map_error :: "(error \<Rightarrow> error) \<Rightarrow> 'a result \<Rightarrow> 'a result" where
  "map_error g (Inl e) = Inl (g e)"
| "map_error g (Inr x) = Inr x"

lemma map_error_Inr_iff [simp]: "map_error g r = Inr x \<longleftrightarrow> r = Inr x"
  by (cases r) auto

lemma map_error_Inl_iff: "map_error g r = Inl e \<longleftrightarrow> (\<exists>e'. r = Inl e' \<and> e = g e')"
  by (cases r) auto

section \<open>Lists\<close>

lemma distinct_filter_map:
  "distinct (map f xs) \<Longrightarrow> distinct (map f (filter P xs))"
  by (induction xs) auto

lemma distinct_map_eq:
  assumes "distinct (map f xs)" "x \<in> set xs" "y \<in> set xs" "f x = f y"
  shows "x = y"
  using assms by (auto simp: distinct_map inj_on_def)

lemma find_distinct_key:
  "distinct (map f xs) \<Longrightarrow> find (\<lambda>x. f x = k) xs = Some x \<longleftrightarrow> x \<in> set xs \<and> f x = k"
  by (induction xs) auto

lemma find_None_key: "find (\<lambda>x. f x = k) xs = None \<longleftrightarrow> k \<notin> f ` set xs"
  by (auto simp: find_None_iff)

lemma length_filter_map_le:
  assumes "\<And>x. x \<in> set xs \<Longrightarrow> P (f x) \<Longrightarrow> Q x"
  shows "length (filter P (map f xs)) \<le> length (filter Q xs)"
  using assms by (induction xs) (auto simp: le_SucI)

lemma filter_unique_key:
  assumes "distinct (map f xs)" "x \<in> set xs"
  shows "filter (\<lambda>y. f y = f x) xs = [x]"
  using assms
proof (induction xs)
  case (Cons a xs)
  show ?case
  proof (cases "a = x")
    case True
    with Cons.prems have "filter (\<lambda>y. f y = f x) xs = []"
      by (auto simp: filter_empty_conv) (metis imageI)
    with True show ?thesis by simp
  next
    case False
    with Cons show ?thesis by auto
  qed
qed simp

lemma length_filter_le_1_iff:
  assumes "distinct xs"
  shows "length (filter P xs) \<le> 1 \<longleftrightarrow> (\<forall>x\<in>set xs. \<forall>y\<in>set xs. P x \<longrightarrow> P y \<longrightarrow> x = y)"
proof -
  have d: "distinct (filter P xs)" using assms by simp
  have "length (filter P xs) \<le> 1 \<longleftrightarrow> card (set (filter P xs)) \<le> 1"
    using distinct_card[OF d] by simp
  also have "\<dots> \<longleftrightarrow> (\<forall>x\<in>set (filter P xs). \<forall>y\<in>set (filter P xs). x = y)"
    by (metis One_nat_def card_le_Suc0_iff_eq List.finite_set)
  finally show ?thesis by auto
qed

lemma fold_max_ge_acc: "a \<le> fold max xs (a :: 'a :: linorder)"
proof (induction xs arbitrary: a)
  case (Cons y ys)
  have "a \<le> max y a" by simp
  also have "\<dots> \<le> fold max ys (max y a)" by (rule Cons.IH)
  finally show ?case by simp
qed simp

lemma fold_max_ge: "x \<in> set xs \<Longrightarrow> x \<le> fold max xs (a :: 'a :: linorder)"
proof (induction xs arbitrary: a)
  case (Cons y ys)
  show ?case
  proof (cases "x = y")
    case True
    have "y \<le> max y a" by simp
    also have "\<dots> \<le> fold max ys (max y a)" by (rule fold_max_ge_acc)
    finally show ?thesis using True by simp
  next
    case False
    with Cons show ?thesis by simp
  qed
qed simp

lemma fold_max_in: "fold max xs (a :: 'a :: linorder) = a \<or> fold max xs a \<in> set xs"
proof (induction xs arbitrary: a)
  case (Cons y ys)
  have "max y a = y \<or> max y a = a" by (simp add: max_def)
  then show ?case using Cons.IH[of "max y a"] by auto
qed simp

lemma takeWhile_dropWhile_split:
  assumes "x \<in> set xs"
  shows "xs = takeWhile (\<lambda>y. y \<noteq> x) xs @ x # tl (dropWhile (\<lambda>y. y \<noteq> x) xs)"
  using assms
proof (induction xs)
  case (Cons y ys)
  then show ?case by (cases "y = x") auto
qed simp

lemma takeWhile_append_sep:
  "x \<notin> set ys \<Longrightarrow> takeWhile (\<lambda>y. y \<noteq> x) (ys @ x # zs) = ys"
  by (induction ys) auto

lemma dropWhile_append_sep:
  "x \<notin> set ys \<Longrightarrow> dropWhile (\<lambda>y. y \<noteq> x) (ys @ x # zs) = x # zs"
  by (induction ys) auto

lemma notin_takeWhile_neq [simp]: "x \<notin> set (takeWhile (\<lambda>y. y \<noteq> x) xs)"
  by (auto dest: set_takeWhileD)

end
