(* ===== verification/GoStrings.thy ===== *)
theory GoStrings
  imports Prelude
begin

text \<open>
  The functions of Go's packages \<^verbatim>\<open>strings\<close>, \<^verbatim>\<open>strconv\<close> and \<^verbatim>\<open>encoding/hex\<close> that devd
  calls, on Go strings as byte sequences. A character of type \<^typ>\<open>char\<close> is one byte, so
  \<^const>\<open>length\<close> is Go's \<^verbatim>\<open>len\<close> and slices are \<^const>\<open>take\<close> and \<^const>\<open>drop\<close>. A search
  that Go answers with -1 is \<^const>\<open>None\<close>.
\<close>

section \<open>Searching\<close>

fun strings_Index :: "'a list \<Rightarrow> 'a list \<Rightarrow> nat option" where
  "strings_Index [] sub = (if sub = [] then Some 0 else None)"
| "strings_Index (x # xs) sub =
     (if prefix sub (x # xs) then Some 0 else map_option Suc (strings_Index xs sub))"

definition strings_Contains :: "'a list \<Rightarrow> 'a list \<Rightarrow> bool" where
  "strings_Contains s sub = (strings_Index s sub \<noteq> None)"

fun last_index_byte :: "'a list \<Rightarrow> 'a \<Rightarrow> nat option" where
  "last_index_byte [] c = None"
| "last_index_byte (x # xs) c =
     (case last_index_byte xs c of
        Some i \<Rightarrow> Some (Suc i)
      | None \<Rightarrow> if x = c then Some 0 else None)"

definition strings_ContainsAny :: "'a list \<Rightarrow> 'a list \<Rightarrow> bool" where
  "strings_ContainsAny s cs = list_ex (\<lambda>c. c \<in> set cs) s"

text \<open>\<^verbatim>\<open>strings.Cut\<close> with a one-byte separator: the parts before and after it, and whether
  it occurs.\<close>

definition strings_Cut :: "'a list \<Rightarrow> 'a \<Rightarrow> 'a list \<times> 'a list \<times> bool" where
  "strings_Cut s c =
     (if c \<in> set s then (takeWhile (\<lambda>x. x \<noteq> c) s, tl (dropWhile (\<lambda>x. x \<noteq> c) s), True)
      else (s, [], False))"

section \<open>Trimming, splitting, joining\<close>

definition strings_TrimSuffix :: "'a list \<Rightarrow> 'a list \<Rightarrow> 'a list" where
  "strings_TrimSuffix s suf = (if suffix suf s then take (length s - length suf) s else s)"

definition strings_TrimPrefix :: "'a list \<Rightarrow> 'a list \<Rightarrow> 'a list" where
  "strings_TrimPrefix s pre = (if prefix pre s then drop (length pre) s else s)"

definition strings_TrimLeft :: "'a list \<Rightarrow> 'a list \<Rightarrow> 'a list" where
  "strings_TrimLeft s cs = dropWhile (\<lambda>c. c \<in> set cs) s"

definition strings_TrimRight :: "'a list \<Rightarrow> 'a list \<Rightarrow> 'a list" where
  "strings_TrimRight s cs = rev (dropWhile (\<lambda>c. c \<in> set cs) (rev s))"

definition strings_Trim :: "'a list \<Rightarrow> 'a list \<Rightarrow> 'a list" where
  "strings_Trim s cs = strings_TrimRight (strings_TrimLeft s cs) cs"

text \<open>\<^verbatim>\<open>strings.Split\<close> and \<^verbatim>\<open>strings.Join\<close> with a one-byte separator.\<close>

fun strings_Split :: "'a list \<Rightarrow> 'a \<Rightarrow> 'a list list" where
  "strings_Split [] c = [[]]"
| "strings_Split (x # xs) c =
     (if x = c then [] # strings_Split xs c
      else (x # hd (strings_Split xs c)) # tl (strings_Split xs c))"

fun strings_Join :: "'a list list \<Rightarrow> 'a \<Rightarrow> 'a list" where
  "strings_Join [] c = []"
| "strings_Join [x] c = x"
| "strings_Join (x # y # zs) c = x @ c # strings_Join (y # zs) c"

text \<open>\<^verbatim>\<open>strings.ReplaceAll\<close> of one byte by another.\<close>

definition replace_byte :: "'a list \<Rightarrow> 'a \<Rightarrow> 'a \<Rightarrow> 'a list" where
  "replace_byte s a b = map (\<lambda>c. if c = a then b else c) s"

section \<open>Numbers\<close>

definition digit_char :: "nat \<Rightarrow> char" where
  "digit_char d = char_of (48 + d)"

fun nat_digits :: "nat \<Rightarrow> string" where
  "nat_digits n = (if n < 10 then [digit_char n] else nat_digits (n div 10) @ [digit_char (n mod 10)])"

declare nat_digits.simps [simp del]

definition strconv_Itoa :: "int \<Rightarrow> string" where
  "strconv_Itoa i = (if i < 0 then CHR ''-'' # nat_digits (nat (- i)) else nat_digits (nat i))"

definition hex_digit :: "nat \<Rightarrow> char" where
  "hex_digit d = (if d < 10 then char_of (48 + d) else char_of (87 + d))"

definition hex_EncodeToString :: "string \<Rightarrow> string" where
  "hex_EncodeToString bs =
     concat (map (\<lambda>b. [hex_digit (of_char b div 16), hex_digit (of_char b mod 16)]) bs)"

section \<open>Laws of searching\<close>

lemma strings_Index_Some:
  assumes "strings_Index s sub = Some i"
  shows "s = take i s @ sub @ drop (i + length sub) s" "i + length sub \<le> length s"
proof -
  have "i + length sub \<le> length s \<and> s = take i s @ sub @ drop (i + length sub) s"
    using assms
  proof (induction s arbitrary: i)
    case Nil
    then show ?case by (auto split: if_splits)
  next
    case (Cons x xs)
    show ?case
    proof (cases "prefix sub (x # xs)")
      case True
      with Cons.prems have "i = 0" by simp
      with True show ?thesis
        by (metis add_0 append_Nil append_take_drop_id prefix_def prefix_length_le
            append_eq_conv_conj take_0)
    next
      case False
      with Cons.prems obtain j where "strings_Index xs sub = Some j" "i = Suc j" by auto
      with Cons.IH[of j] show ?thesis by simp
    qed
  qed
  then show "s = take i s @ sub @ drop (i + length sub) s" "i + length sub \<le> length s"
    by auto
qed

lemma strings_Index_append:
  assumes "\<And>j. j < length ys \<Longrightarrow> \<not> prefix sub (drop j (ys @ sub @ zs))"
  shows "strings_Index (ys @ sub @ zs) sub = Some (length ys)"
  using assms
proof (induction ys)
  case Nil
  have "prefix sub (sub @ zs)" by simp
  then show ?case by (cases "sub @ zs") auto
next
  case (Cons y ys)
  have "\<not> prefix sub (y # ys @ sub @ zs)" using Cons.prems[of 0] by simp
  moreover have "strings_Index (ys @ sub @ zs) sub = Some (length ys)"
    using Cons.prems by (intro Cons.IH) (metis Cons_eq_appendI Suc_less_eq drop_Suc_Cons length_Cons)
  ultimately show ?case by simp
qed

lemma strings_Index_None_iff:
  "strings_Index s sub = None \<longleftrightarrow> (\<forall>ys zs. s \<noteq> ys @ sub @ zs)"
proof (induction s)
  case Nil
  then show ?case by auto
next
  case (Cons x xs)
  show ?case
  proof
    assume L: "strings_Index (x # xs) sub = None"
    then have np: "\<not> prefix sub (x # xs)" and n: "strings_Index xs sub = None"
      by (auto split: if_splits)
    show "\<forall>ys zs. x # xs \<noteq> ys @ sub @ zs"
    proof (intro allI)
      fix ys zs
      show "x # xs \<noteq> ys @ sub @ zs"
        using np n Cons.IH by (cases ys) (auto simp: prefix_def)
    qed
  next
    assume R: "\<forall>ys zs. x # xs \<noteq> ys @ sub @ zs"
    then have "\<not> prefix sub (x # xs)" by (metis append_Nil prefix_def)
    moreover have "\<forall>ys zs. xs \<noteq> ys @ sub @ zs" using R by (metis append_Cons)
    ultimately show "strings_Index (x # xs) sub = None" using Cons.IH by simp
  qed
qed

lemma strings_Contains_iff [gostr]:
  "strings_Contains s sub \<longleftrightarrow> (\<exists>ys zs. s = ys @ sub @ zs)"
  unfolding strings_Contains_def using strings_Index_None_iff[of s sub] by auto

lemma last_index_byte_None_iff [simp]: "last_index_byte s c = None \<longleftrightarrow> c \<notin> set s"
  by (induction s) (auto split: option.splits)

lemma last_index_byte_Some:
  "last_index_byte s c = Some i \<Longrightarrow>
     i < length s \<and> s ! i = c \<and> c \<notin> set (drop (Suc i) s)"
  by (induction s arbitrary: i) (auto split: option.splits if_splits)

lemma strings_ContainsAny_iff [gostr]:
  "strings_ContainsAny s cs \<longleftrightarrow> set s \<inter> set cs \<noteq> {}"
  by (auto simp: strings_ContainsAny_def list_ex_iff)

lemma strings_Cut_found:
  "c \<notin> set a \<Longrightarrow> strings_Cut (a @ c # b) c = (a, b, True)"
  by (simp add: strings_Cut_def takeWhile_append_sep dropWhile_append_sep)

lemma strings_Cut_True_iff:
  "strings_Cut s c = (a, b, True) \<longleftrightarrow> s = a @ c # b \<and> c \<notin> set a"
proof
  assume "strings_Cut s c = (a, b, True)"
  then show "s = a @ c # b \<and> c \<notin> set a"
    using takeWhile_dropWhile_split[of c s] by (auto simp: strings_Cut_def split: if_splits)
next
  assume "s = a @ c # b \<and> c \<notin> set a"
  then show "strings_Cut s c = (a, b, True)" by (simp add: strings_Cut_found)
qed

lemma strings_Cut_False_iff:
  "strings_Cut s c = (a, b, False) \<longleftrightarrow> c \<notin> set s \<and> a = s \<and> b = []"
  by (auto simp: strings_Cut_def)

section \<open>Laws of splitting and joining\<close>

lemma strings_Split_nonempty [simp]: "strings_Split s c \<noteq> []"
  by (cases s) auto

text \<open>For evaluation: the rest is split once.\<close>

lemma strings_Split_eval [code]:
  "strings_Split [] c = [[]]"
  "strings_Split (x # xs) c =
     (case strings_Split xs c of [] \<Rightarrow> [] | p # ps \<Rightarrow> if x = c then [] # p # ps else (x # p) # ps)"
  by (auto split: list.splits)

lemma strings_Split_no_sep: "p \<in> set (strings_Split s c) \<Longrightarrow> c \<notin> set p"
proof (induction s arbitrary: p)
  case (Cons x xs)
  have h: "hd (strings_Split xs c) \<in> set (strings_Split xs c)" by simp
  show ?case
    using Cons.prems Cons.IH[OF h] Cons.IH
    by (auto split: if_splits) (meson list.set_sel(2) strings_Split_nonempty)
qed simp

lemma strings_Join_Split [simp]: "strings_Join (strings_Split s c) c = s"
proof (induction s)
  case (Cons x xs)
  obtain p ps where p: "strings_Split xs c = p # ps" by (cases "strings_Split xs c") auto
  show ?case
  proof (cases "x = c")
    case True
    with p Cons.IH show ?thesis by simp
  next
    case False
    with p Cons.IH show ?thesis by (cases ps) auto
  qed
qed simp

lemma strings_Split_append:
  "c \<notin> set p \<Longrightarrow> strings_Split (p @ c # s) c = p # strings_Split s c"
  by (induction p) auto

lemma strings_Split_no_sep_eq: "c \<notin> set p \<Longrightarrow> strings_Split p c = [p]"
  by (induction p) auto

lemma strings_Split_Join:
  "ps \<noteq> [] \<Longrightarrow> \<forall>p\<in>set ps. c \<notin> set p \<Longrightarrow> strings_Split (strings_Join ps c) c = ps"
  by (induction ps c rule: strings_Join.induct)
    (auto simp: strings_Split_append strings_Split_no_sep_eq)

lemma strings_Join_snoc:
  "ps \<noteq> [] \<Longrightarrow> strings_Join (ps @ [p]) c = strings_Join ps c @ c # p"
  by (induction ps c rule: strings_Join.induct) auto

section \<open>Laws of trimming and replacing\<close>

lemma strings_TrimSuffix_append [simp]: "strings_TrimSuffix (s @ suf) suf = s"
  by (simp add: strings_TrimSuffix_def suffix_def)

lemma strings_TrimPrefix_append [simp]: "strings_TrimPrefix (pre @ s) pre = s"
  by (simp add: strings_TrimPrefix_def)

lemma set_strings_TrimRight: "set (strings_TrimRight s cs) \<subseteq> set s"
  by (auto simp: strings_TrimRight_def dest: set_dropWhileD)

lemma set_strings_Trim: "set (strings_Trim s cs) \<subseteq> set s"
  using set_strings_TrimRight
  by (fastforce simp: strings_Trim_def strings_TrimLeft_def dest: set_dropWhileD)

lemma prefix_strings_TrimRight: "prefix (strings_TrimRight s cs) s"
  by (metis strings_TrimRight_def suffix_dropWhile suffix_to_prefix rev_rev_ident)

lemma strings_TrimRight_last:
  "strings_TrimRight s cs \<noteq> [] \<Longrightarrow> last (strings_TrimRight s cs) \<notin> set cs"
  using hd_dropWhile[of "\<lambda>c. c \<in> set cs" "rev s"]
  by (auto simp: strings_TrimRight_def last_rev)

lemma strings_TrimRight_id:
  "s \<noteq> [] \<Longrightarrow> last s \<notin> set cs \<Longrightarrow> strings_TrimRight s cs = s"
  by (cases s rule: rev_cases) (auto simp: strings_TrimRight_def)

lemma strings_TrimRight_nonempty:
  "x \<in> set s \<Longrightarrow> x \<notin> set cs \<Longrightarrow> strings_TrimRight s cs \<noteq> []"
  by (auto simp: strings_TrimRight_def dropWhile_eq_Nil_conv)

lemma replace_byte_notin: "a \<noteq> b \<Longrightarrow> a \<notin> set (replace_byte s a b)"
  by (auto simp: replace_byte_def)

lemma length_replace_byte [simp]: "length (replace_byte s a b) = length s"
  by (simp add: replace_byte_def)

section \<open>Laws of number printing\<close>

lemma nat_digits_nonempty [simp]: "nat_digits n \<noteq> []"
  by (subst nat_digits.simps) simp

lemma of_char_digit_char: "d < 10 \<Longrightarrow> of_char (digit_char d) = 48 + d"
  by (simp add: digit_char_def)

definition is_digit :: "char \<Rightarrow> bool" where
  "is_digit c = (48 \<le> (of_char c :: nat) \<and> (of_char c :: nat) \<le> 57)"

lemma nat_digits_are_digits: "c \<in> set (nat_digits n) \<Longrightarrow> is_digit c"
proof (induction n rule: nat_digits.induct)
  case (1 n)
  show ?case
  proof (cases "n < 10")
    case True
    with "1.prems" show ?thesis
      by (auto simp: nat_digits.simps[of n] is_digit_def of_char_digit_char)
  next
    case False
    moreover have "is_digit (digit_char (n mod 10))"
      using of_char_digit_char[of "n mod 10"] by (simp add: is_digit_def)
    ultimately show ?thesis using "1.prems" "1.IH"
      by (auto simp: nat_digits.simps[of n])
  qed
qed

definition digits_value :: "string \<Rightarrow> nat" where
  "digits_value s = foldl (\<lambda>a c. a * 10 + (of_char c - 48)) 0 s"

lemma digits_value_nat_digits: "digits_value (nat_digits n) = n"
proof (induction n rule: nat_digits.induct)
  case (1 n)
  then show ?case
    by (cases "n < 10")
      (auto simp: nat_digits.simps[of n] digits_value_def of_char_digit_char)
qed

lemma nat_digits_inject [simp]: "nat_digits m = nat_digits n \<longleftrightarrow> m = n"
  by (metis digits_value_nat_digits)

lemma minus_not_digit: "CHR ''-'' \<notin> set (nat_digits n)"
  using nat_digits_are_digits[of "CHR ''-''" n] by (auto simp: is_digit_def)

lemma strconv_Itoa_inject [simp]: "strconv_Itoa i = strconv_Itoa j \<longleftrightarrow> i = j"
proof
  assume eq: "strconv_Itoa i = strconv_Itoa j"
  have "nat_digits k \<noteq> CHR ''-'' # xs" for k xs
    using minus_not_digit[of k] by (metis list.set_intros(1))
  then show "i = j" using eq by (auto simp: strconv_Itoa_def split: if_splits) metis+
qed simp

lemma strconv_Itoa_chars: "c \<in> set (strconv_Itoa i) \<Longrightarrow> is_digit c \<or> c = CHR ''-''"
  by (auto simp: strconv_Itoa_def dest: nat_digits_are_digits split: if_splits)

end
