(* ===== verification/Jsonc.thy ===== *)
theory Jsonc
  imports GoStrings
begin

text \<open>
  \<^verbatim>\<open>internal/config/devcontainer.go\<close>, the two passes that turn JSONC into JSON. The
  definitions follow the source's index loops over a mutable byte slice (\<open>result[i] = v\<close> is
  a list update); the reference definitions are single-pass scanners. The theorems say that
  loop and scanner agree, that neither pass moves a byte (length and line structure are
  kept), that comments and trailing commas are blanked and string literals are not
  touched.
\<close>

abbreviation quote :: char where "quote \<equiv> CHR 0x22"
abbreviation backslash :: char where "backslash \<equiv> CHR 0x5C"
abbreviation newline :: char where "newline \<equiv> CHR 0x0A"
abbreviation space :: char where "space \<equiv> CHR 0x20"

section \<open>The loops of the source\<close>

text \<open>\<^verbatim>\<open>for ; i < len(result) && result[i] != '\n'; i++ { result[i] = ' ' }\<close>\<close>

function line_loop :: "string \<Rightarrow> nat \<Rightarrow> string \<times> nat" where
  "line_loop r i =
     (if i < length r \<and> r ! i \<noteq> newline then line_loop (r[i := space]) (Suc i) else (r, i))"
  by pat_completeness auto
termination by (relation "measure (\<lambda>(r, i). length r - i)") auto

text \<open>The loop of a block comment; the index returned is the one at which the outer loop's
  increment happens (the last byte of the comment).\<close>

function block_loop :: "string \<Rightarrow> nat \<Rightarrow> string \<times> nat" where
  "block_loop r i =
     (if i < length r then
        if Suc i < length r \<and> r ! i = CHR ''*'' \<and> r ! Suc i = CHR ''/''
        then (r[i := space, Suc i := space], Suc i)
        else block_loop (if r ! i \<noteq> newline then r[i := space] else r) (Suc i)
      else (r, i))"
  by pat_completeness auto
termination by (relation "measure (\<lambda>(r, i). length r - i)") auto

declare line_loop.simps [simp del] block_loop.simps [simp del]

lemma line_loop_bounds: "length (fst (line_loop r i)) = length r \<and> i \<le> snd (line_loop r i)"
proof (induction r i rule: line_loop.induct)
  case (1 r i)
  then show ?case by (cases "i < length r \<and> r ! i \<noteq> newline") (auto simp: line_loop.simps[of r i])
qed

lemma block_loop_bounds: "length (fst (block_loop r i)) = length r \<and> i \<le> snd (block_loop r i)"
proof (induction r i rule: block_loop.induct)
  case (1 r i)
  let ?c = "Suc i < length r \<and> r ! i = CHR ''*'' \<and> r ! Suc i = CHR ''/''"
  consider "\<not> i < length r" | "i < length r" ?c | "i < length r" "\<not> ?c" by blast
  then show ?case
  proof cases
    case 3
    from "1.IH"[OF 3] 3 show ?thesis by (subst (1 2) block_loop.simps) auto
  qed (subst (1 2) block_loop.simps, simp)+
qed

lemma line_loop_eq: "(r', j) = line_loop r i \<Longrightarrow> length r' = length r \<and> i \<le> j"
  by (metis line_loop_bounds fst_conv snd_conv)

lemma block_loop_eq: "(r', j) = block_loop r i \<Longrightarrow> length r' = length r \<and> i \<le> j"
  by (metis block_loop_bounds fst_conv snd_conv)

function comments_loop :: "string \<Rightarrow> nat \<Rightarrow> bool \<Rightarrow> bool \<Rightarrow> string" where
  "comments_loop r i inString escaped =
     (if \<not> i < length r then r
      else if inString then
        if escaped then comments_loop r (Suc i) True False
        else if r ! i = backslash then comments_loop r (Suc i) True True
        else if r ! i = quote then comments_loop r (Suc i) False escaped
        else comments_loop r (Suc i) True escaped
      else if r ! i = quote then comments_loop r (Suc i) True escaped
      else if r ! i \<noteq> CHR ''/'' \<or> Suc i \<ge> length r then comments_loop r (Suc i) False escaped
      else if r ! Suc i = CHR ''/'' then
        let (r', j) = line_loop (r[i := space, Suc i := space]) (i + 2)
        in comments_loop r' j False escaped
      else if r ! Suc i = CHR ''*'' then
        let (r', j) = block_loop (r[i := space, Suc i := space]) (i + 2)
        in comments_loop r' (Suc j) False escaped
      else comments_loop r (Suc i) False escaped)"
  by pat_completeness auto
termination
proof (relation "measure (\<lambda>(r, i, inString, escaped). length r - i)", goal_cases)
  case (8 r i inString escaped x r' j)
  then show ?case
    using line_loop_eq[of r' j "r[i := space, Suc i := space]" "i + 2"] by auto
next
  case (9 r i inString escaped x r' j)
  then show ?case
    using block_loop_eq[of r' j "r[i := space, Suc i := space]" "i + 2"] by auto
qed auto


declare comments_loop.simps [simp del]

definition removeJSONComments :: "string \<Rightarrow> string" where
  "removeJSONComments data = comments_loop data 0 False False"

text \<open>The inner loop of \<^verbatim>\<open>removeTrailingJSONCommas\<close>: whether the first byte after the comma
  that is not white space closes an object or an array.\<close>

definition json_ws :: "char \<Rightarrow> bool" where
  "json_ws c = (c = space \<or> c = CHR 0x09 \<or> c = CHR 0x0D \<or> c = newline)"

function next_loop :: "string \<Rightarrow> nat \<Rightarrow> bool" where
  "next_loop r next =
     (if next < length r then
        if json_ws (r ! next) then next_loop r (Suc next)
        else r ! next = CHR ''}'' \<or> r ! next = CHR '']''
      else False)"
  by pat_completeness auto
termination by (relation "measure (\<lambda>(r, i). length r - i)") auto

function commas_loop :: "string \<Rightarrow> nat \<Rightarrow> bool \<Rightarrow> bool \<Rightarrow> string" where
  "commas_loop r i inString escaped =
     (if \<not> i < length r then r
      else if inString then
        if escaped then commas_loop r (Suc i) True False
        else if r ! i = backslash then commas_loop r (Suc i) True True
        else if r ! i = quote then commas_loop r (Suc i) False escaped
        else commas_loop r (Suc i) True escaped
      else if r ! i = quote then commas_loop r (Suc i) True escaped
      else if r ! i \<noteq> CHR '','' then commas_loop r (Suc i) False escaped
      else commas_loop (if next_loop r (Suc i) then r[i := space] else r) (Suc i) False escaped)"
  by pat_completeness auto
termination by (relation "measure (\<lambda>(r, i, _). length r - i)") auto

declare next_loop.simps [simp del] commas_loop.simps [simp del]

definition removeTrailingJSONCommas :: "string \<Rightarrow> string" where
  "removeTrailingJSONCommas data = commas_loop data 0 False False"

section \<open>Reference scanners\<close>

datatype mode = Code | InStr | InEsc | InLine | InBlock

text \<open>Where a string scanner goes after one byte of a literal.\<close>

fun str_next :: "mode \<Rightarrow> char \<Rightarrow> mode" where
  "str_next InEsc c = InStr"
| "str_next m c = (if c = backslash then InEsc else if c = quote then Code else InStr)"

function strip :: "mode \<Rightarrow> string \<Rightarrow> string" where
  "strip m [] = []"
| "strip Code (c # cs) =
     (if c = quote then c # strip InStr cs
      else if c = CHR ''/'' \<and> prefix ''/'' cs then space # space # strip InLine (tl cs)
      else if c = CHR ''/'' \<and> prefix ''*'' cs then space # space # strip InBlock (tl cs)
      else c # strip Code cs)"
| "strip InStr (c # cs) = c # strip (str_next InStr c) cs"
| "strip InEsc (c # cs) = c # strip (str_next InEsc c) cs"
| "strip InLine (c # cs) =
     (if c = newline then c # strip Code cs else space # strip InLine cs)"
| "strip InBlock (c # cs) =
     (if c = CHR ''*'' \<and> prefix ''/'' cs then space # space # strip Code (tl cs)
      else (if c = newline then c else space) # strip InBlock cs)"
  by pat_completeness auto
termination by (relation "measure (\<lambda>(m, s). length s)") auto

definition closes :: "string \<Rightarrow> bool" where
  "closes cs = (case dropWhile json_ws cs of
     [] \<Rightarrow> False | c # _ \<Rightarrow> c = CHR ''}'' \<or> c = CHR '']'')"

fun squeeze :: "mode \<Rightarrow> string \<Rightarrow> string" where
  "squeeze m [] = []"
| "squeeze Code (c # cs) =
     (if c = quote then c # squeeze InStr cs
      else if c = CHR '','' \<and> closes cs then space # squeeze Code cs
      else c # squeeze Code cs)"
| "squeeze m (c # cs) = c # squeeze (str_next m c) cs"

section \<open>The loops compute the reference scanners\<close>

fun mode_of :: "bool \<Rightarrow> bool \<Rightarrow> mode" where
  "mode_of False e = Code"
| "mode_of True False = InStr"
| "mode_of True True = InEsc"

lemma upd_mid: "(d @ c # cs)[length d := x] = d @ x # cs"
  by (simp add: list_update_append)

lemma line_loop_spec:
  "line_loop (d @ s) (length d) =
     (d @ replicate (length (takeWhile (\<lambda>c. c \<noteq> newline) s)) space
        @ dropWhile (\<lambda>c. c \<noteq> newline) s,
      length d + length (takeWhile (\<lambda>c. c \<noteq> newline) s))"
proof (induction s arbitrary: d)
  case Nil
  then show ?case by (simp add: line_loop.simps)
next
  case (Cons c cs)
  show ?case
  proof (cases "c = newline")
    case True
    then show ?thesis by (simp add: line_loop.simps)
  next
    case False
    then have "line_loop (d @ c # cs) (length d) = line_loop ((d @ [space]) @ cs) (length (d @ [space]))"
      by (subst line_loop.simps) (simp add: upd_mid)
    also have "\<dots> = (d @ replicate (length (takeWhile (\<lambda>c. c \<noteq> newline) (c # cs))) space
        @ dropWhile (\<lambda>c. c \<noteq> newline) (c # cs),
      length d + length (takeWhile (\<lambda>c. c \<noteq> newline) (c # cs)))"
      using False by (subst Cons.IH) simp
    finally show ?thesis .
  qed
qed

lemma strip_InLine:
  "strip InLine s = replicate (length (takeWhile (\<lambda>c. c \<noteq> newline) s)) space
     @ strip Code (dropWhile (\<lambda>c. c \<noteq> newline) s)"
  by (induction s) auto

text \<open>The part of the input that a block comment covers, blanked, and what follows it.\<close>

fun block_split :: "string \<Rightarrow> string \<times> string" where
  "block_split [] = ([], [])"
| "block_split (c # cs) =
     (if c = CHR ''*'' \<and> prefix ''/'' cs then ([space, space], tl cs)
      else let (b, t) = block_split cs in ((if c = newline then c else space) # b, t))"

lemma strip_InBlock: "strip InBlock s = fst (block_split s) @ strip Code (snd (block_split s))"
  by (induction s) (auto split: prod.splits)

lemma block_loop_spec:
  "\<exists>j. block_loop (d @ s) (length d) = (d @ fst (block_split s) @ snd (block_split s), j) \<and>
       (Suc j = length d + length (fst (block_split s)) \<or>
        snd (block_split s) = [] \<and> j = length d + length (fst (block_split s)))"
proof (induction s arbitrary: d)
  case Nil
  then show ?case by (simp add: block_loop.simps)
next
  case (Cons c cs)
  show ?case
  proof (cases "c = CHR ''*'' \<and> prefix ''/'' cs")
    case True
    then obtain ds where "cs = CHR ''/'' # ds" by (auto simp: prefix_def)
    with True show ?thesis
      by (subst block_loop.simps) (auto simp: list_update_append nth_append)
  next
    case False
    let ?x = "if c = newline then c else space"
    have "block_loop (d @ c # cs) (length d) = block_loop ((d @ [?x]) @ cs) (length (d @ [?x]))"
      using False
      by (subst block_loop.simps) (cases cs; auto simp: upd_mid nth_append)
    then show ?thesis using Cons.IH[of "d @ [?x]"] False
      by (auto split: prod.splits)
  qed
qed

lemma comments_loop_end: "length r \<le> i \<Longrightarrow> comments_loop r i a b = r"
  by (simp add: comments_loop.simps)

lemma comments_loop_str:
  "comments_loop (d @ c # cs) (length d) True esc =
     comments_loop ((d @ [c]) @ cs) (length (d @ [c])) (esc \<or> c \<noteq> quote) (\<not> esc \<and> c = backslash)"
  by (subst comments_loop.simps) (cases esc; cases "c = backslash"; cases "c = quote"; simp)

lemma comments_loop_code:
  assumes "c = quote \<or> \<not> (c = CHR ''/'' \<and> (prefix ''/'' cs \<or> prefix ''*'' cs))"
  shows "comments_loop (d @ c # cs) (length d) False False =
     comments_loop ((d @ [c]) @ cs) (length (d @ [c])) (c = quote) False"
proof (cases "c = quote")
  case True
  then show ?thesis by (subst comments_loop.simps) simp
next
  case False
  with assms show ?thesis
    by (subst comments_loop.simps) (cases cs; cases "c = CHR ''/''"; auto simp: nth_append)
qed

lemma mode_of_str: "strip (mode_of True esc) (c # cs) =
    c # strip (mode_of (esc \<or> c \<noteq> quote) (\<not> esc \<and> c = backslash)) cs"
  by (cases esc; cases "c = backslash"; cases "c = quote") simp_all

lemma comments_loop_spec:
  "(inS \<or> \<not> esc) \<Longrightarrow> comments_loop (d @ s) (length d) inS esc = d @ strip (mode_of inS esc) s"
proof (induction "length s" arbitrary: d s inS esc rule: less_induct)
  case less
  note IH = less.hyps
  show ?case
  proof (cases s)
    case Nil
    then show ?thesis by (simp add: comments_loop_end)
  next
    case (Cons c cs)
    have step: "comments_loop ((d @ [c]) @ cs) (length (d @ [c])) i e = (d @ [c]) @ strip (mode_of i e) cs"
      if "i \<or> \<not> e" for i e
      using IH[of cs i e "d @ [c]"] that Cons by simp
    consider (line) "\<not> inS" "c = CHR ''/''" "prefix ''/'' cs"
      | (block) "\<not> inS" "c = CHR ''/''" "prefix ''*'' cs"
      | (other) "inS \<or> c = quote \<or> \<not> (c = CHR ''/'' \<and> (prefix ''/'' cs \<or> prefix ''*'' cs))"
      by blast
    then show ?thesis
    proof cases
      case line
      then obtain ds where cs: "cs = CHR ''/'' # ds" by (auto simp: prefix_def)
      let ?p = "takeWhile (\<lambda>c. c \<noteq> newline) ds" and ?q = "dropWhile (\<lambda>c. c \<noteq> newline) ds"
      let ?d = "d @ [space, space] @ replicate (length ?p) space"
      have ll: "line_loop ((d @ [space, space]) @ ds) (length (d @ [space, space])) =
          (?d @ ?q, length ?d)"
        by (subst line_loop_spec) simp
      have "length ?q < length s" using Cons cs length_dropWhile_le[of _ ds] by (simp add: less_Suc_eq_le le_SucI)
      then have "comments_loop (?d @ ?q) (length ?d) False False = ?d @ strip Code ?q"
        using IH[of ?q False False ?d] by simp
      moreover have "comments_loop (d @ s) (length d) inS esc = comments_loop (?d @ ?q) (length ?d) False False"
        using line Cons cs less.prems ll
        by (subst comments_loop.simps) (simp add: nth_append list_update_append)
      ultimately show ?thesis using line Cons cs by (simp add: strip_InLine)
    next
      case block
      then obtain ds where cs: "cs = CHR ''*'' # ds" by (auto simp: prefix_def)
      let ?b = "fst (block_split ds)" and ?t = "snd (block_split ds)"
      let ?d = "d @ [space, space] @ ?b"
      obtain j where j: "block_loop ((d @ [space, space]) @ ds) (length (d @ [space, space])) = (?d @ ?t, j)"
        and jj: "Suc j = length ?d \<or> ?t = [] \<and> j = length ?d"
        using block_loop_spec[of "d @ [space, space]" ds] by auto
      have "length ?t \<le> length ds" by (induction ds) (auto split: prod.splits)
      then have "length ?t < length s" using Cons cs by simp
      then have "comments_loop (?d @ ?t) (length ?d) False False = ?d @ strip Code ?t"
        using IH[of ?t False False ?d] by simp
      then have "comments_loop (?d @ ?t) (Suc j) False False = ?d @ strip Code ?t"
        using jj by (auto simp: comments_loop_end)
      moreover have "comments_loop (d @ s) (length d) inS esc = comments_loop (?d @ ?t) (Suc j) False False"
        using block Cons cs less.prems j
        by (subst comments_loop.simps) (simp add: nth_append list_update_append)
      ultimately show ?thesis using block Cons cs by (simp add: strip_InBlock)
    next
      case other
      show ?thesis
      proof (cases inS)
        case True
        then show ?thesis
          using step[of "esc \<or> c \<noteq> quote" "\<not> esc \<and> c = backslash"] Cons
          by (auto simp: comments_loop_str mode_of_str simp del: mode_of.simps)
      next
        case False
        then show ?thesis
          using comments_loop_code[of c cs d] step[of "c = quote" False] other less.prems Cons
          by (cases "c = quote") auto
      qed
    qed
  qed
qed

lemma removeJSONComments_strip: "removeJSONComments s = strip Code s"
  using comments_loop_spec[of False False "[]" s] by (simp add: removeJSONComments_def)

lemma next_loop_spec: "next_loop (d @ s) (length d) = closes s"
proof (induction s arbitrary: d)
  case Nil
  then show ?case by (simp add: next_loop.simps closes_def)
next
  case (Cons c cs)
  show ?case
  proof (cases "json_ws c")
    case True
    then have "next_loop (d @ c # cs) (length d) = next_loop ((d @ [c]) @ cs) (length (d @ [c]))"
      by (subst next_loop.simps) simp
    with Cons.IH[of "d @ [c]"] True show ?thesis by (simp add: closes_def)
  next
    case False
    then show ?thesis by (subst next_loop.simps) (simp add: closes_def)
  qed
qed

lemma commas_loop_str:
  "commas_loop (d @ c # cs) (length d) True esc =
     commas_loop ((d @ [c]) @ cs) (length (d @ [c])) (esc \<or> c \<noteq> quote) (\<not> esc \<and> c = backslash)"
  by (subst commas_loop.simps) (cases esc; cases "c = backslash"; cases "c = quote"; simp)

lemma commas_loop_code:
  "commas_loop (d @ c # cs) (length d) False False =
     (let x = if c = CHR '','' \<and> closes cs then space else c
      in commas_loop ((d @ [x]) @ cs) (length (d @ [x])) (c = quote) False)"
  using next_loop_spec[of "d @ [c]" cs]
  by (subst commas_loop.simps) (auto simp: Let_def upd_mid)

lemma squeeze_str: "squeeze (mode_of True esc) (c # cs) =
    c # squeeze (mode_of (esc \<or> c \<noteq> quote) (\<not> esc \<and> c = backslash)) cs"
  by (cases esc; cases "c = backslash"; cases "c = quote") simp_all

lemma commas_loop_spec:
  "(inS \<or> \<not> esc) \<Longrightarrow> commas_loop (d @ s) (length d) inS esc = d @ squeeze (mode_of inS esc) s"
proof (induction s arbitrary: d inS esc)
  case Nil
  then show ?case by (simp add: commas_loop.simps)
next
  case (Cons c cs)
  show ?case
  proof (cases inS)
    case True
    then show ?thesis
      using Cons.IH[of "esc \<or> c \<noteq> quote" "\<not> esc \<and> c = backslash" "d @ [c]"]
      by (auto simp: commas_loop_str squeeze_str simp del: mode_of.simps)
  next
    case False
    let ?x = "if c = CHR '','' \<and> closes cs then space else c"
    show ?thesis using False Cons.prems Cons.IH[of "c = quote" False "d @ [?x]"]
      by (cases "c = quote") (auto simp: commas_loop_code Let_def)
  qed
qed

lemma removeTrailingJSONCommas_squeeze: "removeTrailingJSONCommas s = squeeze Code s"
  using commas_loop_spec[of False False "[]" s] by (simp add: removeTrailingJSONCommas_def)

section \<open>What the passes keep\<close>

definition blanked :: "string \<Rightarrow> string \<Rightarrow> bool" where
  "blanked s t = list_all2 (\<lambda>a b. b = a \<or> a \<noteq> newline \<and> b = space) s t"

lemma blanked_strip: "blanked s (strip m s)"
proof (induction m s rule: strip.induct)
  case (2 c cs)
  then show ?case by (cases cs) (auto simp: blanked_def prefix_def)
next
  case (6 c cs)
  then show ?case by (cases cs) (auto simp: blanked_def prefix_def)
qed (auto simp: blanked_def)

lemma blanked_squeeze: "blanked s (squeeze m s)"
  by (induction m s rule: squeeze.induct) (auto simp: blanked_def)

lemma blanked_trans:
  assumes "blanked s t" "blanked t u"
  shows "blanked s u"
proof -
  let ?R = "\<lambda>a b :: char. b = a \<or> a \<noteq> newline \<and> b = space"
  have "list_all2 ?R s u"
    by (rule list_all2_trans[of ?R ?R ?R s t u]) (use assms in \<open>auto simp: blanked_def\<close>)
  then show ?thesis by (simp add: blanked_def)
qed

lemma blanked_length: "blanked s t \<Longrightarrow> length t = length s"
  by (auto simp: blanked_def dest: list_all2_lengthD)

lemma blanked_newlines: "blanked s t \<Longrightarrow> map (\<lambda>c. c = newline) t = map (\<lambda>c. c = newline) s"
  unfolding blanked_def by (induction rule: list_all2_induct) auto

text \<open>The body of a string literal: bytes in which every quote is escaped and no escape is
  left open.\<close>

fun lit_body :: "string \<Rightarrow> bool" where
  "lit_body [] = True"
| "lit_body (c # cs) =
     (if c = quote then False
      else if c = backslash then (case cs of [] \<Rightarrow> False | _ # ds \<Rightarrow> lit_body ds)
      else lit_body cs)"

lemma strip_lit_body: "lit_body b \<Longrightarrow> strip InStr (b @ quote # t) = b @ quote # strip Code t"
  by (induction b rule: lit_body.induct) (auto split: if_splits list.splits)

lemma squeeze_lit_body: "lit_body b \<Longrightarrow> squeeze InStr (b @ quote # t) = b @ quote # squeeze Code t"
  by (induction b rule: lit_body.induct) (auto split: if_splits list.splits)

lemma block_split_found:
  assumes "\<not> strings_Contains (body @ ''*'') ''*/''"
  shows "block_split (body @ ''*/'' @ t) =
    (map (\<lambda>c. if c = newline then c else space) body @ ''  '', t)"
  using assms
proof (induction body)
  case (Cons c cs)
  have 1: "\<not> strings_Contains (cs @ ''*'') ''*/''"
    using Cons.prems unfolding strings_Contains_iff by (metis append_Cons)
  have 2: "\<not> (c = CHR ''*'' \<and> prefix ''/'' (cs @ ''*/'' @ t))"
  proof
    assume "c = CHR ''*'' \<and> prefix ''/'' (cs @ ''*/'' @ t)"
    then obtain ds where "c = CHR ''*''" "cs = CHR ''/'' # ds"
      by (cases cs) (auto simp: prefix_def)
    then have "(c # cs) @ ''*'' = [] @ ''*/'' @ (ds @ ''*'')" by simp
    then show False using Cons.prems unfolding strings_Contains_iff by blast
  qed
  show ?case using Cons.IH[OF 1] 2 by simp
qed simp

lemma strip_hd_kept:
  assumes "prefix [x] (strip m s)" "x \<noteq> space"
  shows "prefix [x] s"
proof -
  obtain t where t: "strip m s = x # t" using assms(1) by (auto simp: prefix_def)
  then have "list_all2 (\<lambda>a b. b = a \<or> a \<noteq> newline \<and> b = space) s (x # t)"
    using blanked_strip[of s m] by (simp add: blanked_def)
  then show ?thesis using assms(2) by (cases s) (auto simp: prefix_def)
qed

fun after_mode :: "mode \<Rightarrow> mode" where
  "after_mode InStr = InStr"
| "after_mode InEsc = InEsc"
| "after_mode m = Code"

lemma strip_after: "strip (after_mode m) (strip m s) = strip m s"
proof (induction m s rule: strip.induct)
  case (1 m)
  then show ?case by (cases m) auto
next
  case (2 c cs)
  show ?case
  proof (cases "c = quote \<or> c \<noteq> CHR ''/'' \<or> prefix ''/'' cs \<or> prefix ''*'' cs")
    case True
    then show ?thesis using "2.IH" by auto
  next
    case False
    then have "\<not> prefix ''/'' (strip Code cs)" "\<not> prefix ''*'' (strip Code cs)"
      using strip_hd_kept[of "CHR ''/''" Code cs] strip_hd_kept[of "CHR ''*''" Code cs] by auto
    with False "2.IH" show ?thesis by simp
  qed
next
  case (3 c cs)
  then show ?case by (cases "c = backslash"; cases "c = quote") auto
qed auto

section \<open>Properties\<close>

text \<open>C40. \<open>removeJSONComments\<close> and \<open>removeTrailingJSONCommas\<close>, written in the source as nested
  index loops that mutate a byte slice, compute the one-pass scanners that read each byte
  once and know whether they are in code, a string literal, an escape or a comment.\<close>

theorem jsonc_passes_scan:
  "removeJSONComments s = strip Code s \<and> removeTrailingJSONCommas s = squeeze Code s"
  by (simp add: removeJSONComments_strip removeTrailingJSONCommas_squeeze)

text \<open>Decoder errors keep their positions: the two passes together neither add nor drop a
  byte, every line break stays where it was and no new one appears, and a byte is either
  unchanged or a blank.\<close>

theorem jsonc_keeps_layout:
  "let out = removeTrailingJSONCommas (removeJSONComments s) in
     length out = length s \<and>
     map (\<lambda>c. c = newline) out = map (\<lambda>c. c = newline) s \<and>
     list_all2 (\<lambda>a b. b = a \<or> b = space) s out"
proof -
  let ?out = "squeeze Code (strip Code s)"
  have b: "blanked s ?out" by (rule blanked_trans[OF blanked_strip blanked_squeeze])
  then have "list_all2 (\<lambda>a b. b = a \<or> b = space) s ?out"
    unfolding blanked_def by (rule list_all2_mono) auto
  with b show ?thesis
    by (simp add: removeJSONComments_strip removeTrailingJSONCommas_squeeze Let_def
        blanked_length blanked_newlines)
qed

text \<open>What each piece of JSONC becomes: a string literal is copied whatever it contains
  (a URL is not a comment), the text of a line comment is blanked up to its line break and
  that of a block comment up to its first closing mark (line breaks kept); after either the
  rest of the input is treated as code again.\<close>

theorem removeJSONComments_pieces:
  "(lit_body b \<longrightarrow>
      removeJSONComments (quote # b @ quote # t) = quote # b @ quote # removeJSONComments t) \<and>
   (newline \<notin> set b \<longrightarrow>
      removeJSONComments (''//'' @ b @ newline # t) =
        replicate (2 + length b) space @ newline # removeJSONComments t) \<and>
   (\<not> strings_Contains (b @ ''*'') ''*/'' \<longrightarrow>
      removeJSONComments (''/*'' @ b @ ''*/'' @ t) =
        ''  '' @ map (\<lambda>c. if c = newline then c else space) b @ ''  '' @ removeJSONComments t)"
  using block_split_found[of b t]
  by (simp add: removeJSONComments_strip strip_lit_body strip_InLine strip_InBlock
      takeWhile_append_sep dropWhile_append_sep)

theorem removeJSONComments_pieces_witness:
  "removeJSONComments (quote # ''http://x'' @ quote # '' // c'' @ newline # ''1'') =
     quote # ''http://x'' @ quote # ''     '' @ newline # ''1'' \<and>
   removeJSONComments (''/*'' @ ''a*b'' @ ''*/'' @ ''2'') = ''       2''"
proof -
  have "lit_body ''http://x''" by simp
  note 1 = removeJSONComments_pieces[THEN conjunct1, THEN mp, OF this, of "'' // c'' @ newline # ''1''"]
  have "newline \<notin> set '' c''" by simp
  note 2 = removeJSONComments_pieces[THEN conjunct2, THEN conjunct1, THEN mp, OF this, of "''1''"]
  have "\<not> strings_Contains (''a*b'' @ ''*'') ''*/''" by (simp add: strings_Contains_def)
  note 3 = removeJSONComments_pieces[THEN conjunct2, THEN conjunct2, THEN mp, OF this, of "''2''"]
  have s: "removeJSONComments (space # s) = space # removeJSONComments s" for s
    by (simp add: removeJSONComments_strip)
  have "removeJSONComments (''1'') = ''1''" "removeJSONComments ''2'' = ''2''"
    by (simp_all add: removeJSONComments_strip)
  with 1 2 3 s show ?thesis by (simp add: numeral_eq_Suc)
qed

text \<open>Removing comments twice is the same as removing them once: what the first pass
  leaves contains no comment.\<close>

theorem removeJSONComments_idem:
  "removeJSONComments (removeJSONComments s) = removeJSONComments s"
  using strip_after[of Code s] by (simp add: removeJSONComments_strip)

end
