(* ===== verification/GoPath.thy ===== *)
theory GoPath
  imports GoStrings
begin

text \<open>
  The lexical functions of Go's \<^verbatim>\<open>path/filepath\<close> on Unix: \<^verbatim>\<open>Clean\<close>, \<^verbatim>\<open>Join\<close>, \<^verbatim>\<open>Dir\<close>
  and \<^verbatim>\<open>IsAbs\<close>. A clean absolute path is a list of ordinary components
  (\<open>abs_path\<close> of components that satisfy \<open>comp_ok\<close>); the laws say that \<^verbatim>\<open>Clean\<close> computes such
  a list and that \<^verbatim>\<open>Join\<close> and \<^verbatim>\<open>Dir\<close> add and remove its last element.
\<close>

abbreviation slash :: char where "slash \<equiv> CHR ''/''"

abbreviation dotdot :: string where "dotdot \<equiv> ''..''"

section \<open>The functions\<close>

text \<open>One component of the input against the components kept so far, last first.\<close>

definition clean_step :: "bool \<Rightarrow> string \<Rightarrow> string list \<Rightarrow> string list" where
  "clean_step rooted c out =
     (if c = [] \<or> c = ''.'' then out
      else if c = dotdot then
        (case out of
           [] \<Rightarrow> if rooted then [] else [dotdot]
         | d # ds \<Rightarrow> if d = dotdot then dotdot # d # ds else ds)
      else c # out)"

definition filepath_IsAbs :: "string \<Rightarrow> bool" where
  "filepath_IsAbs p = prefix [slash] p"

definition filepath_Clean :: "string \<Rightarrow> string" where
  "filepath_Clean p =
     (let rooted = filepath_IsAbs p;
          body = strings_Join (rev (fold (clean_step rooted) (strings_Split p slash) [])) slash
      in if rooted then slash # body else if body = [] then ''.'' else body)"

fun filepath_Join :: "string list \<Rightarrow> string" where
  "filepath_Join [] = []"
| "filepath_Join (e # es) =
     (if e = [] then filepath_Join es else filepath_Clean (strings_Join (e # es) slash))"

text \<open>\<^verbatim>\<open>Dir\<close>: everything up to and including the last slash, cleaned.\<close>

definition filepath_Dir :: "string \<Rightarrow> string" where
  "filepath_Dir p =
     filepath_Clean (case last_index_byte p slash of None \<Rightarrow> [] | Some i \<Rightarrow> take (Suc i) p)"

section \<open>Clean absolute paths as component lists\<close>

definition comp_ok :: "string \<Rightarrow> bool" where
  "comp_ok c = (c \<noteq> [] \<and> c \<noteq> ''.'' \<and> c \<noteq> dotdot \<and> slash \<notin> set c)"

definition abs_path :: "string list \<Rightarrow> string" where
  "abs_path cs = slash # strings_Join cs slash"

lemma not_comp_ok_Nil [simp]: "\<not> comp_ok []"
  by (simp add: comp_ok_def)

lemma clean_step_comp_ok [simp]: "comp_ok c \<Longrightarrow> clean_step r c out = c # out"
  by (simp add: clean_step_def comp_ok_def)

lemma clean_step_skip [simp]: "clean_step r [] out = out"
  by (simp add: clean_step_def)

lemma fold_clean_step_ok:
  "\<forall>c\<in>set cs. comp_ok c \<Longrightarrow> fold (clean_step r) cs out = rev cs @ out"
  by (induction cs arbitrary: out) auto

lemma set_clean_step_rooted:
  assumes "slash \<notin> set c"
  shows "set (clean_step True c out) \<subseteq> set out \<union> (if comp_ok c then {c} else {})"
proof (cases "comp_ok c")
  case False
  with assms have "c = [] \<or> c = ''.'' \<or> c = dotdot" by (auto simp: comp_ok_def)
  with False show ?thesis by (cases out) (auto simp: clean_step_def)
qed simp

lemma fold_clean_step_rooted:
  "(\<forall>c\<in>set out. comp_ok c) \<Longrightarrow> (\<forall>c\<in>set cs. slash \<notin> set c) \<Longrightarrow>
     \<forall>c\<in>set (fold (clean_step True) cs out). comp_ok c"
proof (induction cs arbitrary: out)
  case (Cons c cs)
  have 1: "\<forall>d\<in>set (clean_step True c out). comp_ok d"
  proof
    fix d assume "d \<in> set (clean_step True c out)"
    moreover have "slash \<notin> set c" using Cons.prems(2) by simp
    ultimately have "d \<in> set out \<union> (if comp_ok c then {c} else {})"
      using set_clean_step_rooted by blast
    then show "comp_ok d" using Cons.prems(1) by (cases "comp_ok c") auto
  qed
  have 2: "\<forall>c\<in>set cs. slash \<notin> set c" using Cons.prems(2) by simp
  from Cons.IH[OF 1 2] show ?case by (simp only: fold_simps)
qed simp

lemma filepath_IsAbs_iff: "filepath_IsAbs p \<longleftrightarrow> (\<exists>q. p = slash # q)"
  by (auto simp: filepath_IsAbs_def prefix_def)

lemma filepath_IsAbs_abs_path [simp]: "filepath_IsAbs (abs_path cs)"
  by (simp add: filepath_IsAbs_def abs_path_def)

lemma filepath_Clean_abs:
  assumes "filepath_IsAbs p"
  obtains cs where "\<forall>c\<in>set cs. comp_ok c" "filepath_Clean p = abs_path cs"
proof
  let ?cs = "rev (fold (clean_step True) (strings_Split p slash) [])"
  show "\<forall>c\<in>set ?cs. comp_ok c"
    using fold_clean_step_rooted[of "[]" "strings_Split p slash"] strings_Split_no_sep[of _ p slash]
    by auto
  show "filepath_Clean p = abs_path ?cs"
    using assms by (simp add: filepath_Clean_def abs_path_def Let_def)
qed

lemma comp_ok_no_slash: "\<forall>c\<in>set cs. comp_ok c \<Longrightarrow> \<forall>c\<in>set cs. slash \<notin> set c"
  by (simp add: comp_ok_def)

lemma strings_Split_abs_path:
  "\<forall>c\<in>set cs. comp_ok c \<Longrightarrow>
     strings_Split (abs_path cs) slash = [] # (if cs = [] then [[]] else cs)"
  by (auto simp: abs_path_def strings_Split_Join comp_ok_def)

lemma filepath_Clean_abs_path [simp]:
  assumes "\<forall>c\<in>set cs. comp_ok c"
  shows "filepath_Clean (abs_path cs) = abs_path cs"
proof -
  have "fold (clean_step True) (strings_Split (abs_path cs) slash) [] = rev cs"
    using assms by (auto simp: strings_Split_abs_path fold_clean_step_ok)
  then show ?thesis by (simp add: filepath_Clean_def Let_def) (simp add: abs_path_def)
qed

lemma abs_path_inject:
  assumes "\<forall>c\<in>set cs. comp_ok c" "\<forall>c\<in>set ds. comp_ok c" "abs_path cs = abs_path ds"
  shows "cs = ds"
proof -
  have "strings_Split (abs_path cs) slash = strings_Split (abs_path ds) slash"
    using assms(3) by simp
  then show ?thesis using assms(1,2)
    by (auto simp: strings_Split_abs_path split: if_splits)
qed

lemma abs_path_snoc:
  "abs_path (cs @ [c]) = (if cs = [] then slash # c else abs_path cs @ slash # c)"
  by (simp add: abs_path_def strings_Join_snoc)

lemma abs_path_nonempty [simp]: "abs_path cs \<noteq> []"
  by (simp add: abs_path_def)

section \<open>Join and Dir\<close>

lemma filepath_Join_abs_path [gopath]:
  assumes "\<forall>c\<in>set cs. comp_ok c" "comp_ok n"
  shows "filepath_Join [abs_path cs, n] = abs_path (cs @ [n])"
proof -
  let ?p = "abs_path cs @ slash # n"
  have n: "slash \<notin> set n" "n \<noteq> []" using assms(2) by (auto simp: comp_ok_def)
  have split: "strings_Split ?p slash = [] # (if cs = [] then [[]] else cs) @ [n]"
  proof (cases "cs = []")
    case True
    then show ?thesis using n by (simp add: abs_path_def strings_Split_no_sep_eq)
  next
    case False
    have "?p = slash # strings_Join (cs @ [n]) slash"
      using False by (simp add: abs_path_def strings_Join_snoc)
    moreover have "strings_Split (strings_Join (cs @ [n]) slash) slash = cs @ [n]"
      by (rule strings_Split_Join) (use assms n in \<open>auto simp: comp_ok_def\<close>)
    ultimately show ?thesis using False by simp
  qed
  have "fold (clean_step True) (strings_Split ?p slash) [] = rev (cs @ [n])"
    using assms by (auto simp: split fold_clean_step_ok)
  moreover have "filepath_IsAbs ?p" by (simp add: filepath_IsAbs_def abs_path_def)
  ultimately show ?thesis by (simp add: filepath_Clean_def Let_def) (simp add: abs_path_def)
qed

lemma last_index_byte_sep:
  "c \<notin> set ys \<Longrightarrow> last_index_byte (xs @ c # ys) c = Some (length xs)"
proof (induction xs)
  case Nil
  then have "last_index_byte ys c = None" by simp
  then show ?case by (simp only: append_Nil last_index_byte.simps) simp
qed simp

lemma filepath_Dir_abs_path [gopath]:
  assumes "\<forall>c\<in>set cs. comp_ok c" "comp_ok n"
  shows "filepath_Dir (abs_path (cs @ [n])) = abs_path cs"
proof (cases "cs = []")
  case True
  have "last_index_byte (slash # n) slash = Some 0"
    using last_index_byte_sep[of slash n "[]"] assms(2) by (simp add: comp_ok_def)
  moreover have "filepath_Clean [slash] = [slash]"
    using filepath_Clean_abs_path[of "[]"] by (simp add: abs_path_def)
  ultimately show ?thesis using True by (simp add: filepath_Dir_def abs_path_snoc abs_path_def)
next
  case False
  have li: "last_index_byte (abs_path cs @ slash # n) slash = Some (length (abs_path cs))"
    using assms(2) by (intro last_index_byte_sep) (simp add: comp_ok_def)
  have "filepath_Clean (abs_path cs @ [slash]) = abs_path cs"
  proof -
    have "abs_path cs @ [slash] = slash # strings_Join (cs @ [[]]) slash"
      using False by (simp add: abs_path_def strings_Join_snoc)
    moreover have "strings_Split (strings_Join (cs @ [[]]) slash) slash = cs @ [[]]"
      by (rule strings_Split_Join) (use assms in \<open>auto simp: comp_ok_def\<close>)
    moreover have "filepath_IsAbs (abs_path cs @ [slash])"
      by (simp add: filepath_IsAbs_def abs_path_def)
    ultimately show ?thesis using assms(1) fold_clean_step_ok[of cs True "[]"]
      by (simp add: filepath_Clean_def Let_def) (simp add: abs_path_def)
  qed
  then show ?thesis using False li by (simp add: filepath_Dir_def abs_path_snoc)
qed

section \<open>Clean is idempotent\<close>

definition rel_normal :: "string list \<Rightarrow> bool" where
  "rel_normal cs = (\<exists>k ds. cs = replicate k dotdot @ ds \<and> (\<forall>d\<in>set ds. comp_ok d))"

lemma fold_clean_step_dotdots:
  "\<forall>d\<in>set out. d = dotdot \<Longrightarrow>
     fold (clean_step False) (replicate k dotdot) out = replicate k dotdot @ out"
proof (induction k arbitrary: out)
  case (Suc k)
  have "clean_step False dotdot out = dotdot # out"
    using Suc.prems by (cases out) (auto simp: clean_step_def)
  then show ?case using Suc by (simp add: replicate_app_Cons_same)
qed simp

lemma rel_normal_fold:
  assumes "rel_normal cs"
  shows "fold (clean_step False) cs [] = rev cs"
proof -
  obtain k ds where "cs = replicate k dotdot @ ds" "\<forall>d\<in>set ds. comp_ok d"
    using assms by (auto simp: rel_normal_def)
  then show ?thesis by (simp add: fold_clean_step_dotdots fold_clean_step_ok del: fold_replicate)
qed

lemma rel_normal_step:
  assumes "rel_normal (rev out)" "slash \<notin> set c"
  shows "rel_normal (rev (clean_step False c out))"
proof -
  obtain k ds where out: "rev out = replicate k dotdot @ ds" and ds: "\<forall>d\<in>set ds. comp_ok d"
    using assms(1) by (auto simp: rel_normal_def)
  have nn: "rel_normal (replicate j dotdot @ es)" if "\<forall>d\<in>set es. comp_ok d" for j es
    using that by (auto simp: rel_normal_def)
  consider "c = [] \<or> c = ''.''" | "comp_ok c" | "c = dotdot"
    using assms(2) by (auto simp: comp_ok_def)
  then show ?thesis
  proof cases
    case 1
    then show ?thesis using assms(1) by (auto simp: clean_step_def)
  next
    case 2
    then show ?thesis using nn[of "ds @ [c]" k] ds out by auto
  next
    case 3
    show ?thesis
    proof (cases ds rule: rev_cases)
      case Nil
      then have "rev out = replicate k dotdot" using out by simp
      then have "out = replicate k dotdot" by (metis rev_replicate rev_rev_ident)
      then have "clean_step False c out = replicate (Suc k) dotdot"
        using 3 by (cases k) (auto simp: clean_step_def)
      then show ?thesis using nn[of "[]" "Suc k"] by (simp del: replicate_Suc)
    next
      case (snoc es d)
      then have "rev out = (replicate k dotdot @ es) @ [d]" using out by simp
      then have "out = d # rev (replicate k dotdot @ es)"
        by (metis rev_rev_ident rev.simps(2) rev_eq_Cons_iff)
      moreover have "d \<noteq> dotdot" using ds snoc by (simp add: comp_ok_def)
      ultimately have "clean_step False c out = rev (replicate k dotdot @ es)"
        using 3 by (simp add: clean_step_def)
      then show ?thesis using nn[of es k] ds snoc by simp
    qed
  qed
qed

lemma rel_normal_fold_step:
  "rel_normal (rev out) \<Longrightarrow> \<forall>c\<in>set cs. slash \<notin> set c \<Longrightarrow>
     rel_normal (rev (fold (clean_step False) cs out))"
  by (induction cs arbitrary: out) (auto intro: rel_normal_step)

lemma rel_normal_comps:
  assumes "rel_normal cs" "c \<in> set cs"
  shows "slash \<notin> set c \<and> c \<noteq> []"
proof -
  have "c = dotdot \<or> comp_ok c" using assms by (fastforce simp: rel_normal_def)
  then show ?thesis by (auto simp: comp_ok_def)
qed

lemma strings_Join_eq_Nil: "\<forall>c\<in>set cs. c \<noteq> [] \<Longrightarrow> strings_Join cs s = [] \<longleftrightarrow> cs = []"
  by (induction cs s rule: strings_Join.induct) auto

lemma strings_Join_hd:
  "cs \<noteq> [] \<Longrightarrow> hd cs \<noteq> [] \<Longrightarrow> strings_Join cs s \<noteq> [] \<and> hd (strings_Join cs s) = hd (hd cs)"
  by (induction cs s rule: strings_Join.induct) auto

lemma filepath_Clean_rel:
  assumes "rel_normal cs" "cs \<noteq> []"
  shows "filepath_Clean (strings_Join cs slash) = strings_Join cs slash"
proof -
  let ?p = "strings_Join cs slash"
  have cs: "\<forall>c\<in>set cs. slash \<notin> set c" "\<forall>c\<in>set cs. c \<noteq> []"
    using rel_normal_comps[OF assms(1)] by auto
  have hd: "hd cs \<in> set cs" using assms(2) by simp
  have "hd ?p = hd (hd cs)" and ne: "?p \<noteq> []"
    using strings_Join_hd[of cs slash] cs(2) hd assms(2) by auto
  moreover have "hd (hd cs) \<noteq> slash"
    using cs hd by (metis list.set_sel(1))
  ultimately have rel: "\<not> filepath_IsAbs ?p" by (auto simp: filepath_IsAbs_iff)
  have "strings_Split ?p slash = cs" using strings_Split_Join[of cs slash] assms(2) cs(1) by simp
  then show ?thesis using rel ne rel_normal_fold[OF assms(1)]
    by (simp add: filepath_Clean_def Let_def)
qed

lemma filepath_Clean_dot [simp]: "filepath_Clean ''.'' = ''.''"
  by code_simp

theorem filepath_Clean_idem: "filepath_Clean (filepath_Clean p) = filepath_Clean p"
proof (cases "filepath_IsAbs p")
  case True
  then obtain cs where "\<forall>c\<in>set cs. comp_ok c" "filepath_Clean p = abs_path cs"
    by (rule filepath_Clean_abs)
  then show ?thesis by simp
next
  case False
  let ?cs = "rev (fold (clean_step False) (strings_Split p slash) [])"
  have "rel_normal (rev [])" by (auto simp: rel_normal_def)
  then have n: "rel_normal ?cs"
    by (rule rel_normal_fold_step) (auto dest: strings_Split_no_sep)
  show ?thesis
  proof (cases "?cs = []")
    case True
    with False show ?thesis by (simp add: filepath_Clean_def[of p] Let_def)
  next
    case ne: False
    then have "strings_Join ?cs slash \<noteq> []"
      using strings_Join_eq_Nil[of ?cs slash] rel_normal_comps[OF n] by auto
    then have "filepath_Clean p = strings_Join ?cs slash"
      using False by (simp add: filepath_Clean_def Let_def)
    then show ?thesis using filepath_Clean_rel[OF n ne] by simp
  qed
qed

lemma filepath_IsAbs_Clean: "filepath_IsAbs p \<Longrightarrow> filepath_IsAbs (filepath_Clean p)"
  by (metis filepath_Clean_abs filepath_IsAbs_abs_path)

declare filepath_Join.simps [simp del]

end
