(* ===== verification/Tables.thy ===== *)
theory Tables
  imports GoStrings "HOL-Library.List_Lexorder" "HOL-Library.Char_ord"
begin

text \<open>
  The SQLite tables of \<^verbatim>\<open>internal/db/db.go\<close> and the SQL statements the package executes, as
  functions on table contents. A statement that violates a constraint of the schema
  (primary key, \<^verbatim>\<open>UNIQUE\<close>, foreign key with \<^verbatim>\<open>PRAGMA foreign_keys = ON\<close>) is an
  error and changes nothing. Transactions and faults are added in \<open>Database\<close>.
\<close>

section \<open>Rows and constants\<close>

text \<open>The Go struct \<^verbatim>\<open>db.Workspace\<close>, which is also a row of the table \<^verbatim>\<open>workspaces\<close>.\<close>

record Workspace =
  ws_Name :: string
  ws_Image :: string
  ws_ImageDigest :: string
  ws_WorkspaceDir :: string
  ws_DiskPath :: string
  ws_ParentName :: string
  ws_SSHPort :: int
  ws_RelayPort :: int
  ws_CPUs :: int
  ws_Memory :: int
  ws_State :: string
  ws_IsActive :: bool
  ws_PID :: int
  ws_CreatedAt :: int

record tables =
  t_workspaces :: "Workspace list"
  t_reserved :: "(string \<times> int) list"

definition schemaVersion :: int where "schemaVersion = 2"

definition SSHPortBase :: int where "SSHPortBase = 2222"

definition RelayPortBase :: int where "RelayPortBase = 9001"

abbreviation running :: string where "running \<equiv> ''running''"
abbreviation stopped :: string where "stopped \<equiv> ''stopped''"

section \<open>Statements\<close>

definition names_of :: "tables \<Rightarrow> string list" where
  "names_of t = map ws_Name (t_workspaces t)"

text \<open>\<^verbatim>\<open>INSERT INTO workspaces\<close>: the primary key and the two unique columns; the column
  \<^verbatim>\<open>created_at\<close> takes its default, the current time.\<close>

definition sql_insert_workspace :: "int \<Rightarrow> Workspace \<Rightarrow> tables \<Rightarrow> tables result" where
  "sql_insert_workspace now ws t =
     (if ws_Name ws \<in> set (names_of t) then Inl (Msg ''UNIQUE constraint failed: workspaces.name'')
      else if ws_SSHPort ws \<in> ws_SSHPort ` set (t_workspaces t)
      then Inl (Msg ''UNIQUE constraint failed: workspaces.ssh_port'')
      else if ws_RelayPort ws \<in> ws_RelayPort ` set (t_workspaces t)
      then Inl (Msg ''UNIQUE constraint failed: workspaces.relay_port'')
      else Inr (t\<lparr>t_workspaces := t_workspaces t @ [ws\<lparr>ws_CreatedAt := now\<rparr>]\<rparr>))"

text \<open>\<^verbatim>\<open>INSERT INTO reserved_ports\<close>: primary key (workspace, port) and foreign key.\<close>

definition sql_insert_reserved :: "string \<Rightarrow> int \<Rightarrow> tables \<Rightarrow> tables result" where
  "sql_insert_reserved name port t =
     (if (name, port) \<in> set (t_reserved t) then Inl (Msg ''UNIQUE constraint failed: reserved_ports'')
      else if name \<notin> set (names_of t) then Inl (Msg ''FOREIGN KEY constraint failed'')
      else Inr (t\<lparr>t_reserved := t_reserved t @ [(name, port)]\<rparr>))"

text \<open>\<^verbatim>\<open>INSERT OR IGNORE\<close> skips a row that repeats the primary key; a foreign key violation
  is still an error.\<close>

definition sql_insert_or_ignore_reserved :: "string \<Rightarrow> int \<Rightarrow> tables \<Rightarrow> tables result" where
  "sql_insert_or_ignore_reserved name port t =
     (if (name, port) \<in> set (t_reserved t) then Inr t else sql_insert_reserved name port t)"

definition sql_update_where :: "(Workspace \<Rightarrow> bool) \<Rightarrow> (Workspace \<Rightarrow> Workspace) \<Rightarrow> tables \<Rightarrow> tables" where
  "sql_update_where P f t = t\<lparr>t_workspaces := map (\<lambda>w. if P w then f w else w) (t_workspaces t)\<rparr>"

text \<open>\<^verbatim>\<open>UPDATE workspaces SET state = ?, pid = ?, is_active = CASE \<dots> END WHERE name = ?\<close>\<close>

definition sql_set_state :: "string \<Rightarrow> string \<Rightarrow> int \<Rightarrow> tables \<Rightarrow> tables" where
  "sql_set_state name state pid =
     sql_update_where (\<lambda>w. ws_Name w = name)
       (\<lambda>w. w\<lparr>ws_State := state, ws_PID := pid,
              ws_IsActive := (if state = stopped then False else ws_IsActive w)\<rparr>)"

definition sql_deactivate_all :: "tables \<Rightarrow> tables" where
  "sql_deactivate_all = sql_update_where (\<lambda>_. True) (\<lambda>w. w\<lparr>ws_IsActive := False\<rparr>)"

definition sql_activate :: "string \<Rightarrow> tables \<Rightarrow> tables" where
  "sql_activate name = sql_update_where (\<lambda>w. ws_Name w = name) (\<lambda>w. w\<lparr>ws_IsActive := True\<rparr>)"

definition sql_delete_reserved :: "string \<Rightarrow> tables \<Rightarrow> tables" where
  "sql_delete_reserved name t = t\<lparr>t_reserved := filter (\<lambda>(n, p). n \<noteq> name) (t_reserved t)\<rparr>"

text \<open>\<^verbatim>\<open>DELETE FROM workspaces\<close>; the foreign key cascades.\<close>

definition sql_delete_workspace :: "string \<Rightarrow> tables \<Rightarrow> tables" where
  "sql_delete_workspace name t =
     t\<lparr>t_workspaces := filter (\<lambda>w. ws_Name w \<noteq> name) (t_workspaces t),
       t_reserved := filter (\<lambda>(n, p). n \<noteq> name) (t_reserved t)\<rparr>"

section \<open>Queries\<close>

definition sql_by_name :: "string \<Rightarrow> tables \<Rightarrow> Workspace option" where
  "sql_by_name name t = find (\<lambda>w. ws_Name w = name) (t_workspaces t)"

definition sql_max :: "(Workspace \<Rightarrow> int) \<Rightarrow> tables \<Rightarrow> int option" where
  "sql_max f t = (case t_workspaces t of [] \<Rightarrow> None | w # ws \<Rightarrow> Some (fold max (map f ws) (f w)))"

definition sql_active :: "tables \<Rightarrow> Workspace option" where
  "sql_active t = find ws_IsActive (t_workspaces t)"

text \<open>\<^verbatim>\<open>ORDER BY created_at\<close> (rows with equal times stay in insertion order).\<close>

definition sql_list :: "tables \<Rightarrow> Workspace list" where
  "sql_list t = sort_key ws_CreatedAt (t_workspaces t)"

definition sql_ports_of :: "string \<Rightarrow> tables \<Rightarrow> int list" where
  "sql_ports_of name t = sort (map snd (filter (\<lambda>(n, p). n = name) (t_reserved t)))"

definition sql_all_ports :: "tables \<Rightarrow> int list" where
  "sql_all_ports t = sort (remdups (map snd (t_reserved t)))"

text \<open>\<^verbatim>\<open>GROUP BY port HAVING COUNT(*) > 1 ORDER BY port\<close> over a list of declarations.\<close>

definition group_having_many :: "(string \<times> int) list \<Rightarrow> int list" where
  "group_having_many rs =
     sort (remdups (filter (\<lambda>p. length (filter (\<lambda>r. snd r = p) rs) > 1) (map snd rs)))"

definition sql_contested_all :: "tables \<Rightarrow> int list" where
  "sql_contested_all t = group_having_many (t_reserved t)"

text \<open>The declarations joined with the running workspaces.\<close>

definition sql_join_running :: "tables \<Rightarrow> (string \<times> int) list" where
  "sql_join_running t =
     concat (map (\<lambda>r. map (\<lambda>_. r)
       (filter (\<lambda>w. ws_Name w = fst r \<and> ws_State w = running) (t_workspaces t))) (t_reserved t))"

definition sql_contested_running :: "tables \<Rightarrow> int list" where
  "sql_contested_running t = group_having_many (sql_join_running t)"

text \<open>\<^verbatim>\<open>workspaces JOIN reserved_ports WHERE port = ? AND state = 'running' ORDER BY name\<close>\<close>

definition sql_running_for_port :: "int \<Rightarrow> tables \<Rightarrow> Workspace list" where
  "sql_running_for_port port t =
     sort_key ws_Name
       (concat (map (\<lambda>w. map (\<lambda>_. w)
          (filter (\<lambda>r. fst r = ws_Name w \<and> snd r = port \<and> ws_State w = running) (t_reserved t)))
        (t_workspaces t)))"

section \<open>Invariants\<close>

text \<open>What the schema's constraints guarantee.\<close>

definition schema_ok :: "tables \<Rightarrow> bool" where
  "schema_ok t \<longleftrightarrow>
     distinct (names_of t) \<and> distinct (map ws_SSHPort (t_workspaces t)) \<and>
     distinct (map ws_RelayPort (t_workspaces t)) \<and>
     distinct (t_reserved t) \<and> (\<forall>r\<in>set (t_reserved t). fst r \<in> set (names_of t))"

text \<open>What the code keeps of the run state: a state is one of the two words, a stopped
  workspace has no process and is not active, and at most one workspace is active.\<close>

definition row_ok :: "Workspace \<Rightarrow> bool" where
  "row_ok w \<longleftrightarrow> (ws_State w = running \<or> ws_State w = stopped) \<and>
     (ws_State w = stopped \<longrightarrow> ws_PID w = 0 \<and> \<not> ws_IsActive w)"

definition routing_ok :: "tables \<Rightarrow> bool" where
  "routing_ok t \<longleftrightarrow> (\<forall>w\<in>set (t_workspaces t). row_ok w) \<and>
     length (filter ws_IsActive (t_workspaces t)) \<le> 1"

definition db_inv :: "tables \<Rightarrow> bool" where
  "db_inv t \<longleftrightarrow> schema_ok t \<and> routing_ok t"

section \<open>Laws of the statements\<close>

lemma names_of_update [simp]:
  "(\<And>w. ws_Name (f w) = ws_Name w) \<Longrightarrow> names_of (sql_update_where P f t) = names_of t"
  by (simp add: names_of_def sql_update_where_def comp_def if_distrib cong: if_cong)

lemma reserved_update [simp]: "t_reserved (sql_update_where P f t) = t_reserved t"
  by (simp add: sql_update_where_def)

lemma sql_by_name_iff:
  assumes "distinct (names_of t)"
  shows "sql_by_name n t = Some w \<longleftrightarrow> w \<in> set (t_workspaces t) \<and> ws_Name w = n"
  using assms find_distinct_key[of ws_Name "t_workspaces t" n w]
  by (simp add: sql_by_name_def names_of_def)

lemma sql_by_name_None_iff: "sql_by_name n t = None \<longleftrightarrow> n \<notin> set (names_of t)"
  by (simp add: sql_by_name_def names_of_def find_None_key)

lemma schema_ok_insert_workspace:
  "schema_ok t \<Longrightarrow> sql_insert_workspace now ws t = Inr t' \<Longrightarrow> schema_ok t'"
  by (fastforce simp: schema_ok_def sql_insert_workspace_def names_of_def split: if_splits)

lemma schema_ok_insert_reserved:
  "schema_ok t \<Longrightarrow> sql_insert_reserved n p t = Inr t' \<Longrightarrow> schema_ok t'"
  by (fastforce simp: schema_ok_def sql_insert_reserved_def names_of_def split: if_splits)

lemma schema_ok_insert_or_ignore:
  "schema_ok t \<Longrightarrow> sql_insert_or_ignore_reserved n p t = Inr t' \<Longrightarrow> schema_ok t'"
  by (auto simp: sql_insert_or_ignore_reserved_def dest: schema_ok_insert_reserved split: if_splits)

lemma schema_ok_update:
  assumes "\<And>w. ws_Name (f w) = ws_Name w" "\<And>w. ws_SSHPort (f w) = ws_SSHPort w"
    "\<And>w. ws_RelayPort (f w) = ws_RelayPort w"
  shows "schema_ok (sql_update_where P f t) = schema_ok t"
proof -
  have "map ws_SSHPort (t_workspaces (sql_update_where P f t)) = map ws_SSHPort (t_workspaces t)"
    "map ws_RelayPort (t_workspaces (sql_update_where P f t)) = map ws_RelayPort (t_workspaces t)"
    using assms by (auto simp: sql_update_where_def)
  then show ?thesis using assms(1) by (simp add: schema_ok_def)
qed

lemma schema_ok_set_state [simp]: "schema_ok (sql_set_state n s p t) = schema_ok t"
  by (simp add: sql_set_state_def schema_ok_update)

lemma schema_ok_deactivate [simp]: "schema_ok (sql_deactivate_all t) = schema_ok t"
  by (simp add: sql_deactivate_all_def schema_ok_update)

lemma schema_ok_activate [simp]: "schema_ok (sql_activate n t) = schema_ok t"
  by (simp add: sql_activate_def schema_ok_update)

lemma schema_ok_delete_reserved: "schema_ok t \<Longrightarrow> schema_ok (sql_delete_reserved n t)"
  by (auto simp: schema_ok_def sql_delete_reserved_def names_of_def)

lemma schema_ok_delete_workspace: "schema_ok t \<Longrightarrow> schema_ok (sql_delete_workspace n t)"
  by (auto simp: schema_ok_def sql_delete_workspace_def names_of_def intro: distinct_filter_map)

lemma routing_ok_insert_workspace:
  "routing_ok t \<Longrightarrow> sql_insert_workspace now ws t = Inr t' \<Longrightarrow> row_ok ws \<Longrightarrow> ws_State ws = stopped \<Longrightarrow>
     routing_ok t'"
  by (auto simp: routing_ok_def sql_insert_workspace_def row_ok_def split: if_splits)

lemma routing_ok_reserved [simp]: "routing_ok (t\<lparr>t_reserved := r\<rparr>) = routing_ok t"
  by (simp add: routing_ok_def)

lemma routing_ok_insert_reserved:
  "routing_ok t \<Longrightarrow> sql_insert_reserved n p t = Inr t' \<Longrightarrow> routing_ok t'"
  by (auto simp: sql_insert_reserved_def split: if_splits)

lemma routing_ok_delete_reserved [simp]: "routing_ok (sql_delete_reserved n t) = routing_ok t"
  by (simp add: sql_delete_reserved_def)

lemma routing_ok_delete_workspace: "routing_ok t \<Longrightarrow> routing_ok (sql_delete_workspace n t)"
  using length_filter_map_le[of "filter (\<lambda>w. ws_Name w \<noteq> n) (t_workspaces t)" ws_IsActive id ws_IsActive]
    length_filter_le[of "\<lambda>w. ws_Name w \<noteq> n" "filter ws_IsActive (t_workspaces t)"]
  by (auto simp: routing_ok_def sql_delete_workspace_def conj_commute)

lemma routing_ok_set_state:
  assumes "routing_ok t" "s = running \<or> s = stopped \<and> pid = 0"
  shows "routing_ok (sql_set_state n s pid t)"
proof -
  have rows: "\<forall>w\<in>set (t_workspaces (sql_set_state n s pid t)). row_ok w"
    using assms by (auto simp: routing_ok_def sql_set_state_def sql_update_where_def row_ok_def)
  obtain f where f: "t_workspaces (sql_set_state n s pid t) = map f (t_workspaces t)"
    and active: "\<And>w. ws_IsActive (f w) \<Longrightarrow> ws_IsActive w"
  proof
    let ?f = "\<lambda>w. if ws_Name w = n then w\<lparr>ws_State := s, ws_PID := pid,
        ws_IsActive := (if s = stopped then False else ws_IsActive w)\<rparr> else w"
    show "t_workspaces (sql_set_state n s pid t) = map ?f (t_workspaces t)"
      by (simp add: sql_set_state_def sql_update_where_def)
    show "ws_IsActive (?f w) \<Longrightarrow> ws_IsActive w" for w by (auto split: if_splits)
  qed
  have "length (filter ws_IsActive (t_workspaces (sql_set_state n s pid t)))
      \<le> length (filter ws_IsActive (t_workspaces t))"
    unfolding f by (rule length_filter_map_le) (rule active)
  with rows assms(1) show ?thesis by (auto simp: routing_ok_def)
qed

text \<open>Marking one running workspace active, as \<^verbatim>\<open>SetActiveWorkspace\<close> does.\<close>

definition set_active :: "string \<Rightarrow> Workspace \<Rightarrow> Workspace" where
  "set_active n w = w\<lparr>ws_IsActive := (ws_Name w = n)\<rparr>"

lemma set_active_simps [simp]:
  "ws_IsActive (set_active n w) = (ws_Name w = n)" "ws_Name (set_active n w) = ws_Name w"
  by (simp_all add: set_active_def)

lemma switch_rows:
  "t_workspaces (sql_activate n (sql_deactivate_all t)) = map (set_active n) (t_workspaces t)"
  by (simp add: sql_activate_def sql_deactivate_all_def sql_update_where_def set_active_def)

lemma active_after_switch:
  assumes "distinct (names_of t)" "w \<in> set (t_workspaces t)"
  shows "filter ws_IsActive (t_workspaces (sql_activate (ws_Name w) (sql_deactivate_all t)))
    = [set_active (ws_Name w) w]"
proof -
  have "filter ws_IsActive (map (set_active (ws_Name w)) xs)
      = map (set_active (ws_Name w)) (filter (\<lambda>v. ws_Name v = ws_Name w) xs)" for xs
    by (induction xs) auto
  moreover have "filter (\<lambda>v. ws_Name v = ws_Name w) (t_workspaces t) = [w]"
    using assms by (intro filter_unique_key) (simp_all add: names_of_def)
  ultimately show ?thesis by (simp only: switch_rows list.map)
qed

lemma routing_ok_switch:
  assumes "schema_ok t" "routing_ok t" "w \<in> set (t_workspaces t)" "ws_State w = running"
  shows "routing_ok (sql_activate (ws_Name w) (sql_deactivate_all t))"
proof -
  have d: "distinct (names_of t)" using assms(1) by (simp add: schema_ok_def)
  have "row_ok (set_active (ws_Name w) u)" if u: "u \<in> set (t_workspaces t)" for u
  proof -
    have "row_ok u" using assms(2) u by (simp add: routing_ok_def)
    moreover have "ws_Name u = ws_Name w \<Longrightarrow> u = w"
      using d u assms(3) by (auto simp: names_of_def dest: distinct_map_eq)
    ultimately show ?thesis using assms(4) by (auto simp: row_ok_def set_active_def)
  qed
  with active_after_switch[OF d assms(3)] show ?thesis by (auto simp: routing_ok_def switch_rows)
qed

section \<open>Laws of the queries\<close>

lemma sql_max_None_iff: "sql_max f t = None \<longleftrightarrow> t_workspaces t = []"
  by (simp add: sql_max_def split: list.splits)

lemma sql_max_ge:
  "sql_max f t = Some m \<Longrightarrow> w \<in> set (t_workspaces t) \<Longrightarrow> f w \<le> m"
  by (auto simp: sql_max_def fold_max_ge fold_max_ge_acc split: list.splits)

lemma sql_max_in:
  "sql_max f t = Some m \<Longrightarrow> \<exists>w\<in>set (t_workspaces t). f w = m"
proof -
  assume m: "sql_max f t = Some m"
  then obtain w ws where ws: "t_workspaces t = w # ws" and "m = fold max (map f ws) (f w)"
    by (auto simp: sql_max_def split: list.splits)
  then have "m = f w \<or> m \<in> set (map f ws)" using fold_max_in[of "map f ws" "f w"] by simp
  with ws show ?thesis by auto
qed

lemma sql_active_iff:
  assumes "routing_ok t" "distinct (names_of t)"
  shows "sql_active t = Some w \<longleftrightarrow> w \<in> set (t_workspaces t) \<and> ws_IsActive w"
proof -
  have "distinct (t_workspaces t)" using assms(2) by (simp add: names_of_def distinct_map)
  then have u: "\<forall>x\<in>set (t_workspaces t). \<forall>y\<in>set (t_workspaces t). ws_IsActive x \<longrightarrow> ws_IsActive y \<longrightarrow> x = y"
    using length_filter_le_1_iff[of "t_workspaces t" ws_IsActive] assms(1) by (simp add: routing_ok_def)
  show ?thesis
  proof
    assume "sql_active t = Some w"
    then show "w \<in> set (t_workspaces t) \<and> ws_IsActive w"
      by (auto simp: sql_active_def find_Some_iff)
  next
    assume w: "w \<in> set (t_workspaces t) \<and> ws_IsActive w"
    then obtain v where v: "sql_active t = Some v"
      by (cases "sql_active t") (auto simp: sql_active_def find_None_iff)
    then have "v \<in> set (t_workspaces t) \<and> ws_IsActive v"
      by (auto simp: sql_active_def find_Some_iff)
    with u w v show "sql_active t = Some w" by blast
  qed
qed

lemma sql_running_for_port_set:
  "set (sql_running_for_port p t) =
     {w \<in> set (t_workspaces t). ws_State w = running \<and> (ws_Name w, p) \<in> set (t_reserved t)}"
  by (force simp: sql_running_for_port_def)

lemma sql_running_for_port_sorted: "sorted (map ws_Name (sql_running_for_port p t))"
  by (simp add: sql_running_for_port_def)

lemma distinct_concat_single:
  assumes "distinct xs" "\<And>x. x \<in> set xs \<Longrightarrow> g x = [] \<or> g x = [x]"
  shows "distinct (concat (map g xs))"
  using assms
proof (induction xs)
  case (Cons x xs)
  have "set (concat (map g xs)) \<subseteq> set xs" using Cons.prems(2) by fastforce
  moreover have "g x = [] \<or> g x = [x]" using Cons.prems(2) by simp
  moreover have "distinct (concat (map g xs))" using Cons by simp
  ultimately show ?case using Cons.prems(1) by (auto simp del: set_concat)
qed simp

lemma sql_running_for_port_distinct:
  assumes "schema_ok t"
  shows "distinct (sql_running_for_port p t)"
proof -
  let ?g = "\<lambda>w. map (\<lambda>_. w)
    (filter (\<lambda>r. fst r = ws_Name w \<and> snd r = p \<and> ws_State w = running) (t_reserved t))"
  have d: "distinct (t_reserved t)" and dw: "distinct (t_workspaces t)"
    using assms by (auto simp: schema_ok_def names_of_def distinct_map)
  have "?g w = [] \<or> ?g w = [w]" for w
  proof -
    let ?rs = "filter (\<lambda>r. fst r = ws_Name w \<and> snd r = p \<and> ws_State w = running) (t_reserved t)"
    have "length ?rs \<le> 1" using d by (subst length_filter_le_1_iff) auto
    then show ?thesis by (cases ?rs) simp_all
  qed
  then have "distinct (concat (map ?g (t_workspaces t)))" by (rule distinct_concat_single[OF dw])
  then show ?thesis by (simp only: sql_running_for_port_def distinct_sort)
qed

lemma sql_ports_of_set: "set (sql_ports_of n t) = {p. (n, p) \<in> set (t_reserved t)}"
  by (force simp: sql_ports_of_def)

lemma sql_all_ports_set: "set (sql_all_ports t) = snd ` set (t_reserved t)"
  by (simp add: sql_all_ports_def)

lemma group_having_many_set:
  assumes "distinct rs"
  shows "p \<in> set (group_having_many rs) \<longleftrightarrow> (\<exists>m n. m \<noteq> n \<and> (m, p) \<in> set rs \<and> (n, p) \<in> set rs)"
proof -
  have "length (filter (\<lambda>r. snd r = p) rs) > 1 \<longleftrightarrow> (\<exists>m n. m \<noteq> n \<and> (m, p) \<in> set rs \<and> (n, p) \<in> set rs)"
    unfolding not_le[symmetric] length_filter_le_1_iff[OF assms] by force
  then show ?thesis by (force simp: group_having_many_def)
qed

end
