(* ===== verification/World.thy ===== *)
theory World
  imports GoPath Tables
begin

text \<open>
  The host that devd's commands act on, and the commands as state transformers with
  failures. A command has type \<open>'a io\<close>: it takes the world and returns an outcome and the
  new world. The outcome \<open>Err\<close> is a Go error value; \<open>Crash\<close> is the death of the devd process
  at that point (no deferred call runs any more). Everything devd does not control is in
  the environment \<open>environ\<close>: which system call fails or is the last one, how the process table evolves
  between two calls, how long a call takes, what an external program does. Every theorem
  holds for every environment, so it covers every combination of failures and a crash after any
  system call.
\<close>

section \<open>The state of the host\<close>

text \<open>A file-system object: a directory, a regular file (inode number, permission bits,
  contents), or something else (socket, fifo, device).\<close>

datatype node = Dir nat | Reg nat nat string | Special nat

type_synonym file_system = "string \<Rightarrow> node option"

text \<open>A process: its birth identity and the inodes it holds a lock on.\<close>

record proc =
  p_ident :: string
  p_holds :: "nat list"

type_synonym proc_table = "(int \<times> proc) list"

text \<open>The fate of one system call: it is executed, it fails, or the process dies during it.
  The number is how much of a partial effect (bytes of a write) has happened by then.\<close>

datatype fault = Proceed | Fail errno nat | Die nat

record environ =
  o_fault :: "nat \<Rightarrow> fault"
  o_survives :: "nat \<Rightarrow> string \<Rightarrow> bool"
  o_evolve :: "nat \<Rightarrow> proc_table \<Rightarrow> proc_table"
  o_elapse :: "nat \<Rightarrow> nat"
  o_port_free :: "nat \<Rightarrow> int \<Rightarrow> bool"
  o_rand :: "nat \<Rightarrow> nat \<Rightarrow> string"
  o_exec :: "nat \<Rightarrow> string list \<Rightarrow> file_system \<Rightarrow> string result \<times> file_system"
  o_spawn :: "nat \<Rightarrow> string list \<Rightarrow> int \<times> proc"
  o_env :: "string \<Rightarrow> string"
  o_home :: "string result"
  o_cwd :: "string result"
  o_links :: "string \<Rightarrow> string result"
  o_lookpath :: "string \<Rightarrow> string result"
  o_executable :: "string result"
  o_goos :: string
  o_goarch :: string
  o_time_text :: "nat \<Rightarrow> string"
  o_dial :: "nat \<Rightarrow> string \<Rightarrow> bool"
  o_reply :: "nat \<Rightarrow> string \<Rightarrow> string result"
  o_socket :: "nat \<Rightarrow> node option"
  o_uid :: int

record world =
  orc :: environ
  steps :: nat
  clock :: nat
  fs :: file_system
  next_ino :: nat
  flocks :: "nat \<Rightarrow> nat option"
  fds :: "nat \<Rightarrow> nat option"
  next_fd :: nat
  procs :: proc_table
  signals :: "(int \<times> string \<times> proc option) list"
  db_version :: int
  db :: tables
  tx :: "tables option"

datatype 'a outcome = Ok 'a | Err error | Crash

type_synonym 'a io = "world \<Rightarrow> 'a outcome \<times> world"

section \<open>Combinators\<close>

definition returnM :: "'a \<Rightarrow> 'a io" where
  "returnM x w = (Ok x, w)"

definition failM :: "error \<Rightarrow> 'a io" where
  "failM e w = (Err e, w)"

definition bindM :: "'a io \<Rightarrow> ('a \<Rightarrow> 'b io) \<Rightarrow> 'b io" where
  "bindM m f w = (case m w of (Ok x, w') \<Rightarrow> f x w' | (Err e, w') \<Rightarrow> (Err e, w') | (Crash, w') \<Rightarrow> (Crash, w'))"

text \<open>Go's \<^verbatim>\<open>if x, err := m(); err != nil { h(err) } else { f(x) }\<close>.\<close>

definition tryM :: "'a io \<Rightarrow> ('a \<Rightarrow> 'b io) \<Rightarrow> (error \<Rightarrow> 'b io) \<Rightarrow> 'b io" where
  "tryM m f h w = (case m w of (Ok x, w') \<Rightarrow> f x w' | (Err e, w') \<Rightarrow> h e w' | (Crash, w') \<Rightarrow> (Crash, w'))"

definition thenM :: "'a io \<Rightarrow> 'b io \<Rightarrow> 'b io" where
  "thenM m k = bindM m (\<lambda>_. k)"

text \<open>\<^verbatim>\<open>fmt.Errorf("s: %w", err)\<close> around a call.\<close>

definition wrapM :: "string \<Rightarrow> 'a io \<Rightarrow> 'a io" where
  "wrapM s m = tryM m returnM (\<lambda>e. failM (Wrap s e))"

text \<open>\<^verbatim>\<open>_ = m()\<close>: the error is dropped, the death of the process is not.\<close>

definition ignoreM :: "'a io \<Rightarrow> unit io" where
  "ignoreM m = tryM m (\<lambda>_. returnM ()) (\<lambda>_. returnM ())"

text \<open>\<^verbatim>\<open>defer c()\<close> before \<open>m\<close>: \<open>c\<close> runs after \<open>m\<close> on success and on error, its own error is
  dropped; it does not run when the process dies.\<close>

definition deferM :: "'a io \<Rightarrow> unit io \<Rightarrow> 'a io" where
  "deferM m c = tryM m (\<lambda>x. thenM (ignoreM c) (returnM x)) (\<lambda>e. thenM (ignoreM c) (failM e))"

fun forM :: "'a list \<Rightarrow> ('a \<Rightarrow> unit io) \<Rightarrow> unit io" where
  "forM [] f = returnM ()"
| "forM (x # xs) f = thenM (f x) (forM xs f)"

definition liftM :: "'a result \<Rightarrow> 'a io" where
  "liftM r = (case r of Inl e \<Rightarrow> failM e | Inr x \<Rightarrow> returnM x)"

definition askM :: "(environ \<Rightarrow> 'a) \<Rightarrow> 'a io" where
  "askM f w = (Ok (f (orc w)), w)"

section \<open>System calls\<close>

definition tick :: "world \<Rightarrow> world" where
  "tick w = w\<lparr>steps := Suc (steps w), clock := clock w + o_elapse (orc w) (steps w),
              procs := o_evolve (orc w) (steps w) (procs w)\<rparr>"

text \<open>When the process dies, its open database transaction is gone.\<close>

definition die :: "world \<Rightarrow> world" where
  "die w = w\<lparr>tx := None\<rparr>"

text \<open>A call whose failure may leave part of its effect behind: \<open>part n k\<close>.\<close>

definition syscall_part :: "(nat \<Rightarrow> nat \<Rightarrow> world \<Rightarrow> world) \<Rightarrow> (nat \<Rightarrow> world \<Rightarrow> 'a result \<times> world) \<Rightarrow> 'a io" where
  "syscall_part part f w =
     (let n = steps w; w1 = tick w in
      case o_fault (orc w) n of
        Proceed \<Rightarrow> (case f n w1 of (Inl e, w2) \<Rightarrow> (Err e, w2) | (Inr x, w2) \<Rightarrow> (Ok x, w2))
      | Fail e k \<Rightarrow> (Err (Sys e), part n k w1)
      | Die k \<Rightarrow> (Crash, die (part n k w1)))"

text \<open>A call that has its whole effect or none.\<close>

definition syscall :: "(nat \<Rightarrow> world \<Rightarrow> 'a result \<times> world) \<Rightarrow> 'a io" where
  "syscall = syscall_part (\<lambda>n k w. w)"

text \<open>A call with no effect on the modelled state (\<^verbatim>\<open>fsync\<close>, closing a plain file).\<close>

definition sys_noop :: "unit io" where
  "sys_noop = syscall (\<lambda>n w. (Inr (), w))"

section \<open>Files\<close>

definition is_dir :: "node option \<Rightarrow> bool" where
  "is_dir x = (case x of Some (Dir m) \<Rightarrow> True | _ \<Rightarrow> False)"

definition beneath :: "string \<Rightarrow> string \<Rightarrow> bool" where
  "beneath d p = (p = d \<or> prefix (d @ [slash]) p)"

definition set_file :: "string \<Rightarrow> node option \<Rightarrow> world \<Rightarrow> world" where
  "set_file p x w = w\<lparr>fs := (fs w)(p := x)\<rparr>"

definition os_Stat :: "string \<Rightarrow> node io" where
  "os_Stat p = syscall (\<lambda>n w. (case fs w p of None \<Rightarrow> (Inl (Sys ENOENT), w) | Some x \<Rightarrow> (Inr x, w)))"

definition os_ReadFile :: "string \<Rightarrow> string io" where
  "os_ReadFile p = syscall (\<lambda>n w.
     (case fs w p of
        None \<Rightarrow> (Inl (Sys ENOENT), w)
      | Some (Reg i m c) \<Rightarrow> (Inr c, w)
      | Some (Dir m) \<Rightarrow> (Inl (Sys EISDIR), w)
      | Some (Special m) \<Rightarrow> (Inl (Sys EIO), w)))"

text \<open>\<^verbatim>\<open>open(p, O_WRONLY|O_CREATE|O_TRUNC)\<close>: an existing file keeps its inode and mode.\<close>

definition sys_open_trunc :: "string \<Rightarrow> nat \<Rightarrow> unit io" where
  "sys_open_trunc p mode = syscall (\<lambda>n w.
     (case fs w p of
        Some (Reg i m c) \<Rightarrow> (Inr (), set_file p (Some (Reg i m [])) w)
      | Some (Dir m) \<Rightarrow> (Inl (Sys EISDIR), w)
      | Some (Special m) \<Rightarrow> (Inl (Sys EIO), w)
      | None \<Rightarrow>
          if is_dir (fs w (filepath_Dir p))
          then (Inr (), set_file p (Some (Reg (next_ino w) mode [])) (w\<lparr>next_ino := Suc (next_ino w)\<rparr>))
          else (Inl (Sys ENOENT), w)))"

definition append_bytes :: "string \<Rightarrow> string \<Rightarrow> world \<Rightarrow> world" where
  "append_bytes p data w =
     (case fs w p of Some (Reg i m c) \<Rightarrow> set_file p (Some (Reg i m (c @ data))) w | _ \<Rightarrow> w)"

definition sys_write :: "string \<Rightarrow> string \<Rightarrow> unit io" where
  "sys_write p data = syscall_part (\<lambda>n k w. append_bytes p (take k data) w)
     (\<lambda>n w. (Inr (), append_bytes p data w))"

definition os_WriteFile :: "string \<Rightarrow> string \<Rightarrow> nat \<Rightarrow> unit io" where
  "os_WriteFile p data mode =
     thenM (sys_open_trunc p mode)
       (tryM (sys_write p data) (\<lambda>_. sys_noop) (\<lambda>e. thenM (ignoreM sys_noop) (failM e)))"

text \<open>\<^verbatim>\<open>os.Remove\<close>. devd calls it on files only; a directory is reported as not empty.\<close>

definition os_Remove :: "string \<Rightarrow> unit io" where
  "os_Remove p = syscall (\<lambda>n w.
     (case fs w p of
        None \<Rightarrow> (Inl (Sys ENOENT), w)
      | Some (Dir m) \<Rightarrow> (Inl (Sys ENOTEMPTY), w)
      | Some x \<Rightarrow> (Inr (), set_file p None w)))"

text \<open>\<^verbatim>\<open>os.RemoveAll\<close>: everything at and beneath a path; a missing path is no error. If it is
  interrupted, any part of the tree may be left.\<close>

definition remove_tree :: "(string \<Rightarrow> bool) \<Rightarrow> string \<Rightarrow> world \<Rightarrow> world" where
  "remove_tree keep d w = w\<lparr>fs := (\<lambda>p. if beneath d p \<and> \<not> keep p then None else fs w p)\<rparr>"

definition os_RemoveAll :: "string \<Rightarrow> unit io" where
  "os_RemoveAll d = syscall_part (\<lambda>n k w. remove_tree (o_survives (orc w) n) d w)
     (\<lambda>n w. (Inr (), remove_tree (\<lambda>_. False) d w))"

text \<open>\<^verbatim>\<open>os.Rename\<close> of a file or a directory tree. Go's library refuses a new name that is a
  directory; the kernel refuses to replace another file by a directory.\<close>

definition rename_tree :: "string \<Rightarrow> string \<Rightarrow> world \<Rightarrow> world" where
  "rename_tree a b w =
     w\<lparr>fs := (\<lambda>p. if beneath b p then fs w (a @ drop (length b) p)
                  else if beneath a p then None else fs w p)\<rparr>"

definition rename_file :: "string \<Rightarrow> string \<Rightarrow> world \<Rightarrow> world" where
  "rename_file a b w = w\<lparr>fs := (fs w)(a := None, b := fs w a)\<rparr>"

definition os_Rename :: "string \<Rightarrow> string \<Rightarrow> unit io" where
  "os_Rename a b = syscall (\<lambda>n w.
     (case fs w a of
        None \<Rightarrow> (Inl (Sys ENOENT), w)
      | Some x \<Rightarrow>
          if is_dir (fs w b) then (Inl (Sys EEXIST), w)
          else if a = b then (Inr (), w)
          else if \<not> is_dir (fs w (filepath_Dir b)) then (Inl (Sys ENOENT), w)
          else if \<not> is_dir (Some x) then (Inr (), rename_file a b w)
          else if fs w b \<noteq> None then (Inl (Sys ENOTDIR), w)
          else (Inr (), rename_tree a b w)))"

text \<open>\<^verbatim>\<open>os.Mkdir\<close> and \<^verbatim>\<open>os.MkdirAll\<close>.\<close>

definition os_Mkdir :: "string \<Rightarrow> nat \<Rightarrow> unit io" where
  "os_Mkdir d mode = syscall (\<lambda>n w.
     (if fs w d \<noteq> None then (Inl (Sys EEXIST), w)
      else if is_dir (fs w (filepath_Dir d)) then (Inr (), set_file d (Some (Dir mode)) w)
      else (Inl (Sys ENOENT), w)))"

text \<open>\<^verbatim>\<open>open(p, O_CREATE|O_EXCL)\<close>, \<^verbatim>\<open>open(p, O_CREATE|O_APPEND)\<close>, \<^verbatim>\<open>ftruncate\<close> (new bytes
  are zero) and \<^verbatim>\<open>chmod\<close>.\<close>

definition sys_create_excl :: "string \<Rightarrow> nat \<Rightarrow> unit io" where
  "sys_create_excl p mode = syscall (\<lambda>n w.
     (if fs w p \<noteq> None then (Inl (Sys EEXIST), w)
      else if is_dir (fs w (filepath_Dir p))
      then (Inr (), set_file p (Some (Reg (next_ino w) mode [])) (w\<lparr>next_ino := Suc (next_ino w)\<rparr>))
      else (Inl (Sys ENOENT), w)))"

definition sys_open_append :: "string \<Rightarrow> nat \<Rightarrow> unit io" where
  "sys_open_append p mode = syscall (\<lambda>n w.
     (case fs w p of
        Some (Reg i m c) \<Rightarrow> (Inr (), w)
      | Some (Dir m) \<Rightarrow> (Inl (Sys EISDIR), w)
      | Some (Special m) \<Rightarrow> (Inl (Sys EIO), w)
      | None \<Rightarrow>
          if is_dir (fs w (filepath_Dir p))
          then (Inr (), set_file p (Some (Reg (next_ino w) mode [])) (w\<lparr>next_ino := Suc (next_ino w)\<rparr>))
          else (Inl (Sys ENOENT), w)))"

definition sys_truncate :: "string \<Rightarrow> int \<Rightarrow> unit io" where
  "sys_truncate p sz = syscall (\<lambda>n w.
     (if sz < 0 then (Inl (Sys EINVAL), w)
      else case fs w p of
        Some (Reg i m c) \<Rightarrow>
          (Inr (), set_file p (Some (Reg i m (take (nat sz) c @ replicate (nat sz - length c) CHR 0x00))) w)
      | _ \<Rightarrow> (Inl (Sys EIO), w)))"

fun chmod_node :: "nat \<Rightarrow> node \<Rightarrow> node" where
  "chmod_node mode (Dir m) = Dir mode"
| "chmod_node mode (Reg i m c) = Reg i mode c"
| "chmod_node mode (Special m) = Special mode"

definition os_Chmod :: "string \<Rightarrow> nat \<Rightarrow> unit io" where
  "os_Chmod p mode = syscall (\<lambda>n w.
     (case fs w p of None \<Rightarrow> (Inl (Sys ENOENT), w)
      | Some x \<Rightarrow> (Inr (), set_file p (Some (chmod_node mode x)) w)))"

text \<open>All proper ancestors of a clean absolute path and the path itself, outermost first.\<close>

definition ancestors :: "string \<Rightarrow> string list" where
  "ancestors d = map (\<lambda>i. take i d) (filter (\<lambda>i. d ! i = slash) [1..<length d]) @ [d]"

fun mkdir_missing :: "nat \<Rightarrow> string list \<Rightarrow> file_system \<Rightarrow> errno + file_system" where
  "mkdir_missing mode [] f = Inr f"
| "mkdir_missing mode (d # ds) f =
     (case f d of
        None \<Rightarrow> mkdir_missing mode ds (f(d := Some (Dir mode)))
      | Some (Dir m) \<Rightarrow> mkdir_missing mode ds f
      | Some x \<Rightarrow> Inl ENOTDIR)"

definition os_MkdirAll :: "string \<Rightarrow> nat \<Rightarrow> unit io" where
  "os_MkdirAll d mode = syscall_part
     (\<lambda>n k w. case mkdir_missing mode (take k (ancestors d)) (fs w) of Inl e \<Rightarrow> w | Inr f \<Rightarrow> w\<lparr>fs := f\<rparr>)
     (\<lambda>n w. case mkdir_missing mode (ancestors d) (fs w) of
        Inl e \<Rightarrow> (Inl (Sys e), w) | Inr f \<Rightarrow> (Inr (), w\<lparr>fs := f\<rparr>))"

text \<open>The name search of \<^verbatim>\<open>os.MkdirTemp\<close> and \<^verbatim>\<open>os.CreateTemp\<close>: random names until one is free,
  at most 10000 times.\<close>

function free_name :: "file_system \<Rightarrow> (nat \<Rightarrow> string) \<Rightarrow> nat \<Rightarrow> string option" where
  "free_name f cand k =
     (if k \<ge> 10000 then None else if f (cand k) = None then Some (cand k) else free_name f cand (Suc k))"
  by pat_completeness auto
termination by (relation "measure (\<lambda>(f, c, k). 10000 - k)") auto

declare free_name.simps [simp del]

definition os_MkdirTemp :: "string \<Rightarrow> string \<Rightarrow> string io" where
  "os_MkdirTemp dir pattern = syscall (\<lambda>n w.
     (if slash \<in> set pattern then (Inl (Msg ''pattern contains path separator''), w)
      else if \<not> is_dir (fs w dir) then (Inl (Sys ENOENT), w)
      else case free_name (fs w) (\<lambda>k. dir @ slash # pattern @ o_rand (orc w) n k) 0 of
        None \<Rightarrow> (Inl (Sys EEXIST), w)
      | Some p \<Rightarrow> (Inr p, set_file p (Some (Dir 448)) w)))"

definition os_CreateTemp :: "string \<Rightarrow> string \<Rightarrow> string \<Rightarrow> string io" where
  "os_CreateTemp dir pre suf = syscall (\<lambda>n w.
     (if slash \<in> set pre \<or> slash \<in> set suf then (Inl (Msg ''pattern contains path separator''), w)
      else if \<not> is_dir (fs w dir) then (Inl (Sys ENOENT), w)
      else case free_name (fs w) (\<lambda>k. dir @ slash # pre @ o_rand (orc w) n k @ suf) 0 of
        None \<Rightarrow> (Inl (Sys EEXIST), w)
      | Some p \<Rightarrow> (Inr p, set_file p (Some (Reg (next_ino w) 384 [])) (w\<lparr>next_ino := Suc (next_ino w)\<rparr>))))"

section \<open>File locks\<close>

text \<open>A descriptor on a regular file; \<^verbatim>\<open>flock\<close> locks the inode for it; closing the
  descriptor releases the lock.\<close>

definition open_fd :: "nat \<Rightarrow> world \<Rightarrow> nat \<times> world" where
  "open_fd ino w = (next_fd w, w\<lparr>fds := (fds w)(next_fd w := Some ino), next_fd := Suc (next_fd w)\<rparr>)"

definition sys_open_read :: "string \<Rightarrow> nat io" where
  "sys_open_read p = syscall (\<lambda>n w.
     (case fs w p of
        None \<Rightarrow> (Inl (Sys ENOENT), w)
      | Some (Reg i m c) \<Rightarrow> let (fd, w') = open_fd i w in (Inr fd, w')
      | Some _ \<Rightarrow> (Inr (next_fd w), w\<lparr>fds := (fds w)(next_fd w := None), next_fd := Suc (next_fd w)\<rparr>)))"

definition sys_open_create :: "string \<Rightarrow> nat \<Rightarrow> nat io" where
  "sys_open_create p mode = syscall (\<lambda>n w.
     (case fs w p of
        Some (Reg i m c) \<Rightarrow> let (fd, w') = open_fd i w in (Inr fd, w')
      | Some _ \<Rightarrow> (Inl (Sys EISDIR), w)
      | None \<Rightarrow>
          if is_dir (fs w (filepath_Dir p))
          then let i = next_ino w;
                   (fd, w') = open_fd i (set_file p (Some (Reg i mode [])) (w\<lparr>next_ino := Suc i\<rparr>))
               in (Inr fd, w')
          else (Inl (Sys ENOENT), w)))"

text \<open>\<^verbatim>\<open>file.Stat()\<close> on a descriptor: whether it is a regular file.\<close>

definition sys_fstat_regular :: "nat \<Rightarrow> bool io" where
  "sys_fstat_regular fd = syscall (\<lambda>n w. (Inr (fds w fd \<noteq> None), w))"

text \<open>Whether a running process other than devd's commands (a VM companion) holds the lock.\<close>

definition held_by_proc :: "world \<Rightarrow> nat \<Rightarrow> bool" where
  "held_by_proc w ino = list_ex (\<lambda>(pid, p). ino \<in> set (p_holds p)) (procs w)"

definition lock_busy :: "world \<Rightarrow> nat \<Rightarrow> nat \<Rightarrow> bool" where
  "lock_busy w fd ino =
     ((case flocks w ino of None \<Rightarrow> False | Some g \<Rightarrow> g \<noteq> fd) \<or> held_by_proc w ino)"

text \<open>\<^verbatim>\<open>flock(fd, LOCK_EX|LOCK_NB)\<close>\<close>

definition sys_flock_nb :: "nat \<Rightarrow> unit io" where
  "sys_flock_nb fd = syscall (\<lambda>n w.
     (case fds w fd of
        None \<Rightarrow> (Inl (Sys EIO), w)
      | Some i \<Rightarrow>
          if lock_busy w fd i then (Inl (Sys EWOULDBLOCK), w)
          else (Inr (), w\<lparr>flocks := (flocks w)(i := Some fd)\<rparr>)))"

text \<open>\<^verbatim>\<open>flock(fd, LOCK_EX)\<close> returns when the previous holder has released the lock.\<close>

definition sys_flock_wait :: "nat \<Rightarrow> unit io" where
  "sys_flock_wait fd = syscall (\<lambda>n w.
     (case fds w fd of
        None \<Rightarrow> (Inl (Sys EIO), w)
      | Some i \<Rightarrow> (Inr (), w\<lparr>flocks := (flocks w)(i := Some fd)\<rparr>)))"

definition close_fd :: "nat \<Rightarrow> world \<Rightarrow> world" where
  "close_fd fd w = w\<lparr>flocks := (\<lambda>i. if flocks w i = Some fd then None else flocks w i),
                    fds := (fds w)(fd := None)\<rparr>"

text \<open>\<^verbatim>\<open>close\<close> frees the descriptor and its lock even when it reports an error.\<close>

definition sys_close :: "nat \<Rightarrow> unit io" where
  "sys_close fd = syscall_part (\<lambda>n k w. close_fd fd w) (\<lambda>n w. (Inr (), close_fd fd w))"

section \<open>Processes\<close>

text \<open>Running a program to its end: its output or failure, and what it does to the files. When devd or the program is killed meanwhile,
  the files are left as the environment says, which may be any part of the program's work.\<close>

definition sys_exec :: "string list \<Rightarrow> string io" where
  "sys_exec args = syscall_part (\<lambda>n k w. w\<lparr>fs := snd (o_exec (orc w) n args (fs w))\<rparr>) (\<lambda>n w.
     (let (r, f) = o_exec (orc w) n args (fs w) in (r, w\<lparr>fs := f\<rparr>)))"

text \<open>Starting a program that keeps running: it appears in the process table.\<close>

definition sys_spawn :: "string list \<Rightarrow> int io" where
  "sys_spawn args = syscall (\<lambda>n w.
     (let (pid, p) = o_spawn (orc w) n args in (Inr pid, w\<lparr>procs := (pid, p) # procs w\<rparr>)))"

text \<open>The birth identity of the process with a number, empty if there is none.\<close>

definition sys_identity :: "int \<Rightarrow> string io" where
  "sys_identity pid = syscall (\<lambda>n w.
     (Inr (case map_of (procs w) pid of None \<Rightarrow> [] | Some p \<Rightarrow> p_ident p), w))"

text \<open>Sending a signal. The log records which process, if any, received it; whether and when
  that process ends is up to the environment.\<close>

definition sys_kill :: "int \<Rightarrow> string \<Rightarrow> unit io" where
  "sys_kill pid sig = syscall (\<lambda>n w.
     (let w' = w\<lparr>signals := signals w @ [(pid, sig, map_of (procs w) pid)]\<rparr> in
      case map_of (procs w) pid of None \<Rightarrow> (Inl (Sys ESRCH), w') | Some p \<Rightarrow> (Inr (), w')))"

text \<open>Binding a TCP port and releasing it again.\<close>

definition sys_listen :: "int \<Rightarrow> unit io" where
  "sys_listen port = syscall (\<lambda>n w. if o_port_free (orc w) n port then (Inr (), w) else (Inl (Sys EADDRINUSE), w))"

text \<open>Connecting to the control socket of the proxy daemon, sending it a request and reading
  its reply, and looking whether the socket is there. The daemon is another process: whether
  it listens and what it answers is up to the environment.\<close>

definition sys_dial :: "string \<Rightarrow> unit io" where
  "sys_dial p = syscall (\<lambda>n w. if o_dial (orc w) n p then (Inr (), w) else (Inl (Sys ECONNREFUSED), w))"

definition sys_exchange :: "string \<Rightarrow> string io" where
  "sys_exchange request = syscall (\<lambda>n w. (o_reply (orc w) n request, w))"

definition sys_stat_socket :: "node io" where
  "sys_stat_socket = syscall (\<lambda>n w.
     (case o_socket (orc w) n of None \<Rightarrow> (Inl (Sys ENOENT), w) | Some x \<Rightarrow> (Inr x, w)))"

text \<open>Listening on a Unix socket creates it at its path, which must be free.\<close>

definition sys_listen_unix :: "string \<Rightarrow> unit io" where
  "sys_listen_unix p = syscall (\<lambda>n w.
     (if fs w p \<noteq> None then (Inl (Sys EADDRINUSE), w)
      else if is_dir (fs w (filepath_Dir p)) then (Inr (), set_file p (Some (Special 493)) w)
      else (Inl (Sys ENOENT), w)))"

text \<open>Reading the clock, and sleeping.\<close>

definition time_Now :: "nat io" where
  "time_Now w = (Ok (clock w), w)"

definition time_Sleep :: "nat \<Rightarrow> unit io" where
  "time_Sleep d w = (Ok (), w\<lparr>clock := clock w + d\<rparr>)"

text \<open>A polling loop \<^verbatim>\<open>for time.Now().Before(deadline) { body; time.Sleep(interval) }; late\<close>,
  where \<open>body\<close> may leave the loop with a value. A clock that a body set back would be read as
  not having moved (no command does that), so every round comes closer to the deadline.\<close>

definition pause :: "nat \<Rightarrow> world \<Rightarrow> world \<Rightarrow> world" where
  "pause interval w w1 = w1\<lparr>clock := max (clock w) (clock w1) + max 1 interval\<rparr>"

function poll :: "nat \<Rightarrow> nat \<Rightarrow> 'a option io \<Rightarrow> 'a io \<Rightarrow> 'a io" where
  "poll deadline interval body late w =
     (if \<not> clock w < deadline then late w
      else case body w of
        (Err e, w1) \<Rightarrow> (Err e, w1)
      | (Crash, w1) \<Rightarrow> (Crash, w1)
      | (Ok r, w1) \<Rightarrow>
          (case r of Some x \<Rightarrow> (Ok x, w1) | None \<Rightarrow> poll deadline interval body late (pause interval w w1)))"
  by pat_completeness auto
termination
  by (relation "measure (\<lambda>(deadline, interval, body, late, w). deadline - clock w)") (auto simp: pause_def)

declare poll.simps [simp del]

section \<open>SQL connections\<close>

text \<open>The tables a statement sees: the open transaction's, or the committed ones.\<close>

definition cur :: "world \<Rightarrow> tables" where
  "cur w = (case tx w of None \<Rightarrow> db w | Some t \<Rightarrow> t)"

definition set_cur :: "tables \<Rightarrow> world \<Rightarrow> world" where
  "set_cur t w = (case tx w of None \<Rightarrow> w\<lparr>db := t\<rparr> | Some _ \<Rightarrow> w\<lparr>tx := Some t\<rparr>)"

definition sql_exec :: "(tables \<Rightarrow> tables result) \<Rightarrow> unit io" where
  "sql_exec f = syscall (\<lambda>n w. (case f (cur w) of Inl e \<Rightarrow> (Inl e, w) | Inr t \<Rightarrow> (Inr (), set_cur t w)))"

definition sql_query :: "(tables \<Rightarrow> 'a) \<Rightarrow> 'a io" where
  "sql_query f = syscall (\<lambda>n w. (Inr (f (cur w)), w))"

definition sql_begin :: "unit io" where
  "sql_begin = syscall (\<lambda>n w. (Inr (), w\<lparr>tx := Some (db w)\<rparr>))"

definition sql_commit :: "unit io" where
  "sql_commit = syscall (\<lambda>n w.
     (case tx w of None \<Rightarrow> (Inl (Msg ''no transaction''), w) | Some t \<Rightarrow> (Inr (), w\<lparr>db := t, tx := None\<rparr>)))"

text \<open>\<^verbatim>\<open>tx.Rollback()\<close> drops the transaction; after a commit it does nothing. The database
  drops it too when the call itself fails or the process dies.\<close>

definition sql_rollback :: "unit io" where
  "sql_rollback = syscall_part (\<lambda>n k w. w\<lparr>tx := None\<rparr>) (\<lambda>n w. (Inr (), w\<lparr>tx := None\<rparr>))"

end
