(* ===== verification/Effects.thy ===== *)
theory Effects
  imports World
begin

text \<open>
  A calculus for commands. \<open>maintains R m\<close> says that whatever the outcome of \<open>m\<close> (success,
  error or crash), the world after it is related to the world before it by \<open>R\<close>. For a
  reflexive and transitive \<open>R\<close> that tolerates the passing of time this is compositional;
  the locale \<open>change\<close> proves the rules once, and every frame condition and every
  invariant of the development is an interpretation of it. \<open>valid P m Q\<close> is the Hoare
  triple for facts that depend on the outcome. Lemmas ending in \<open>_OkE\<close> take a successful
  run apart.
\<close>

definition maintains :: "(world \<Rightarrow> world \<Rightarrow> bool) \<Rightarrow> 'a io \<Rightarrow> bool" where
  "maintains R m \<longleftrightarrow> (\<forall>w. R w (snd (m w)))"

definition valid :: "(world \<Rightarrow> bool) \<Rightarrow> 'a io \<Rightarrow> ('a outcome \<Rightarrow> world \<Rightarrow> bool) \<Rightarrow> bool" where
  "valid P m Q \<longleftrightarrow> (\<forall>w. P w \<longrightarrow> Q (fst (m w)) (snd (m w)))"

lemma maintainsI: "(\<And>w. R w (snd (m w))) \<Longrightarrow> maintains R m"
  by (simp add: maintains_def)

lemma maintainsD: "maintains R m \<Longrightarrow> m w = (r, w') \<Longrightarrow> R w w'"
  unfolding maintains_def by (metis snd_conv)

lemma validI: "(\<And>w r w'. P w \<Longrightarrow> m w = (r, w') \<Longrightarrow> Q r w') \<Longrightarrow> valid P m Q"
  by (simp add: valid_def)

lemma validD: "valid P m Q \<Longrightarrow> P w \<Longrightarrow> m w = (r, w') \<Longrightarrow> Q r w'"
  unfolding valid_def by (metis fst_conv snd_conv)

section \<open>The rules of a change relation\<close>

locale change =
  fixes R :: "world \<Rightarrow> world \<Rightarrow> bool"
  assumes R_refl: "R w w"
    and R_trans: "R u v \<Longrightarrow> R v w \<Longrightarrow> R u w"
    and R_tick: "R w (tick w)"
    and R_die: "R w (die w)"
    and R_sleep: "R w (w\<lparr>clock := clock w + d\<rparr>)"
begin

lemma m_return: "maintains R (returnM x)"
  by (simp add: maintains_def returnM_def R_refl)

lemma m_fail: "maintains R (failM e)"
  by (simp add: maintains_def failM_def R_refl)

lemma m_ask: "maintains R (askM f)"
  by (simp add: maintains_def askM_def R_refl)

lemma m_lift: "maintains R (liftM r)"
  by (cases r) (simp_all add: liftM_def m_return m_fail)

lemma m_bind:
  assumes "maintains R m" "\<And>x. maintains R (f x)"
  shows "maintains R (bindM m f)"
proof (rule maintainsI)
  fix w :: world
  obtain r w1 where m: "m w = (r, w1)" by fastforce
  then have "R w w1" using assms(1) by (rule maintainsD[rotated])
  moreover have "R w1 (snd (f x w1))" for x using assms(2) by (simp add: maintains_def)
  ultimately show "R w (snd (bindM m f w))"
    using m by (cases r) (auto simp: bindM_def intro: R_trans)
qed

lemma m_bind_ok:
  assumes "maintains R m" "\<And>w x w'. m w = (Ok x, w') \<Longrightarrow> maintains R (f x)"
  shows "maintains R (bindM m f)"
proof (rule maintainsI)
  fix w :: world
  obtain r w1 where m: "m w = (r, w1)" by fastforce
  then have "R w w1" using assms(1) by (rule maintainsD[rotated])
  moreover have "R w1 (snd (f x w1))" if "r = Ok x" for x
    using assms(2)[of w x w1] m that by (simp add: maintains_def)
  ultimately show "R w (snd (bindM m f w))"
    using m by (cases r) (auto simp: bindM_def intro: R_trans)
qed

lemma m_try:
  assumes "maintains R m" "\<And>x. maintains R (f x)" "\<And>e. maintains R (h e)"
  shows "maintains R (tryM m f h)"
proof (rule maintainsI)
  fix w :: world
  obtain r w1 where m: "m w = (r, w1)" by fastforce
  then have "R w w1" using assms(1) by (rule maintainsD[rotated])
  moreover have "R w1 (snd (f x w1))" "R w1 (snd (h e w1))" for x e
    using assms(2,3) by (simp_all add: maintains_def)
  ultimately show "R w (snd (tryM m f h w))"
    using m by (cases r) (auto simp: tryM_def intro: R_trans)
qed

lemma m_then: "maintains R m \<Longrightarrow> maintains R k \<Longrightarrow> maintains R (thenM m k)"
  by (simp add: thenM_def m_bind)

lemma m_wrap: "maintains R m \<Longrightarrow> maintains R (wrapM s m)"
  by (simp add: wrapM_def m_try m_return m_fail)

lemma m_ignore: "maintains R m \<Longrightarrow> maintains R (ignoreM m)"
  by (simp add: ignoreM_def m_try m_return)

lemma m_defer: "maintains R m \<Longrightarrow> maintains R c \<Longrightarrow> maintains R (deferM m c)"
  by (simp add: deferM_def m_try m_then m_ignore m_return m_fail)

lemma m_for: "(\<And>x. x \<in> set xs \<Longrightarrow> maintains R (f x)) \<Longrightarrow> maintains R (forM xs f)"
  by (induction xs) (simp_all add: m_return m_then)

lemma m_syscall_part:
  assumes "\<And>n w. R w (snd (f n w))" "\<And>n k w. R w (part n k w)"
  shows "maintains R (syscall_part part f)"
proof (rule maintainsI)
  fix w :: world
  let ?n = "steps w"
  have "R w (snd (f ?n (tick w)))" "\<And>k. R w (part ?n k (tick w))"
    "\<And>k. R w (die (part ?n k (tick w)))"
    using R_trans[OF R_tick assms(1)] R_trans[OF R_tick assms(2)] R_trans[OF _ R_die] by blast+
  then show "R w (snd (syscall_part part f w))"
    by (auto simp: syscall_part_def Let_def split: fault.splits prod.splits sum.splits)
qed

lemma m_syscall: "(\<And>n w. R w (snd (f n w))) \<Longrightarrow> maintains R (syscall f)"
  unfolding syscall_def by (rule m_syscall_part) (simp_all add: R_refl)

lemma m_noop: "maintains R sys_noop"
  unfolding sys_noop_def by (rule m_syscall) (simp add: R_refl)

lemma m_query: "maintains R (sql_query f)"
  unfolding sql_query_def by (rule m_syscall) (simp add: R_refl)

lemma m_Stat: "maintains R (os_Stat p)"
  unfolding os_Stat_def by (rule m_syscall) (simp add: R_refl split: option.splits)

lemma m_ReadFile: "maintains R (os_ReadFile p)"
  unfolding os_ReadFile_def by (rule m_syscall) (simp add: R_refl split: option.splits node.splits)

lemma m_Now: "maintains R time_Now"
  by (simp add: maintains_def time_Now_def R_refl)

lemma m_Sleep: "maintains R (time_Sleep d)"
  by (simp add: maintains_def time_Sleep_def R_sleep)

lemma m_listen: "maintains R (sys_listen p)"
  unfolding sys_listen_def by (rule m_syscall) (simp add: R_refl)

lemma m_identity: "maintains R (sys_identity pid)"
  unfolding sys_identity_def by (rule m_syscall) (simp add: R_refl)

lemma m_fstat: "maintains R (sys_fstat_regular fd)"
  unfolding sys_fstat_regular_def by (rule m_syscall) (simp add: R_refl)

lemma m_dial: "maintains R (sys_dial p)"
  unfolding sys_dial_def by (rule m_syscall) (simp add: R_refl)

lemma m_exchange: "maintains R (sys_exchange s)"
  unfolding sys_exchange_def by (rule m_syscall) (simp add: R_refl)

lemma m_stat_socket: "maintains R sys_stat_socket"
  unfolding sys_stat_socket_def by (rule m_syscall) (simp add: R_refl split: option.splits)

lemma R_pause: "R w1 (pause i w w1)"
proof -
  have "max (clock w) (clock w1) + max 1 i = clock w1 + ((clock w - clock w1) + max 1 i)" by simp
  then show ?thesis unfolding pause_def by (simp only: R_sleep)
qed

lemma m_poll:
  assumes "maintains R body" "maintains R late"
  shows "maintains R (poll deadline interval body late)"
proof -
  have "R w (snd (poll deadline interval body late w))" for w
    using assms
  proof (induction deadline interval body late w rule: poll.induct)
    case (1 deadline interval body late w)
    obtain r w1 where run: "body w = (r, w1)" by fastforce
    note R1 = maintainsD[OF 1(2) run]
    show ?case
    proof (cases "clock w < deadline \<and> r = Ok None")
      case True
      then have "R (pause interval w w1) (snd (poll deadline interval body late (pause interval w w1)))"
        using 1(1)[OF _ run[symmetric]] 1(2,3) by simp
      then show ?thesis
        using R_trans[OF R_trans[OF R1 R_pause]] True run by (simp add: poll.simps[of deadline interval body late w])
    next
      case False
      then show ?thesis
        using R1 run 1(3) by (cases r)
          (auto simp: poll.simps[of deadline interval body late w] maintains_def split: option.splits)
    qed
  qed
  then show ?thesis by (rule maintainsI)
qed

lemmas rules = m_return m_fail m_ask m_lift m_bind m_try m_then m_wrap m_ignore m_defer m_for
  m_noop m_query m_Stat m_ReadFile m_Now m_Sleep m_listen m_identity
  m_fstat m_dial m_exchange m_stat_socket m_poll

end

section \<open>Taking runs apart\<close>

lemma bindM_OkE:
  assumes "bindM m f w = (Ok y, w')"
  obtains x w1 where "m w = (Ok x, w1)" "f x w1 = (Ok y, w')"
  using assms by (auto simp: bindM_def split: prod.splits outcome.splits)

lemma thenM_OkE:
  assumes "thenM m k w = (Ok y, w')"
  obtains x w1 where "m w = (Ok x, w1)" "k w1 = (Ok y, w')"
  using assms by (auto simp: thenM_def elim: bindM_OkE)

lemma wrapM_OkE: "wrapM s m w = (Ok y, w') \<Longrightarrow> m w = (Ok y, w')"
  by (auto simp: wrapM_def tryM_def returnM_def failM_def split: prod.splits outcome.splits)

lemma wrapM_Ok_iff [simp]: "wrapM s m w = (Ok y, w') \<longleftrightarrow> m w = (Ok y, w')"
  by (auto simp: wrapM_def tryM_def returnM_def failM_def split: prod.splits outcome.splits)

lemma wrapM_snd [simp]: "snd (wrapM s m w) = snd (m w)"
  by (auto simp: wrapM_def tryM_def returnM_def failM_def split: prod.splits outcome.splits)

lemma returnM_Ok_iff [simp]: "returnM x w = (r, w') \<longleftrightarrow> r = Ok x \<and> w' = w"
  by (auto simp: returnM_def)

lemma failM_iff [simp]: "failM e w = (r, w') \<longleftrightarrow> r = Err e \<and> w' = w"
  by (auto simp: failM_def)

lemma askM_iff [simp]: "askM f w = (r, w') \<longleftrightarrow> r = Ok (f (orc w)) \<and> w' = w"
  by (auto simp: askM_def)

lemma liftM_Ok_iff [simp]: "liftM r w = (Ok x, w') \<longleftrightarrow> r = Inr x \<and> w' = w"
  by (cases r) (auto simp: liftM_def)

lemma ignoreM_snd [simp]: "snd (ignoreM m w) = snd (m w)"
  by (auto simp: ignoreM_def tryM_def returnM_def split: prod.splits outcome.splits)

lemma bindM_cases:
  assumes "bindM m f w = (r, w')"
  obtains (stop) e where "m w = (Err e, w')" "r = Err e" | (crash) "m w = (Crash, w')" "r = Crash"
    | (go) x w1 where "m w = (Ok x, w1)" "f x w1 = (r, w')"
  using assms by (auto simp: bindM_def split: prod.splits outcome.splits)

lemma thenM_cases:
  assumes "thenM m k w = (r, w')"
  obtains (stop) e where "m w = (Err e, w')" "r = Err e" | (crash) "m w = (Crash, w')" "r = Crash"
    | (go) x w1 where "m w = (Ok x, w1)" "k w1 = (r, w')"
  using assms unfolding thenM_def by (rule bindM_cases)

lemma tryM_cases:
  assumes "tryM m f h w = (r, w')"
  obtains (ok) x w1 where "m w = (Ok x, w1)" "f x w1 = (r, w')" | (err) e w1 where "m w = (Err e, w1)" "h e w1 = (r, w')"
    | (crash) "m w = (Crash, w')" "r = Crash"
  using assms by (auto simp: tryM_def split: prod.splits outcome.splits)

lemma tryM_OkE:
  assumes "tryM m f h w = (Ok y, w')"
  obtains (ok) x w1 where "m w = (Ok x, w1)" "f x w1 = (Ok y, w')" | (err) e w1 where "m w = (Err e, w1)" "h e w1 = (Ok y, w')"
  using assms by (rule tryM_cases) auto

lemma fail_after_OkE [elim!]:
  assumes "thenM m (failM e) w = (Ok y, w')" shows thesis
  using assms by (auto elim!: thenM_OkE)

lemma bindM_assoc: "bindM (bindM m f) g = bindM m (\<lambda>x. bindM (f x) g)"
  by (auto simp: fun_eq_iff bindM_def split: prod.splits outcome.splits)

lemma deferM_OkE:
  assumes "deferM m c w = (Ok y, w')"
  obtains w1 where "m w = (Ok y, w1)" "w' = snd (c w1)"
proof -
  obtain r w1 where m: "m w = (r, w1)" by fastforce
  with assms have "r = Ok y \<and> w' = snd (c w1)"
    by (cases r) (auto simp: deferM_def tryM_def thenM_def bindM_def ignoreM_def returnM_def failM_def
      split: prod.splits outcome.splits)
  with m that show thesis by blast
qed

text \<open>A system call that succeeds has executed its effect on the ticked world.\<close>

lemma syscall_part_OkE:
  assumes "syscall_part part f w = (Ok x, w')"
  shows "f (steps w) (tick w) = (Inr x, w')"
  using assms by (auto simp: syscall_part_def Let_def split: fault.splits prod.splits sum.splits)

lemma syscall_OkE: "syscall f w = (Ok x, w') \<Longrightarrow> f (steps w) (tick w) = (Inr x, w')"
  unfolding syscall_def by (rule syscall_part_OkE)

lemma syscall_cases:
  assumes "syscall f w = (r, w')"
  shows "w' = tick w \<or> r = Crash \<and> w' = die (tick w) \<or> (case f (steps w) (tick w) of (Inr x, v) \<Rightarrow> r = Ok x \<and> w' = v | (Inl e, v) \<Rightarrow> r = Err e \<and> w' = v)"
  using assms by (auto simp: syscall_def syscall_part_def Let_def split: fault.splits prod.splits sum.splits)

lemma tick_simps [simp]:
  "orc (tick w) = orc w" "fs (tick w) = fs w" "next_ino (tick w) = next_ino w"
  "flocks (tick w) = flocks w" "fds (tick w) = fds w" "next_fd (tick w) = next_fd w"
  "signals (tick w) = signals w" "db (tick w) = db w" "tx (tick w) = tx w"
  "db_version (tick w) = db_version w" "steps (tick w) = Suc (steps w)"
  by (simp_all add: tick_def)

lemma die_simps [simp]:
  "orc (die w) = orc w" "fs (die w) = fs w" "next_ino (die w) = next_ino w" "steps (die w) = steps w"
  "flocks (die w) = flocks w" "fds (die w) = fds w" "next_fd (die w) = next_fd w" "procs (die w) = procs w"
  "signals (die w) = signals w" "db (die w) = db w" "tx (die w) = None" "clock (die w) = clock w"
  "db_version (die w) = db_version w"
  by (simp_all add: die_def)

section \<open>Relations that ignore a part of the state\<close>

locale ignores_db = change +
  assumes R_db: "R w (w\<lparr>db := d, tx := t, db_version := v\<rparr>)"
begin

lemma R_db' : "R w (w\<lparr>db := d\<rparr>)" "R w (w\<lparr>tx := t\<rparr>)" "R w (w\<lparr>db := d, tx := t\<rparr>)" "R w (w\<lparr>db_version := v\<rparr>)"
  using R_db[where w=w and d=d and t="tx w" and v="db_version w"]
    R_db[where w=w and d="db w" and t=t and v="db_version w"]
    R_db[where w=w and d=d and t=t and v="db_version w"]
    R_db[where w=w and d="db w" and t="tx w" and v=v] by simp_all

lemma R_set_cur: "R w (set_cur t w)"
  by (simp add: set_cur_def R_db' split: option.splits)

lemma m_sql_exec: "maintains R (sql_exec f)"
  unfolding sql_exec_def by (rule m_syscall) (simp add: R_refl R_set_cur split: sum.splits)

lemma m_begin: "maintains R sql_begin"
  unfolding sql_begin_def by (rule m_syscall) (simp add: R_db')

lemma m_commit: "maintains R sql_commit"
  unfolding sql_commit_def by (rule m_syscall) (simp add: R_refl R_db' split: option.splits)

lemma m_rollback: "maintains R sql_rollback"
  unfolding sql_rollback_def by (rule m_syscall_part) (simp_all add: R_db')

lemmas db_rules = m_sql_exec m_begin m_commit m_rollback

end

locale ignores_locks = change +
  assumes R_locks: "R w (w\<lparr>flocks := a, fds := b, next_fd := c\<rparr>)"
begin

lemma R_locks': "R w (w\<lparr>next_fd := c\<rparr>)" "R w (w\<lparr>flocks := a\<rparr>)" "R w (w\<lparr>fds := b, next_fd := c\<rparr>)"
    "R w (w\<lparr>flocks := a, fds := b\<rparr>)"
  using R_locks[where w=w and a="flocks w" and b="fds w" and c=c]
    R_locks[where w=w and a=a and b="fds w" and c="next_fd w"]
    R_locks[where w=w and a="flocks w" and b=b and c=c]
    R_locks[where w=w and a=a and b=b and c="next_fd w"] by simp_all

lemma m_open_read: "maintains R (sys_open_read p)"
  unfolding sys_open_read_def
  by (rule m_syscall) (simp add: R_refl R_locks' open_fd_def split: option.splits node.splits)

lemma m_flock_nb: "maintains R (sys_flock_nb fd)"
  unfolding sys_flock_nb_def by (rule m_syscall) (simp add: R_refl R_locks' split: option.splits)

lemma m_flock_wait: "maintains R (sys_flock_wait fd)"
  unfolding sys_flock_wait_def by (rule m_syscall) (simp add: R_refl R_locks' split: option.splits)

lemma m_close: "maintains R (sys_close fd)"
  unfolding sys_close_def close_fd_def by (rule m_syscall_part) (simp_all add: R_locks')

lemmas lock_rules = m_open_read m_flock_nb m_flock_wait m_close

end

locale ignores_files = change +
  assumes R_files: "R w (w\<lparr>fs := f, next_ino := i\<rparr>)"
begin

lemma R_files': "R w (w\<lparr>fs := f\<rparr>)" "R w (set_file p x w)" "R w (set_file p x (w\<lparr>next_ino := i\<rparr>))"
    "R w (append_bytes p s w)" "R w (remove_tree keep p w)" "R w (rename_tree p q w)"
    "R w (rename_file p q w)"
proof -
  show fs: "R w (w\<lparr>fs := f\<rparr>)" for f :: file_system using R_files[where w=w and f=f and i="next_ino w"] by simp
  show "R w (set_file p x w)" "R w (remove_tree keep p w)" "R w (rename_tree p q w)"
    "R w (rename_file p q w)"
    by (simp_all only: set_file_def remove_tree_def rename_tree_def rename_file_def fs)
  have "set_file p x (w\<lparr>next_ino := i\<rparr>) = w\<lparr>fs := (fs w)(p := x), next_ino := i\<rparr>"
    by (simp add: set_file_def)
  then show "R w (set_file p x (w\<lparr>next_ino := i\<rparr>))" by (simp only: R_files)
  show "R w (append_bytes p s w)"
    by (simp add: append_bytes_def set_file_def fs R_refl split: option.splits node.splits)
qed

lemma m_open_trunc: "maintains R (sys_open_trunc p m)"
  unfolding sys_open_trunc_def
  by (rule m_syscall) (simp add: R_refl R_files' split: option.splits node.splits)

lemma m_write: "maintains R (sys_write p d)"
  unfolding sys_write_def by (rule m_syscall_part) (simp_all add: R_files')

lemma m_WriteFile: "maintains R (os_WriteFile p d m)"
  unfolding os_WriteFile_def by (intro rules m_open_trunc m_write)

lemma m_Remove: "maintains R (os_Remove p)"
  unfolding os_Remove_def by (rule m_syscall) (simp add: R_refl R_files' split: option.splits node.splits)

lemma m_RemoveAll: "maintains R (os_RemoveAll p)"
  unfolding os_RemoveAll_def by (rule m_syscall_part) (simp_all add: R_files')

lemma m_Rename: "maintains R (os_Rename a b)"
  unfolding os_Rename_def by (rule m_syscall) (simp add: R_refl R_files' split: option.splits)

lemma m_Mkdir: "maintains R (os_Mkdir d m)"
  unfolding os_Mkdir_def by (rule m_syscall) (simp add: R_refl R_files')

lemma m_MkdirAll: "maintains R (os_MkdirAll d m)"
  unfolding os_MkdirAll_def by (rule m_syscall_part) (simp_all add: R_refl R_files' split: sum.splits)

lemma m_MkdirTemp: "maintains R (os_MkdirTemp d p)"
  unfolding os_MkdirTemp_def by (rule m_syscall) (simp add: R_refl R_files' split: option.splits)

lemma m_CreateTemp: "maintains R (os_CreateTemp d p s)"
  unfolding os_CreateTemp_def by (rule m_syscall) (simp add: R_refl R_files' split: option.splits)

lemma m_exec: "maintains R (sys_exec args)"
  unfolding sys_exec_def by (rule m_syscall_part) (simp_all add: R_files' split_beta)

lemma m_create_excl: "maintains R (sys_create_excl p m)"
  unfolding sys_create_excl_def by (rule m_syscall) (simp add: R_refl R_files')

lemma m_listen_unix: "maintains R (sys_listen_unix p)"
  unfolding sys_listen_unix_def by (rule m_syscall) (simp add: R_refl R_files')

lemma m_open_append: "maintains R (sys_open_append p m)"
  unfolding sys_open_append_def by (rule m_syscall) (simp add: R_refl R_files' split: option.splits node.splits)

lemma m_truncate: "maintains R (sys_truncate p n)"
  unfolding sys_truncate_def by (rule m_syscall) (simp add: R_refl R_files' split: option.splits node.splits)

lemma m_Chmod: "maintains R (os_Chmod p m)"
  unfolding os_Chmod_def by (rule m_syscall) (simp add: R_refl R_files' split: option.splits)

lemmas file_rules = m_exec m_open_trunc m_write m_WriteFile m_Remove m_RemoveAll m_Rename m_Mkdir m_MkdirAll
  m_MkdirTemp m_CreateTemp m_create_excl m_listen_unix m_open_append m_truncate m_Chmod

end

locale ignores_procs = change +
  assumes R_procs: "R w (w\<lparr>procs := ps, signals := ss\<rparr>)"
begin

lemma R_procs': "R w (w\<lparr>procs := ps\<rparr>)" "R w (w\<lparr>signals := ss\<rparr>)"
  using R_procs[where w=w and ps=ps and ss="signals w"] R_procs[where w=w and ps="procs w" and ss=ss] by simp_all

lemma m_spawn: "maintains R (sys_spawn args)"
  unfolding sys_spawn_def by (rule m_syscall) (simp add: R_procs' split_beta)

lemma m_kill: "maintains R (sys_kill pid sig)"
  unfolding sys_kill_def by (rule m_syscall) (simp add: R_procs' Let_def split: option.splits)

lemmas proc_rules = m_spawn m_kill

end

locale ignores_host = ignores_locks + ignores_files + ignores_procs
begin

lemma m_open_create: "maintains R (sys_open_create p m)"
proof -
  have "R w (snd (open_fd i (set_file p x (w\<lparr>next_ino := j\<rparr>))))" for w i x j
    using R_trans[OF R_files'(3) R_locks'(3)] by (simp add: open_fd_def)
  moreover have "R w (snd (open_fd i w))" for w i by (simp add: open_fd_def R_locks')
  ultimately show ?thesis
    unfolding sys_open_create_def
    by (intro m_syscall) (simp add: R_refl Let_def split_beta split: option.splits node.splits)
qed

lemmas host_rules = rules lock_rules file_rules proc_rules m_open_create

end

section \<open>Frame conditions\<close>

text \<open>Only files at or beneath the given paths change.\<close>

definition only_files :: "(string \<Rightarrow> bool) \<Rightarrow> world \<Rightarrow> world \<Rightarrow> bool" where
  "only_files A w w' \<longleftrightarrow> (\<forall>p. \<not> A p \<longrightarrow> fs w' p = fs w p)"

text \<open>The committed database does not change, and no transaction is left open.\<close>

definition same_db :: "world \<Rightarrow> world \<Rightarrow> bool" where
  "same_db w w' \<longleftrightarrow> db w' = db w \<and> db_version w' = db_version w \<and> (tx w = None \<longrightarrow> tx w' = None)"

definition same_files :: "world \<Rightarrow> world \<Rightarrow> bool" where
  "same_files w w' \<longleftrightarrow> fs w' = fs w"

text \<open>The environment stays the same and time does not run backwards.\<close>

definition same_env :: "world \<Rightarrow> world \<Rightarrow> bool" where
  "same_env w w' \<longleftrightarrow> orc w' = orc w \<and> steps w \<le> steps w' \<and> clock w \<le> clock w'"

interpretation files: ignores_db "only_files A" for A
  by unfold_locales (auto simp: only_files_def)

interpretation filesl: ignores_locks "only_files A" for A
  by unfold_locales (auto simp: only_files_def)

lemma files_at:
  assumes "A p"
  shows "maintains (only_files A) (os_WriteFile p d m)" "maintains (only_files A) (os_Remove p)"
    "maintains (only_files A) (os_Mkdir p m)" "maintains (only_files A) (sys_open_create p m)"
proof -
  have f: "only_files A w (set_file p x w)" "only_files A w (set_file p x (w\<lparr>next_ino := i\<rparr>))" for w x i
    using assms by (auto simp: only_files_def set_file_def)
  have ap: "only_files A w (append_bytes p s w)" for w s
    by (auto simp: append_bytes_def f files.R_refl split: option.splits node.splits)
  have tr: "maintains (only_files A) (sys_open_trunc p m)"
    unfolding sys_open_trunc_def
    by (rule files.m_syscall) (auto simp: f files.R_refl split: option.splits node.splits)
  have wr: "maintains (only_files A) (sys_write p d)"
    unfolding sys_write_def by (rule files.m_syscall_part) (auto simp: ap)
  show "maintains (only_files A) (os_WriteFile p d m)"
    unfolding os_WriteFile_def by (intro files.rules tr wr)
  show "maintains (only_files A) (os_Remove p)" "maintains (only_files A) (os_Mkdir p m)"
    unfolding os_Remove_def os_Mkdir_def
    by (rule files.m_syscall, auto simp: f files.R_refl split: option.splits node.splits)+
  have "only_files A w (snd (open_fd i (set_file p x (w\<lparr>next_ino := j\<rparr>))))" for w i x j
    using f(2)[of w x j] by (simp add: only_files_def open_fd_def)
  moreover have "only_files A w (snd (open_fd i w))" for w i by (simp add: only_files_def open_fd_def)
  ultimately show "maintains (only_files A) (sys_open_create p m)"
    unfolding sys_open_create_def
    by (intro files.m_syscall) (simp add: files.R_refl Let_def split_beta split: option.splits node.splits)
qed

lemma files_RemoveAll: "(\<And>q. beneath p q \<Longrightarrow> A q) \<Longrightarrow> maintains (only_files A) (os_RemoveAll p)"
  unfolding os_RemoveAll_def
  by (rule files.m_syscall_part) (auto simp: remove_tree_def only_files_def)

lemma files_Rename:
  "(\<And>q. beneath p q \<Longrightarrow> A q) \<Longrightarrow> (\<And>q. beneath p' q \<Longrightarrow> A q) \<Longrightarrow> maintains (only_files A) (os_Rename p p')"
  unfolding os_Rename_def
  by (rule files.m_syscall)
    (auto simp: rename_tree_def rename_file_def only_files_def beneath_def split: option.splits)

interpretation filesp: ignores_procs "only_files A" for A
  by unfold_locales (auto simp: only_files_def)

interpretation nofs: ignores_locks same_files
  by unfold_locales (auto simp: same_files_def)

interpretation nofsd: ignores_db same_files
  by unfold_locales (auto simp: same_files_def)

interpretation nofsp: ignores_procs same_files
  by unfold_locales (auto simp: same_files_def)

lemma WriteFile_Ok:
  assumes "os_WriteFile p d m w = (Ok u, w')"
  obtains i m' where "fs w' p = Some (Reg i m' d)"
proof -
  obtain w1 w2 where o: "sys_open_trunc p m w = (Ok (), w1)" and wr: "sys_write p d w1 = (Ok (), w2)"
    and n: "sys_noop w2 = (Ok u, w')"
    using assms unfolding os_WriteFile_def by (auto elim!: thenM_OkE tryM_OkE)
  obtain i m' where "fs w1 p = Some (Reg i m' [])"
    using syscall_OkE[OF o[unfolded sys_open_trunc_def]]
    by (auto simp: set_file_def split: option.splits node.splits if_splits)
  then have "fs w2 p = Some (Reg i m' d)"
    using syscall_part_OkE[OF wr[unfolded sys_write_def]] by (auto simp: append_bytes_def set_file_def)
  moreover have "fs w' = fs w2" using maintainsD[OF nofs.m_noop n] by (simp add: same_files_def)
  ultimately show thesis using that by simp
qed

lemma Rename_file_Ok:
  assumes "os_Rename a b w = (Ok u, w')" "fs w a = Some (Reg i m c)" "a \<noteq> b"
  shows "fs w' = (fs w)(a := None, b := Some (Reg i m c))"
  using syscall_OkE[OF assms(1)[unfolded os_Rename_def]] assms(2,3)
  by (auto simp: rename_file_def is_dir_def split: if_splits)

lemma Rename_not_Ok:
  assumes "os_Rename a b w = (r, w')" "r \<noteq> Ok ()"
  shows "fs w' = fs w"
  using syscall_cases[OF assms(1)[unfolded os_Rename_def]] assms(2)
  by (auto split: option.splits if_splits)

text \<open>Temporary names are free.\<close>

lemma free_name_Some: "free_name f cand k = Some p \<Longrightarrow> f p = None \<and> (\<exists>m. p = cand m)"
  by (induction f cand k rule: free_name.induct) (subst (asm) (2) free_name.simps, auto split: if_splits)

lemma CreateTemp_Ok:
  assumes "os_CreateTemp d pre suf w = (Ok name, w')"
  obtains i x where "name = d @ slash # pre @ x @ suf" "fs w name = None" "fs w' = (fs w)(name := Some (Reg i 384 []))"
  using syscall_OkE[OF assms[unfolded os_CreateTemp_def]]
    free_name_Some[of "fs w" "\<lambda>k. d @ slash # pre @ o_rand (orc w) (steps w) k @ suf" 0 name] that
  by (auto simp: set_file_def split: if_splits option.splits)

lemma CreateTemp_not_Ok: "os_CreateTemp d pre suf w = (r, w') \<Longrightarrow> \<nexists>x. r = Ok x \<Longrightarrow> fs w' = fs w"
  unfolding os_CreateTemp_def by (drule syscall_cases) (auto split: if_splits option.splits)

lemma MkdirTemp_Ok:
  assumes "os_MkdirTemp d pre w = (Ok name, w')"
  obtains x where "name = d @ slash # pre @ x" "slash \<notin> set pre" "fs w name = None" "fs w' = (fs w)(name := Some (Dir 448))"
  using syscall_OkE[OF assms[unfolded os_MkdirTemp_def]]
    free_name_Some[of "fs w" "\<lambda>k. d @ slash # pre @ o_rand (orc w) (steps w) k" 0 name] that
  by (auto simp: set_file_def split: if_splits option.splits)

lemma MkdirTemp_not_Ok: "os_MkdirTemp d pre w = (r, w') \<Longrightarrow> \<nexists>x. r = Ok x \<Longrightarrow> fs w' = fs w"
  unfolding os_MkdirTemp_def by (drule syscall_cases) (auto split: if_splits option.splits)

interpretation nodb: ignores_host same_db
  by unfold_locales (auto simp: same_db_def)

interpretation env: ignores_host same_env
  by unfold_locales (auto simp: same_env_def tick_def die_def)

interpretation envd: ignores_db same_env
  by unfold_locales (auto simp: same_env_def)

section \<open>A concrete host\<close>

text \<open>An environment in which every call succeeds, and a host with the directory \<^verbatim>\<open>/d\<close> as
  devd's root and nothing in it. The examples of the development run on it.\<close>

definition quiet :: environ where
  "quiet = \<lparr>o_fault = \<lambda>_. Proceed, o_survives = \<lambda>_ _. False, o_evolve = \<lambda>_ t. t, o_elapse = \<lambda>_. 1,
     o_port_free = \<lambda>_ _. True, o_rand = \<lambda>_ k. nat_digits k, o_exec = \<lambda>_ _ f. (Inr [], f),
     o_spawn = \<lambda>_ _. (7, \<lparr>p_ident = ''42'', p_holds = []\<rparr>),
     o_env = \<lambda>v. if v = ''DEVD_DIR'' then ''/d'' else [], o_home = Inr ''/h'', o_cwd = Inr ''/w'', o_links = Inr,
     o_lookpath = Inr, o_executable = Inr ''/bin/devd'', o_goos = ''linux'', o_goarch = ''amd64'',
     o_time_text = \<lambda>_. ''2025-01-01T00:00:00Z'', o_dial = \<lambda>_ _. False, o_reply = \<lambda>_ _. Inr ''{}'',
     o_socket = \<lambda>_. None, o_uid = 501\<rparr>"

definition blank :: world where
  "blank = \<lparr>orc = quiet, steps = 0, clock = 0,
     fs = \<lambda>p. if p = ''/'' \<or> p = ''/d'' then Some (Dir 448) else None, next_ino = 1, flocks = \<lambda>_. None,
     fds = \<lambda>_. None, next_fd = 3, procs = [], signals = [], db_version = 2,
     db = \<lparr>t_workspaces = [], t_reserved = []\<rparr>, tx = None\<rparr>"

lemma run_pair: "fst x = r \<Longrightarrow> x = (r, snd x)"
  by auto

end
