(* ===== verification/Config.thy ===== *)
theory Config
  imports Effects
begin

text \<open>
  \<^verbatim>\<open>internal/config/config.go\<close>: the constants, the check of workspace names, and the paths
  of everything devd keeps on disk. The path functions create directories, so they are
  commands. The main fact is that a valid name is one safe path component: two
  workspaces never share or nest directories.
\<close>

section \<open>Constants\<close>

definition DefaultImage :: string where "DefaultImage = ''nicolaka/netshoot''"

definition DefaultCPUs :: int where "DefaultCPUs = 2"

definition DefaultMemory :: int where "DefaultMemory = 512"

definition DefaultDiskMiB :: int where "DefaultDiskMiB = 32 * 1024"

definition TemplateFormatVersion :: int where "TemplateFormatVersion = 1"

definition WorkspaceSpecVersion :: int where "WorkspaceSpecVersion = 2"

definition SSHKeyName :: string where "SSHKeyName = ''devd_ed25519''"

section \<open>Workspace names\<close>

definition is_letter :: "char \<Rightarrow> bool" where
  "is_letter c = (let n = (of_char c :: nat) in 65 \<le> n \<and> n \<le> 90 \<or> 97 \<le> n \<and> n \<le> 122)"

text \<open>The classes of \<^verbatim>\<open>^[A-Za-z0-9][A-Za-z0-9._-]*$\<close>.\<close>

definition name_first :: "char \<Rightarrow> bool" where
  "name_first c = (is_letter c \<or> is_digit c)"

definition name_char :: "char \<Rightarrow> bool" where
  "name_char c = (name_first c \<or> c = CHR ''.'' \<or> c = CHR ''_'' \<or> c = CHR ''-'')"

fun workspaceNamePattern :: "string \<Rightarrow> bool" where
  "workspaceNamePattern [] = False"
| "workspaceNamePattern (c # cs) = (name_first c \<and> list_all name_char cs)"

definition ValidateWorkspaceName :: "string \<Rightarrow> unit result" where
  "ValidateWorkspaceName name =
     (if workspaceNamePattern name then Inr () else Inl (Msg ''workspace name must match the pattern''))"

section \<open>Paths\<close>

definition os_Getenv :: "string \<Rightarrow> string io" where
  "os_Getenv v = askM (\<lambda>e. o_env e v)"

definition os_UserHomeDir :: "string io" where
  "os_UserHomeDir = bindM (askM o_home) liftM"

definition DevdDir :: "string io" where
  "DevdDir =
     bindM (os_Getenv ''DEVD_DIR'') (\<lambda>dir.
     bindM (if dir = [] then bindM os_UserHomeDir (\<lambda>home. returnM (filepath_Join [home, ''.devd'']))
            else returnM dir) (\<lambda>dir.
     thenM (os_MkdirAll dir 448)
     (returnM dir)))"

definition DBPath :: "string io" where
  "DBPath = bindM DevdDir (\<lambda>dir. returnM (filepath_Join [dir, ''devd.db'']))"

definition DaemonSocketPath :: "string io" where
  "DaemonSocketPath = bindM DevdDir (\<lambda>dir. returnM (filepath_Join [dir, ''daemon.sock'']))"

definition DaemonLockPath :: "string io" where
  "DaemonLockPath = bindM DevdDir (\<lambda>dir. returnM (filepath_Join [dir, ''daemon.lock'']))"

definition DaemonLogPath :: "string io" where
  "DaemonLogPath = bindM DevdDir (\<lambda>dir. returnM (filepath_Join [dir, ''daemon.log'']))"

definition SSHDir :: "string io" where
  "SSHDir = bindM DevdDir (\<lambda>dir. let sshDir = filepath_Join [dir, ''ssh''] in
     thenM (os_MkdirAll sshDir 448) (returnM sshDir))"

definition ImagesDir :: "string io" where
  "ImagesDir = bindM DevdDir (\<lambda>dir. let imagesDir = filepath_Join [dir, ''images''] in
     thenM (os_MkdirAll imagesDir 448) (returnM imagesDir))"

definition WorkspacesDir :: "string io" where
  "WorkspacesDir = bindM DevdDir (\<lambda>dir. let dir = filepath_Join [dir, ''workspaces''] in
     thenM (os_MkdirAll dir 448) (returnM dir))"

definition WorkspaceDir :: "string \<Rightarrow> string io" where
  "WorkspaceDir name =
     thenM (liftM (ValidateWorkspaceName name))
     (bindM WorkspacesDir (\<lambda>dir. returnM (filepath_Join [dir, name])))"

definition WorkspaceDiskPath :: "string \<Rightarrow> string io" where
  "WorkspaceDiskPath name = bindM (WorkspaceDir name) (\<lambda>dir. returnM (filepath_Join [dir, ''rootfs.ext4'']))"

definition PrivateKeyPath :: "string io" where
  "PrivateKeyPath = bindM SSHDir (\<lambda>dir. returnM (filepath_Join [dir, SSHKeyName]))"

definition PublicKeyPath :: "string io" where
  "PublicKeyPath = bindM SSHDir (\<lambda>dir. returnM (filepath_Join [dir, SSHKeyName @ ''.pub'']))"

section \<open>The path functions only create directories\<close>

context ignores_files
begin

lemma m_Getenv: "maintains R (os_Getenv v)"
  by (simp add: os_Getenv_def m_ask)

lemma m_UserHomeDir: "maintains R os_UserHomeDir"
  unfolding os_UserHomeDir_def by (intro rules)

lemma m_DevdDir: "maintains R DevdDir"
  unfolding DevdDir_def by (intro rules m_Getenv m_MkdirAll) (auto intro!: rules m_UserHomeDir)

lemma m_devd_paths: "maintains R DBPath" "maintains R DaemonSocketPath" "maintains R DaemonLockPath"
    "maintains R DaemonLogPath"
  unfolding DBPath_def DaemonSocketPath_def DaemonLockPath_def DaemonLogPath_def by (intro rules m_DevdDir)+

lemma m_SSHDir: "maintains R SSHDir" and m_ImagesDir: "maintains R ImagesDir"
  and m_WorkspacesDir: "maintains R WorkspacesDir"
  unfolding SSHDir_def ImagesDir_def WorkspacesDir_def Let_def by (intro rules m_DevdDir m_MkdirAll)+

lemma m_WorkspaceDir: "maintains R (WorkspaceDir n)"
  unfolding WorkspaceDir_def by (intro rules m_WorkspacesDir)

lemma m_WorkspaceDiskPath: "maintains R (WorkspaceDiskPath n)"
  unfolding WorkspaceDiskPath_def by (intro rules m_WorkspaceDir)

lemma m_key_paths: "maintains R PrivateKeyPath" "maintains R PublicKeyPath"
  unfolding PrivateKeyPath_def PublicKeyPath_def by (intro rules m_SSHDir)+

lemmas config_rules = m_Getenv m_UserHomeDir m_DevdDir m_devd_paths m_SSHDir m_ImagesDir m_WorkspacesDir
  m_WorkspaceDir m_WorkspaceDiskPath m_key_paths

end

section \<open>Valid names are safe path components\<close>

lemma ValidateWorkspaceName_iff [simp]: "ValidateWorkspaceName n = Inr () \<longleftrightarrow> workspaceNamePattern n"
  by (simp add: ValidateWorkspaceName_def)

lemma name_char_not:
  assumes "name_char c"
  shows "c \<noteq> slash \<and> c \<noteq> CHR '' '' \<and> c \<noteq> CHR '':'' \<and> c \<noteq> CHR ''='' \<and> c \<noteq> CHR 0x0A \<and> c \<noteq> CHR 0x00"
  using assms by (auto simp: name_char_def name_first_def is_letter_def is_digit_def Let_def)

lemma valid_name_chars: "workspaceNamePattern n \<Longrightarrow> c \<in> set n \<Longrightarrow> name_char c"
  by (cases n) (auto simp: name_char_def list_all_iff)

lemma valid_name_comp_ok: "workspaceNamePattern n \<Longrightarrow> comp_ok n"
  using valid_name_chars[of n slash] name_char_not[of slash]
  by (cases n) (auto simp: comp_ok_def name_first_def is_letter_def is_digit_def)

text \<open>The root of an installation as the environment determines it, without the effect.\<close>

definition devd_root :: "environ \<Rightarrow> string result" where
  "devd_root e = (if o_env e ''DEVD_DIR'' = [] then map_sum id (\<lambda>h. filepath_Join [h, ''.devd'']) (o_home e)
                  else Inr (o_env e ''DEVD_DIR''))"

lemma MkdirAll_orc: "os_MkdirAll d m w = (r, w') \<Longrightarrow> orc w' = orc w"
  by (auto simp: os_MkdirAll_def syscall_part_def Let_def split: fault.splits sum.splits prod.splits)

lemma MkdirAll_root:
  assumes "os_MkdirAll d m w = (r, w')" shows "devd_root (orc w') = devd_root (orc w)"
  using MkdirAll_orc[OF assms] by simp

lemma DevdDir_Ok:
  assumes "DevdDir w = (Ok d, w')"
  shows "devd_root (orc w) = Inr d" "orc w' = orc w"
proof -
  have "devd_root (orc w) = Inr d \<and> orc w' = orc w"
    using assms unfolding DevdDir_def os_Getenv_def os_UserHomeDir_def
    by (auto elim!: bindM_OkE thenM_OkE simp: devd_root_def split: if_splits dest!: MkdirAll_orc)
  then show "devd_root (orc w) = Inr d" "orc w' = orc w" by auto
qed

lemma DevdDir_OkE:
  assumes "DevdDir w = (Ok d, w')"
  obtains "devd_root (orc w) = Inr d" "orc w' = orc w"
  using DevdDir_Ok[OF assms] by blast

lemma WorkspacesDir_Ok:
  assumes "WorkspacesDir w = (Ok d, w')"
  obtains r where "devd_root (orc w) = Inr r" "d = filepath_Join [r, ''workspaces'']" "orc w' = orc w"
  using assms unfolding WorkspacesDir_def Let_def
  by (auto elim!: bindM_OkE thenM_OkE DevdDir_OkE dest!: MkdirAll_orc)

lemma WorkspaceDir_Ok:
  assumes "WorkspaceDir n w = (Ok d, w')"
  obtains r where "workspaceNamePattern n" "devd_root (orc w) = Inr r"
    "d = filepath_Join [filepath_Join [r, ''workspaces''], n]" "orc w' = orc w"
  using assms unfolding WorkspaceDir_def
  by (auto elim!: bindM_OkE thenM_OkE WorkspacesDir_Ok)

lemma comp_ok_workspaces [simp]: "comp_ok ''workspaces''"
  by code_simp

text \<open>The directory of a workspace in an installation whose root is an absolute clean path.\<close>

definition workspace_path :: "string list \<Rightarrow> string \<Rightarrow> string" where
  "workspace_path root n = abs_path (root @ [''workspaces'', n])"

lemma Join_workspace_path:
  assumes "\<forall>c\<in>set root. comp_ok c" "workspaceNamePattern n"
  shows "filepath_Join [filepath_Join [abs_path root, ''workspaces''], n] = workspace_path root n"
  using assms filepath_Join_abs_path[of "root @ [''workspaces'']" n]
  by (simp add: filepath_Join_abs_path valid_name_comp_ok workspace_path_def)

lemma workspace_path_beneath:
  assumes "workspaceNamePattern n" "workspaceNamePattern m"
    and "beneath (workspace_path root n) p" "beneath (workspace_path root m) p"
  shows "n = m"
proof -
  let ?d = "abs_path (root @ [''workspaces''])"
  have wp: "workspace_path root k = ?d @ slash # k" for k
    using abs_path_snoc[of "root @ [''workspaces'']" k] by (simp add: workspace_path_def)
  have cut: "\<exists>q. p = ?d @ slash # k @ q \<and> (q = [] \<or> hd q = slash)"
    if "beneath (workspace_path root k) p" for k
    using that by (auto simp: beneath_def wp prefix_def)
  obtain q1 where q1: "p = ?d @ slash # n @ q1" "q1 = [] \<or> hd q1 = slash" using cut[OF assms(3)] by blast
  obtain q2 where q2: "p = ?d @ slash # m @ q2" "q2 = [] \<or> hd q2 = slash" using cut[OF assms(4)] by blast
  have eq: "n @ q1 = m @ q2" using q1(1) q2(1) by (simp only: same_append_eq list.inject simp_thms)
  have no: "slash \<notin> set n" "slash \<notin> set m"
    using assms(1,2) valid_name_comp_ok by (auto simp: comp_ok_def)
  have tw: "takeWhile (\<lambda>c. c \<noteq> slash) (k @ q) = k"
    if "slash \<notin> set k" "q = [] \<or> hd q = slash" for k q
    using that by (cases q) (auto simp: takeWhile_append takeWhile_eq_all_conv)
  show ?thesis using tw[OF no(1) q1(2)] tw[OF no(2) q2(2)] eq by simp
qed

text \<open>Workspace directories are isolated: when \<^verbatim>\<open>WorkspaceDir\<close> answers for two names of
  an installation with an absolute root, both names match the pattern, the paths are
  \<^verbatim>\<open><root>/workspaces/<name>\<close> exactly, their parent is the \<^verbatim>\<open>workspaces\<close> directory, and
  no path lies in or beneath both unless the names are equal.\<close>

theorem workspace_dirs_isolated:
  assumes "WorkspaceDir n u = (Ok d, u')" "WorkspaceDir m v = (Ok e, v')"
    and "devd_root (orc u) = Inr (abs_path root)" "devd_root (orc v) = Inr (abs_path root)"
    and "\<forall>c\<in>set root. comp_ok c"
  shows "d = abs_path (root @ [''workspaces'', n]) \<and> filepath_Dir d = abs_path (root @ [''workspaces'']) \<and>
    (\<forall>p. beneath d p \<and> beneath e p \<longrightarrow> n = m)"
proof -
  have n: "workspaceNamePattern n" "d = workspace_path root n"
    using assms(1,3,5) by (auto elim!: WorkspaceDir_Ok simp: Join_workspace_path)
  have m: "workspaceNamePattern m" "e = workspace_path root m"
    using assms(2,4,5) by (auto elim!: WorkspaceDir_Ok simp: Join_workspace_path)
  have "filepath_Dir d = abs_path (root @ [''workspaces''])"
    using filepath_Dir_abs_path[of "root @ [''workspaces'']" n] assms(5) n
    by (simp add: workspace_path_def valid_name_comp_ok)
  then show ?thesis using n m workspace_path_beneath by (auto simp: workspace_path_def)
qed

lemma blank_root: "devd_root (orc blank) = Inr (abs_path [''d''])"
  by code_simp

theorem workspace_dirs_isolated_witness:
  "fst (WorkspaceDir ''a'' blank) = Ok ''/d/workspaces/a'' \<and> fst (WorkspaceDir ''b'' blank) = Ok ''/d/workspaces/b'' \<and>
   filepath_Dir ''/d/workspaces/a'' = abs_path [''d'', ''workspaces''] \<and>
   \<not> (beneath ''/d/workspaces/a'' ''/d/x'' \<and> beneath ''/d/workspaces/b'' ''/d/x'')"
proof -
  have a: "fst (WorkspaceDir ''a'' blank) = Ok ''/d/workspaces/a''" by code_simp
  have b: "fst (WorkspaceDir ''b'' blank) = Ok ''/d/workspaces/b''" by code_simp
  have c: "\<forall>c\<in>set [''d'']. comp_ok c" by code_simp
  show ?thesis
    using workspace_dirs_isolated[OF run_pair[OF a] run_pair[OF b] blank_root blank_root c] a b by auto
qed

end
