(* ===== verification/Database.thy ===== *)
theory Database
  imports Config
begin

text \<open>
  \<^verbatim>\<open>internal/db/db.go\<close>: opening the database, and every query and update of the package as
  a command. Each SQL statement, \<^verbatim>\<open>BEGIN\<close> and \<^verbatim>\<open>COMMIT\<close> is one call that can fail or be the
  last one of the process. The locale \<open>transaction\<close> proves once that a function of the
  shape \<^verbatim>\<open>Begin; defer Rollback; body; Commit\<close> is all-or-nothing; the three
  transactional updates interpret it. A table that does not exist yet is an empty one:
  every command creates both tables before it uses them.
\<close>

section \<open>Opening\<close>

text \<open>\<^verbatim>\<open>DROP TABLE reserved_ports; DROP TABLE workspaces\<close> in one \<^verbatim>\<open>Exec\<close>: a failure may come
  between the two.\<close>

definition sql_drop_tables :: "unit io" where
  "sql_drop_tables = syscall_part
     (\<lambda>n k w. if k = 0 then w else set_cur ((cur w)\<lparr>t_reserved := []\<rparr>) w)
     (\<lambda>n w. (Inr (), set_cur \<lparr>t_workspaces = [], t_reserved = []\<rparr> w))"

definition sql_user_version :: "int io" where
  "sql_user_version = syscall (\<lambda>n w. (Inr (db_version w), w))"

definition sql_set_user_version :: "int \<Rightarrow> unit io" where
  "sql_set_user_version v = syscall (\<lambda>n w. (Inr (), w\<lparr>db_version := v\<rparr>))"

definition initializeSchema :: "unit io" where
  "initializeSchema =
     bindM sql_user_version (\<lambda>version.
     if version \<noteq> 0 \<and> version \<noteq> schemaVersion
     then failM (Msg ''database schema version is unsupported'')
     else
       thenM (if version \<noteq> schemaVersion
              then wrapM ''reset pre-ext4 database'' sql_drop_tables else returnM ())
       (thenM (sql_exec Inr)
       (sql_set_user_version schemaVersion)))"

text \<open>\<^verbatim>\<open>LockMetadata\<close> returns the descriptor; the unlock function closes it.\<close>

definition LockMetadata :: "nat io" where
  "LockMetadata =
     bindM DevdDir (\<lambda>dir.
     bindM (wrapM ''open metadata lock'' (sys_open_create (filepath_Join [dir, ''metadata.lock'']) 384)) (\<lambda>file.
     tryM (sys_flock_wait file)
       (\<lambda>_. returnM file)
       (\<lambda>e. thenM (ignoreM (sys_close file)) (failM (Wrap ''lock metadata'' e)))))"

definition Open :: "unit io" where
  "Open =
     bindM (wrapM ''db path'' DBPath) (\<lambda>path.
     thenM (wrapM ''open db'' sys_noop)
     (thenM (wrapM ''configure database busy timeout'' sys_noop)
     (thenM (wrapM ''enable foreign keys'' sys_noop)
     (bindM LockMetadata (\<lambda>file.
      tryM initializeSchema
        (\<lambda>_. ignoreM (sys_close file))
        (\<lambda>e. thenM (ignoreM (sys_close file)) (failM (Wrap ''initialize schema'' e))))))))"

section \<open>Port allocation\<close>

text \<open>Numbers are unbounded here. The code adds one to a 64-bit integer; a port that large is refused before it is used.\<close>

definition NextSSHPort :: "int io" where
  "NextSSHPort = bindM (sql_query (sql_max ws_SSHPort)) (\<lambda>maxPort.
     case maxPort of None \<Rightarrow> returnM SSHPortBase | Some p \<Rightarrow> returnM (p + 1))"

definition NextRelayPort :: "int io" where
  "NextRelayPort = bindM (sql_query (sql_max ws_RelayPort)) (\<lambda>maxPort.
     case maxPort of None \<Rightarrow> returnM RelayPortBase | Some p \<Rightarrow> returnM (p + 1))"

section \<open>Updates\<close>

text \<open>The column \<^verbatim>\<open>created_at\<close> takes the time at which the statement runs.\<close>

definition sql_exec_now :: "(int \<Rightarrow> tables \<Rightarrow> tables result) \<Rightarrow> unit io" where
  "sql_exec_now f = syscall (\<lambda>n w. (case f (int (clock w)) (cur w) of
     Inl e \<Rightarrow> (Inl e, w) | Inr t \<Rightarrow> (Inr (), set_cur t w)))"

definition transactional :: "unit io \<Rightarrow> unit io" where
  "transactional body = thenM sql_begin (deferM (thenM body sql_commit) sql_rollback)"

definition CreateWorkspace :: "Workspace \<Rightarrow> int list \<Rightarrow> unit io" where
  "CreateWorkspace ws ports =
     transactional
       (thenM (sql_exec_now (\<lambda>now. sql_insert_workspace now ws))
       (forM ports (\<lambda>port. sql_exec (sql_insert_reserved (ws_Name ws) port))))"

definition WorkspaceExists :: "string \<Rightarrow> bool io" where
  "WorkspaceExists name = sql_query (\<lambda>t. sql_by_name name t \<noteq> None)"

definition SetWorkspaceState :: "string \<Rightarrow> string \<Rightarrow> int \<Rightarrow> unit io" where
  "SetWorkspaceState name state pid = sql_exec (\<lambda>t. Inr (sql_set_state name state pid t))"

definition SetActiveWorkspace :: "string \<Rightarrow> unit io" where
  "SetActiveWorkspace name =
     transactional
       (bindM (sql_query (sql_by_name name)) (\<lambda>row.
        case row of
          None \<Rightarrow> failM (Msg ''sql: no rows in result set'')
        | Some ws \<Rightarrow>
            if ws_State ws \<noteq> running then failM (Msg ''workspace is not running'')
            else thenM (sql_exec (\<lambda>t. Inr (sql_deactivate_all t)))
                 (sql_exec (\<lambda>t. Inr (sql_activate name t)))))"

definition DeleteWorkspace :: "string \<Rightarrow> unit io" where
  "DeleteWorkspace name =
     transactional
       (thenM (sql_exec (\<lambda>t. Inr (sql_delete_reserved name t)))
       (sql_exec (\<lambda>t. Inr (sql_delete_workspace name t))))"

definition AddReservedPort :: "string \<Rightarrow> int \<Rightarrow> unit io" where
  "AddReservedPort name port = sql_exec (sql_insert_or_ignore_reserved name port)"

section \<open>Queries\<close>

definition GetWorkspace :: "string \<Rightarrow> Workspace io" where
  "GetWorkspace name = bindM (sql_query (sql_by_name name)) (\<lambda>row.
     case row of None \<Rightarrow> failM (Msg ''workspace not found'') | Some ws \<Rightarrow> returnM ws)"

definition GetActiveWorkspace :: "Workspace option io" where
  "GetActiveWorkspace = sql_query sql_active"

definition ListWorkspaces :: "Workspace list io" where
  "ListWorkspaces = sql_query sql_list"

definition GetReservedPorts :: "string \<Rightarrow> int list io" where
  "GetReservedPorts name = sql_query (sql_ports_of name)"

definition GetAllReservedPorts :: "int list io" where
  "GetAllReservedPorts = sql_query sql_all_ports"

definition GetAllContestedPorts :: "int list io" where
  "GetAllContestedPorts = sql_query sql_contested_all"

definition GetContestedPorts :: "int list io" where
  "GetContestedPorts = sql_query sql_contested_running"

definition GetRunningWorkspacesForPort :: "int \<Rightarrow> Workspace list io" where
  "GetRunningWorkspacesForPort port = sql_query (sql_running_for_port port)"

section \<open>Effects of single calls\<close>

context ignores_host
begin

lemma m_LockMetadata: "maintains R LockMetadata"
  unfolding LockMetadata_def by (intro rules m_DevdDir m_open_create lock_rules)

end

lemma cur_tick [simp]: "cur (tick w) = cur w"
  by (simp add: cur_def split: option.split)

lemma sql_query_OkE:
  assumes "sql_query f w = (Ok x, w')"
  obtains "x = f (cur w)" "w' = tick w"
  using syscall_OkE[OF assms[unfolded sql_query_def]] by auto

lemma sql_query_cases:
  assumes "sql_query f w = (r, w')"
  obtains "r = Ok (f (cur w))" "w' = tick w" | e where "r = Err e" "w' = tick w" | "r = Crash" "w' = die (tick w)"
  using assms by (auto simp: sql_query_def syscall_def syscall_part_def Let_def split: fault.splits)

text \<open>A calm world: no call will fail any more.\<close>

definition calm :: "world \<Rightarrow> bool" where
  "calm w \<longleftrightarrow> (\<forall>n\<ge>steps w. o_fault (orc w) n = Proceed)"

lemma calm_fault: "calm w \<Longrightarrow> o_fault (orc w) (steps w) = Proceed"
  by (simp add: calm_def)

lemma calm_same_env: "calm w \<Longrightarrow> same_env w w' \<Longrightarrow> calm w'"
  by (auto simp: calm_def same_env_def)

lemma calm_syscall_part:
  "calm w \<Longrightarrow> syscall_part p f w = (case f (steps w) (tick w) of (Inl e, v) \<Rightarrow> (Err e, v) | (Inr x, v) \<Rightarrow> (Ok x, v))"
  by (simp add: calm_def syscall_part_def Let_def)

lemma calm_syscall:
  "calm w \<Longrightarrow> syscall f w = (case f (steps w) (tick w) of (Inl e, v) \<Rightarrow> (Err e, v) | (Inr x, v) \<Rightarrow> (Ok x, v))"
  by (simp add: syscall_def calm_syscall_part)

section \<open>Transactions\<close>

text \<open>A command inside a transaction: it computes \<open>f\<close> on the transaction's tables, where the
  first argument is a time not before its start; it does not touch the committed tables;
  and in a calm world it fails only if \<open>f\<close> does.\<close>

definition tx_step :: "(int \<Rightarrow> tables \<Rightarrow> tables result) \<Rightarrow> unit io \<Rightarrow> bool" where
  "tx_step f m \<longleftrightarrow> (\<forall>w t r w'. tx w = Some t \<longrightarrow> m w = (r, w') \<longrightarrow>
     db w' = db w \<and> db_version w' = db_version w \<and> fs w' = fs w \<and> same_env w w' \<and>
     (case r of
        Ok _ \<Rightarrow> \<exists>now t'. int (clock w) \<le> now \<and> f now t = Inr t' \<and> tx w' = Some t'
      | Err e \<Rightarrow> calm w \<longrightarrow> (\<exists>now. f now t = Inl e)
      | Crash \<Rightarrow> \<not> calm w \<and> tx w' = None))"

lemma tx_stepI:
  assumes "\<And>w t r w'. tx w = Some t \<Longrightarrow> m w = (r, w') \<Longrightarrow>
    db w' = db w \<and> db_version w' = db_version w \<and> fs w' = fs w \<and> same_env w w' \<and>
     (case r of
        Ok _ \<Rightarrow> \<exists>now t'. int (clock w) \<le> now \<and> f now t = Inr t' \<and> tx w' = Some t'
      | Err e \<Rightarrow> calm w \<longrightarrow> (\<exists>now. f now t = Inl e)
      | Crash \<Rightarrow> \<not> calm w \<and> tx w' = None)"
  shows "tx_step f m"
  unfolding tx_step_def using assms by blast

lemma tx_stepE:
  assumes "tx_step f m" "tx w = Some t" "m w = (r, w')"
  obtains (frame) "db w' = db w" "db_version w' = db_version w" "fs w' = fs w" "same_env w w'"
    "\<And>x. r = Ok x \<Longrightarrow> \<exists>now t'. int (clock w) \<le> now \<and> f now t = Inr t' \<and> tx w' = Some t'"
    "\<And>e. r = Err e \<Longrightarrow> calm w \<Longrightarrow> \<exists>now. f now t = Inl e" "r = Crash \<Longrightarrow> \<not> calm w \<and> tx w' = None"
proof -
  have "db w' = db w \<and> db_version w' = db_version w \<and> fs w' = fs w \<and> same_env w w' \<and>
     (case r of
        Ok _ \<Rightarrow> \<exists>now t'. int (clock w) \<le> now \<and> f now t = Inr t' \<and> tx w' = Some t'
      | Err e \<Rightarrow> calm w \<longrightarrow> (\<exists>now. f now t = Inl e)
      | Crash \<Rightarrow> \<not> calm w \<and> tx w' = None)"
    using assms unfolding tx_step_def by blast
  then show thesis by (intro frame) auto
qed

lemma same_env_tick: "same_env w (tick w)" "same_env w (die (tick w))"
  by (auto simp: same_env_def tick_def die_def)

lemma same_env_refl: "same_env w w" and same_env_trans: "same_env u v \<Longrightarrow> same_env v w \<Longrightarrow> same_env u w"
  by (auto simp: same_env_def)

lemma same_env_set_cur: "same_env w v \<Longrightarrow> same_env w (set_cur t v)"
  by (auto simp: same_env_def set_cur_def split: option.splits)

lemma clock_tick: "clock w \<le> clock (tick w)"
  by (simp add: tick_def)

lemma tx_exec_now: "tx_step f (sql_exec_now f)"
proof (rule tx_stepI)
  fix w t r w' assume w: "tx w = Some t" and run: "sql_exec_now f w = (r, w')"
  have cur: "cur (tick w) = t" using w by (simp add: cur_def)
  show "db w' = db w \<and> db_version w' = db_version w \<and> fs w' = fs w \<and> same_env w w' \<and>
     (case r of
        Ok _ \<Rightarrow> \<exists>now t'. int (clock w) \<le> now \<and> f now t = Inr t' \<and> tx w' = Some t'
      | Err e \<Rightarrow> calm w \<longrightarrow> (\<exists>now. f now t = Inl e)
      | Crash \<Rightarrow> \<not> calm w \<and> tx w' = None)"
  proof (cases "o_fault (orc w) (steps w)")
    case Proceed
    show ?thesis
    proof (cases "f (int (clock (tick w))) t")
      case (Inl e)
      with Proceed run cur have "r = Err e" "w' = tick w"
        by (auto simp: sql_exec_now_def syscall_def syscall_part_def Let_def)
      with Inl show ?thesis by (auto simp: same_env_tick)
    next
      case (Inr t')
      with Proceed run cur w have r: "r = Ok ()" "w' = (tick w)\<lparr>tx := Some t'\<rparr>"
        by (auto simp: sql_exec_now_def syscall_def syscall_part_def Let_def set_cur_def)
      have "same_env w w'" using same_env_tick(1)[of w] r(2) by (simp add: same_env_def)
      with r Inr clock_tick[of w] show ?thesis by (auto intro!: exI[of _ "int (clock (tick w))"])
    qed
  qed (use run w in \<open>auto simp: sql_exec_now_def syscall_def syscall_part_def Let_def same_env_tick calm_def\<close>)
qed

lemma sql_exec_eq: "sql_exec f = sql_exec_now (\<lambda>_. f)"
  by (simp add: sql_exec_def sql_exec_now_def)

lemma tx_exec: "tx_step (\<lambda>_. f) (sql_exec f)"
  unfolding sql_exec_eq by (rule tx_exec_now)

lemma tx_fail: "tx_step (\<lambda>_ _. Inl e) (failM e)"
  by (rule tx_stepI) (auto simp: same_env_refl)

lemma tx_return: "tx_step (\<lambda>_. Inr) (returnM ())"
  by (rule tx_stepI) (auto simp: same_env_refl)

lemma tx_then:
  assumes m: "tx_step f m" and k: "tx_step (\<lambda>_. g) k"
  shows "tx_step (\<lambda>now t. result_bind (f now t) g) (thenM m k)"
proof (rule tx_stepI, goal_cases)
  case (1 w t r w')
  obtain r1 w1 where run1: "m w = (r1, w1)" by fastforce
  note step1 = m \<open>tx w = Some t\<close> run1
  show ?case
  proof (cases r1)
    case (Ok x)
    from step1 obtain now t1 where t1: "int (clock w) \<le> now" "f now t = Inr t1" "tx w1 = Some t1"
      by (rule tx_stepE) (use Ok in blast)
    have run2: "k w1 = (r, w')" using 1(2) run1 Ok by (simp add: thenM_def bindM_def)
    from step1 have w1: "db w1 = db w" "db_version w1 = db_version w" "fs w1 = fs w" "same_env w w1"
      by (rule tx_stepE, blast)+
    from k t1(3) run2 show ?thesis
    proof (rule tx_stepE)
      assume "db w' = db w1" "db_version w' = db_version w1" "fs w' = fs w1" "same_env w1 w'"
        and ok: "\<And>x. r = Ok x \<Longrightarrow> \<exists>now t'. int (clock w1) \<le> now \<and> g t1 = Inr t' \<and> tx w' = Some t'"
        and err: "\<And>e. r = Err e \<Longrightarrow> calm w1 \<Longrightarrow> \<exists>now. g t1 = Inl e" and crash: "r = Crash \<Longrightarrow> \<not> calm w1 \<and> tx w' = None"
      with w1 t1 show ?thesis
        by (auto split: outcome.splits intro: same_env_trans dest: calm_same_env)
          (metis calm_same_env result_bind.simps(2))+
    qed
  next
    case (Err e)
    with 1(2) run1 have r: "r = Err e" "w' = w1" by (auto simp: thenM_def bindM_def)
    from step1 show ?thesis by (rule tx_stepE) (use r Err in \<open>auto simp: result_bind_Inl_iff\<close>)
  next
    case Crash
    with 1(2) run1 have r: "r = Crash" "w' = w1" by (auto simp: thenM_def bindM_def)
    from step1 show ?thesis by (rule tx_stepE) (use r Crash in auto)
  qed
qed

fun fold_result :: "('b \<Rightarrow> 'a \<Rightarrow> 'a result) \<Rightarrow> 'b list \<Rightarrow> 'a \<Rightarrow> 'a result" where
  "fold_result f [] t = Inr t"
| "fold_result f (x # xs) t = result_bind (f x t) (fold_result f xs)"

lemma tx_for:
  assumes "\<And>x. tx_step (\<lambda>_. f x) (m x)"
  shows "tx_step (\<lambda>_. fold_result f xs) (forM xs m)"
proof (induction xs)
  case Nil
  have "(\<lambda>_. fold_result f []) = (\<lambda>_. Inr)" by (simp add: fun_eq_iff)
  with tx_return show ?case by simp
next
  case (Cons x xs)
  have "(\<lambda>_. fold_result f (x # xs)) = (\<lambda>_ t. result_bind (f x t) (fold_result f xs))" by (simp add: fun_eq_iff)
  with tx_then[OF assms Cons] show ?case by simp
qed

lemma tx_query:
  assumes "\<And>x. tx_step (\<lambda>_. h x) (k x)"
  shows "tx_step (\<lambda>_ t. h (q t) t) (bindM (sql_query q) k)"
proof (rule tx_stepI, goal_cases)
  case (1 w t r w')
  obtain r1 w1 where run1: "sql_query q w = (r1, w1)" by fastforce
  have cur: "cur w = t" using 1(1) by (simp add: cur_def)
  from run1 show ?case
  proof (rule sql_query_cases)
    assume r1: "r1 = Ok (q (cur w))" "w1 = tick w"
    then have run2: "k (q t) (tick w) = (r, w')" using 1(2) run1 cur by (simp add: bindM_def)
    have t: "tx (tick w) = Some t" using 1(1) by simp
    from assms t run2 show ?case
    proof (rule tx_stepE)
      assume "db w' = db (tick w)" "db_version w' = db_version (tick w)" "fs w' = fs (tick w)" "same_env (tick w) w'"
        and ok: "\<And>x. r = Ok x \<Longrightarrow> \<exists>now t'. int (clock (tick w)) \<le> now \<and> h (q t) t = Inr t' \<and> tx w' = Some t'"
        and err: "\<And>e. r = Err e \<Longrightarrow> calm (tick w) \<Longrightarrow> \<exists>now. h (q t) t = Inl e" and crash: "r = Crash \<Longrightarrow> \<not> calm (tick w) \<and> tx w' = None"
      then show ?case
        using same_env_tick(1)[of w] by (auto split: outcome.splits intro: same_env_trans dest: calm_same_env)
    qed
  qed (use 1 run1 in \<open>auto simp: bindM_def same_env_tick calm_def sql_query_def syscall_def syscall_part_def Let_def\<close>)
qed

text \<open>An all-or-nothing update of the committed tables by \<open>f\<close>.\<close>

definition atomic :: "(int \<Rightarrow> tables \<Rightarrow> tables result) \<Rightarrow> unit io \<Rightarrow> bool" where
  "atomic f m \<longleftrightarrow> (\<forall>w r w'. tx w = None \<longrightarrow> m w = (r, w') \<longrightarrow>
     tx w' = None \<and> db_version w' = db_version w \<and> fs w' = fs w \<and> same_env w w' \<and>
     (case r of
        Ok _ \<Rightarrow> \<exists>now. int (clock w) \<le> now \<and> f now (db w) = Inr (db w')
      | Err e \<Rightarrow> db w' = db w \<and> (calm w \<longrightarrow> (\<exists>now. f now (db w) = Inl e))
      | Crash \<Rightarrow> \<not> calm w \<and> (db w' = db w \<or> (\<exists>now. f now (db w) = Inr (db w')))))"

lemma atomicD:
  assumes "atomic f m" "tx w = None" "m w = (r, w')"
  shows "tx w' = None \<and> db_version w' = db_version w \<and> fs w' = fs w \<and> same_env w w' \<and>
     (case r of
        Ok _ \<Rightarrow> \<exists>now. int (clock w) \<le> now \<and> f now (db w) = Inr (db w')
      | Err e \<Rightarrow> db w' = db w \<and> (calm w \<longrightarrow> (\<exists>now. f now (db w) = Inl e))
      | Crash \<Rightarrow> \<not> calm w \<and> (db w' = db w \<or> (\<exists>now. f now (db w) = Inr (db w'))))"
  using assms unfolding atomic_def by blast

lemma sql_rollback_run:
  "tx (snd (sql_rollback w)) = None \<and> db (snd (sql_rollback w)) = db w \<and>
   db_version (snd (sql_rollback w)) = db_version w \<and> fs (snd (sql_rollback w)) = fs w \<and>
   same_env w (snd (sql_rollback w)) \<and>
   (fst (sql_rollback w) = Crash \<longrightarrow> \<not> calm w)"
  by (auto simp: sql_rollback_def syscall_part_def Let_def same_env_def tick_def die_def calm_def split: fault.splits)

lemma sql_commit_run:
  assumes "tx w = Some t" "sql_commit w = (r, w')"
  shows "db_version w' = db_version w \<and> fs w' = fs w \<and> same_env w w' \<and>
    (case r of Ok _ \<Rightarrow> db w' = t \<and> tx w' = None | Err e \<Rightarrow> db w' = db w \<and> \<not> calm w
     | Crash \<Rightarrow> db w' = db w \<and> \<not> calm w \<and> tx w' = None)"
  using assms same_env_tick[of w]
  by (auto simp: sql_commit_def syscall_def syscall_part_def Let_def same_env_def dest!: calm_fault split: fault.splits)

text \<open>A transaction body: it computes \<open>f\<close> on the tables it was begun with.\<close>

locale transaction =
  fixes body :: "unit io" and f :: "int \<Rightarrow> tables \<Rightarrow> tables result"
  assumes body_step: "tx_step f body"
begin

lemma body_commit:
  assumes "tx w = Some (db w)" "thenM body sql_commit w = (r, w')"
  shows "db_version w' = db_version w \<and> fs w' = fs w \<and> same_env w w' \<and>
     (case r of
        Ok _ \<Rightarrow> \<exists>now. int (clock w) \<le> now \<and> f now (db w) = Inr (db w')
      | Err e \<Rightarrow> db w' = db w \<and> (calm w \<longrightarrow> (\<exists>now. f now (db w) = Inl e))
      | Crash \<Rightarrow> \<not> calm w \<and> db w' = db w \<and> tx w' = None)"
proof -
  obtain r1 w1 where run1: "body w = (r1, w1)" by fastforce
  from body_step assms(1) run1 show ?thesis
  proof (rule tx_stepE)
    assume frame: "db w1 = db w" "db_version w1 = db_version w" "fs w1 = fs w" "same_env w w1"
      and ok: "\<And>x. r1 = Ok x \<Longrightarrow> \<exists>now t'. int (clock w) \<le> now \<and> f now (db w) = Inr t' \<and> tx w1 = Some t'"
      and err: "\<And>e. r1 = Err e \<Longrightarrow> calm w \<Longrightarrow> \<exists>now. f now (db w) = Inl e"
      and crash: "r1 = Crash \<Longrightarrow> \<not> calm w \<and> tx w1 = None"
    show ?thesis
    proof (cases r1)
      case (Ok x)
      then obtain now t where t: "int (clock w) \<le> now" "f now (db w) = Inr t" "tx w1 = Some t" using ok by blast
      have "sql_commit w1 = (r, w')" using assms(2) run1 Ok by (simp add: thenM_def bindM_def)
      from sql_commit_run[OF t(3) this] t frame show ?thesis
        by (auto split: outcome.splits intro: same_env_trans dest: calm_same_env)
    qed (use assms(2) run1 frame err crash in \<open>auto simp: thenM_def bindM_def\<close>)
  qed
qed

lemma atomic_transaction: "atomic f (transactional body)"
  unfolding atomic_def
proof (intro allI impI, goal_cases)
  case (1 w r w')
  obtain r0 w0 where run0: "sql_begin w = (r0, w0)" by fastforce
  show ?case
  proof (cases r0)
    case (Ok x)
    have w0: "w0 = (tick w)\<lparr>tx := Some (db w)\<rparr>"
      using syscall_OkE[OF run0[unfolded sql_begin_def Ok]] by simp
    have env0: "same_env w w0" using same_env_tick(1)[of w] w0 by (simp add: same_env_def)
    obtain r1 w1 where run1: "thenM body sql_commit w0 = (r1, w1)" by fastforce
    have "tx w0 = Some (db w0)" using w0 by simp
    note bc = body_commit[OF this run1]
    have r: "fst (sql_rollback w1) = Crash \<and> r = Crash \<and> w' = snd (sql_rollback w1) \<and> r1 \<noteq> Crash \<or>
      r = r1 \<and> w' = (if r1 = Crash then w1 else snd (sql_rollback w1))"
      using 1(2) run0 Ok run1
      by (cases r1; cases "sql_rollback w1"; cases "fst (sql_rollback w1)")
        (auto simp: transactional_def thenM_def bindM_def deferM_def tryM_def ignoreM_def returnM_def failM_def)
    have env1: "same_env w w1" and env2: "same_env w (snd (sql_rollback w1))"
      using bc env0 sql_rollback_run[of w1] by (blast intro: same_env_trans)+
    have calm: "calm w \<Longrightarrow> calm w0" "calm w \<Longrightarrow> calm w1"
      using env0 env1 by (blast intro: calm_same_env)+
    have same: "db w0 = db w" "db_version w0 = db_version w" "fs w0 = fs w" "int (clock w) \<le> int (clock w0)"
      using w0 env0 by (simp_all add: same_env_def)
    have rb: "tx (snd (sql_rollback w1)) = None" "db (snd (sql_rollback w1)) = db w1"
      "db_version (snd (sql_rollback w1)) = db_version w1" "fs (snd (sql_rollback w1)) = fs w1"
      "fst (sql_rollback w1) = Crash \<Longrightarrow> \<not> calm w1"
      using sql_rollback_run[of w1] by blast+
    show ?thesis
    proof (cases r1)
      case (Ok y)
      then obtain now where "int (clock w0) \<le> now" "f now (db w0) = Inr (db w1)" using bc by auto
      with r Ok same rb env2 calm bc show ?thesis by (auto split: outcome.splits intro!: exI[of _ now])
    next
      case (Err e)
      with r same rb env2 calm bc show ?thesis by (auto split: outcome.splits)
    next
      case Crash
      with r same rb env1 calm bc show ?thesis by (auto split: outcome.splits)
    qed
  qed (use 1 run0 in \<open>auto simp: transactional_def thenM_def bindM_def sql_begin_def syscall_def
        syscall_part_def Let_def same_env_tick dest!: calm_fault split: fault.splits\<close>)
qed

end

end
