(* ===== verification/DatabaseLaws.thy ===== *)
theory DatabaseLaws
  imports Database
begin

text \<open>
  What the database package promises: the three transactional updates are all-or-nothing,
  the other updates are single statements, every update keeps the invariant of the
  tables under every failure, the ports handed out are unused, and opening an existing
  database changes nothing in it.
\<close>

section \<open>The updates as functions on tables\<close>

definition insert_ports :: "string \<Rightarrow> int list \<Rightarrow> tables \<Rightarrow> tables result" where
  "insert_ports name = fold_result (sql_insert_reserved name)"

definition create_rows :: "Workspace \<Rightarrow> int list \<Rightarrow> int \<Rightarrow> tables \<Rightarrow> tables result" where
  "create_rows ws ports now t = result_bind (sql_insert_workspace now ws t) (insert_ports (ws_Name ws) ports)"

definition activate_row :: "string \<Rightarrow> tables \<Rightarrow> tables result" where
  "activate_row name t =
     (case sql_by_name name t of
        None \<Rightarrow> Inl (Msg ''sql: no rows in result set'')
      | Some ws \<Rightarrow>
          if ws_State ws \<noteq> running then Inl (Msg ''workspace is not running'')
          else Inr (sql_activate name (sql_deactivate_all t)))"

definition delete_rows :: "string \<Rightarrow> tables \<Rightarrow> tables result" where
  "delete_rows name t = Inr (sql_delete_workspace name (sql_delete_reserved name t))"

interpretation create: transaction
  "thenM (sql_exec_now (\<lambda>now. sql_insert_workspace now ws))
     (forM ports (\<lambda>port. sql_exec (sql_insert_reserved (ws_Name ws) port)))"
  "create_rows ws ports" for ws ports
proof
  have "create_rows ws ports = (\<lambda>now t. result_bind (sql_insert_workspace now ws t) (insert_ports (ws_Name ws) ports))"
    by (simp add: fun_eq_iff create_rows_def)
  then show "tx_step (create_rows ws ports) (thenM (sql_exec_now (\<lambda>now. sql_insert_workspace now ws))
     (forM ports (\<lambda>port. sql_exec (sql_insert_reserved (ws_Name ws) port))))"
    using tx_then[OF tx_exec_now tx_for[OF tx_exec]] by (simp add: insert_ports_def)
qed

interpretation delete: transaction
  "thenM (sql_exec (\<lambda>t. Inr (sql_delete_reserved name t))) (sql_exec (\<lambda>t. Inr (sql_delete_workspace name t)))"
  "\<lambda>_. delete_rows name" for name
proof
  show "tx_step (\<lambda>_. delete_rows name) (thenM (sql_exec (\<lambda>t. Inr (sql_delete_reserved name t)))
    (sql_exec (\<lambda>t. Inr (sql_delete_workspace name t))))"
    using tx_then[OF tx_exec[of "\<lambda>t. Inr (sql_delete_reserved name t)"] tx_exec[of "\<lambda>t. Inr (sql_delete_workspace name t)"]]
    by (simp add: delete_rows_def[abs_def])
qed

lemma tx_activate_row:
  "tx_step (\<lambda>_ t. case row of None \<Rightarrow> Inl (Msg ''sql: no rows in result set'')
      | Some ws \<Rightarrow> if ws_State ws \<noteq> running then Inl (Msg ''workspace is not running'')
          else Inr (sql_activate name (sql_deactivate_all t)))
    (case row of None \<Rightarrow> failM (Msg ''sql: no rows in result set'')
      | Some ws \<Rightarrow> if ws_State ws \<noteq> running then failM (Msg ''workspace is not running'')
          else thenM (sql_exec (\<lambda>t. Inr (sql_deactivate_all t))) (sql_exec (\<lambda>t. Inr (sql_activate name t))))"
  using tx_then[OF tx_exec[of "\<lambda>t. Inr (sql_deactivate_all t)"] tx_exec[of "\<lambda>t. Inr (sql_activate name t)"]]
  by (auto simp: tx_fail split: option.splits)

interpretation activate: transaction
  "bindM (sql_query (sql_by_name name)) (\<lambda>row. case row of None \<Rightarrow> failM (Msg ''sql: no rows in result set'')
      | Some ws \<Rightarrow> if ws_State ws \<noteq> running then failM (Msg ''workspace is not running'')
          else thenM (sql_exec (\<lambda>t. Inr (sql_deactivate_all t))) (sql_exec (\<lambda>t. Inr (sql_activate name t))))"
  "\<lambda>_. activate_row name" for name
proof
  show "tx_step (\<lambda>_. activate_row name) (bindM (sql_query (sql_by_name name)) (\<lambda>row.
      case row of None \<Rightarrow> failM (Msg ''sql: no rows in result set'')
      | Some ws \<Rightarrow> if ws_State ws \<noteq> running then failM (Msg ''workspace is not running'')
          else thenM (sql_exec (\<lambda>t. Inr (sql_deactivate_all t))) (sql_exec (\<lambda>t. Inr (sql_activate name t)))))"
    using tx_query[OF tx_activate_row[where name=name], where q="sql_by_name name"] by (simp add: activate_row_def[abs_def])
qed

lemma atomic_exec: "atomic (\<lambda>_. f) (sql_exec f)"
  unfolding atomic_def
  by (auto simp: sql_exec_def syscall_def syscall_part_def Let_def cur_def set_cur_def same_env_tick
      split: fault.splits sum.splits dest!: calm_fault intro: exI[of _ "int _"])
    (auto simp: same_env_def tick_def die_def intro: exI[of _ "int _"])

lemmas CreateWorkspace_atomic = create.atomic_transaction[folded CreateWorkspace_def]
lemmas DeleteWorkspace_atomic = delete.atomic_transaction[folded DeleteWorkspace_def]
lemmas SetActiveWorkspace_atomic = activate.atomic_transaction[folded SetActiveWorkspace_def]

section \<open>Creating and deleting\<close>

lemma insert_ports_Inr_iff:
  "insert_ports n ps t = Inr t' \<longleftrightarrow>
     (ps \<noteq> [] \<longrightarrow> n \<in> set (names_of t)) \<and> distinct ps \<and> (\<forall>p\<in>set ps. (n, p) \<notin> set (t_reserved t)) \<and>
     t' = t\<lparr>t_reserved := t_reserved t @ map (Pair n) ps\<rparr>"
proof (induction ps arbitrary: t)
  case Nil
  then show ?case by (auto simp: insert_ports_def)
next
  case (Cons p ps)
  have "insert_ports n (p # ps) t = result_bind (sql_insert_reserved n p t) (insert_ports n ps)"
    by (simp add: insert_ports_def)
  then show ?case
    using Cons.IH[of "t\<lparr>t_reserved := t_reserved t @ [(n, p)]\<rparr>"]
    by (auto simp: sql_insert_reserved_def names_of_def)
qed

text \<open>What \<open>create_rows\<close> needs and does.\<close>

definition creatable :: "Workspace \<Rightarrow> int list \<Rightarrow> tables \<Rightarrow> bool" where
  "creatable ws ports t \<longleftrightarrow> ws_Name ws \<notin> set (names_of t) \<and> ws_SSHPort ws \<notin> ws_SSHPort ` set (t_workspaces t) \<and>
     ws_RelayPort ws \<notin> ws_RelayPort ` set (t_workspaces t) \<and> distinct ports \<and>
     (\<forall>p\<in>set ports. (ws_Name ws, p) \<notin> set (t_reserved t))"

definition with_workspace :: "Workspace \<Rightarrow> int list \<Rightarrow> int \<Rightarrow> tables \<Rightarrow> tables" where
  "with_workspace ws ports now t =
     \<lparr>t_workspaces = t_workspaces t @ [ws\<lparr>ws_CreatedAt := now\<rparr>],
      t_reserved = t_reserved t @ map (Pair (ws_Name ws)) ports\<rparr>"

lemma create_rows_Inr_iff:
  "create_rows ws ports now t = Inr t' \<longleftrightarrow> creatable ws ports t \<and> t' = with_workspace ws ports now t"
proof -
  let ?t = "t\<lparr>t_workspaces := t_workspaces t @ [ws\<lparr>ws_CreatedAt := now\<rparr>]\<rparr>"
  have ins: "sql_insert_workspace now ws t = Inr u \<longleftrightarrow> ws_Name ws \<notin> set (names_of t) \<and>
      ws_SSHPort ws \<notin> ws_SSHPort ` set (t_workspaces t) \<and>
      ws_RelayPort ws \<notin> ws_RelayPort ` set (t_workspaces t) \<and> u = ?t" for u
    by (auto simp: sql_insert_workspace_def)
  have ports: "insert_ports (ws_Name ws) ports ?t = Inr t' \<longleftrightarrow>
      distinct ports \<and> (\<forall>p\<in>set ports. (ws_Name ws, p) \<notin> set (t_reserved t)) \<and> t' = with_workspace ws ports now t"
    unfolding insert_ports_Inr_iff by (auto simp: with_workspace_def names_of_def)
  show ?thesis unfolding create_rows_def by (auto simp: ins ports creatable_def)
qed

lemma CreateWorkspace_calm:
  assumes "calm w" "tx w = None" "creatable ws ports (db w)"
  shows "fst (CreateWorkspace ws ports w) = Ok ()"
proof -
  obtain r w' where run: "CreateWorkspace ws ports w = (r, w')" by fastforce
  have "create_rows ws ports now (db w) \<noteq> Inl e" for now e
    using assms(3) create_rows_Inr_iff[of ws ports now "db w" "with_workspace ws ports now (db w)"] by simp
  then show ?thesis
    using atomicD[OF CreateWorkspace_atomic assms(2) run] assms(1) run by (cases r) auto
qed

text \<open>C12. \<^verbatim>\<open>CreateWorkspace\<close> is all-or-nothing. Success means that the row (with its creation
  time) and every port declaration have been added and nothing else changed; after an error
  the database is as before, and after a crash it is either as before or complete.
  When no call fails, it succeeds exactly if the name and both ports are new and the
  declared ports are distinct.\<close>

theorem CreateWorkspace_all_or_nothing:
  assumes "tx w = None" "CreateWorkspace ws ports w = (r, w')"
  shows "tx w' = None \<and>
    (case r of
       Ok _ \<Rightarrow> creatable ws ports (db w) \<and> (\<exists>now\<ge>int (clock w). db w' = with_workspace ws ports now (db w))
     | Err e \<Rightarrow> db w' = db w \<and> (calm w \<longrightarrow> \<not> creatable ws ports (db w))
     | Crash \<Rightarrow> \<not> calm w \<and> (db w' = db w \<or>
         creatable ws ports (db w) \<and> (\<exists>now. db w' = with_workspace ws ports now (db w))))"
proof -
  have no: "\<not> creatable ws ports t" if "create_rows ws ports now t = Inl e" for now t e
    using that create_rows_Inr_iff[of ws ports now t "with_workspace ws ports now t"] by auto
  show ?thesis
    using atomicD[OF CreateWorkspace_atomic assms] by (auto simp: create_rows_Inr_iff split: outcome.splits dest: no)
qed

text \<open>C29. \<^verbatim>\<open>DeleteWorkspace\<close> is all-or-nothing: on success exactly the rows of that name and
  their port declarations are gone; on an error nothing is; a crash leaves one of the
  two. It cannot fail when no call fails.\<close>

theorem DeleteWorkspace_all_or_nothing:
  assumes "tx w = None" "DeleteWorkspace name w = (r, w')"
  shows "tx w' = None \<and>
    (let gone = \<lparr>t_workspaces = filter (\<lambda>v. ws_Name v \<noteq> name) (t_workspaces (db w)),
                t_reserved = filter (\<lambda>(n, p). n \<noteq> name) (t_reserved (db w))\<rparr> in
     case r of Ok _ \<Rightarrow> db w' = gone | Err e \<Rightarrow> db w' = db w \<and> \<not> calm w | Crash \<Rightarrow> \<not> calm w \<and> (db w' = db w \<or> db w' = gone))"
proof -
  have "sql_delete_workspace name (sql_delete_reserved name t) =
      \<lparr>t_workspaces = filter (\<lambda>v. ws_Name v \<noteq> name) (t_workspaces t),
       t_reserved = filter (\<lambda>(n, p). n \<noteq> name) (t_reserved t)\<rparr>" for t :: tables
    by (cases t) (simp add: sql_delete_workspace_def sql_delete_reserved_def)
  then show ?thesis
    using atomicD[OF DeleteWorkspace_atomic assms] by (auto simp: delete_rows_def Let_def split: outcome.splits)
qed

section \<open>Switching\<close>

lemma activate_row_Inr:
  assumes "activate_row n t = Inr t'"
  obtains ws where "sql_by_name n t = Some ws" "ws_State ws = running" "ws_Name ws = n" "ws \<in> set (t_workspaces t)"
    "t' = t\<lparr>t_workspaces := map (set_active n) (t_workspaces t)\<rparr>" "t' = sql_activate n (sql_deactivate_all t)"
proof -
  obtain ws where ws: "sql_by_name n t = Some ws" "ws_State ws = running" "t' = sql_activate n (sql_deactivate_all t)"
    using assms by (auto simp: activate_row_def split: option.splits if_splits)
  have "ws_Name ws = n" "ws \<in> set (t_workspaces t)"
    using ws(1) by (auto simp: sql_by_name_def find_Some_iff)
  moreover have "sql_activate n (sql_deactivate_all t) = t\<lparr>t_workspaces := map (set_active n) (t_workspaces t)\<rparr>"
    using switch_rows[of n t] by (simp add: sql_activate_def sql_deactivate_all_def sql_update_where_def)
  ultimately show thesis using that ws by simp
qed

text \<open>C18. \<^verbatim>\<open>SetActiveWorkspace\<close> moves the activation and never splits it: on success the named
  workspace is running, it is the only active row afterwards, and no other column
  has changed; an error (in particular: the workspace is missing or not running) leaves the
  old activation in place; a crash leaves either the old or the new one.\<close>

theorem SetActiveWorkspace_exclusive:
  assumes "tx w = None" "schema_ok (db w)" "SetActiveWorkspace name w = (r, w')"
  shows "tx w' = None \<and>
    (let new = (db w)\<lparr>t_workspaces := map (set_active name) (t_workspaces (db w))\<rparr> in
     case r of
       Ok _ \<Rightarrow> db w' = new \<and> (\<exists>ws. ws \<in> set (t_workspaces (db w)) \<and> ws_Name ws = name \<and> ws_State ws = running \<and>
          filter ws_IsActive (t_workspaces (db w')) = [set_active name ws])
     | Err e \<Rightarrow> db w' = db w \<and>
         (calm w \<longrightarrow> \<not> (\<exists>ws. ws \<in> set (t_workspaces (db w)) \<and> ws_Name ws = name \<and> ws_State ws = running))
     | Crash \<Rightarrow> \<not> calm w \<and> (db w' = db w \<or> db w' = new))"
proof -
  let ?new = "(db w)\<lparr>t_workspaces := map (set_active name) (t_workspaces (db w))\<rparr>"
  have d: "distinct (names_of (db w))" using assms(2) by (simp add: schema_ok_def)
  have ok: "u = ?new \<and> (\<exists>ws. ws \<in> set (t_workspaces (db w)) \<and> ws_Name ws = name \<and> ws_State ws = running \<and>
      filter ws_IsActive (t_workspaces u) = [set_active name ws])"
    if act: "activate_row name (db w) = Inr u" for u
  proof -
    obtain ws where ws: "ws_State ws = running" "ws_Name ws = name" "ws \<in> set (t_workspaces (db w))"
      "u = ?new" "u = sql_activate name (sql_deactivate_all (db w))"
      using act by (rule activate_row_Inr)
    have "filter ws_IsActive (t_workspaces u) = [set_active name ws]"
      using active_after_switch[OF d ws(3)] by (simp only: ws(2) ws(5)[symmetric])
    then show ?thesis using ws(1-4) by blast
  qed
  have err: "\<not> (\<exists>ws. ws \<in> set (t_workspaces (db w)) \<and> ws_Name ws = name \<and> ws_State ws = running)"
    if "activate_row name (db w) = Inl e" for e
    using that d by (auto simp: activate_row_def sql_by_name_iff sql_by_name_None_iff names_of_def
        split: option.splits if_splits dest: distinct_map_eq)
  note run = atomicD[OF SetActiveWorkspace_atomic assms(1,3)]
  show ?thesis
  proof (cases r)
    case (Ok x)
    with run have "tx w' = None" "activate_row name (db w) = Inr (db w')" by auto
    with ok[of "db w'"] show ?thesis unfolding Ok Let_def outcome.case by blast
  next
    case (Err e)
    with run show ?thesis using err by (auto simp: Let_def)
  next
    case Crash
    with run have "tx w' = None" "\<not> calm w" "db w' = db w \<or> activate_row name (db w) = Inr (db w')" by auto
    with ok[of "db w'"] show ?thesis unfolding Crash Let_def outcome.case by blast
  qed
qed

section \<open>The invariant\<close>

definition keeps_inv :: "world \<Rightarrow> world \<Rightarrow> bool" where
  "keeps_inv w w' \<longleftrightarrow> (tx w = None \<and> db_inv (db w) \<longrightarrow> tx w' = None \<and> db_inv (db w'))"

interpretation inv: ignores_host keeps_inv
  by unfold_locales (auto simp: keeps_inv_def)

lemma atomic_keeps_inv:
  assumes "atomic f m" "\<And>now t t'. db_inv t \<Longrightarrow> f now t = Inr t' \<Longrightarrow> db_inv t'"
  shows "maintains keeps_inv m"
proof (rule maintainsI)
  fix w
  obtain r w' where run: "m w = (r, w')" by fastforce
  show "keeps_inv w (snd (m w))"
    using atomicD[OF assms(1) _ run] assms(2) run by (auto simp: keeps_inv_def split: outcome.splits)
qed

text \<open>A row that may be published: not running, no process, not active.\<close>

definition fresh_row :: "Workspace \<Rightarrow> bool" where
  "fresh_row ws \<longleftrightarrow> ws_State ws = stopped \<and> ws_PID ws = 0 \<and> \<not> ws_IsActive ws"

lemma db_inv_create:
  assumes "db_inv t" "create_rows ws ports now t = Inr t'" "fresh_row ws"
  shows "db_inv t'"
proof -
  obtain u where u: "sql_insert_workspace now ws t = Inr u" and p: "insert_ports (ws_Name ws) ports u = Inr t'"
    using assms(2) by (auto simp: create_rows_def)
  have "row_ok ws" using assms(3) by (simp add: fresh_row_def row_ok_def)
  then have inv: "schema_ok u" "routing_ok u"
    using assms u schema_ok_insert_workspace routing_ok_insert_workspace by (auto simp: db_inv_def fresh_row_def)
  have "t' = u\<lparr>t_reserved := t_reserved u @ map (Pair (ws_Name ws)) ports\<rparr>" "distinct ports"
    "\<forall>p\<in>set ports. (ws_Name ws, p) \<notin> set (t_reserved u)" "ports \<noteq> [] \<longrightarrow> ws_Name ws \<in> set (names_of u)"
    using p by (simp_all add: insert_ports_Inr_iff)
  then show ?thesis
    using inv by (auto simp: db_inv_def schema_ok_def names_of_def distinct_map inj_on_def)
qed

lemma db_inv_delete: "db_inv t \<Longrightarrow> delete_rows n t = Inr t' \<Longrightarrow> db_inv t'"
  by (auto simp: delete_rows_def db_inv_def schema_ok_delete_workspace schema_ok_delete_reserved routing_ok_delete_workspace)

lemma db_inv_activate: "db_inv t \<Longrightarrow> activate_row n t = Inr t' \<Longrightarrow> db_inv t'"
  by (auto elim!: activate_row_Inr simp: db_inv_def dest: routing_ok_switch simp del: select_convs)

lemma db_inv_set_state: "db_inv t \<Longrightarrow> s = running \<or> s = stopped \<and> pid = 0 \<Longrightarrow> db_inv (sql_set_state n s pid t)"
  by (auto simp: db_inv_def routing_ok_set_state)

lemma inv_CreateWorkspace: "fresh_row ws \<Longrightarrow> maintains keeps_inv (CreateWorkspace ws ports)"
  by (rule atomic_keeps_inv[OF CreateWorkspace_atomic]) (rule db_inv_create)

lemma inv_DeleteWorkspace: "maintains keeps_inv (DeleteWorkspace n)"
  by (rule atomic_keeps_inv[OF DeleteWorkspace_atomic]) (rule db_inv_delete)

lemma inv_SetActiveWorkspace: "maintains keeps_inv (SetActiveWorkspace n)"
  by (rule atomic_keeps_inv[OF SetActiveWorkspace_atomic]) (rule db_inv_activate)

lemma inv_SetWorkspaceState:
  "s = running \<or> s = stopped \<and> pid = 0 \<Longrightarrow> maintains keeps_inv (SetWorkspaceState n s pid)"
  unfolding SetWorkspaceState_def
  by (rule atomic_keeps_inv[OF atomic_exec]) (use db_inv_set_state in auto)

lemma inv_AddReservedPort: "maintains keeps_inv (AddReservedPort n p)"
  unfolding AddReservedPort_def
  by (rule atomic_keeps_inv[OF atomic_exec])
    (auto simp: db_inv_def sql_insert_or_ignore_reserved_def schema_ok_insert_reserved routing_ok_insert_reserved
      split: if_splits)

lemma inv_initializeSchema: "maintains keeps_inv initializeSchema"
proof -
  have empty: "db_inv \<lparr>t_workspaces = [], t_reserved = []\<rparr>"
    by (simp add: db_inv_def schema_ok_def routing_ok_def names_of_def)
  have some: "db_inv (t\<lparr>t_reserved := []\<rparr>)" if "db_inv t" for t
    using that by (simp add: db_inv_def schema_ok_def names_of_def)
  have "maintains keeps_inv sql_drop_tables"
    unfolding sql_drop_tables_def
    by (rule inv.m_syscall_part) (auto simp: keeps_inv_def cur_def set_cur_def empty some split: option.splits)
  moreover have "maintains keeps_inv (sql_exec Inr)"
    by (rule atomic_keeps_inv[OF atomic_exec]) auto
  moreover have "maintains keeps_inv (sql_set_user_version v)" "maintains keeps_inv sql_user_version" for v
    unfolding sql_set_user_version_def sql_user_version_def by (rule inv.m_syscall, simp add: keeps_inv_def)+
  ultimately show ?thesis
    unfolding initializeSchema_def
    by (intro inv.rules) (auto intro!: inv.rules)
qed

section \<open>Port allocation\<close>

text \<open>An allocator hands out the number after the largest one in a column.\<close>

locale port_allocator =
  fixes column :: "Workspace \<Rightarrow> int" and base :: int and alloc :: "int io"
  assumes alloc_first: "alloc w = (Ok p, w') \<Longrightarrow> sql_max column (cur w) = None \<Longrightarrow> p = base"
    and alloc_next: "alloc w = (Ok p, w') \<Longrightarrow> sql_max column (cur w) = Some m \<Longrightarrow> p = m + 1"
    and alloc_pure: "alloc w = (r, w') \<Longrightarrow> db w' = db w \<and> (tx w = None \<longrightarrow> tx w' = None) \<and> same_env w w'"
    and alloc_total: "calm w \<Longrightarrow> \<exists>p w'. alloc w = (Ok p, w')"
begin

lemma fresh:
  assumes "alloc w = (Ok p, w')" "row \<in> set (t_workspaces (cur w))"
  shows "column row < p"
proof (cases "sql_max column (cur w)")
  case None
  with assms(2) show ?thesis by (simp add: sql_max_None_iff)
next
  case (Some m)
  with alloc_next[OF assms(1)] sql_max_ge[OF Some assms(2)] show ?thesis by simp
qed

lemma at_least_base:
  assumes "alloc w = (Ok p, w')" "\<forall>row\<in>set (t_workspaces (cur w)). base \<le> column row"
  shows "base \<le> p"
proof (cases "sql_max column (cur w)")
  case None
  with alloc_first[OF assms(1)] show ?thesis by simp
next
  case (Some m)
  with alloc_next[OF assms(1)] sql_max_in[OF Some] assms(2) show ?thesis by fastforce
qed

end

lemma alloc_laws:
  assumes "a = bindM (sql_query (sql_max f)) (\<lambda>m. case m of None \<Rightarrow> returnM b | Some p \<Rightarrow> returnM (p + 1))"
  shows "port_allocator f b a"
proof
  fix w p w' m
  show "a w = (Ok p, w') \<Longrightarrow> sql_max f (cur w) = None \<Longrightarrow> p = b"
    "a w = (Ok p, w') \<Longrightarrow> sql_max f (cur w) = Some m \<Longrightarrow> p = m + 1"
    unfolding assms by (auto elim!: bindM_OkE sql_query_OkE split: option.splits)
next
  fix w r w' assume run: "a w = (r, w')"
  have m: "maintains same_db a" "maintains same_env a"
    unfolding assms
    by (intro nodb.rules; simp add: nodb.rules split: option.splits)
      (intro env.rules; simp add: env.rules split: option.splits)
  show "db w' = db w \<and> (tx w = None \<longrightarrow> tx w' = None) \<and> same_env w w'"
    using maintainsD[OF m(1) run] maintainsD[OF m(2) run] by (simp add: same_db_def)
next
  fix w :: world assume "calm w"
  then show "\<exists>p w'. a w = (Ok p, w')"
    unfolding assms by (auto simp: bindM_def sql_query_def calm_syscall returnM_def split: option.splits)
qed

interpretation ssh_ports: port_allocator ws_SSHPort SSHPortBase NextSSHPort
  by (rule alloc_laws) (simp add: NextSSHPort_def)

interpretation relay_ports: port_allocator ws_RelayPort RelayPortBase NextRelayPort
  by (rule alloc_laws) (simp add: NextRelayPort_def)

text \<open>The ports handed out by \<^verbatim>\<open>NextSSHPort\<close> and \<^verbatim>\<open>NextRelayPort\<close> are larger than all
  ports in use and not below their bases, so a workspace with a new name and distinct
  declared ports can always be created with them: without a failing call \<^verbatim>\<open>CreateWorkspace\<close>
  succeeds.\<close>

theorem allocated_ports_usable:
  assumes "tx w = None" "schema_ok (db w)"
    and "\<forall>row\<in>set (t_workspaces (db w)). SSHPortBase \<le> ws_SSHPort row \<and> RelayPortBase \<le> ws_RelayPort row"
    and "NextSSHPort w = (Ok p, w1)" "NextRelayPort w1 = (Ok q, w2)"
    and "ws_Name ws \<notin> set (names_of (db w))" "distinct ports"
  shows "SSHPortBase \<le> p \<and> RelayPortBase \<le> q \<and>
    (\<forall>row\<in>set (t_workspaces (db w)). ws_SSHPort row < p \<and> ws_RelayPort row < q) \<and>
    (calm w2 \<longrightarrow> fst (CreateWorkspace (ws\<lparr>ws_SSHPort := p, ws_RelayPort := q\<rparr>) ports w2) = Ok ())"
proof -
  have w1: "db w1 = db w" "tx w1 = None" and w2: "db w2 = db w" "tx w2 = None"
    using ssh_ports.alloc_pure[OF assms(4)] relay_ports.alloc_pure[OF assms(5)] assms(1) by auto
  have cur: "cur w = db w" "cur w1 = db w" using assms(1) w1 by (simp_all add: cur_def)
  have less: "\<forall>row\<in>set (t_workspaces (db w)). ws_SSHPort row < p \<and> ws_RelayPort row < q"
    using ssh_ports.fresh[OF assms(4)] relay_ports.fresh[OF assms(5)] cur by simp
  have "SSHPortBase \<le> p" "RelayPortBase \<le> q"
    using ssh_ports.at_least_base[OF assms(4)] relay_ports.at_least_base[OF assms(5)] assms(3) cur by simp_all
  moreover have "fst (CreateWorkspace (ws\<lparr>ws_SSHPort := p, ws_RelayPort := q\<rparr>) ports w2) = Ok ()" if "calm w2"
  proof -
    let ?ws = "ws\<lparr>ws_SSHPort := p, ws_RelayPort := q\<rparr>"
    have "creatable ?ws ports (db w2)"
      using assms(2,6,7) less w2 by (auto simp: creatable_def schema_ok_def names_of_def)
    then show ?thesis using CreateWorkspace_calm w2(2) that by blast
  qed
  ultimately show ?thesis using less by blast
qed

section \<open>Opening\<close>

lemma initializeSchema_run:
  assumes "tx w = None" "initializeSchema w = (r, w')"
  shows "tx w' = None \<and>
    (db_version w = schemaVersion \<longrightarrow> db w' = db w \<and> db_version w' = schemaVersion) \<and>
    (db_version w \<noteq> 0 \<and> db_version w \<noteq> schemaVersion \<longrightarrow> db w' = db w \<and> db_version w' = db_version w \<and> r \<noteq> Ok ()) \<and>
    (db_version w = 0 \<longrightarrow> db_version w' = 0 \<and> r \<noteq> Ok () \<or>
       db_version w' = schemaVersion \<and> db w' = \<lparr>t_workspaces = [], t_reserved = []\<rparr>)"
  using assms
  by (auto simp: initializeSchema_def bindM_def thenM_def wrapM_def tryM_def failM_def returnM_def
      sql_user_version_def sql_drop_tables_def sql_exec_def sql_set_user_version_def schemaVersion_def
      syscall_def syscall_part_def Let_def cur_def set_cur_def split: fault.splits if_splits)

lemma inv_Open: "maintains keeps_inv Open"
  unfolding Open_def
  by (intro inv.host_rules inv.config_rules inv.m_LockMetadata inv_initializeSchema)

text \<open>What a run of the schema code may do to an existing database.\<close>

definition opened_from :: "world \<Rightarrow> world \<Rightarrow> bool" where
  "opened_from w w' \<longleftrightarrow>
     (db_version w = schemaVersion \<longrightarrow> db w' = db w \<and> db_version w' = schemaVersion) \<and>
     (db_version w \<noteq> 0 \<and> db_version w \<noteq> schemaVersion \<longrightarrow> db w' = db w \<and> db_version w' = db_version w) \<and>
     (db_version w = 0 \<longrightarrow> db_version w' = 0 \<or>
        db_version w' = schemaVersion \<and> db w' = \<lparr>t_workspaces = [], t_reserved = []\<rparr>)"

lemma same_db_opened: "same_db w w1 \<Longrightarrow> opened_from w1 w2 \<Longrightarrow> same_db w2 w3 \<Longrightarrow> opened_from w w3"
  by (auto simp: same_db_def opened_from_def)

lemma same_db_opened_from: "same_db w w' \<Longrightarrow> opened_from w w'"
  by (auto simp: same_db_def opened_from_def)

definition open_prefix :: "nat io" where
  "open_prefix = bindM (wrapM ''db path'' DBPath) (\<lambda>path. thenM (wrapM ''open db'' sys_noop)
     (thenM (wrapM ''configure database busy timeout'' sys_noop)
     (thenM (wrapM ''enable foreign keys'' sys_noop) LockMetadata)))"

lemma Open_prefix: "Open = bindM open_prefix (\<lambda>file.
    tryM initializeSchema (\<lambda>_. ignoreM (sys_close file))
      (\<lambda>e. thenM (ignoreM (sys_close file)) (failM (Wrap ''initialize schema'' e))))"
  unfolding Open_def open_prefix_def thenM_def bindM_assoc ..

text \<open>C33. Opening a database of the current schema version never changes its rows, an
  unsupported version is refused and left alone, and a version-0 file ends up at the current
  version only with both tables empty; when \<^verbatim>\<open>Open\<close> succeeds the version is the current one.
  This holds under every failure and at every crash point.\<close>

theorem Open_preserves:
  assumes "tx w = None" "Open w = (r, w')"
  shows "tx w' = None \<and> opened_from w w' \<and> (r = Ok () \<longrightarrow> db_version w' = schemaVersion)"
proof -
  obtain r1 w1 where run1: "open_prefix w = (r1, w1)" by fastforce
  have pre: "maintains same_db open_prefix"
    unfolding open_prefix_def by (intro nodb.rules nodb.config_rules nodb.m_LockMetadata)
  have d1: "same_db w w1" using maintainsD[OF pre run1] .
  show ?thesis
  proof (cases r1)
    case (Ok fd)
    let ?c = "sys_close fd"
    obtain r2 w2 where run2: "initializeSchema w1 = (r2, w2)" by fastforce
    have "tx w1 = None" using d1 assms(1) by (simp add: same_db_def)
    note init = initializeSchema_run[OF this run2]
    have o2: "opened_from w1 w2" using init by (auto simp: opened_from_def)
    have w': "w' = w2 \<and> r = Crash \<or> w' = snd (?c w2) \<and> (r = Ok () \<longrightarrow> r2 = Ok ())"
      using assms(2) run1 Ok run2 unfolding Open_prefix
      by (cases r2; cases "?c w2"; cases "fst (?c w2)")
        (auto simp: bindM_def tryM_def thenM_def ignoreM_def returnM_def failM_def)
    have "same_db w2 (snd (?c w2))" "same_db w2 w2"
      using nodb.lock_rules(4) nodb.R_refl by (auto simp: maintains_def)
    then have d2: "same_db w2 w'" using w' by auto
    have "r = Ok () \<Longrightarrow> db_version w2 = schemaVersion" using w' init by auto
    then show ?thesis
      using same_db_opened[OF d1 o2 d2] init d2 by (auto simp: same_db_def)
  next
    case (Err e)
    with assms(2) run1 have "r = Err e" "w' = w1" by (auto simp: Open_prefix bindM_def)
    with d1 assms(1) show ?thesis using same_db_opened_from by (auto simp: same_db_def)
  next
    case Crash
    with assms(2) run1 have "r = Crash" "w' = w1" by (auto simp: Open_prefix bindM_def)
    with d1 assms(1) show ?thesis using same_db_opened_from by (auto simp: same_db_def)
  qed
qed

section \<open>Examples\<close>

definition row :: "string \<Rightarrow> int \<Rightarrow> string \<Rightarrow> bool \<Rightarrow> Workspace" where
  "row n k st act = \<lparr>ws_Name = n, ws_Image = ''img'', ws_ImageDigest = ''sha'', ws_WorkspaceDir = ''/d/workspaces/'' @ n,
     ws_DiskPath = ''/d/workspaces/'' @ n @ ''/rootfs.ext4'', ws_ParentName = [], ws_SSHPort = 2222 + k,
     ws_RelayPort = 9001 + k, ws_CPUs = 2, ws_Memory = 512, ws_State = st, ws_IsActive = act, ws_PID = 0, ws_CreatedAt = 0\<rparr>"

text \<open>Two workspaces, both running and both declaring port 3000; \<^verbatim>\<open>a\<close> is active.\<close>

definition demo :: world where
  "demo = blank\<lparr>db := \<lparr>t_workspaces = [row ''a'' 0 running True, row ''b'' 1 running False],
     t_reserved = [(''a'', 3000), (''b'', 3000), (''b'', 4000)]\<rparr>\<rparr>"

lemma demo_facts: "tx demo = None" "db_inv (db demo)" "calm demo"
  by (simp_all add: demo_def blank_def quiet_def calm_def db_inv_def schema_ok_def routing_ok_def row_ok_def
      names_of_def row_def)

theorem CreateWorkspace_all_or_nothing_witness:
  "fst (CreateWorkspace (row ''c'' 2 stopped False) [3000] demo) = Ok () \<and>
   creatable (row ''c'' 2 stopped False) [3000] (db demo) \<and>
   (\<exists>now. db (snd (CreateWorkspace (row ''c'' 2 stopped False) [3000] demo)) =
      with_workspace (row ''c'' 2 stopped False) [3000] now (db demo))"
proof -
  have ok: "fst (CreateWorkspace (row ''c'' 2 stopped False) [3000] demo) = Ok ()" by code_simp
  show ?thesis using CreateWorkspace_all_or_nothing[OF demo_facts(1) run_pair[OF ok]] ok by auto
qed

theorem DeleteWorkspace_all_or_nothing_witness:
  "fst (DeleteWorkspace ''b'' demo) = Ok () \<and>
   db (snd (DeleteWorkspace ''b'' demo)) = \<lparr>t_workspaces = [row ''a'' 0 running True], t_reserved = [(''a'', 3000)]\<rparr>"
proof -
  have ok: "fst (DeleteWorkspace ''b'' demo) = Ok ()" by code_simp
  show ?thesis
    using DeleteWorkspace_all_or_nothing[OF demo_facts(1) run_pair[OF ok]] ok
    by (simp add: demo_def row_def)
qed

theorem SetActiveWorkspace_exclusive_witness:
  "fst (SetActiveWorkspace ''b'' demo) = Ok () \<and>
   t_workspaces (db (snd (SetActiveWorkspace ''b'' demo))) = [row ''a'' 0 running False, row ''b'' 1 running True]"
proof -
  have ok: "fst (SetActiveWorkspace ''b'' demo) = Ok ()" by code_simp
  have "schema_ok (db demo)" using demo_facts(2) by (simp add: db_inv_def)
  then show ?thesis
    using SetActiveWorkspace_exclusive[OF demo_facts(1) _ run_pair[OF ok]] ok
    by (simp add: demo_def row_def set_active_def)
qed

theorem allocated_ports_usable_witness:
  "fst (NextSSHPort demo) = Ok 2224 \<and> fst (NextRelayPort (snd (NextSSHPort demo))) = Ok 9003 \<and>
   SSHPortBase \<le> 2224 \<and> RelayPortBase \<le> 9003"
proof -
  have p: "fst (NextSSHPort demo) = Ok 2224" by code_simp
  have q: "fst (NextRelayPort (snd (NextSSHPort demo))) = Ok 9003" by code_simp
  have "schema_ok (db demo)" using demo_facts(2) by (simp add: db_inv_def)
  moreover have "\<forall>row\<in>set (t_workspaces (db demo)). SSHPortBase \<le> ws_SSHPort row \<and> RelayPortBase \<le> ws_RelayPort row"
    "ws_Name (row ''c'' 0 stopped False) \<notin> set (names_of (db demo))" "distinct ([3000]::int list)"
    by (simp_all add: demo_def row_def SSHPortBase_def RelayPortBase_def names_of_def)
  ultimately show ?thesis
    using allocated_ports_usable[OF demo_facts(1) _ _ run_pair[OF p] run_pair[OF q]] p q by blast
qed

theorem Open_preserves_witness:
  "fst (Open demo) = Ok () \<and> opened_from demo (snd (Open demo)) \<and> db_version (snd (Open demo)) = schemaVersion"
proof -
  have ok: "fst (Open demo) = Ok ()" by code_simp
  show ?thesis using Open_preserves[OF demo_facts(1) run_pair[OF ok]] ok by simp
qed

end
