(* ===== verification/JsonText.thy ===== *)
theory JsonText
  imports GoStrings
begin

text \<open>
  JSON string literals as Go's \<^verbatim>\<open>encoding/json\<close> writes and reads them, on bytes: UTF-8
  sequences are copied, invalid bytes become U+FFFD, control characters, quotes,
  backslashes, the HTML characters and U+2028/2029 are escaped. The round trip holds for
  every valid UTF-8 string.
\<close>

section \<open>UTF-8\<close>

abbreviation byte :: "char \<Rightarrow> nat" where "byte c \<equiv> of_char c"

definition in_range :: "nat \<Rightarrow> nat \<Rightarrow> char \<Rightarrow> bool" where
  "in_range lo hi c = (lo \<le> byte c \<and> byte c \<le> hi)"

definition cont :: "char \<Rightarrow> bool" where
  "cont c = in_range 128 191 c"

text \<open>The tables of \<^verbatim>\<open>unicode/utf8\<close>: the length that a first byte announces (0 for a byte
  that cannot be first), and the range of the second byte.\<close>

definition utf8_need :: "nat \<Rightarrow> nat" where
  "utf8_need b = (if b < 128 then 1 else if 194 \<le> b \<and> b \<le> 223 then 2
     else if 224 \<le> b \<and> b \<le> 239 then 3 else if 240 \<le> b \<and> b \<le> 244 then 4 else 0)"

definition utf8_second :: "nat \<Rightarrow> char \<Rightarrow> bool" where
  "utf8_second b = in_range (if b = 224 then 160 else if b = 240 then 144 else 128)
     (if b = 237 then 159 else if b = 244 then 143 else 191)"

definition utf8_tail :: "nat \<Rightarrow> string \<Rightarrow> bool" where
  "utf8_tail b t = (case t of [] \<Rightarrow> True | c # cs \<Rightarrow> utf8_second b c \<and> list_all cont cs)"

text \<open>The number of bytes of the well-formed sequence at the head of a string, 0 if there is
  none.\<close>

definition utf8_len :: "string \<Rightarrow> nat" where
  "utf8_len s =
     (case s of [] \<Rightarrow> 0
      | c # cs \<Rightarrow>
         (let n = utf8_need (byte c); t = take (n - 1) cs in
          if n \<noteq> 0 \<and> length t = n - 1 \<and> utf8_tail (byte c) t then n else 0))"

lemma utf8_len_le: "utf8_len s \<le> length s"
  by (cases s) (auto simp: utf8_len_def Let_def min_def split: if_splits)

lemma utf8_len_take: "0 < utf8_len s \<Longrightarrow> utf8_len (take (utf8_len s) s @ r) = utf8_len s"
proof (cases s)
  case (Cons c cs)
  assume pos: "0 < utf8_len s"
  then obtain k where k: "utf8_need (byte c) = Suc k" "k \<le> length cs" "utf8_tail (byte c) (take k cs)"
    "utf8_len s = Suc k"
    using Cons by (cases "utf8_need (byte c)") (auto simp: utf8_len_def Let_def min_def split: if_splits)
  then show ?thesis using Cons by (simp add: utf8_len_def)
qed (simp add: utf8_len_def)

lemma utf8_len_ascii: "byte c < 128 \<Longrightarrow> utf8_len (c # cs) = 1"
  by (simp add: utf8_len_def utf8_need_def utf8_tail_def)

function valid_utf8 :: "string \<Rightarrow> bool" where
  "valid_utf8 s =
     (if s = [] then True else if utf8_len s = 0 then False else valid_utf8 (drop (utf8_len s) s))"
  by pat_completeness auto
termination
  by (relation "measure length") auto

declare valid_utf8.simps [simp del]

lemma valid_ascii: "list_all (\<lambda>c. byte c < 128) s \<Longrightarrow> valid_utf8 s"
  by (induction s) (simp_all add: valid_utf8.simps[of "[]"] valid_utf8.simps[of "_ # _"] utf8_len_ascii)

text \<open>The UTF-8 bytes of a code point below \<open>0x110000\<close>.\<close>

definition utf8_encode :: "nat \<Rightarrow> string" where
  "utf8_encode n =
     (if n < 128 then [char_of n]
      else if n < 2048 then [char_of (192 + n div 64), char_of (128 + n mod 64)]
      else if n < 65536 then
        [char_of (224 + n div 4096), char_of (128 + n div 64 mod 64), char_of (128 + n mod 64)]
      else [char_of (240 + n div 262144), char_of (128 + n div 4096 mod 64),
            char_of (128 + n div 64 mod 64), char_of (128 + n mod 64)])"

definition ufffd :: string where
  "ufffd = utf8_encode 65533"

section \<open>Writing\<close>

abbreviation quote :: char where "quote \<equiv> CHR 0x22"
abbreviation backslash :: char where "backslash \<equiv> CHR 0x5C"

definition hex_4 :: "nat \<Rightarrow> string" where
  "hex_4 n = [hex_digit (n div 4096 mod 16), hex_digit (n div 256 mod 16), hex_digit (n div 16 mod 16), hex_digit (n mod 16)]"

definition escape_u :: "nat \<Rightarrow> string" where
  "escape_u n = backslash # CHR ''u'' # hex_4 n"

definition escape_ascii :: "char \<Rightarrow> string" where
  "escape_ascii c =
     (if c = quote \<or> c = backslash then [backslash, c]
      else if c = CHR 0x08 then [backslash, CHR ''b'']
      else if c = CHR 0x0C then [backslash, CHR ''f'']
      else if c = CHR 0x0A then [backslash, CHR ''n'']
      else if c = CHR 0x0D then [backslash, CHR ''r'']
      else if c = CHR 0x09 then [backslash, CHR ''t'']
      else if byte c < 32 \<or> c = CHR ''<'' \<or> c = CHR ''>'' \<or> c = CHR ''&'' then escape_u (byte c)
      else [c])"

definition line_sep :: string where "line_sep = utf8_encode 8232"
definition para_sep :: string where "para_sep = utf8_encode 8233"

function quote_body :: "string \<Rightarrow> string" where
  "quote_body s =
     (case s of [] \<Rightarrow> []
      | c # cs \<Rightarrow>
         if byte c < 128 then escape_ascii c @ quote_body cs
         else if utf8_len s = 0 then escape_u 65533 @ quote_body cs
         else if take 3 s = line_sep then escape_u 8232 @ quote_body (drop 3 s)
         else if take 3 s = para_sep then escape_u 8233 @ quote_body (drop 3 s)
         else take (utf8_len s) s @ quote_body (drop (utf8_len s) s))"
  by pat_completeness auto
termination
  by (relation "measure length") auto

declare quote_body.simps [simp del]

definition json_quote :: "string \<Rightarrow> string" where
  "json_quote s = quote # quote_body s @ [quote]"

section \<open>Reading\<close>

definition hex_val :: "char \<Rightarrow> nat option" where
  "hex_val c =
     (let b = byte c in
      if 48 \<le> b \<and> b \<le> 57 then Some (b - 48)
      else if 97 \<le> b \<and> b \<le> 102 then Some (b - 87)
      else if 65 \<le> b \<and> b \<le> 70 then Some (b - 55)
      else None)"

fun hex4 :: "string \<Rightarrow> (nat \<times> string) option" where
  "hex4 (a # b # c # d # r) =
     (case (hex_val a, hex_val b, hex_val c, hex_val d) of
        (Some i, Some j, Some k, Some l) \<Rightarrow> Some (4096 * i + 256 * j + 16 * k + l, r)
      | _ \<Rightarrow> None)"
| "hex4 _ = None"

text \<open>The escape after \<^verbatim>\<open>\u\<close>: two surrogates are combined, a lone one is U+FFFD.\<close>

definition read_u :: "string \<Rightarrow> (string \<times> string) option" where
  "read_u s =
     (case hex4 s of
        None \<Rightarrow> None
      | Some (n, r) \<Rightarrow>
          if 55296 \<le> n \<and> n < 57344 then
            (case r of
               a # b # r1 \<Rightarrow>
                 if a = backslash \<and> b = CHR ''u'' then
                   (case hex4 r1 of
                      Some (m, r2) \<Rightarrow>
                        if n < 56320 \<and> 56320 \<le> m \<and> m < 57344
                        then Some (utf8_encode (65536 + (n - 55296) * 1024 + (m - 56320)), r2)
                        else Some (ufffd, r)
                    | None \<Rightarrow> Some (ufffd, r))
                 else Some (ufffd, r)
             | _ \<Rightarrow> Some (ufffd, r))
          else Some (utf8_encode n, r))"

definition read_escape :: "string \<Rightarrow> (string \<times> string) option" where
  "read_escape s =
     (case s of
        [] \<Rightarrow> None
      | c # r \<Rightarrow>
         if c = quote \<or> c = backslash \<or> c = CHR ''/'' then Some ([c], r)
         else if c = CHR ''b'' then Some ([CHR 0x08], r)
         else if c = CHR ''f'' then Some ([CHR 0x0C], r)
         else if c = CHR ''n'' then Some ([CHR 0x0A], r)
         else if c = CHR ''r'' then Some ([CHR 0x0D], r)
         else if c = CHR ''t'' then Some ([CHR 0x09], r)
         else if c = CHR ''u'' then read_u r
         else None)"

lemma hex4_length: "hex4 s = Some (n, r) \<Longrightarrow> length r < length s"
  by (induction s rule: hex4.induct) (auto split: option.splits)

lemma read_u_length: "read_u s = Some (x, r) \<Longrightarrow> length r < length s"
  by (auto simp: read_u_def split: option.splits list.splits if_splits prod.splits dest!: hex4_length)

lemma read_escape_length: "read_escape s = Some (x, r) \<Longrightarrow> length r < length s"
  by (auto simp: read_escape_def split: list.splits if_splits dest!: read_u_length)

function read_str :: "string \<Rightarrow> (string \<times> string) option" where
  "read_str s =
     (case s of
        [] \<Rightarrow> None
      | c # cs \<Rightarrow>
         if c = quote then Some ([], cs)
         else if c = backslash then
           (case read_escape cs of None \<Rightarrow> None
            | Some (x, r) \<Rightarrow> map_option (apfst ((@) x)) (read_str r))
         else if byte c < 32 then None
         else if byte c < 128 then map_option (apfst ((@) [c])) (read_str cs)
         else if utf8_len s = 0 then map_option (apfst ((@) ufffd)) (read_str cs)
         else map_option (apfst ((@) (take (utf8_len s) s))) (read_str (drop (utf8_len s) s)))"
  by pat_completeness auto
termination
  by (relation "measure length") (auto dest!: read_escape_length)

declare read_str.simps [simp del]

section \<open>Round trip\<close>

lemma hex_val_hex_digit: "d < 16 \<Longrightarrow> hex_val (hex_digit d) = Some d"
  by (simp add: hex_val_def hex_digit_def Let_def)

lemma hex4_hex_4:
  assumes "n < 65536"
  shows "hex4 (hex_4 n @ r) = Some (n, r)"
proof -
  have "n = 16 * (n div 16) + n mod 16" "n div 16 = 16 * (n div 256) + n div 16 mod 16"
    "n div 256 = 16 * (n div 4096) + n div 256 mod 16"
    using div_mult2_eq[of n 16 16] div_mult2_eq[of n 256 16]
      mult_div_mod_eq[of 16 "n div 16"] mult_div_mod_eq[of 16 "n div 256"] by simp_all
  moreover have "n div 4096 mod 16 = n div 4096" using assms by simp
  ultimately have sum: "4096 * (n div 4096 mod 16) + 256 * (n div 256 mod 16) + 16 * (n div 16 mod 16) + n mod 16 = n"
    by linarith
  have "hex4 (hex_4 n @ r) = Some (4096 * (n div 4096 mod 16) + 256 * (n div 256 mod 16) + 16 * (n div 16 mod 16) + n mod 16, r)"
    unfolding hex_4_def by (simp only: append_Cons append_Nil hex4.simps hex_val_hex_digit mod_less_divisor
        zero_less_numeral option.case prod.case)
  then show ?thesis by (simp only: sum)
qed

lemma read_str_backslash:
  "read_escape s = Some (x, r) \<Longrightarrow> read_str (backslash # s) = map_option (apfst ((@) x)) (read_str r)"
  by (subst read_str.simps) simp

lemma read_str_escape_u:
  assumes "n < 55296 \<or> 57344 \<le> n \<and> n < 65536"
  shows "read_str (escape_u n @ r) = map_option (apfst ((@) (utf8_encode n))) (read_str r)"
proof -
  have n: "n < 65536" using assms by auto
  have "read_u (hex_4 n @ r) = Some (utf8_encode n, r)"
    using assms by (auto simp: read_u_def hex4_hex_4[OF n])
  then have "read_escape (CHR ''u'' # hex_4 n @ r) = Some (utf8_encode n, r)"
    by (simp add: read_escape_def)
  then show ?thesis by (simp add: escape_u_def read_str_backslash)
qed

lemma utf8_encode_ascii: "byte c < 128 \<Longrightarrow> utf8_encode (byte c) = [c]"
  by (simp add: utf8_encode_def)

lemma read_str_escape_ascii:
  assumes "byte c < 128"
  shows "read_str (escape_ascii c @ r) = map_option (apfst ((@) [c])) (read_str r)"
proof -
  have pair: "read_str ([backslash, e] @ r) = map_option (apfst ((@) [x])) (read_str r)"
    if "read_escape (e # r) = Some ([x], r)" for e x
    using read_str_backslash[OF that] by simp
  have plain: "read_str ([c] @ r) = map_option (apfst ((@) [c])) (read_str r)"
    if "\<not> byte c < 32" "c \<noteq> quote" "c \<noteq> backslash"
    using that assms by (subst read_str.simps) simp
  have u: "read_str (escape_u (byte c) @ r) = map_option (apfst ((@) [c])) (read_str r)"
    using read_str_escape_u[of "byte c" r] assms by (simp add: utf8_encode_ascii)
  consider "c = quote" | "c = backslash" | "c = CHR 0x08" | "c = CHR 0x0C" | "c = CHR 0x0A" | "c = CHR 0x0D"
    | "c = CHR 0x09" | (rest) "c \<noteq> quote" "c \<noteq> backslash" "c \<noteq> CHR 0x08" "c \<noteq> CHR 0x0C" "c \<noteq> CHR 0x0A"
      "c \<noteq> CHR 0x0D" "c \<noteq> CHR 0x09" by blast
  then show ?thesis
  proof cases
    case rest
    then have esc: "escape_ascii c = (if byte c < 32 \<or> c = CHR ''<'' \<or> c = CHR ''>'' \<or> c = CHR ''&''
        then escape_u (byte c) else [c])"
      by (simp only: escape_ascii_def simp_thms if_False)
    show ?thesis
    proof (cases "byte c < 32 \<or> c = CHR ''<'' \<or> c = CHR ''>'' \<or> c = CHR ''&''")
      case True
      then show ?thesis using u by (simp only: esc if_True)
    next
      case False
      then show ?thesis using plain rest(1,2) unfolding esc by simp
    qed
  qed (simp_all add: escape_ascii_def read_escape_def pair[simplified])
qed

lemma sep_bytes: "line_sep = [CHR 0xE2, CHR 0x80, CHR 0xA8]" "para_sep = [CHR 0xE2, CHR 0x80, CHR 0xA9]"
  by (simp_all add: line_sep_def para_sep_def utf8_encode_def char_of_def bit_0)

lemma utf8_len_sep: "take 3 s = line_sep \<or> take 3 s = para_sep \<Longrightarrow> utf8_len s = 3"
proof -
  assume t: "take 3 s = line_sep \<or> take 3 s = para_sep"
  have "utf8_len (line_sep @ r) = 3" "utf8_len (para_sep @ r) = 3" for r
    by (simp_all add: sep_bytes utf8_len_def utf8_need_def utf8_tail_def utf8_second_def in_range_def cont_def
        numeral_3_eq_3)
  moreover have "s = take 3 s @ drop 3 s" by simp
  ultimately show ?thesis using t by metis
qed

lemma read_str_multi:
  assumes "\<not> byte c < 128" "utf8_len (c # t) \<noteq> 0"
  shows "read_str (c # t) =
    map_option (apfst ((@) (take (utf8_len (c # t)) (c # t)))) (read_str (drop (utf8_len (c # t)) (c # t)))"
  using assms by (subst read_str.simps) auto

lemma read_str_copy:
  assumes "\<not> byte (hd s) < 128" "0 < utf8_len s"
  shows "read_str (take (utf8_len s) s @ r) = map_option (apfst ((@) (take (utf8_len s) s))) (read_str r)"
proof -
  let ?u = "take (utf8_len s) s @ r"
  obtain c cs where s: "s = c # cs" using assms(2) by (cases s) (auto simp: utf8_len_def)
  have n: "utf8_len ?u = utf8_len s" by (rule utf8_len_take[OF assms(2)])
  obtain t where t: "?u = c # t" using s assms(2) by (cases "utf8_len s") auto
  have "utf8_len ?u \<noteq> 0" using n assms(2) by simp
  then have "read_str ?u = map_option (apfst ((@) (take (utf8_len ?u) ?u))) (read_str (drop (utf8_len ?u) ?u))"
    unfolding t using assms(1) s by (intro read_str_multi) auto
  moreover have "take (utf8_len s) ?u = take (utf8_len s) s" "drop (utf8_len s) ?u = r"
    using utf8_len_le[of s] by simp_all
  ultimately show ?thesis by (simp only: n)
qed

lemma read_str_quote_body: "valid_utf8 s \<Longrightarrow> read_str (quote_body s @ quote # r) = Some (s, r)"
proof (induction s rule: quote_body.induct)
  case (1 s)
  show ?case
  proof (cases s)
    case Nil
    then show ?thesis by (simp add: quote_body.simps read_str.simps[of "quote # r"])
  next
    case (Cons c cs)
    have len: "utf8_len s \<noteq> 0" and rest: "valid_utf8 (drop (utf8_len s) s)"
      using 1(6) Cons valid_utf8.simps[of s] by (simp_all split: if_splits)
    consider (ascii) "byte c < 128" | (sep) "\<not> byte c < 128" "take 3 s = line_sep \<or> take 3 s = para_sep"
      | (copy) "\<not> byte c < 128" "take 3 s \<noteq> line_sep" "take 3 s \<noteq> para_sep" by blast
    then show ?thesis
    proof cases
      case ascii
      then have "valid_utf8 cs" using rest Cons by (simp add: utf8_len_ascii)
      with 1(1)[OF Cons ascii] ascii Cons show ?thesis
        by (simp add: quote_body.simps[of "c # cs"] read_str_escape_ascii)
    next
      case sep
      then have n: "utf8_len s = 3" by (intro utf8_len_sep)
      have enc: "utf8_encode 8232 = line_sep" "utf8_encode 8233 = para_sep" by (simp_all add: line_sep_def para_sep_def)
      have IH: "read_str (quote_body (drop 3 s) @ quote # r) = Some (drop 3 s, r)"
        using 1(3,4)[OF Cons] sep len rest n by (cases "take 3 s = line_sep") auto
      have one: ?thesis if t: "take 3 s = q" and q: "q = utf8_encode k" "k = 8232 \<or> k = 8233" for q k
      proof -
        have "quote_body s = escape_u k @ quote_body (drop 3 s)"
          using sep len q t by (auto simp: Cons quote_body.simps[of "c # cs"] enc sep_bytes)
        then have "read_str (quote_body s @ quote # r) = Some (take 3 s @ drop 3 s, r)"
          using IH q t by (auto simp: read_str_escape_u)
        then show ?thesis by simp
      qed
      show ?thesis using sep(2) one enc by metis
    next
      case copy
      have IH: "read_str (quote_body (drop (utf8_len s) s) @ quote # r) = Some (drop (utf8_len s) s, r)"
        using 1(5)[OF Cons copy(1) len copy(2,3) rest] .
      have "quote_body s = take (utf8_len s) s @ quote_body (drop (utf8_len s) s)"
        using copy len by (simp add: Cons quote_body.simps[of "c # cs"])
      then show ?thesis
        using read_str_copy[of s "quote_body (drop (utf8_len s) s) @ quote # r"] IH copy(1) len Cons by simp
    qed
  qed
qed

end
