(* ===== verification/Json.thy ===== *)
theory Json
  imports JsonText
begin

text \<open>
  JSON values, their two printed forms (\<^verbatim>\<open>json.Marshal\<close> and \<^verbatim>\<open>json.MarshalIndent(v, "", "  ")\<close>)
  and the parser of \<^verbatim>\<open>json.Unmarshal\<close>. The parser runs on fuel; \<open>json_parse\<close> gives it more than
  two units per input byte, which suffices because every nested call has consumed a byte (\<open>json_parse_enough\<close>).
  The round trip is proved for every value whose strings are valid UTF-8 and whose
  numbers are integers.
\<close>

datatype json = JNull | JBool bool | JNum string | JStr string | JArr "json list" | JObj "(string \<times> json) list"

section \<open>Printing\<close>

definition nl :: "bool \<Rightarrow> nat \<Rightarrow> string" where
  "nl ind d = (if ind then CHR 0x0A # replicate (2 * d) CHR '' '' else [])"

definition colon :: "bool \<Rightarrow> string" where
  "colon ind = (if ind then '': '' else '':'')"

fun pr :: "bool \<Rightarrow> nat \<Rightarrow> json \<Rightarrow> string"
  and pr_elems :: "bool \<Rightarrow> nat \<Rightarrow> json list \<Rightarrow> string"
  and pr_members :: "bool \<Rightarrow> nat \<Rightarrow> (string \<times> json) list \<Rightarrow> string" where
  "pr i d JNull = ''null''"
| "pr i d (JBool b) = (if b then ''true'' else ''false'')"
| "pr i d (JNum s) = s"
| "pr i d (JStr s) = json_quote s"
| "pr i d (JArr vs) = (if vs = [] then ''[]'' else CHR ''['' # pr_elems i d vs)"
| "pr i d (JObj ms) = (if ms = [] then ''{}'' else CHR ''{'' # pr_members i d ms)"
| "pr_elems i d [] = []"
| "pr_elems i d (v # vs) = nl i (Suc d) @ pr i (Suc d) v @
     (if vs = [] then nl i d @ '']'' else CHR '','' # pr_elems i d vs)"
| "pr_members i d [] = []"
| "pr_members i d ((k, v) # ms) = nl i (Suc d) @ json_quote k @ colon i @ pr i (Suc d) v @
     (if ms = [] then nl i d @ ''}'' else CHR '','' # pr_members i d ms)"

definition json_Marshal :: "json \<Rightarrow> string" where
  "json_Marshal v = pr False 0 v"

definition json_MarshalIndent :: "json \<Rightarrow> string" where
  "json_MarshalIndent v = pr True 0 v"

section \<open>Parsing\<close>

definition is_ws :: "char \<Rightarrow> bool" where
  "is_ws c = (c = CHR '' '' \<or> c = CHR 0x09 \<or> c = CHR 0x0A \<or> c = CHR 0x0D)"

definition skip_ws :: "string \<Rightarrow> string" where
  "skip_ws s = dropWhile is_ws s"

text \<open>\<^verbatim>\<open>-?(0|[1-9][0-9]*)(\.[0-9]+)?([eE][+-]?[0-9]+)?\<close>, the literal and what follows it.\<close>

definition read_digits :: "string \<Rightarrow> string \<times> string" where
  "read_digits s = (takeWhile is_digit s, dropWhile is_digit s)"

definition read_exp :: "string \<Rightarrow> (string \<times> string) option" where
  "read_exp s =
     (case s of
        e # r \<Rightarrow>
          if e = CHR ''e'' \<or> e = CHR ''E'' then
            (let (sg, r1) = (case r of c # r' \<Rightarrow> if c = CHR ''+'' \<or> c = CHR ''-'' then ([c], r') else ([], r) | [] \<Rightarrow> ([], r));
                 (ds, r2) = read_digits r1
             in if ds = [] then None else Some (e # sg @ ds, r2))
          else Some ([], s)
      | [] \<Rightarrow> Some ([], s))"

definition read_frac :: "string \<Rightarrow> (string \<times> string) option" where
  "read_frac s =
     (case s of
        c # r \<Rightarrow>
          if c = CHR ''.'' then (let (ds, r1) = read_digits r in if ds = [] then None else Some (c # ds, r1))
          else Some ([], s)
      | [] \<Rightarrow> Some ([], s))"

definition read_num :: "string \<Rightarrow> (string \<times> string) option" where
  "read_num s =
     (let (sg, r) = (case s of c # r \<Rightarrow> if c = CHR ''-'' then ([c], r) else ([], s) | [] \<Rightarrow> ([], s));
          (ds, r1) = (case r of c # r' \<Rightarrow> if c = CHR ''0'' then ([c], r') else read_digits r | [] \<Rightarrow> ([], r))
      in if ds = [] then None
         else case read_frac r1 of None \<Rightarrow> None
              | Some (fs, r2) \<Rightarrow> (case read_exp r2 of None \<Rightarrow> None | Some (es, r3) \<Rightarrow> Some (sg @ ds @ fs @ es, r3)))"

fun parse :: "nat \<Rightarrow> string \<Rightarrow> (json \<times> string) option"
  and parse_elems :: "nat \<Rightarrow> string \<Rightarrow> (json list \<times> string) option"
  and parse_members :: "nat \<Rightarrow> string \<Rightarrow> ((string \<times> json) list \<times> string) option" where
  "parse 0 s = None"
| "parse (Suc f) s =
     (case skip_ws s of
        [] \<Rightarrow> None
      | c # r \<Rightarrow>
         if c = quote then map_option (apfst JStr) (read_str r)
         else if c = CHR ''['' then
           (case skip_ws r of c' # r' \<Rightarrow>
              if c' = CHR '']'' then Some (JArr [], r') else map_option (apfst JArr) (parse_elems f r)
            | [] \<Rightarrow> None)
         else if c = CHR ''{'' then
           (case skip_ws r of c' # r' \<Rightarrow>
              if c' = CHR ''}'' then Some (JObj [], r') else map_option (apfst JObj) (parse_members f r)
            | [] \<Rightarrow> None)
         else if prefix ''true'' (c # r) then Some (JBool True, drop 4 (c # r))
         else if prefix ''false'' (c # r) then Some (JBool False, drop 5 (c # r))
         else if prefix ''null'' (c # r) then Some (JNull, drop 4 (c # r))
         else map_option (apfst JNum) (read_num (c # r)))"
| "parse_elems 0 s = None"
| "parse_elems (Suc f) s =
     (case parse f s of
        None \<Rightarrow> None
      | Some (v, r) \<Rightarrow>
         (case skip_ws r of
            c # r' \<Rightarrow>
              if c = CHR '','' then map_option (apfst (Cons v)) (parse_elems f r')
              else if c = CHR '']'' then Some ([v], r') else None
          | [] \<Rightarrow> None))"
| "parse_members 0 s = None"
| "parse_members (Suc f) s =
     (case skip_ws s of
        [] \<Rightarrow> None
      | q # r \<Rightarrow>
         if q \<noteq> quote then None
         else case read_str r of None \<Rightarrow> None
         | Some (k, r1) \<Rightarrow>
           (case skip_ws r1 of [] \<Rightarrow> None
            | c # r2 \<Rightarrow>
              if c \<noteq> CHR '':'' then None
              else case parse f r2 of None \<Rightarrow> None
              | Some (v, r3) \<Rightarrow>
                (case skip_ws r3 of
                   c' # r4 \<Rightarrow>
                     if c' = CHR '','' then map_option (apfst (Cons (k, v))) (parse_members f r4)
                     else if c' = CHR ''}'' then Some ([(k, v)], r4) else None
                 | [] \<Rightarrow> None)))"

definition json_parse :: "string \<Rightarrow> json option" where
  "json_parse s =
     (case parse (2 * length s + 2) s of
        None \<Rightarrow> None
      | Some (v, r) \<Rightarrow> if skip_ws r = [] then Some v else None)"

section \<open>Round trip\<close>

fun json_wf :: "json \<Rightarrow> bool" where
  "json_wf JNull = True"
| "json_wf (JBool b) = True"
| "json_wf (JNum s) = (\<exists>i. s = strconv_Itoa i)"
| "json_wf (JStr s) = valid_utf8 s"
| "json_wf (JArr vs) = (\<forall>v\<in>set vs. json_wf v)"
| "json_wf (JObj ms) = (\<forall>(k, v)\<in>set ms. valid_utf8 k \<and> json_wf v)"

fun need :: "json \<Rightarrow> nat" and need_elems :: "json list \<Rightarrow> nat" and need_members :: "(string \<times> json) list \<Rightarrow> nat" where
  "need (JArr vs) = Suc (need_elems vs)"
| "need (JObj ms) = Suc (need_members ms)"
| "need _ = 1"
| "need_elems [] = 0"
| "need_elems (v # vs) = Suc (max (need v) (need_elems vs))"
| "need_members [] = 0"
| "need_members ((k, v) # ms) = Suc (max (need v) (need_members ms))"

text \<open>What may follow a number without being read as a part of it.\<close>

definition num_stop :: "string \<Rightarrow> bool" where
  "num_stop r = (case r of [] \<Rightarrow> True | c # _ \<Rightarrow> \<not> is_digit c \<and> c \<noteq> CHR ''.'' \<and> c \<noteq> CHR ''e'' \<and> c \<noteq> CHR ''E'')"

lemma nat_digits_hd: "0 < n \<Longrightarrow> hd (nat_digits n) \<noteq> CHR ''0''"
proof (induction n rule: nat_digits.induct)
  case (1 n)
  show ?case
  proof (cases "n < 10")
    case True
    have "of_char (digit_char n) = 48 + n" using True by (rule of_char_digit_char)
    with 1(2) have "digit_char n \<noteq> CHR ''0''" by auto
    with True show ?thesis by (simp add: nat_digits.simps[of n])
  next
    case False
    then have "hd (nat_digits n) = hd (nat_digits (n div 10))" by (simp add: nat_digits.simps[of n])
    with 1(1)[OF False] False show ?thesis by simp
  qed
qed

lemma read_digits_nat: "num_stop r \<Longrightarrow> read_digits (nat_digits n @ r) = (nat_digits n, r)"
  by (cases r) (auto simp: read_digits_def num_stop_def takeWhile_append dropWhile_append nat_digits_are_digits)

lemma nat_digits_0: "nat_digits 0 = ''0''"
  by (simp add: nat_digits.simps digit_char_def char_of_def bit_0)

lemma read_tail: "num_stop r \<Longrightarrow> read_frac r = Some ([], r) \<and> read_exp r = Some ([], r)"
  by (cases r) (auto simp: num_stop_def read_frac_def read_exp_def)

lemma read_num_digits:
  assumes "num_stop r"
  shows "(case nat_digits n @ r of c # r' \<Rightarrow> if c = CHR ''0'' then ([c], r') else read_digits (nat_digits n @ r) | [] \<Rightarrow> ([], r))
    = (nat_digits n, r)"
proof (cases "n = 0")
  case True
  then show ?thesis by (simp add: nat_digits_0)
next
  case False
  then obtain c t where c: "nat_digits n = c # t" "c \<noteq> CHR ''0''"
    using nat_digits_hd[of n] by (cases "nat_digits n") auto
  then show ?thesis using read_digits_nat[OF assms, of n] by simp
qed

lemma read_num_Itoa:
  assumes "num_stop r"
  shows "read_num (strconv_Itoa i @ r) = Some (strconv_Itoa i, r)"
proof (cases "i < 0")
  case True
  define ds where "ds = nat_digits (nat (- i))"
  have ds: "ds \<noteq> []" "strconv_Itoa i = CHR ''-'' # ds" using True by (simp_all add: ds_def strconv_Itoa_def)
  have "(case ds @ r of c # r' \<Rightarrow> if c = CHR ''0'' then ([c], r') else read_digits (ds @ r) | [] \<Rightarrow> ([], ds @ r)) = (ds, r)"
    using read_num_digits[OF assms, of "nat (- i)"] ds(1) unfolding ds_def by (cases "nat_digits (nat (- i))") auto
  then show ?thesis using ds read_tail[OF assms] by (simp add: read_num_def)
next
  case False
  define ds where "ds = nat_digits (nat i)"
  have ds: "ds \<noteq> []" "strconv_Itoa i = ds" using False by (simp_all add: ds_def strconv_Itoa_def)
  have sg: "(case ds @ r of c # r' \<Rightarrow> if c = CHR ''-'' then ([c], r') else ([], ds @ r) | [] \<Rightarrow> ([], ds @ r)) = ([], ds @ r)"
    using minus_not_digit[of "nat i"] ds(1) unfolding ds_def by (cases "nat_digits (nat i)") auto
  have "(case ds @ r of c # r' \<Rightarrow> if c = CHR ''0'' then ([c], r') else read_digits (ds @ r) | [] \<Rightarrow> ([], ds @ r)) = (ds, r)"
    using read_num_digits[OF assms, of "nat i"] ds(1) unfolding ds_def by (cases "nat_digits (nat i)") auto
  then show ?thesis using ds sg read_tail[OF assms] by (simp add: read_num_def)
qed

text \<open>The first character of a printed value.\<close>

definition value_start :: "char \<Rightarrow> bool" where
  "value_start c = (c = quote \<or> c = CHR ''['' \<or> c = CHR ''{'' \<or> c = CHR ''t'' \<or> c = CHR ''f'' \<or> c = CHR ''n'' \<or>
     c = CHR ''-'' \<or> is_digit c)"

lemma value_start_not: "value_start c \<Longrightarrow> \<not> is_ws c \<and> c \<noteq> CHR '']'' \<and> c \<noteq> CHR ''}''"
  by (auto simp: value_start_def is_ws_def is_digit_def)

lemma Itoa_head: "\<exists>c t. strconv_Itoa i = c # t \<and> (c = CHR ''-'' \<or> is_digit c)"
proof -
  obtain c t where ct: "nat_digits (nat \<bar>i\<bar>) = c # t" by (cases "nat_digits (nat \<bar>i\<bar>)") auto
  then have "is_digit c" using nat_digits_are_digits[of c "nat \<bar>i\<bar>"] by simp
  with ct show ?thesis by (cases "i < 0") (auto simp: strconv_Itoa_def)
qed

lemma pr_head: "json_wf v \<Longrightarrow> \<exists>c t. pr i d v = c # t \<and> value_start c"
  using Itoa_head by (cases v) (fastforce simp: json_quote_def value_start_def)+

lemma skip_ws_nl: "skip_ws (nl i d @ s) = skip_ws s"
  by (auto simp: skip_ws_def nl_def is_ws_def dropWhile_append)

lemma skip_ws_start: "\<not> is_ws c \<Longrightarrow> skip_ws (c # s) = c # s"
  by (simp add: skip_ws_def)

lemma num_stop_intros: "num_stop []" "num_stop (CHR '','' # s)" "num_stop (nl i d @ CHR '']'' # s)"
    "num_stop (nl i d @ CHR ''}'' # s)" "num_stop (CHR 0x0A # s)"
  by (auto simp: num_stop_def nl_def is_digit_def)

lemma parse_skip: "parse f (nl i d @ s) = parse f s"
  by (cases f) (simp_all add: skip_ws_nl)

lemma parse_members_skip: "parse_members f (nl i d @ s) = parse_members f s"
  by (cases f) (simp_all add: skip_ws_nl)

lemma parse_head:
  assumes "value_start c"
  shows "parse (Suc f) (c # r) =
     (if c = quote then map_option (apfst JStr) (read_str r)
      else if c = CHR ''['' then
        (case skip_ws r of c' # r' \<Rightarrow>
           if c' = CHR '']'' then Some (JArr [], r') else map_option (apfst JArr) (parse_elems f r)
         | [] \<Rightarrow> None)
      else if c = CHR ''{'' then
        (case skip_ws r of c' # r' \<Rightarrow>
           if c' = CHR ''}'' then Some (JObj [], r') else map_option (apfst JObj) (parse_members f r)
         | [] \<Rightarrow> None)
      else if prefix ''true'' (c # r) then Some (JBool True, drop 4 (c # r))
      else if prefix ''false'' (c # r) then Some (JBool False, drop 5 (c # r))
      else if prefix ''null'' (c # r) then Some (JNull, drop 4 (c # r))
      else map_option (apfst JNum) (read_num (c # r)))"
proof -
  have "skip_ws (c # r) = c # r" using value_start_not[OF assms] by (simp add: skip_ws_start)
  then show ?thesis unfolding parse.simps by (simp only: list.case)
qed

lemma parse_num:
  assumes "num_stop r"
  shows "parse (Suc f) (strconv_Itoa i @ r) = Some (JNum (strconv_Itoa i), r)"
proof -
  obtain c t where ct: "strconv_Itoa i = c # t" "c = CHR ''-'' \<or> is_digit c" using Itoa_head by blast
  have vs: "value_start c" using ct(2) by (auto simp: value_start_def)
  have no: "c \<noteq> quote" "c \<noteq> CHR ''[''" "c \<noteq> CHR ''{''" "c \<noteq> CHR ''t''" "c \<noteq> CHR ''f''" "c \<noteq> CHR ''n''"
    using ct(2) by (auto simp: is_digit_def)
  then have pre: "\<not> prefix ''true'' (c # t @ r)" "\<not> prefix ''false'' (c # t @ r)" "\<not> prefix ''null'' (c # t @ r)"
    by (simp_all)
  have "parse (Suc f) (c # t @ r) = map_option (apfst JNum) (read_num (c # t @ r))"
    using no pre by (simp only: parse_head[OF vs] if_False)
  then show ?thesis using read_num_Itoa[OF assms, of i] ct(1) by simp
qed

lemma pr_elems_head:
  assumes "vs \<noteq> []" "\<forall>v\<in>set vs. json_wf v"
  obtains c t where "skip_ws (pr_elems i d vs @ r) = c # t" "c \<noteq> CHR '']''"
proof -
  obtain v ws where vs: "vs = v # ws" using assms(1) by (cases vs) auto
  obtain c t where c: "pr i (Suc d) v = c # t" "value_start c" using pr_head[of v i "Suc d"] assms(2) vs by auto
  show thesis
    by (rule that) (use c value_start_not[OF c(2)] in \<open>auto simp: vs skip_ws_nl skip_ws_start\<close>)
qed

lemma pr_members_head:
  assumes "ms \<noteq> []"
  obtains c t where "skip_ws (pr_members i d ms @ r) = c # t" "c \<noteq> CHR ''}''"
proof -
  obtain k v ws where ms: "ms = (k, v) # ws" using assms by (cases ms) auto
  show thesis
    by (rule that) (auto simp: ms skip_ws_nl skip_ws_start json_quote_def is_ws_def)
qed

lemma read_str_json_quote: "valid_utf8 s \<Longrightarrow> read_str (quote_body s @ quote # r) = Some (s, r)"
  by (rule read_str_quote_body)

lemma parse_pr:
  "json_wf v \<Longrightarrow> need v \<le> f \<Longrightarrow> num_stop r \<Longrightarrow> parse f (pr i d v @ r) = Some (v, r)"
  "vs \<noteq> [] \<Longrightarrow> \<forall>v\<in>set vs. json_wf v \<Longrightarrow> need_elems vs \<le> f \<Longrightarrow> parse_elems f (pr_elems i d vs @ r) = Some (vs, r)"
  "ms \<noteq> [] \<Longrightarrow> \<forall>(k, v)\<in>set ms. valid_utf8 k \<and> json_wf v \<Longrightarrow> need_members ms \<le> f \<Longrightarrow>
     parse_members f (pr_members i d ms @ r) = Some (ms, r)"
proof (induction i d v and i d vs and i d ms arbitrary: f r and f r and f r rule: pr_pr_elems_pr_members.induct)
  case (1 i d)
  then show ?case by (cases f) (auto simp: skip_ws_start is_ws_def)
next
  case (2 i d b)
  then show ?case by (cases f) (auto simp: skip_ws_start is_ws_def)
next
  case (3 i d s)
  then show ?case by (cases f) (auto simp del: parse.simps simp: parse_num)
next
  case (4 i d s)
  then show ?case by (cases f) (auto simp: skip_ws_start is_ws_def json_quote_def read_str_json_quote)
next
  case (5 i d vs)
  obtain g where f: "f = Suc g" "need_elems vs \<le> g" using 5(3) by (cases f) auto
  show ?case
  proof (cases "vs = []")
    case True
    then show ?thesis using f by (simp add: skip_ws_start is_ws_def)
  next
    case False
    have wf: "\<forall>v\<in>set vs. json_wf v" using 5(2) by simp
    obtain c t where c: "skip_ws (pr_elems i d vs @ r) = c # t" "c \<noteq> CHR '']''"
      using False wf by (rule pr_elems_head)
    then show ?thesis using 5(1)[OF False False wf f(2), of r] False f(1) by (simp add: skip_ws_start is_ws_def)
  qed
next
  case (6 i d ms)
  obtain g where f: "f = Suc g" "need_members ms \<le> g" using 6(3) by (cases f) auto
  show ?case
  proof (cases "ms = []")
    case True
    then show ?thesis using f by (simp add: skip_ws_start is_ws_def)
  next
    case False
    have wf: "\<forall>(k, v)\<in>set ms. valid_utf8 k \<and> json_wf v" using 6(2) by simp
    obtain c t where c: "skip_ws (pr_members i d ms @ r) = c # t" "c \<noteq> CHR ''}''"
      using False by (rule pr_members_head)
    then show ?thesis using 6(1)[OF False False wf f(2), of r] False f(1) by (simp add: skip_ws_start is_ws_def)
  qed
next
  case (8 i d v vs)
  obtain g where f: "f = Suc g" "need v \<le> g" "need_elems vs \<le> g" using 8(5) by (cases f) auto
  have wf: "json_wf v" "\<forall>v\<in>set vs. json_wf v" using 8(4) by auto
  show ?case
  proof (cases "vs = []")
    case True
    then show ?thesis
      using 8(1)[OF wf(1) f(2), of "nl i d @ CHR '']'' # r"] f(1)
      by (simp add: parse_skip num_stop_intros skip_ws_nl skip_ws_start is_ws_def)
  next
    case False
    then show ?thesis
      using 8(1)[OF wf(1) f(2), of "CHR '','' # pr_elems i d vs @ r"] 8(2)[OF False False wf(2) f(3), of r] f(1)
      by (simp add: parse_skip num_stop_intros skip_ws_start is_ws_def)
  qed
next
  case (10 i d k v ms)
  obtain g where f: "f = Suc g" "need v \<le> g" "need_members ms \<le> g" using 10(5) by (cases f) auto
  have wf: "valid_utf8 k" "json_wf v" "\<forall>(k, v)\<in>set ms. valid_utf8 k \<and> json_wf v" using 10(4) by auto
  obtain c t where c: "pr i (Suc d) v = c # t" "value_start c" using pr_head[OF wf(2)] by blast
  have colon: "skip_ws (colon i @ s) = CHR '':'' # tl (colon i) @ s" for s
    by (simp add: colon_def skip_ws_start is_ws_def)
  have sp: "parse g (tl (colon i) @ s) = parse g s" for s
    by (cases g) (simp_all add: colon_def skip_ws_def is_ws_def)
  show ?case
  proof (cases "ms = []")
    case True
    then show ?thesis
      using 10(1)[OF wf(2) f(2), of "nl i d @ CHR ''}'' # r"] f(1) wf(1)
      by (simp add: parse_members_skip num_stop_intros skip_ws_nl skip_ws_start is_ws_def json_quote_def
          read_str_json_quote colon sp)
  next
    case False
    then show ?thesis
      using 10(1)[OF wf(2) f(2), of "CHR '','' # pr_members i d ms @ r"] 10(2)[OF False False wf(3) f(3), of r] f(1) wf(1)
      by (simp add: parse_members_skip num_stop_intros skip_ws_start is_ws_def json_quote_def
          read_str_json_quote colon sp)
  qed
qed auto

lemma need_le:
  "json_wf v \<Longrightarrow> need v \<le> 2 * length (pr i d v)"
  "\<forall>v\<in>set vs. json_wf v \<Longrightarrow> need_elems vs \<le> 2 * length (pr_elems i d vs)"
  "\<forall>(k, v)\<in>set ms. valid_utf8 k \<and> json_wf v \<Longrightarrow> need_members ms \<le> 2 * length (pr_members i d ms)"
proof (induction i d v and i d vs and i d ms rule: pr_pr_elems_pr_members.induct)
  case (3 i d s)
  then obtain j where j: "s = strconv_Itoa j" by auto
  obtain c t where "strconv_Itoa j = c # t" using Itoa_head by blast
  then show ?case using j by simp
qed (auto simp: json_quote_def)

lemma json_parse_pr:
  assumes "json_wf v" "num_stop r" "skip_ws r = []"
  shows "json_parse (pr i d v @ r) = Some v"
proof -
  have "need v \<le> 2 * length (pr i d v @ r) + 2" using need_le(1)[OF assms(1), of i d] by simp
  from parse_pr(1)[OF assms(1) this assms(2), of i d] assms(3) show ?thesis by (simp add: json_parse_def)
qed

lemma json_round_trip:
  assumes "json_wf v"
  shows "json_parse (json_MarshalIndent v @ [CHR 0x0A]) = Some v" "json_parse (json_Marshal v) = Some v"
    "json_parse (json_Marshal v @ [CHR 0x0A]) = Some v"
  using json_parse_pr[OF assms, of "[CHR 0x0A]" True 0] json_parse_pr[OF assms, of "[]" False 0]
    json_parse_pr[OF assms, of "[CHR 0x0A]" False 0]
  by (simp_all add: json_MarshalIndent_def json_Marshal_def num_stop_intros skip_ws_def is_ws_def)

section \<open>Decoding into structs\<close>

text \<open>\<^verbatim>\<open>json.Unmarshal\<close> into a struct: a key selects the field with exactly that name, or else
  the one that differs only in (ASCII) case; unknown keys are skipped; \<^verbatim>\<open>null\<close> leaves the field
  alone; a later key overwrites an earlier one; a value of the wrong type is an error.\<close>

definition fold_case :: "char \<Rightarrow> char" where
  "fold_case c = (if 65 \<le> byte c \<and> byte c \<le> 90 then char_of (byte c + 32) else c)"

definition select_field :: "string list \<Rightarrow> string \<Rightarrow> string option" where
  "select_field fields k =
     (if k \<in> set fields then Some k else find (\<lambda>n. map fold_case n = map fold_case k) fields)"

type_synonym 'a setter = "json \<Rightarrow> 'a \<Rightarrow> 'a result"

fun decode_members :: "(string \<times> 'a setter) list \<Rightarrow> (string \<times> json) list \<Rightarrow> 'a \<Rightarrow> 'a result" where
  "decode_members fields [] x = Inr x"
| "decode_members fields ((k, v) # ms) x =
     (case select_field (map fst fields) k of
        None \<Rightarrow> decode_members fields ms x
      | Some n \<Rightarrow>
          (case map_of fields n of
             None \<Rightarrow> decode_members fields ms x
           | Some upd \<Rightarrow> if v = JNull then decode_members fields ms x
                         else result_bind (upd v x) (decode_members fields ms)))"

definition json_Unmarshal :: "(string \<times> 'a setter) list \<Rightarrow> string \<Rightarrow> 'a \<Rightarrow> 'a result" where
  "json_Unmarshal fields s x =
     (case json_parse s of
        None \<Rightarrow> Inl (Msg ''invalid JSON'')
      | Some (JObj ms) \<Rightarrow> decode_members fields ms x
      | Some JNull \<Rightarrow> Inr x
      | Some _ \<Rightarrow> Inl (Msg ''cannot unmarshal into Go struct''))"

definition set_string :: "(string \<Rightarrow> 'a \<Rightarrow> 'a) \<Rightarrow> 'a setter" where
  "set_string f v x = (case v of JStr s \<Rightarrow> Inr (f s x) | _ \<Rightarrow> Inl (Msg ''cannot unmarshal into string''))"

definition atoi :: "string \<Rightarrow> int option" where
  "atoi s =
     (let (neg, ds) = (case s of c # r \<Rightarrow> if c = CHR ''-'' then (True, r) else (False, s) | [] \<Rightarrow> (False, s)) in
      if ds \<noteq> [] \<and> list_all is_digit ds
      then (let n = int (digits_value ds); i = (if neg then - n else n) in
            if - (2 ^ 63) \<le> i \<and> i < 2 ^ 63 then Some i else None)
      else None)"

definition set_int :: "(int \<Rightarrow> 'a \<Rightarrow> 'a) \<Rightarrow> 'a setter" where
  "set_int f v x = (case v of
     JNum s \<Rightarrow> (case atoi s of Some i \<Rightarrow> Inr (f i x) | None \<Rightarrow> Inl (Msg ''cannot unmarshal number into int''))
   | _ \<Rightarrow> Inl (Msg ''cannot unmarshal into int''))"

fun string_elem :: "json \<Rightarrow> string result" where
  "string_elem (JStr s) = Inr s"
| "string_elem JNull = Inr []"
| "string_elem _ = Inl (Msg ''cannot unmarshal into string'')"

fun int_elem :: "json \<Rightarrow> int result" where
  "int_elem (JNum s) = (case atoi s of Some i \<Rightarrow> Inr i | None \<Rightarrow> Inl (Msg ''cannot unmarshal number into int''))"
| "int_elem JNull = Inr 0"
| "int_elem _ = Inl (Msg ''cannot unmarshal into int'')"

fun elems :: "(json \<Rightarrow> 'b result) \<Rightarrow> json list \<Rightarrow> 'b list result" where
  "elems f [] = Inr []"
| "elems f (v # vs) = result_bind (f v) (\<lambda>x. result_bind (elems f vs) (\<lambda>xs. Inr (x # xs)))"

definition set_list :: "(json \<Rightarrow> 'b result) \<Rightarrow> ('b list \<Rightarrow> 'a \<Rightarrow> 'a) \<Rightarrow> 'a setter" where
  "set_list f g v x = (case v of JArr vs \<Rightarrow> result_bind (elems f vs) (\<lambda>xs. Inr (g xs x))
     | _ \<Rightarrow> Inl (Msg ''cannot unmarshal into slice''))"

lemma atoi_Itoa: "- (2 ^ 63) \<le> i \<Longrightarrow> i < 2 ^ 63 \<Longrightarrow> atoi (strconv_Itoa i) = Some i"
proof -
  assume i: "- (2 ^ 63) \<le> i" "i < 2 ^ 63"
  obtain c t where ct: "nat_digits (nat \<bar>i\<bar>) = c # t" by (cases "nat_digits (nat \<bar>i\<bar>)") auto
  have "c \<noteq> CHR ''-''" using minus_not_digit[of "nat \<bar>i\<bar>"] ct by auto
  moreover have "list_all is_digit (c # t)" using nat_digits_are_digits[of _ "nat \<bar>i\<bar>"] ct by (auto simp: list_all_iff)
  moreover have "int (digits_value (c # t)) = \<bar>i\<bar>" using digits_value_nat_digits[of "nat \<bar>i\<bar>"] ct by simp
  ultimately show ?thesis using i ct by (cases "i < 0") (auto simp: atoi_def strconv_Itoa_def Let_def)
qed

lemma elems_JStr: "elems string_elem (map JStr xs) = Inr xs"
  by (induction xs) auto

section \<open>Stored values\<close>

text \<open>A value that is written to a file with \<open>enc\<close> and read back with \<open>dec\<close>; \<open>ok\<close> says which
  values are representable.\<close>

locale codec =
  fixes ok :: "'a \<Rightarrow> bool" and enc :: "'a \<Rightarrow> string" and dec :: "string \<Rightarrow> 'a result"
  assumes dec_enc: "ok x \<Longrightarrow> dec (enc x) = Inr x"
begin

lemma enc_inject: "ok x \<Longrightarrow> ok y \<Longrightarrow> enc x = enc y \<longleftrightarrow> x = y"
  by (metis dec_enc sum.inject(2))

text \<open>A file whose contents are old or new decodes to the old or the new value.\<close>

lemma dec_replaced: "ok x \<Longrightarrow> c' = c \<or> c' = enc x \<Longrightarrow> dec c' = dec c \<or> dec c' = Inr x"
  using dec_enc by auto

end

section \<open>The fuel suffices\<close>

lemma skip_ws_length: "length (skip_ws s) \<le> length s"
  by (simp add: skip_ws_def length_dropWhile_le)

lemma read_str_length: "read_str s = Some (x, r) \<Longrightarrow> length r < length s"
proof (induction s arbitrary: x r rule: read_str.induct)
  case (1 s)
  show ?case
    using 1 read_str.simps[of s]
    by (auto split: list.splits if_splits option.splits dest!: read_escape_length) (fastforce simp: less_Suc_eq)+
qed

lemma read_digits_length: "read_digits s = (ds, r) \<Longrightarrow> length s = length ds + length r"
  by (metis length_append prod.inject read_digits_def takeWhile_dropWhile_id)

lemma read_frac_length: "read_frac s = Some (x, r) \<Longrightarrow> length r \<le> length s"
  by (auto simp: read_frac_def dest!: read_digits_length split: list.splits if_splits prod.splits)

lemma read_exp_length: "read_exp s = Some (x, r) \<Longrightarrow> length r \<le> length s"
  by (auto simp: read_exp_def Let_def dest!: read_digits_length split: list.splits if_splits prod.splits)

lemma read_num_length:
  assumes "read_num s = Some (x, r)"
  shows "length r < length s"
proof -
  define t where "t = (case s of c # r' \<Rightarrow> if c = CHR ''-'' then r' else s | [] \<Rightarrow> s)"
  define p where "p = (case t of c # r' \<Rightarrow> if c = CHR ''0'' then ([c], r') else read_digits t | [] \<Rightarrow> ([], t))"
  obtain ds u where p: "p = (ds, u)" by fastforce
  have "\<exists>sg. (case s of c # r' \<Rightarrow> if c = CHR ''-'' then ([c], r') else ([], s) | [] \<Rightarrow> ([], s)) = (sg, t)"
    by (simp add: t_def split: list.split)
  then have 2: "ds \<noteq> []" "\<exists>fs v. read_frac u = Some (fs, v) \<and> (\<exists>es. read_exp v = Some (es, r))"
    using assms p[unfolded p_def] by (auto simp: read_num_def split: if_splits option.splits)
  have 1: "length t \<le> length s" by (simp add: t_def split: list.split)
  have "length u < length t" using p[unfolded p_def] 2(1) by (auto dest!: read_digits_length split: list.splits if_splits)
  then show ?thesis using 1 2(2) by (fastforce dest!: read_frac_length read_exp_length)
qed

lemma skip_ws_Cons: "skip_ws s = c # r \<Longrightarrow> length r < length s"
  using skip_ws_length[of s] by simp

text \<open>Every part of a value consumes text.\<close>

lemma parse_length:
  "parse f s = Some (v, r) \<Longrightarrow> length r < length s"
  "parse_elems f s = Some (vs, r) \<Longrightarrow> length r < length s"
  "parse_members f s = Some (ms, r) \<Longrightarrow> length r < length s"
proof (induction f arbitrary: s v vs ms r)
  case (Suc f)
  note IH = Suc.IH
  { case 1
    then obtain c t where t: "skip_ws s = c # t" by (auto split: list.splits)
    with 1 have "(\<exists>x. read_str t = Some (x, r)) \<or> (\<exists>vs. parse_elems f t = Some (vs, r)) \<or> (\<exists>ms. parse_members f t = Some (ms, r)) \<or>
        (\<exists>d. skip_ws t = d # r) \<or> (\<exists>n. read_num (c # t) = Some (n, r)) \<or> r = drop 4 (c # t) \<or> r = drop 5 (c # t)"
      by (simp split: list.splits if_splits) blast+
    then have "length r \<le> length t" by (auto dest: read_str_length IH(2,3) skip_ws_Cons read_num_length)
    then show ?case using skip_ws_Cons[OF t] by simp
  next
    case 2
    then obtain v t where "parse f s = Some (v, t)" by (auto split: option.splits)
    then show ?case using 2 IH(1)[of s v t] skip_ws_Cons[of t] IH(2)[of _ _ r] by (fastforce split: list.splits if_splits)
  next
    case 3
    then obtain q t k u c x v y d z where "skip_ws s = q # t" "read_str t = Some (k, u)" "skip_ws u = c # x" "parse f x = Some (v, y)"
      "skip_ws y = d # z" and z: "z = r \<or> (\<exists>ms. parse_members f z = Some (ms, r))"
      by (auto split: list.splits if_splits option.splits)
    then have "length z < length s" by (fastforce dest!: skip_ws_Cons read_str_length IH(1))
    then show ?case using z IH(3)[of z _ r] by fastforce
  }
qed auto

text \<open>More fuel than that changes nothing, so a text is rejected for its syntax only.\<close>

lemma parse_enough:
  "2 * length s < f \<Longrightarrow> parse (f + k) s = parse f s"
  "2 * length s + 1 < f \<Longrightarrow> parse_elems (f + k) s = parse_elems f s"
  "2 * length s + 1 < f \<Longrightarrow> parse_members (f + k) s = parse_members f s"
proof (induction f arbitrary: s)
  case (Suc f)
  { case 1
    then show ?case by (auto dest!: skip_ws_Cons simp: Suc.IH split: list.splits)
  next
    case 2
    then show ?case by (auto dest!: skip_ws_Cons parse_length(1) simp: Suc.IH split: list.splits option.splits)
  next
    case 3
    have e: "parse (f + k) t = parse f t" "parse_members (f + k) t = parse_members f t" if "length t < length s" for t
      using Suc.IH(1,3)[of t] that 3 by simp_all
    have "parse_members (Suc f + k) s = parse_members (Suc f) s" if "skip_ws s = q # t" "read_str t = Some (a, u)" "skip_ws u = c # x" for q t a u c x
    proof -
      have x: "length x < length s" using skip_ws_Cons[OF that(1)] skip_ws_Cons[OF that(3)] read_str_length[OF that(2)] by simp
      have "parse_members (f + k) z = parse_members f z" if "parse f x = Some (v, y)" "skip_ws y = d # z" for v y d z
        using e(2)[of z] x skip_ws_Cons[OF that(2)] parse_length(1)[OF that(1)] by simp
      then show ?thesis using that e(1)[OF x] by (auto split: list.splits option.splits)
    qed
    then show ?case
      by (cases "skip_ws s"; cases "read_str (tl (skip_ws s))"; cases "skip_ws (snd (the (read_str (tl (skip_ws s)))))") auto
  }
qed auto

lemma json_parse_enough:
  assumes "2 * length s < f"
  shows "json_parse s = (case parse f s of None \<Rightarrow> None | Some (v, r) \<Rightarrow> if skip_ws r = [] then Some v else None)"
proof -
  have "parse f s = parse (Suc (2 * length s)) s" using parse_enough(1)[of s "Suc (2 * length s)" "f - Suc (2 * length s)"] assms by simp
  moreover have "parse (2 * length s + 2) s = parse (Suc (2 * length s)) s" using parse_enough(1)[of s "Suc (2 * length s)" 1] by simp
  ultimately show ?thesis by (simp add: json_parse_def)
qed

end
