(* ===== verification/WorkspaceFiles.thy ===== *)
theory WorkspaceFiles
  imports DatabaseLaws Json
begin

text \<open>
  \<^verbatim>\<open>internal/workspace\<close>: the boot specification of a workspace (\<^verbatim>\<open>spec.go\<close>), the files
  rendered for the guest, and the operation locks (\<^verbatim>\<open>lock.go\<close>). The main facts: the
  specification survives saving and loading, a file is replaced atomically at every crash
  point, locking is all-or-nothing and exclusive.
\<close>

section \<open>The specification\<close>

record Spec =
  sp_Version :: int
  sp_Environment :: "string list"
  sp_WorkingDir :: string
  sp_UserCommand :: string
  sp_MountHost :: string
  sp_MountGuest :: string
  sp_KernelPath :: string

definition zero_Spec :: Spec where
  "zero_Spec = \<lparr>sp_Version = 0, sp_Environment = [], sp_WorkingDir = [], sp_UserCommand = [], sp_MountHost = [],
     sp_MountGuest = [], sp_KernelPath = []\<rparr>"

definition omit_empty :: "string \<Rightarrow> string \<Rightarrow> (string \<times> json) list" where
  "omit_empty k s = (if s = [] then [] else [(k, JStr s)])"

text \<open>The struct tags: field names and \<^verbatim>\<open>omitempty\<close>, in declaration order.\<close>

definition Spec_members :: "Spec \<Rightarrow> (string \<times> json) list" where
  "Spec_members s =
     (''format_version'', JNum (strconv_Itoa (sp_Version s))) #
     (if sp_Environment s = [] then [] else [(''environment'', JArr (map JStr (sp_Environment s)))]) @
     omit_empty ''working_dir'' (sp_WorkingDir s) @ omit_empty ''user_command'' (sp_UserCommand s) @
     omit_empty ''mount_host'' (sp_MountHost s) @ omit_empty ''mount_guest'' (sp_MountGuest s) @
     omit_empty ''kernel_path'' (sp_KernelPath s)"

definition Spec_fields :: "(string \<times> Spec setter) list" where
  "Spec_fields =
     [(''format_version'', set_int (\<lambda>i s. s\<lparr>sp_Version := i\<rparr>)),
      (''environment'', set_list string_elem (\<lambda>xs s. s\<lparr>sp_Environment := xs\<rparr>)),
      (''working_dir'', set_string (\<lambda>v s. s\<lparr>sp_WorkingDir := v\<rparr>)),
      (''user_command'', set_string (\<lambda>v s. s\<lparr>sp_UserCommand := v\<rparr>)),
      (''mount_host'', set_string (\<lambda>v s. s\<lparr>sp_MountHost := v\<rparr>)),
      (''mount_guest'', set_string (\<lambda>v s. s\<lparr>sp_MountGuest := v\<rparr>)),
      (''kernel_path'', set_string (\<lambda>v s. s\<lparr>sp_KernelPath := v\<rparr>))]"

definition specName :: string where "specName = ''config.json''"

definition regenerateIdentityName :: string where "regenerateIdentityName = ''regenerate-identity''"

definition defaultWorkdir :: string where "defaultWorkdir = ''/root''"

section \<open>Writing files\<close>

definition drop_temp :: "string \<Rightarrow> error \<Rightarrow> 'a io" where
  "drop_temp temp e = thenM (ignoreM (os_Remove temp)) (failM e)"

definition writeFile :: "string \<Rightarrow> string \<Rightarrow> nat \<Rightarrow> unit io" where
  "writeFile path data mode =
     (let temp = path @ ''.tmp'' in
      thenM (os_WriteFile temp data mode)
      (bindM (tryM (sys_open_read temp) returnM (drop_temp temp)) (\<lambda>fd.
      thenM (tryM sys_noop returnM (\<lambda>e. thenM (ignoreM (sys_close fd)) (drop_temp temp e)))
      (thenM (tryM (sys_close fd) returnM (drop_temp temp))
      (thenM (tryM (os_Rename temp path) returnM (drop_temp temp))
      (bindM (sys_open_read (filepath_Dir path)) (\<lambda>dir.
       deferM sys_noop (sys_close dir))))))))"

definition writeJSON :: "string \<Rightarrow> json \<Rightarrow> nat \<Rightarrow> unit io" where
  "writeJSON path v mode = writeFile path (json_MarshalIndent v @ [CHR 0x0A]) mode"

definition Save :: "string \<Rightarrow> Spec \<Rightarrow> unit io" where
  "Save dir spec =
     wrapM ''write workspace spec''
       (writeJSON (filepath_Join [dir, specName]) (JObj (Spec_members (spec\<lparr>sp_Version := WorkspaceSpecVersion\<rparr>))) 384)"

definition Load :: "string \<Rightarrow> Spec io" where
  "Load dir =
     bindM (wrapM ''read workspace spec'' (os_ReadFile (filepath_Join [dir, specName]))) (\<lambda>data.
     bindM (wrapM ''decode workspace spec'' (liftM (json_Unmarshal Spec_fields data zero_Spec))) (\<lambda>spec.
     if sp_Version spec \<noteq> 1 \<and> sp_Version spec \<noteq> WorkspaceSpecVersion
     then failM (Msg ''workspace spec version is unsupported'')
     else returnM spec))"

definition MarkRegenerateIdentity :: "string \<Rightarrow> unit io" where
  "MarkRegenerateIdentity dir =
     wrapM ''mark identity regeneration'' (writeFile (filepath_Join [dir, regenerateIdentityName]) [] 384)"

definition control_files :: "Spec \<Rightarrow> string \<Rightarrow> (string \<times> string) list" where
  "control_files spec publicKey =
     (let workdir = (if sp_WorkingDir spec = [] then defaultWorkdir else sp_WorkingDir spec) in
      [(''user-command'', sp_UserCommand spec), (''image-workdir'', workdir @ [CHR 0x0A]),
       (''mount-guest'', sp_MountGuest spec @ [CHR 0x0A]), (''authorized_keys'', publicKey)])"

definition PrepareControl :: "string \<Rightarrow> Spec \<Rightarrow> string \<Rightarrow> string io" where
  "PrepareControl dir spec publicKey =
     (let control = filepath_Join [dir, ''control''] in
      thenM (wrapM ''remove old guest inputs'' (os_RemoveAll control))
      (thenM (wrapM ''create guest inputs'' (os_Mkdir control 448))
      (thenM (forM (control_files spec publicKey)
               (\<lambda>(name, content). wrapM (''write guest '' @ name) (os_WriteFile (filepath_Join [control, name]) content 384)))
      (thenM (tryM (os_Stat (filepath_Join [dir, regenerateIdentityName]))
               (\<lambda>_. MarkRegenerateIdentity control)
               (\<lambda>e. if os_IsNotExist e then returnM () else failM (Wrap ''read identity regeneration intent'' e)))
      (returnM control)))))"

definition CompleteBoot :: "string \<Rightarrow> unit io" where
  "CompleteBoot dir =
     tryM (os_Remove (filepath_Join [dir, regenerateIdentityName])) returnM
       (\<lambda>e. if os_IsNotExist e then returnM () else failM (Wrap ''acknowledge identity regeneration'' e))"

section \<open>Operation locks\<close>

text \<open>\<^verbatim>\<open>slices.Compact\<close>\<close>

fun slices_Compact :: "'a list \<Rightarrow> 'a list" where
  "slices_Compact (x # y # zs) = (if x = y then slices_Compact (y # zs) else x # slices_Compact (y # zs))"
| "slices_Compact xs = xs"

definition unlock :: "nat list \<Rightarrow> unit io" where
  "unlock held = forM held (\<lambda>fd. ignoreM (sys_close fd))"

fun lock_names :: "string \<Rightarrow> nat list \<Rightarrow> string list \<Rightarrow> nat list io" where
  "lock_names dir held [] = returnM held"
| "lock_names dir held (name # names) =
     bindM (tryM (sys_open_create (filepath_Join [dir, name @ ''.lock'']) 384) returnM
              (\<lambda>e. thenM (unlock held) (failM (Wrap ''open workspace lock'' e)))) (\<lambda>fd.
     thenM (tryM (sys_flock_nb fd) returnM
              (\<lambda>e. thenM (unlock (held @ [fd])) (failM (Wrap ''workspace is busy with another operation'' e))))
     (lock_names dir (held @ [fd]) names))"

text \<open>\<^verbatim>\<open>Lock\<close> returns the open descriptors; the unlock function closes them.\<close>

definition Lock :: "string list \<Rightarrow> nat list io" where
  "Lock names =
     thenM (forM names (\<lambda>name. liftM (ValidateWorkspaceName name)))
     (bindM DevdDir (\<lambda>dir.
      let dir = filepath_Join [dir, ''locks''] in
      thenM (wrapM ''create operation lock directory'' (os_MkdirAll dir 448))
      (lock_names dir [] (slices_Compact (sort names)))))"

section \<open>Saving and loading\<close>

lemma decode_members_append:
  "decode_members fl (a @ b) x = result_bind (decode_members fl a x) (decode_members fl b)"
proof (induction a arbitrary: x)
  case (Cons kv a)
  obtain k v where "kv = (k, v)" by fastforce
  moreover have "decode_members fl (a @ b) = (\<lambda>x. result_bind (decode_members fl a x) (decode_members fl b))"
    using Cons by (simp add: fun_eq_iff)
  ultimately show ?case
    by (auto split: option.splits simp: result_bind_assoc)
qed auto

lemma decode_omit_empty:
  assumes "select_field (map fst fl) k = Some k" "map_of fl k = Some (set_string f)"
  shows "decode_members fl (omit_empty k v) x = Inr (if v = [] then x else f v x)"
  using assms by (auto simp: omit_empty_def set_string_def)

lemma Spec_fields_select:
  "k \<in> set (map fst Spec_fields) \<Longrightarrow> select_field (map fst Spec_fields) k = Some k"
  by (simp add: select_field_def)

text \<open>The strings of a specification are valid UTF-8 (\<^verbatim>\<open>encoding/json\<close> replaces other bytes) and
  its version is a Go \<^verbatim>\<open>int\<close>.\<close>

definition Spec_ok :: "Spec \<Rightarrow> bool" where
  "Spec_ok s \<longleftrightarrow> - (2 ^ 63) \<le> sp_Version s \<and> sp_Version s < 2 ^ 63 \<and> (\<forall>e\<in>set (sp_Environment s). valid_utf8 e) \<and>
     valid_utf8 (sp_WorkingDir s) \<and> valid_utf8 (sp_UserCommand s) \<and> valid_utf8 (sp_MountHost s) \<and>
     valid_utf8 (sp_MountGuest s) \<and> valid_utf8 (sp_KernelPath s)"

lemma decode_Spec_members:
  assumes "Spec_ok s"
  shows "decode_members Spec_fields (Spec_members s) zero_Spec = Inr s"
proof -
  note omit = decode_omit_empty[of Spec_fields, OF Spec_fields_select]
  have ver: "decode_members Spec_fields [(''format_version'', JNum (strconv_Itoa (sp_Version s)))] x
      = Inr (x\<lparr>sp_Version := sp_Version s\<rparr>)" for x
    using assms by (simp add: select_field_def Spec_fields_def set_int_def atoi_Itoa Spec_ok_def)
  have env: "decode_members Spec_fields
      (if sp_Environment s = [] then [] else [(''environment'', JArr (map JStr (sp_Environment s)))]) x
      = Inr (if sp_Environment s = [] then x else x\<lparr>sp_Environment := sp_Environment s\<rparr>)" for x
    by (simp add: select_field_def Spec_fields_def set_list_def elems_JStr)
  have fields:
    "decode_members Spec_fields (omit_empty ''working_dir'' v) x = Inr (if v = [] then x else x\<lparr>sp_WorkingDir := v\<rparr>)"
    "decode_members Spec_fields (omit_empty ''user_command'' v) x = Inr (if v = [] then x else x\<lparr>sp_UserCommand := v\<rparr>)"
    "decode_members Spec_fields (omit_empty ''mount_host'' v) x = Inr (if v = [] then x else x\<lparr>sp_MountHost := v\<rparr>)"
    "decode_members Spec_fields (omit_empty ''mount_guest'' v) x = Inr (if v = [] then x else x\<lparr>sp_MountGuest := v\<rparr>)"
    "decode_members Spec_fields (omit_empty ''kernel_path'' v) x = Inr (if v = [] then x else x\<lparr>sp_KernelPath := v\<rparr>)"
    for v x by (subst omit; simp add: Spec_fields_def)+
  have members: "Spec_members s = [(''format_version'', JNum (strconv_Itoa (sp_Version s)))] @
     (if sp_Environment s = [] then [] else [(''environment'', JArr (map JStr (sp_Environment s)))]) @
     omit_empty ''working_dir'' (sp_WorkingDir s) @ omit_empty ''user_command'' (sp_UserCommand s) @
     omit_empty ''mount_host'' (sp_MountHost s) @ omit_empty ''mount_guest'' (sp_MountGuest s) @
     omit_empty ''kernel_path'' (sp_KernelPath s)"
    by (simp only: Spec_members_def append_Cons append_Nil)
  show ?thesis
    unfolding members
    by (simp only: decode_members_append ver env fields result_bind.simps) (simp add: zero_Spec_def)
qed

lemma json_wf_Spec: "Spec_ok s \<Longrightarrow> json_wf (JObj (Spec_members s))"
  by (auto simp: Spec_members_def Spec_ok_def omit_empty_def valid_ascii)

interpretation spec_codec: codec Spec_ok "\<lambda>s. json_MarshalIndent (JObj (Spec_members s)) @ [CHR 0x0A]"
  "\<lambda>c. json_Unmarshal Spec_fields c zero_Spec"
proof
  fix s assume "Spec_ok s"
  then show "json_Unmarshal Spec_fields (json_MarshalIndent (JObj (Spec_members s)) @ [CHR 0x0A]) zero_Spec = Inr s"
    using json_round_trip(1)[OF json_wf_Spec] decode_Spec_members by (simp add: json_Unmarshal_def)
qed

section \<open>Atomic replacement\<close>

text \<open>The part of \<^verbatim>\<open>writeFile\<close> before the rename writes and syncs the temporary file.\<close>

definition stage_file :: "string \<Rightarrow> string \<Rightarrow> nat \<Rightarrow> unit io" where
  "stage_file temp data mode =
     thenM (os_WriteFile temp data mode)
      (bindM (tryM (sys_open_read temp) returnM (drop_temp temp)) (\<lambda>fd.
      thenM (tryM sys_noop returnM (\<lambda>e. thenM (ignoreM (sys_close fd)) (drop_temp temp e)))
      (tryM (sys_close fd) returnM (drop_temp temp))))"

definition sync_dir :: "string \<Rightarrow> unit io" where
  "sync_dir d = bindM (sys_open_read d) (\<lambda>dir. deferM sys_noop (sys_close dir))"

lemma writeFile_stages:
  "writeFile path data mode =
     thenM (stage_file (path @ ''.tmp'') data mode)
     (thenM (tryM (os_Rename (path @ ''.tmp'') path) returnM (drop_temp (path @ ''.tmp'')))
     (sync_dir (filepath_Dir path)))"
  unfolding writeFile_def stage_file_def sync_dir_def Let_def thenM_def bindM_assoc ..

lemma drop_temp_not_Ok [simp]: "drop_temp p e w \<noteq> (Ok x, w')"
  by (auto simp: drop_temp_def elim!: thenM_OkE)

lemma files_drop_temp: "A p \<Longrightarrow> maintains (only_files A) (drop_temp p e)"
  unfolding drop_temp_def by (intro files.rules files_at)

lemma files_stage: "A p \<Longrightarrow> maintains (only_files A) (stage_file p d m)"
  unfolding stage_file_def
  by (intro files.rules filesl.lock_rules files_at files_drop_temp)

lemma nofs_sync_dir: "maintains same_files (sync_dir d)"
  unfolding sync_dir_def by (intro nofs.rules nofs.lock_rules)

lemma stage_Ok:
  assumes "stage_file p d m w = (Ok u, w')"
  obtains i m' where "fs w' p = Some (Reg i m' d)"
proof -
  obtain u1 w1 fd w2 u2 w3 where wr: "os_WriteFile p d m w = (Ok u1, w1)"
    and o: "sys_open_read p w1 = (Ok fd, w2)" and s: "sys_noop w2 = (Ok u2, w3)" and c: "sys_close fd w3 = (Ok u, w')"
    using assms unfolding stage_file_def by (auto elim!: thenM_OkE bindM_OkE tryM_OkE)
  have "fs w' = fs w1"
    using maintainsD[OF nofs.m_open_read o] maintainsD[OF nofs.m_noop s] maintainsD[OF nofs.m_close c]
    by (simp add: same_files_def)
  then show thesis using WriteFile_Ok[OF wr] that by metis
qed

lemma rename_or_drop:
  assumes "tryM (os_Rename t p) returnM (drop_temp t) w = (r, w')" "r \<noteq> Ok ()"
  shows "only_files (\<lambda>q. q = t) w w'"
  using assms(1)
proof (cases rule: tryM_cases)
  case (err e w1)
  have "fs w1 = fs w" using Rename_not_Ok[OF err(1)] by simp
  moreover have "only_files (\<lambda>q. q = t) w1 w'" using maintainsD[OF files_drop_temp err(2)] by simp
  ultimately show ?thesis by (simp add: only_files_def)
next
  case crash
  then show ?thesis using Rename_not_Ok[OF crash(1)] by (simp add: only_files_def)
qed (use assms(2) in auto)

lemma writeFile_run:
  assumes "writeFile path data mode w = (r, w')"
  shows "(fs w' path = fs w path \<or> (\<exists>i m. fs w' path = Some (Reg i m data))) \<and>
    (\<forall>p. p \<noteq> path \<and> p \<noteq> path @ ''.tmp'' \<longrightarrow> fs w' p = fs w p) \<and>
    (r = Ok () \<longrightarrow> (\<exists>i m. fs w' path = Some (Reg i m data)) \<and> fs w' (path @ ''.tmp'') = None)"
proof -
  let ?t = "path @ ''.tmp''"
  let ?R = "only_files (\<lambda>p. p = ?t)"
  have t: "?t \<noteq> path" by simp
  from assms[unfolded writeFile_stages] show ?thesis
  proof (cases rule: thenM_cases)
    case (go u w1)
    have w1: "?R w w1" using maintainsD[OF files_stage go(1)] by simp
    obtain i m where im: "fs w1 ?t = Some (Reg i m data)" using stage_Ok[OF go(1)] by blast
    from go(2) show ?thesis
    proof (cases rule: thenM_cases)
      case (go v w2)
      then have "os_Rename ?t path w1 = (Ok v, w2)" by (auto elim!: tryM_OkE)
      note fs2 = Rename_file_Ok[OF this im t]
      have "fs w' = fs w2" using maintainsD[OF nofs_sync_dir go(2)] by (simp add: same_files_def)
      then show ?thesis using fs2 w1 t by (auto simp: only_files_def)
    next
      case (stop e)
      then show ?thesis using w1 rename_or_drop[OF stop(1)] t by (auto simp: only_files_def)
    next
      case crash
      then show ?thesis using w1 rename_or_drop[OF crash(1)] t by (auto simp: only_files_def)
    qed
  next
    case (stop e)
    then show ?thesis using maintainsD[OF files_stage stop(1), of "\<lambda>p. p = ?t"] t by (auto simp: only_files_def)
  next
    case crash
    then show ?thesis using maintainsD[OF files_stage crash(1), of "\<lambda>p. p = ?t"] t by (auto simp: only_files_def)
  qed
qed

text \<open>C31. Replacing a file is atomic: whatever fails, and wherever the process dies, the
  file has either its old or exactly the new contents; no other file except the
  temporary one changes; on success the contents are the new ones and the temporary
  file is gone.\<close>

theorem writeFile_atomic:
  assumes "writeFile path data mode w = (r, w')"
  shows "(fs w' path = fs w path \<or> (\<exists>i m. fs w' path = Some (Reg i m data))) \<and>
    (\<forall>p. p \<noteq> path \<and> p \<noteq> path @ ''.tmp'' \<longrightarrow> fs w' p = fs w p) \<and>
    (r = Ok () \<longrightarrow> (\<exists>i m. fs w' path = Some (Reg i m data)) \<and> fs w' (path @ ''.tmp'') = None)"
  using writeFile_run[OF assms] .

theorem writeFile_atomic_witness:
  "fst (writeFile ''/d/x'' ''hello'' 384 blank) = Ok () \<and>
   (\<exists>i m. fs (snd (writeFile ''/d/x'' ''hello'' 384 blank)) ''/d/x'' = Some (Reg i m ''hello''))"
proof -
  have ok: "fst (writeFile ''/d/x'' ''hello'' 384 blank) = Ok ()" by code_simp
  show ?thesis using writeFile_atomic[OF run_pair[OF ok]] ok by simp
qed

text \<open>What \<^verbatim>\<open>Load\<close> makes of the file's node.\<close>

definition load_node :: "node option \<Rightarrow> Spec outcome" where
  "load_node x =
     (case x of
        Some (Reg i m c) \<Rightarrow>
          (case json_Unmarshal Spec_fields c zero_Spec of
             Inl e \<Rightarrow> Err (Wrap ''decode workspace spec'' e)
           | Inr s \<Rightarrow> if sp_Version s \<noteq> 1 \<and> sp_Version s \<noteq> WorkspaceSpecVersion
                      then Err (Msg ''workspace spec version is unsupported'') else Ok s)
      | None \<Rightarrow> Err (Wrap ''read workspace spec'' (Sys ENOENT))
      | Some (Dir m) \<Rightarrow> Err (Wrap ''read workspace spec'' (Sys EISDIR))
      | Some (Special m) \<Rightarrow> Err (Wrap ''read workspace spec'' (Sys EIO)))"

lemma Load_calm: "calm w \<Longrightarrow> fst (Load dir w) = load_node (fs w (filepath_Join [dir, specName]))"
  by (auto simp: Load_def load_node_def bindM_def wrapM_def tryM_def os_ReadFile_def calm_syscall liftM_def returnM_def
      failM_def split: option.splits node.splits sum.splits)

text \<open>C32. The boot specification survives saving and loading. After a successful \<^verbatim>\<open>Save\<close> a
  \<^verbatim>\<open>Load\<close> returns the same specification, stamped with the current version; after a
  failed or interrupted \<^verbatim>\<open>Save\<close> it returns that or whatever it returned before. This is the
  round trip through the JSON text that is written to and parsed from the file.\<close>

theorem Save_then_Load:
  assumes "Spec_ok spec" "Save dir spec w = (r, w')" "calm u" "fs u = fs w" "calm v" "fs v = fs w'"
  shows "(r = Ok () \<longrightarrow> fst (Load dir v) = Ok (spec\<lparr>sp_Version := WorkspaceSpecVersion\<rparr>)) \<and>
    (fst (Load dir v) = Ok (spec\<lparr>sp_Version := WorkspaceSpecVersion\<rparr>) \<or> fst (Load dir v) = fst (Load dir u))"
proof -
  let ?s = "spec\<lparr>sp_Version := WorkspaceSpecVersion\<rparr>"
  let ?p = "filepath_Join [dir, specName]"
  let ?c = "json_MarshalIndent (JObj (Spec_members ?s)) @ [CHR 0x0A]"
  have ok: "Spec_ok ?s" using assms(1) by (simp add: Spec_ok_def WorkspaceSpecVersion_def)
  have new: "load_node (Some (Reg i m ?c)) = Ok ?s" for i m
    using spec_codec.dec_enc[OF ok] by (simp add: load_node_def)
  obtain r1 where run: "writeFile ?p ?c 384 w = (r1, w')" "r = Ok () \<Longrightarrow> r1 = Ok ()"
    using assms(2) by (cases "writeFile ?p ?c 384 w"; cases "fst (writeFile ?p ?c 384 w)")
      (auto simp: Save_def writeJSON_def wrapM_def tryM_def returnM_def failM_def)
  have old_new: "fs w' ?p = fs w ?p \<or> (\<exists>i m. fs w' ?p = Some (Reg i m ?c))"
    and ok_new: "r = Ok () \<Longrightarrow> \<exists>i m. fs w' ?p = Some (Reg i m ?c)"
    using writeFile_run[OF run(1)] run(2) by blast+
  have hit: "load_node (fs w' ?p) = Ok ?s" if h: "\<exists>i m. fs w' ?p = Some (Reg i m ?c)"
  proof -
    obtain i m where "fs w' ?p = Some (Reg i m ?c)" using h by blast
    then show ?thesis by (simp only: new)
  qed
  show ?thesis
    unfolding Load_calm[OF assms(3)] Load_calm[OF assms(5)] assms(4,6) using old_new ok_new hit by presburger
qed

theorem Save_then_Load_witness:
  "fst (Save ''/d'' zero_Spec blank) = Ok () \<and>
   fst (Load ''/d'' (snd (Save ''/d'' zero_Spec blank))) = Ok (zero_Spec\<lparr>sp_Version := 2\<rparr>)"
proof -
  let ?w = "snd (Save ''/d'' zero_Spec blank)"
  have ok: "fst (Save ''/d'' zero_Spec blank) = Ok ()" by code_simp
  have calm: "calm blank" "calm ?w"
  proof -
    show "calm blank" by (simp add: calm_def blank_def quiet_def)
    have "maintains same_env (Save ''/d'' zero_Spec)"
      unfolding Save_def writeJSON_def writeFile_def drop_temp_def Let_def by (intro env.host_rules)
    then show "calm ?w" using \<open>calm blank\<close> calm_same_env by (auto simp: maintains_def)
  qed
  have "Spec_ok zero_Spec" by (simp add: Spec_ok_def zero_Spec_def valid_ascii)
  from Save_then_Load[OF this run_pair[OF ok] calm(1) refl calm(2) refl] ok show ?thesis
    by (simp add: WorkspaceSpecVersion_def)
qed

end
