(* ===== verification/Locks.thy ===== *)
theory Locks
  imports WorkspaceFiles
begin

text \<open>
  The operation locks of \<^verbatim>\<open>internal/workspace/lock.go\<close>: a successful \<^verbatim>\<open>Lock\<close> holds the lock
  file of every name, nobody else held any of them, and a failed one leaves every lock
  as it was. The descriptor numbers below \<open>next_fd\<close> are those in use, by this process or
  another.
\<close>

section \<open>Holding a lock\<close>

definition holds :: "world \<Rightarrow> string \<Rightarrow> nat \<Rightarrow> bool" where
  "holds w p fd \<longleftrightarrow> (\<exists>i m c. fs w p = Some (Reg i m c) \<and> fds w fd = Some i \<and> flocks w i = Some fd)"

text \<open>No lock in use is lost.\<close>

definition locks_grow :: "world \<Rightarrow> world \<Rightarrow> bool" where
  "locks_grow w w' \<longleftrightarrow> next_fd w \<le> next_fd w' \<and> (\<forall>p fd. fd < next_fd w \<and> holds w p fd \<longrightarrow> holds w' p fd)"

interpretation grow: change locks_grow
  by unfold_locales (auto simp: locks_grow_def holds_def)

lemma grow_open_create: "maintains locks_grow (sys_open_create p m)"
  unfolding sys_open_create_def
  by (rule grow.m_syscall)
    (auto simp: locks_grow_def holds_def open_fd_def set_file_def Let_def split: option.splits node.splits)

lemma grow_flock_nb: "maintains locks_grow (sys_flock_nb fd)"
  unfolding sys_flock_nb_def
  by (rule grow.m_syscall)
    (auto simp: locks_grow_def holds_def lock_busy_def split: option.splits if_splits)

lemma open_create_Ok:
  assumes "sys_open_create p m w = (Ok fd, w')"
  obtains i mode c where "fd = next_fd w" "next_fd w' = Suc fd" "fds w' = (fds w)(fd := Some i)"
    "fs w' p = Some (Reg i mode c)" "flocks w' = flocks w" "\<And>j m' d. fs w p = Some (Reg j m' d) \<Longrightarrow> i = j"
  using syscall_OkE[OF assms[unfolded sys_open_create_def]]
  by (auto simp: open_fd_def set_file_def Let_def split: option.splits node.splits if_splits)

lemma flock_nb_Ok:
  assumes "sys_flock_nb fd w = (Ok u, w')"
  obtains i where "fds w fd = Some i" "flocks w i = None \<or> flocks w i = Some fd"
    "flocks w' = (flocks w)(i := Some fd)" "fds w' = fds w" "fs w' = fs w" "next_fd w' = next_fd w"
  using syscall_OkE[OF assms[unfolded sys_flock_nb_def]]
  by (auto simp: lock_busy_def split: option.splits if_splits)

section \<open>Success\<close>

lemma unlock_fail_not_Ok [simp]: "thenM (unlock h) (failM e) w \<noteq> (Ok x, w')"
  by (auto elim!: thenM_OkE)

lemma lock_names_Ok:
  assumes "lock_names dir held names w = (Ok h, w')"
  shows "locks_grow w w' \<and> set held \<subseteq> set h \<and>
    (\<forall>n\<in>set names. \<exists>fd\<in>set h. next_fd w \<le> fd \<and> holds w' (filepath_Join [dir, n @ ''.lock'']) fd) \<and>
    (\<forall>n\<in>set names. \<forall>fd<next_fd w. \<not> holds w (filepath_Join [dir, n @ ''.lock'']) fd)"
  using assms
proof (induction names arbitrary: held w)
  case Nil
  then show ?case by (simp add: grow.R_refl)
next
  case (Cons n names)
  let ?p = "filepath_Join [dir, n @ ''.lock'']"
  obtain fd w1 u w2 where o: "sys_open_create ?p 384 w = (Ok fd, w1)" and f: "sys_flock_nb fd w1 = (Ok u, w2)"
    and rest: "lock_names dir (held @ [fd]) names w2 = (Ok h, w')"
    using Cons.prems by (auto elim!: bindM_OkE thenM_OkE tryM_OkE)
  obtain i mode c where fd: "fd = next_fd w" "next_fd w1 = Suc fd" "fds w1 = (fds w)(fd := Some i)"
    "fs w1 ?p = Some (Reg i mode c)" "flocks w1 = flocks w" "\<And>j m' d. fs w ?p = Some (Reg j m' d) \<Longrightarrow> i = j"
    using open_create_Ok[OF o] by metis
  have i: "flocks w1 i = None \<or> flocks w1 i = Some fd" "flocks w2 = (flocks w1)(i := Some fd)" "fds w2 = fds w1"
    "fs w2 = fs w1" "next_fd w2 = next_fd w1"
    using flock_nb_Ok[OF f] fd(3) by (metis fun_upd_same option.inject)+
  have step: "locks_grow w w2"
    using maintainsD[OF grow_open_create o] maintainsD[OF grow_flock_nb f] by (rule grow.R_trans)
  have IH: "locks_grow w2 w'" "set (held @ [fd]) \<subseteq> set h"
    "\<forall>m\<in>set names. \<exists>g\<in>set h. next_fd w2 \<le> g \<and> holds w' (filepath_Join [dir, m @ ''.lock'']) g"
    "\<forall>m\<in>set names. \<forall>g<next_fd w2. \<not> holds w2 (filepath_Join [dir, m @ ''.lock'']) g"
    using Cons.IH[OF rest] by auto
  have "holds w2 ?p fd" using fd(3,4) i by (auto simp: holds_def)
  then have new: "holds w' ?p fd" using IH(1) fd(1,2) i(5) by (auto simp: locks_grow_def)
  have free: "\<not> holds w ?p g" if g: "g < next_fd w" for g
  proof
    assume "holds w ?p g"
    then obtain j m' d where j: "fs w ?p = Some (Reg j m' d)" "flocks w j = Some g" unfolding holds_def by blast
    have "flocks w1 i = Some g" using fd(6)[OF j(1)] j(2) fd(5) by simp
    then show False using i(1) fd(1) g by auto
  qed
  have others: "\<not> holds w (filepath_Join [dir, m @ ''.lock'']) g" if "m \<in> set names" "g < next_fd w" for m g
    using IH(4) that step unfolding locks_grow_def by (meson less_le_trans)
  have le: "next_fd w \<le> next_fd w2" using step by (simp add: locks_grow_def)
  have held: "\<exists>g\<in>set h. next_fd w \<le> g \<and> holds w' (filepath_Join [dir, m @ ''.lock'']) g"
    if "m \<in> set (n # names)" for m
  proof (cases "m = n")
    case True
    have "fd \<in> set h" "next_fd w \<le> fd" using IH(2) fd(1) by auto
    then show ?thesis using new True by blast
  next
    case False
    then have "m \<in> set names" using that by simp
    then obtain g where "g \<in> set h" "next_fd w2 \<le> g" "holds w' (filepath_Join [dir, m @ ''.lock'']) g"
      using IH(3) by blast
    then show ?thesis using le by (meson le_trans)
  qed
  have "locks_grow w w'" using step IH(1) by (rule grow.R_trans)
  moreover have "set held \<subseteq> set h" using IH(2) by simp
  ultimately show ?case using held free others by (simp only: list.set ball_simps) blast
qed

lemma slices_Compact_set [simp]: "set (slices_Compact xs) = set xs"
  by (induction xs rule: slices_Compact.induct) auto

lemma slices_Compact_sorted: "sorted xs \<Longrightarrow> sorted (slices_Compact xs) \<and> distinct (slices_Compact xs)"
proof (induction xs rule: slices_Compact.induct)
  case (1 x y zs)
  then show ?case by (auto simp: less_le)
qed auto

section \<open>Failure\<close>

text \<open>The lock table with the locks of some descriptors released.\<close>

definition released :: "nat list \<Rightarrow> (nat \<Rightarrow> nat option) \<Rightarrow> nat \<Rightarrow> nat option" where
  "released held F i = (case F i of Some fd \<Rightarrow> if fd \<in> set held then None else Some fd | None \<Rightarrow> None)"

lemma released_Nil [simp]: "released [] F = F"
  by (auto simp: released_def fun_eq_iff split: option.splits)

definition fds_fresh :: "world \<Rightarrow> bool" where
  "fds_fresh w \<longleftrightarrow> (\<forall>i fd. flocks w i = Some fd \<longrightarrow> fd < next_fd w)"

lemma close_run: "flocks (snd (sys_close fd w)) = released [fd] (flocks w)"
  by (auto simp: sys_close_def syscall_part_def Let_def close_fd_def released_def fun_eq_iff
      split: fault.splits option.splits)

lemma unlock_run: "unlock held w = (Ok u, w') \<Longrightarrow> flocks w' = released held (flocks w)"
proof (induction held arbitrary: w)
  case Nil
  then show ?case by (simp add: unlock_def)
next
  case (Cons fd held)
  obtain v w1 where c: "ignoreM (sys_close fd) w = (Ok v, w1)" and r: "unlock held w1 = (Ok u, w')"
    using Cons.prems by (auto simp: unlock_def elim!: thenM_OkE)
  have "flocks w1 = released [fd] (flocks w)"
    using close_run[of fd w] ignoreM_snd[of "sys_close fd" w] c by (metis snd_conv)
  with Cons.IH[OF r] show ?case by (auto simp: released_def fun_eq_iff split: option.splits)
qed

lemma unlock_no_Err: "unlock held w \<noteq> (Err e, w')"
proof (induction held arbitrary: w)
  case (Cons fd held)
  then show ?case by (auto simp: unlock_def ignoreM_def thenM_def bindM_def tryM_def returnM_def
        split: prod.splits outcome.splits)
qed (simp add: unlock_def)

lemma open_create_keeps_locks: "sys_open_create p m w = (r, w') \<Longrightarrow> flocks w' = flocks w \<and> next_fd w \<le> next_fd w'"
  by (auto simp: sys_open_create_def syscall_def syscall_part_def open_fd_def set_file_def Let_def
      split: fault.splits option.splits node.splits if_splits)

lemma flock_nb_Err: "sys_flock_nb fd w = (Err e, w') \<Longrightarrow> flocks w' = flocks w"
  by (auto simp: sys_flock_nb_def syscall_def syscall_part_def Let_def split: fault.splits option.splits if_splits)

lemma unlock_fail_run:
  assumes "thenM (unlock held) (failM e) w = (Err e', w')"
  shows "flocks w' = released held (flocks w)"
  using assms
proof (cases rule: thenM_cases)
  case (go x w1)
  then show ?thesis using unlock_run[OF go(1)] by simp
qed (auto simp: unlock_no_Err)

lemma lock_names_Err:
  assumes "lock_names dir held names w = (Err e, w')" "fds_fresh w"
  shows "flocks w' = released held (flocks w)"
  using assms
proof (induction names arbitrary: held w)
  case (Cons n names)
  let ?p = "filepath_Join [dir, n @ ''.lock'']"
  from Cons.prems(1)[unfolded lock_names.simps] show ?case
  proof (cases rule: bindM_cases)
    case (stop e1)
    from stop(1) show ?thesis
    proof (cases rule: tryM_cases)
      case (err e2 w1)
      from err(2) have "flocks w' = released held (flocks w1)" by (rule unlock_fail_run)
      then show ?thesis using open_create_keeps_locks[OF err(1)] by simp
    qed auto
  next
    case (go fd w1)
    then have o: "sys_open_create ?p 384 w = (Ok fd, w1)" by (auto elim!: tryM_OkE)
    obtain i where fd: "fd = next_fd w" "next_fd w1 = Suc fd" "flocks w1 = flocks w"
      using open_create_Ok[OF o] by metis
    from go(2) show ?thesis
    proof (cases rule: thenM_cases)
      case (stop e1)
      from stop(1) have "flocks w' = released (held @ [fd]) (flocks w)"
      proof (cases rule: tryM_cases)
        case (err e2 w2)
        from err(2) have "flocks w' = released (held @ [fd]) (flocks w2)" by (rule unlock_fail_run)
        then show ?thesis using flock_nb_Err[OF err(1)] fd(3) by simp
      qed auto
      moreover have "flocks w i \<noteq> Some fd" for i using Cons.prems(2) fd(1) by (auto simp: fds_fresh_def)
      ultimately show ?thesis by (auto simp: released_def fun_eq_iff split: option.splits)
    next
      case (go u w2)
      then have f: "sys_flock_nb fd w1 = (Ok u, w2)" by (auto elim!: tryM_OkE)
      obtain i where i: "flocks w1 i = None \<or> flocks w1 i = Some fd" "flocks w2 = (flocks w1)(i := Some fd)"
        "next_fd w2 = next_fd w1"
        using flock_nb_Ok[OF f] by metis
      have no: "flocks w j \<noteq> Some fd" for j using Cons.prems(2) fd(1) by (auto simp: fds_fresh_def)
      have "fds_fresh w2" using Cons.prems(2) i fd by (auto simp: fds_fresh_def less_Suc_eq)
      from Cons.IH[OF go(2) this] have "flocks w' = released (held @ [fd]) (flocks w2)" .
      then show ?thesis using i fd(3) no[of i] by (auto simp: released_def fun_eq_iff no split: option.splits)
    qed auto
  qed auto
qed auto

section \<open>Locking\<close>

definition lock_file :: "string \<Rightarrow> string \<Rightarrow> string" where
  "lock_file root n = filepath_Join [filepath_Join [root, ''locks''], n @ ''.lock'']"

lemma forM_validate_Ok:
  "forM names (\<lambda>n. liftM (ValidateWorkspaceName n)) w = (Ok u, w') \<Longrightarrow> w' = w \<and> (\<forall>n\<in>set names. workspaceNamePattern n)"
  by (induction names arbitrary: w) (auto elim!: thenM_OkE)

lemma forM_validate_world: "forM names (\<lambda>n. liftM (ValidateWorkspaceName n)) w = (r, w') \<Longrightarrow> w' = w"
proof (induction names arbitrary: w)
  case (Cons n names)
  from Cons.prems have "thenM (liftM (ValidateWorkspaceName n)) (forM names (\<lambda>n. liftM (ValidateWorkspaceName n))) w = (r, w')"
    by simp
  then show ?case
    by (cases rule: thenM_cases) (use Cons.IH in \<open>auto simp: liftM_def split: sum.splits\<close>)
qed auto

text \<open>The world of file locks as the path functions leave it.\<close>

definition same_locks :: "world \<Rightarrow> world \<Rightarrow> bool" where
  "same_locks w w' \<longleftrightarrow> flocks w' = flocks w \<and> fds w' = fds w \<and> next_fd w' = next_fd w"

interpretation locks: ignores_files same_locks
  by unfold_locales (auto simp: same_locks_def)

lemma mkdir_missing_keeps: "mkdir_missing m ds f = Inr g \<Longrightarrow> f p = Some x \<Longrightarrow> g p = Some x"
  by (induction m ds f arbitrary: g rule: mkdir_missing.induct)
    (fastforce split: option.splits node.splits if_splits)+

lemma grow_MkdirAll: "maintains locks_grow (os_MkdirAll d m)"
proof -
  have "locks_grow w (w\<lparr>fs := g\<rparr>)" if "mkdir_missing m ds (fs w) = Inr g" for ds w g
    using mkdir_missing_keeps[OF that] by (fastforce simp: locks_grow_def holds_def)
  then show ?thesis
    unfolding os_MkdirAll_def
    by (intro grow.m_syscall_part) (auto simp: grow.R_refl split: sum.splits)
qed

lemma grow_DevdDir: "maintains locks_grow DevdDir"
  unfolding DevdDir_def os_Getenv_def os_UserHomeDir_def
  by (intro grow.rules grow_MkdirAll) (auto intro!: grow.rules)

text \<open>What \<^verbatim>\<open>Lock\<close> does before it takes the first lock.\<close>

definition lock_prefix :: "string list \<Rightarrow> string io" where
  "lock_prefix names = thenM (forM names (\<lambda>n. liftM (ValidateWorkspaceName n)))
     (bindM DevdDir (\<lambda>dir. thenM (wrapM ''create operation lock directory'' (os_MkdirAll (filepath_Join [dir, ''locks'']) 448))
       (returnM (filepath_Join [dir, ''locks'']))))"

lemma Lock_prefix: "Lock names = bindM (lock_prefix names) (\<lambda>dir. lock_names dir [] (slices_Compact (sort names)))"
proof -
  have r: "bindM (returnM x) f = f x" for x and f :: "'a \<Rightarrow> 'b io" by (auto simp: fun_eq_iff bindM_def returnM_def)
  show ?thesis unfolding Lock_def lock_prefix_def Let_def thenM_def bindM_assoc r ..
qed

lemma lock_prefix_run:
  assumes "lock_prefix names w = (r, w')"
  shows "same_locks w w' \<and> locks_grow w w' \<and> (\<forall>dir root. r = Ok dir \<longrightarrow> devd_root (orc w) = Inr root \<longrightarrow>
    dir = filepath_Join [root, ''locks''] \<and> (\<forall>n\<in>set names. workspaceNamePattern n))"
proof -
  have "maintains same_locks (lock_prefix names)"
    unfolding lock_prefix_def by (intro locks.rules locks.config_rules locks.file_rules)
  moreover have "maintains locks_grow (lock_prefix names)"
    unfolding lock_prefix_def by (intro grow.rules grow_DevdDir grow_MkdirAll)
  moreover have "dir = filepath_Join [root, ''locks''] \<and> (\<forall>n\<in>set names. workspaceNamePattern n)"
    if "r = Ok dir" "devd_root (orc w) = Inr root" for dir root
    using assms that unfolding lock_prefix_def
    by (auto elim!: thenM_OkE bindM_OkE DevdDir_OkE dest!: forM_validate_Ok)
  ultimately show ?thesis using maintainsD assms by blast
qed

text \<open>C30. \<^verbatim>\<open>Lock\<close> is exclusive and all-or-nothing. If it succeeds, every name was valid, nobody
  held the lock file of any of the names before, and the returned descriptors hold all of
  them. If it returns an error (contention included), every lock is as it was.\<close>

theorem Lock_exclusive:
  assumes "Lock names w = (r, w')" "fds_fresh w" "devd_root (orc w) = Inr root"
  shows "case r of
      Ok h \<Rightarrow> (\<forall>n\<in>set names. workspaceNamePattern n \<and> (\<exists>fd\<in>set h. holds w' (lock_file root n) fd) \<and>
         (\<forall>fd<next_fd w. \<not> holds w (lock_file root n) fd))
    | Err e \<Rightarrow> flocks w' = flocks w
    | Crash \<Rightarrow> True"
  using assms(1)[unfolded Lock_prefix]
proof (cases rule: bindM_cases)
  case (stop e)
  then show ?thesis using lock_prefix_run[OF stop(1)] by (simp add: same_locks_def)
next
  case (go dir w1)
  note pre = lock_prefix_run[OF go(1)]
  have dir: "dir = filepath_Join [root, ''locks'']" "\<forall>n\<in>set names. workspaceNamePattern n"
    using pre assms(3) by auto
  show ?thesis
  proof (cases r)
    case (Ok h)
    have "set (slices_Compact (sort names)) = set names" by simp
    note got = lock_names_Ok[OF go(2)[unfolded Ok], unfolded this, folded lock_file_def[of root, folded dir(1)]]
    have "\<not> holds w (lock_file root n) fd" if n: "n \<in> set names" "fd < next_fd w" for n fd
    proof
      assume "holds w (lock_file root n) fd"
      then have "holds w1 (lock_file root n) fd" "fd < next_fd w1"
        using pre n(2) by (auto simp: locks_grow_def)
      then show False using got n(1) by blast
    qed
    moreover have "\<exists>fd\<in>set h. holds w' (lock_file root n) fd" if "n \<in> set names" for n
      using got that by blast
    ultimately show ?thesis using dir(2) Ok by auto
  next
    case (Err e)
    have "fds_fresh w1" using assms(2) pre by (auto simp: fds_fresh_def same_locks_def)
    then show ?thesis using lock_names_Err[OF go(2)[unfolded Err]] pre Err by (simp add: same_locks_def)
  qed simp
qed simp

theorem Lock_exclusive_witness:
  "fst (Lock [''b'', ''a'', ''b''] blank) = Ok [3, 4] \<and>
   (\<exists>fd\<in>{3, 4}. holds (snd (Lock [''b'', ''a'', ''b''] blank)) (lock_file ''/d'' ''a'') fd) \<and>
   fst (Lock [''a''] (snd (Lock [''b'', ''a'', ''b''] blank))) =
     Err (Wrap ''workspace is busy with another operation'' (Sys EWOULDBLOCK))"
proof -
  have root: "devd_root (orc blank) = Inr ''/d''" by code_simp
  have fr: "fds_fresh blank" by (simp add: fds_fresh_def blank_def)
  have ok: "fst (Lock [''b'', ''a'', ''b''] blank) = Ok [3, 4]" by code_simp
  have busy: "fst (Lock [''a''] (snd (Lock [''b'', ''a'', ''b''] blank))) =
      Err (Wrap ''workspace is busy with another operation'' (Sys EWOULDBLOCK))" by code_simp
  show ?thesis using Lock_exclusive[OF run_pair[OF ok] fr root] ok busy by simp
qed

end
