(* ===== verification/Options.thy ===== *)
theory Options
  imports WorkspaceFiles
begin

text \<open>
  \<^verbatim>\<open>internal/cli/options.go\<close>: the plan of a new or forked workspace and its validation.
  \<^verbatim>\<open>filepath.EvalSymlinks\<close> depends on the links of the host and is a parameter of the
  environment.
\<close>

record workspacePlan =
  pl_Image :: string
  pl_ImageDigest :: string
  pl_ParentName :: string
  pl_Spec :: Spec
  pl_CPUs :: int
  pl_Memory :: int
  pl_Ports :: "int list"
  pl_Mount :: string

record forkOverrides =
  ov_CPUs :: int
  ov_CPUsChanged :: bool
  ov_Memory :: int
  ov_MemoryChanged :: bool
  ov_Ports :: "int list"
  ov_PortsChanged :: bool
  ov_Mount :: string
  ov_MountChanged :: bool
  ov_UserCommand :: string
  ov_UserCommandChanged :: bool
  ov_KernelPath :: string
  ov_KernelPathChanged :: bool

definition applyForkOverrides :: "workspacePlan \<Rightarrow> forkOverrides \<Rightarrow> workspacePlan" where
  "applyForkOverrides source overrides =
     (let result = source;
          result = (if ov_CPUsChanged overrides then result\<lparr>pl_CPUs := ov_CPUs overrides\<rparr> else result);
          result = (if ov_MemoryChanged overrides then result\<lparr>pl_Memory := ov_Memory overrides\<rparr> else result);
          result = (if ov_PortsChanged overrides then result\<lparr>pl_Ports := ov_Ports overrides\<rparr> else result);
          result = (if ov_MountChanged overrides then result\<lparr>pl_Mount := ov_Mount overrides\<rparr> else result);
          result = (if ov_UserCommandChanged overrides
                    then result\<lparr>pl_Spec := (pl_Spec result)\<lparr>sp_UserCommand := ov_UserCommand overrides\<rparr>\<rparr> else result);
          result = (if ov_KernelPathChanged overrides
                    then result\<lparr>pl_Spec := (pl_Spec result)\<lparr>sp_KernelPath := ov_KernelPath overrides\<rparr>\<rparr> else result)
      in result)"

section \<open>Paths of the host\<close>

definition filepath_Abs :: "string \<Rightarrow> string io" where
  "filepath_Abs p =
     (if filepath_IsAbs p then returnM (filepath_Clean p)
      else bindM (bindM (askM o_cwd) liftM) (\<lambda>wd. returnM (filepath_Join [wd, p])))"

definition filepath_EvalSymlinks :: "string \<Rightarrow> string io" where
  "filepath_EvalSymlinks p = bindM (askM (\<lambda>e. o_links e p)) liftM"

definition is_regular :: "node \<Rightarrow> bool" where
  "is_regular x = (case x of Reg i m c \<Rightarrow> True | _ \<Rightarrow> False)"

definition resolveKernelPath :: "string \<Rightarrow> string io" where
  "resolveKernelPath value =
     (if value = [] then returnM []
      else
        bindM (wrapM ''resolve kernel path'' (filepath_Abs value)) (\<lambda>path.
        bindM (wrapM ''resolve kernel path'' (filepath_EvalSymlinks path)) (\<lambda>path.
        bindM (wrapM ''inspect kernel path'' (os_Stat path)) (\<lambda>info.
        if \<not> is_regular info then failM (Msg ''kernel path is not a regular file'')
        else returnM path))))"

section \<open>Ports, mounts and the environment\<close>

fun validatePorts_loop :: "int list \<Rightarrow> int list \<Rightarrow> unit result" where
  "validatePorts_loop seen [] = Inr ()"
| "validatePorts_loop seen (port # ports) =
     (if port < 1 \<or> port > 65535 then Inl (Msg ''port must be between 1 and 65535'')
      else if port \<in> set seen then Inl (Msg ''port was declared more than once'')
      else validatePorts_loop (port # seen) ports)"

definition validatePorts :: "int list \<Rightarrow> unit result" where
  "validatePorts ports = validatePorts_loop [] ports"

definition reserved_guests :: "string list" where
  "reserved_guests = [''/'', ''/dev'', ''/proc'', ''/sys'', ''/run'', ''/devd'']"

definition guest_reserved :: "string \<Rightarrow> bool" where
  "guest_reserved guest =
     list_ex (\<lambda>reserved. guest = reserved \<or> reserved \<noteq> ''/'' \<and> prefix (reserved @ ''/'') guest) reserved_guests"

definition parseMount :: "string \<Rightarrow> (string \<times> string) io" where
  "parseMount value =
     (if value = [] then returnM ([], [])
      else
        (let (hostValue, guestValue, found) = strings_Cut value CHR '':'' in
         if \<not> found \<or> hostValue = [] \<or> guestValue = [] then failM (Msg ''--mount must be host:guest'')
         else
           bindM (wrapM ''resolve mount host path'' (filepath_Abs hostValue)) (\<lambda>host.
           bindM (wrapM ''resolve mount host path'' (filepath_EvalSymlinks host)) (\<lambda>host.
           bindM (wrapM ''inspect mount host path'' (os_Stat host)) (\<lambda>info.
           if \<not> is_dir (Some info) then failM (Msg ''mount host path is not a directory'')
           else
             (let guest = filepath_Clean guestValue in
              if \<not> filepath_IsAbs guest \<or> guest \<noteq> guestValue \<or> strings_ContainsAny guest [CHR 0x0D, CHR 0x0A]
              then failM (Msg ''mount guest path must be a clean absolute path'')
              else if guest_reserved guest then failM (Msg ''mount guest path is reserved'')
              else returnM (host, guest)))))))"

definition env_key :: "string \<Rightarrow> string" where
  "env_key value = fst (strings_Cut value CHR ''='')"

definition reserved_keys :: "string list" where
  "reserved_keys = [''HOME'', ''DEVD_NAME'', ''DEVD_SSH_PORT'']"

definition env_entry_ok :: "string \<Rightarrow> bool" where
  "env_entry_ok value = (CHR ''='' \<in> set value \<and> env_key value \<noteq> [] \<and> CHR 0x00 \<notin> set value)"

fun imageEnvironment_loop :: "string list \<Rightarrow> string list \<Rightarrow> string list result" where
  "imageEnvironment_loop result [] = Inr result"
| "imageEnvironment_loop result (value # values) =
     (if env_key value \<in> set reserved_keys then imageEnvironment_loop result values
      else if \<not> env_entry_ok value then Inl (Msg ''invalid image environment entry'')
      else imageEnvironment_loop (result @ [value]) values)"

definition imageEnvironment :: "string list \<Rightarrow> string list result" where
  "imageEnvironment values =
     (case imageEnvironment_loop [] values of
        Inl e \<Rightarrow> Inl e
      | Inr result \<Rightarrow>
          if length result > 61 then Inl (Msg ''image environment exceeds 61 entries'') else Inr result)"

section \<open>Resolving a plan\<close>

definition resolvePlan :: "workspacePlan \<Rightarrow> workspacePlan io" where
  "resolvePlan plan =
     (if pl_CPUs plan < 1 \<or> pl_CPUs plan > 255 then failM (Msg ''cpus must be between 1 and 255'')
      else if pl_Memory plan < 1 \<or> pl_Memory plan > 4294967295
      then failM (Msg ''memory must be between 1 and 4294967295 MiB'')
      else
        thenM (liftM (validatePorts (pl_Ports plan)))
        (bindM (parseMount (pl_Mount plan)) (\<lambda>(host, guest).
         let plan = plan\<lparr>pl_Spec := (pl_Spec plan)\<lparr>sp_MountHost := host, sp_MountGuest := guest\<rparr>\<rparr> in
         bindM (resolveKernelPath (sp_KernelPath (pl_Spec plan))) (\<lambda>kernel.
         returnM (plan\<lparr>pl_Spec := (pl_Spec plan)\<lparr>sp_KernelPath := kernel\<rparr>\<rparr>)))))"

context change
begin

lemma m_resolveKernelPath: "maintains R (resolveKernelPath v)"
  unfolding resolveKernelPath_def filepath_Abs_def filepath_EvalSymlinks_def by (auto intro!: rules)

lemma m_parseMount: "maintains R (parseMount v)"
  unfolding parseMount_def filepath_Abs_def filepath_EvalSymlinks_def Let_def by (auto intro!: rules split: prod.splits)

lemma m_resolvePlan: "maintains R (resolvePlan p)"
  unfolding resolvePlan_def Let_def by (auto intro!: rules m_parseMount m_resolveKernelPath split: prod.splits)

lemmas option_rules = m_resolvePlan

end

section \<open>What validation guarantees\<close>

lemma validatePorts_loop_iff:
  "validatePorts_loop seen ps = Inr () \<longleftrightarrow>
     distinct ps \<and> set ps \<inter> set seen = {} \<and> (\<forall>p\<in>set ps. 1 \<le> p \<and> p \<le> 65535)"
  by (induction seen ps rule: validatePorts_loop.induct) auto

lemma validatePorts_iff: "validatePorts ps = Inr () \<longleftrightarrow> distinct ps \<and> (\<forall>p\<in>set ps. 1 \<le> p \<and> p \<le> 65535)"
  by (simp add: validatePorts_def validatePorts_loop_iff)

lemma imageEnvironment_loop_iff:
  "imageEnvironment_loop acc vs = Inr r \<longleftrightarrow>
     r = acc @ filter (\<lambda>v. env_key v \<notin> set reserved_keys) vs \<and>
     (\<forall>v\<in>set vs. env_key v \<notin> set reserved_keys \<longrightarrow> env_entry_ok v)"
  by (induction acc vs rule: imageEnvironment_loop.induct) auto

lemma imageEnvironment_iff:
  "imageEnvironment vs = Inr r \<longleftrightarrow>
     r = filter (\<lambda>v. env_key v \<notin> set reserved_keys) vs \<and> length r \<le> 61 \<and> (\<forall>v\<in>set r. env_entry_ok v)"
proof (cases "imageEnvironment_loop [] vs")
  case (Inl e)
  then have "\<not> (\<forall>v\<in>set vs. env_key v \<notin> set reserved_keys \<longrightarrow> env_entry_ok v)"
    using imageEnvironment_loop_iff[of "[]" vs "filter (\<lambda>v. env_key v \<notin> set reserved_keys) vs"] by auto
  with Inl show ?thesis by (auto simp: imageEnvironment_def)
next
  case (Inr x)
  then show ?thesis using imageEnvironment_loop_iff[of "[]" vs x] by (auto simp: imageEnvironment_def)
qed

text \<open>The environment passed to the guest: \<^verbatim>\<open>imageEnvironment\<close> keeps exactly the entries whose key is
  not one of the three devd sets itself, in order; it succeeds exactly when these are at
  most 61 well-formed \<^verbatim>\<open>KEY=value\<close> entries without NUL bytes; and it is idempotent, so the
  environment stored at creation is accepted again at every boot.\<close>

theorem imageEnvironment_exact:
  "(imageEnvironment vs = Inr r \<longleftrightarrow>
      r = filter (\<lambda>v. fst (strings_Cut v CHR ''='') \<notin> {''HOME'', ''DEVD_NAME'', ''DEVD_SSH_PORT''}) vs \<and> length r \<le> 61 \<and>
      (\<forall>v\<in>set r. (\<exists>k x. v = k @ CHR ''='' # x \<and> k \<noteq> []  \<and> CHR ''='' \<notin> set k) \<and> CHR 0x00 \<notin> set v)) \<and>
   (imageEnvironment vs = Inr r \<longrightarrow> imageEnvironment r = Inr r)"
proof -
  have keys: "set reserved_keys = {''HOME'', ''DEVD_NAME'', ''DEVD_SSH_PORT''}" by (simp add: reserved_keys_def)
  have entry: "env_entry_ok v \<longleftrightarrow> (\<exists>k x. v = k @ CHR ''='' # x \<and> k \<noteq> [] \<and> CHR ''='' \<notin> set k) \<and> CHR 0x00 \<notin> set v" for v
  proof
    assume "env_entry_ok v"
    moreover from this have "strings_Cut v CHR ''='' = (env_key v, snd (strings_Cut v CHR ''=''))"
      by (simp add: env_key_def)
    moreover obtain x f where "snd (strings_Cut v CHR ''='') = (x, f)" by fastforce
    ultimately show "(\<exists>k x. v = k @ CHR ''='' # x \<and> k \<noteq> [] \<and> CHR ''='' \<notin> set k) \<and> CHR 0x00 \<notin> set v"
      using strings_Cut_True_iff[of v "CHR ''=''" "env_key v"] strings_Cut_False_iff[of v "CHR ''=''"]
      by (cases f) (auto simp: env_entry_ok_def)
  next
    assume "(\<exists>k x. v = k @ CHR ''='' # x \<and> k \<noteq> [] \<and> CHR ''='' \<notin> set k) \<and> CHR 0x00 \<notin> set v"
    then show "env_entry_ok v" by (auto simp: env_entry_ok_def env_key_def strings_Cut_found)
  qed
  have idem: "imageEnvironment r = Inr r" if "imageEnvironment vs = Inr r"
  proof -
    have "filter (\<lambda>v. env_key v \<notin> set reserved_keys) r = r"
      using that by (auto simp: imageEnvironment_iff intro!: filter_True)
    moreover have "length r \<le> 61" "\<forall>v\<in>set r. env_entry_ok v"
      using that by (auto simp: imageEnvironment_iff)
    ultimately show ?thesis by (simp add: imageEnvironment_iff)
  qed
  show ?thesis
    by (rule conjI) (simp add: imageEnvironment_iff entry env_key_def keys, rule impI, rule idem)
qed

theorem imageEnvironment_exact_witness:
  "imageEnvironment [''PATH=/bin'', ''HOME=/x'', ''A=b=c''] = Inr [''PATH=/bin'', ''A=b=c''] \<and>
   imageEnvironment [''PATH=/bin'', ''A=b=c''] = Inr [''PATH=/bin'', ''A=b=c'']"
proof -
  have ok: "imageEnvironment [''PATH=/bin'', ''HOME=/x'', ''A=b=c''] = Inr [''PATH=/bin'', ''A=b=c'']" by code_simp
  then show ?thesis using imageEnvironment_exact[of "[''PATH=/bin'', ''HOME=/x'', ''A=b=c'']" "[''PATH=/bin'', ''A=b=c'']"] by blast
qed

text \<open>A guest path that devd accepts as a mount point.\<close>

definition guest_ok :: "string \<Rightarrow> bool" where
  "guest_ok g \<longleftrightarrow> filepath_IsAbs g \<and> filepath_Clean g = g \<and> CHR 0x0D \<notin> set g \<and> CHR 0x0A \<notin> set g \<and> \<not> guest_reserved g"

lemma parseMount_Ok:
  assumes "parseMount v w = (Ok (h, g), w')"
  obtains "v = []" "h = []" "g = []" | hv where "v = hv @ CHR '':'' # g" "hv \<noteq> []" "CHR '':'' \<notin> set hv"
    "guest_ok g" "is_dir (fs w h)" "\<exists>a u u'. filepath_Abs hv u = (Ok a, u') \<and> o_links (orc w) a = Inr h"
proof (cases "v = []")
  case True
  then show ?thesis using assms that(1) by (simp add: parseMount_def)
next
  case False
  obtain hv gv f where cut: "strings_Cut v CHR '':'' = (hv, gv, f)" by (cases "strings_Cut v CHR '':''") auto
  have pre: "f" "hv \<noteq> []" "gv \<noteq> []"
    using assms False cut by (auto simp: parseMount_def split: if_splits)
  then have run: "bindM (wrapM ''resolve mount host path'' (filepath_Abs hv)) (\<lambda>host.
           bindM (wrapM ''resolve mount host path'' (filepath_EvalSymlinks host)) (\<lambda>host.
           bindM (wrapM ''inspect mount host path'' (os_Stat host)) (\<lambda>info.
           if \<not> is_dir (Some info) then failM (Msg ''mount host path is not a directory'')
           else
             (let guest = filepath_Clean gv in
              if \<not> filepath_IsAbs guest \<or> guest \<noteq> gv \<or> strings_ContainsAny guest [CHR 0x0D, CHR 0x0A]
              then failM (Msg ''mount guest path must be a clean absolute path'')
              else if guest_reserved guest then failM (Msg ''mount guest path is reserved'')
              else returnM (host, guest))))) w = (Ok (h, g), w')"
    using assms False cut by (simp add: parseMount_def)
  then obtain a w1 x w2 where a: "filepath_Abs hv w = (Ok a, w1)" and l: "o_links (orc w1) a = Inr h"
    and st: "os_Stat h w1 = (Ok x, w2)" and x: "is_dir (Some x)" and g: "g = gv" "guest_ok g"
    by (auto elim!: bindM_OkE simp: filepath_EvalSymlinks_def Let_def guest_ok_def strings_ContainsAny_iff split: if_splits)
  have w1: "w1 = w" using a by (auto simp: filepath_Abs_def elim!: bindM_OkE split: if_splits)
  have "fs w h = Some x"
    using syscall_OkE[OF st[unfolded os_Stat_def]] w1 by (auto split: option.splits)
  moreover have "v = hv @ CHR '':'' # g" "CHR '':'' \<notin> set hv"
    using cut pre g(1) strings_Cut_True_iff[of v "CHR '':''" hv gv] by auto
  ultimately show ?thesis using that(2)[of hv] pre(2) g(2) x a l w1 by metis
qed

lemma resolvePlan_Ok:
  assumes "resolvePlan plan w = (Ok plan', w')"
  obtains h g k u where "1 \<le> pl_CPUs plan" "pl_CPUs plan \<le> 255" "1 \<le> pl_Memory plan" "pl_Memory plan \<le> 4294967295"
    "validatePorts (pl_Ports plan) = Inr ()" "parseMount (pl_Mount plan) w = (Ok (h, g), u)"
    "resolveKernelPath (sp_KernelPath (pl_Spec plan)) u = (Ok k, w')"
    "plan' = plan\<lparr>pl_Spec := (pl_Spec plan)\<lparr>sp_MountHost := h, sp_MountGuest := g, sp_KernelPath := k\<rparr>\<rparr>"
  using assms unfolding resolvePlan_def
  by (auto elim!: bindM_OkE thenM_OkE simp: Let_def split: if_splits)

text \<open>C34. What a resolved plan guarantees: the CPU and memory bounds of the VM companion hold,
  the declared ports are distinct TCP ports, the guest mount point is a clean absolute
  path outside the reserved trees whose host side is a directory (or there is no
  mount), and nothing else of the plan has changed.\<close>

theorem resolvePlan_sound:
  assumes "resolvePlan plan w = (Ok plan', w')"
  shows "1 \<le> pl_CPUs plan' \<and> pl_CPUs plan' \<le> 255 \<and> 1 \<le> pl_Memory plan' \<and> pl_Memory plan' < 2 ^ 32 \<and>
    distinct (pl_Ports plan') \<and> (\<forall>p\<in>set (pl_Ports plan'). 1 \<le> p \<and> p < 2 ^ 16) \<and>
    (pl_Mount plan = [] \<and> sp_MountHost (pl_Spec plan') = [] \<and> sp_MountGuest (pl_Spec plan') = [] \<or>
     guest_ok (sp_MountGuest (pl_Spec plan')) \<and> is_dir (fs w (sp_MountHost (pl_Spec plan')))) \<and>
    plan' = plan\<lparr>pl_Spec := (pl_Spec plan)\<lparr>sp_MountHost := sp_MountHost (pl_Spec plan'),
       sp_MountGuest := sp_MountGuest (pl_Spec plan'), sp_KernelPath := sp_KernelPath (pl_Spec plan')\<rparr>\<rparr>"
proof -
  obtain h g k u where r: "1 \<le> pl_CPUs plan" "pl_CPUs plan \<le> 255" "1 \<le> pl_Memory plan" "pl_Memory plan \<le> 4294967295"
    "validatePorts (pl_Ports plan) = Inr ()" "parseMount (pl_Mount plan) w = (Ok (h, g), u)"
    "plan' = plan\<lparr>pl_Spec := (pl_Spec plan)\<lparr>sp_MountHost := h, sp_MountGuest := g, sp_KernelPath := k\<rparr>\<rparr>"
    using assms by (rule resolvePlan_Ok)
  have "pl_Mount plan = [] \<and> h = [] \<and> g = [] \<or> guest_ok g \<and> is_dir (fs w h)"
    using r(6) by (rule parseMount_Ok) auto
  then show ?thesis using r(1-5) by (auto simp: r(7) validatePorts_iff)
qed

definition demo_plan :: workspacePlan where
  "demo_plan = \<lparr>pl_Image = ''img'', pl_ImageDigest = ''sha'', pl_ParentName = [], pl_Spec = zero_Spec, pl_CPUs = DefaultCPUs,
     pl_Memory = DefaultMemory, pl_Ports = [3000, 8080], pl_Mount = ''/d:/work''\<rparr>"

theorem resolvePlan_sound_witness:
  "fst (resolvePlan demo_plan blank) =
     Ok (demo_plan\<lparr>pl_Spec := zero_Spec\<lparr>sp_MountHost := ''/d'', sp_MountGuest := ''/work''\<rparr>\<rparr>) \<and>
   guest_ok ''/work'' \<and> is_dir (fs blank ''/d'')"
proof -
  have ok: "fst (resolvePlan demo_plan blank) =
     Ok (demo_plan\<lparr>pl_Spec := zero_Spec\<lparr>sp_MountHost := ''/d'', sp_MountGuest := ''/work''\<rparr>\<rparr>)" by code_simp
  show ?thesis using resolvePlan_sound[OF run_pair[OF ok]] ok by (simp add: demo_plan_def)
qed

section \<open>The mount of a stored specification\<close>

text \<open>At every boot and fork the mount is rebuilt as \<^verbatim>\<open>MountHost + ":" + MountGuest\<close> and parsed
  again.\<close>

definition stored_mount :: "Spec \<Rightarrow> string" where
  "stored_mount s = (if sp_MountHost s \<noteq> [] then sp_MountHost s @ '':'' @ sp_MountGuest s else [])"

lemma parseMount_calm:
  assumes "calm w" "CHR '':'' \<notin> set h" "filepath_IsAbs h" "filepath_Clean h = h" "o_links (orc w) h = Inr h" "is_dir (fs w h)"
    "guest_ok g"
  shows "fst (parseMount (h @ '':'' @ g) w) = Ok (h, g)"
proof -
  obtain m where m: "fs w h = Some (Dir m)" using assms(6) by (auto simp: is_dir_def split: option.splits node.splits)
  have ne: "h \<noteq> []" "g \<noteq> []" using assms(3,7) by (auto simp: guest_ok_def filepath_IsAbs_iff)
  have cut: "strings_Cut (h @ CHR '':'' # g) CHR '':'' = (h, g, True)" using assms(2) by (rule strings_Cut_found)
  have "strings_ContainsAny g [CHR 0x0D, CHR 0x0A] = False"
    using assms(7) by (auto simp: guest_ok_def strings_ContainsAny_iff)
  then show ?thesis
    using assms ne cut m
    by (simp add: parseMount_def filepath_Abs_def filepath_EvalSymlinks_def bindM_def wrapM_def tryM_def returnM_def askM_def
        liftM_def os_Stat_def calm_syscall Let_def guest_ok_def is_dir_def)
qed

text \<open>C35. Whether a stored mount survives being parsed again depends on the host path only: if
  the path has no colon (and is still a resolved directory), parsing gives the same pair; if
  it has one, parsing never gives that pair back - it fails, or it mounts another
  directory at another place.\<close>

theorem stored_mount_reparse:
  assumes "sp_MountHost s \<noteq> []" "guest_ok (sp_MountGuest s)"
  shows "if CHR '':'' \<in> set (sp_MountHost s)
    then \<forall>g w w'. parseMount (stored_mount s) w \<noteq> (Ok (g, sp_MountGuest s), w')
    else \<forall>w. calm w \<and> filepath_IsAbs (sp_MountHost s) \<and> filepath_Clean (sp_MountHost s) = sp_MountHost s \<and>
       o_links (orc w) (sp_MountHost s) = Inr (sp_MountHost s) \<and> is_dir (fs w (sp_MountHost s)) \<longrightarrow>
       fst (parseMount (stored_mount s) w) = Ok (sp_MountHost s, sp_MountGuest s)"
proof (cases "CHR '':'' \<in> set (sp_MountHost s)")
  case True
  let ?h = "sp_MountHost s" and ?g = "sp_MountGuest s"
  have "parseMount (stored_mount s) w \<noteq> (Ok (x, ?g), w')" for x w w'
  proof
    assume "parseMount (stored_mount s) w = (Ok (x, ?g), w')"
    then show False
    proof (rule parseMount_Ok)
      assume "stored_mount s = []"
      then show False using assms(1) by (simp add: stored_mount_def)
    next
      fix hv assume "stored_mount s = hv @ CHR '':'' # ?g" "CHR '':'' \<notin> set hv"
      then show False using True assms(1) by (simp add: stored_mount_def)
    qed
  qed
  with True show ?thesis by simp
next
  case False
  then show ?thesis using parseMount_calm assms by (simp add: stored_mount_def)
qed

theorem stored_mount_reparse_witness:
  "fst (parseMount (stored_mount (zero_Spec\<lparr>sp_MountHost := ''/d'', sp_MountGuest := ''/work''\<rparr>)) blank) = Ok (''/d'', ''/work'') \<and>
   fst (parseMount (stored_mount (zero_Spec\<lparr>sp_MountHost := ''/d:/x'', sp_MountGuest := ''/work''\<rparr>)) blank) = Ok (''/d'', ''/x:/work'') \<and>
   (\<forall>g w w'. parseMount (stored_mount (zero_Spec\<lparr>sp_MountHost := ''/d:/x'', sp_MountGuest := ''/work''\<rparr>)) w \<noteq> (Ok (g, ''/work''), w'))"
proof -
  have g: "guest_ok ''/work''" by code_simp
  have b: "calm blank" "filepath_IsAbs ''/d''" "filepath_Clean ''/d'' = ''/d''" "o_links (orc blank) ''/d'' = Inr ''/d''"
    "is_dir (fs blank ''/d'')"
    by (simp add: calm_def blank_def quiet_def) code_simp+
  have x: "fst (parseMount (stored_mount (zero_Spec\<lparr>sp_MountHost := ''/d:/x'', sp_MountGuest := ''/work''\<rparr>)) blank) = Ok (''/d'', ''/x:/work'')"
    by code_simp
  show ?thesis
    using stored_mount_reparse[of "zero_Spec\<lparr>sp_MountHost := ''/d'', sp_MountGuest := ''/work''\<rparr>"]
      stored_mount_reparse[of "zero_Spec\<lparr>sp_MountHost := ''/d:/x'', sp_MountGuest := ''/work''\<rparr>"] g b x by simp
qed

end
