(* ===== verification/SshConfig.thy ===== *)
theory SshConfig
  imports WorkspaceFiles
begin

text \<open>
  \<^verbatim>\<open>internal/ssh\<close>: the managed block of \<^verbatim>\<open>~/.ssh/config\<close> and the key pair. The text
  outside the managed block is the user's; the theorems say that it survives any number of
  updates, and that the update itself is not crash-safe.
\<close>

section \<open>The managed block\<close>

definition beginMarker :: string where "beginMarker = ''# BEGIN devd-managed''"
definition endMarker :: string where "endMarker = ''# END devd-managed''"

abbreviation newline :: char where "newline \<equiv> CHR 0x0A"

record SSHConfigEntry =
  en_Name :: string
  en_Port :: int

definition entry_text :: "string \<Rightarrow> SSHConfigEntry \<Rightarrow> string" where
  "entry_text privKeyPath e =
     ''Host devd-'' @ en_Name e @ [newline] @
     ''    HostName 127.0.0.1'' @ [newline] @
     ''    Port '' @ strconv_Itoa (en_Port e) @ [newline] @
     ''    User root'' @ [newline] @
     ''    IdentityFile '' @ privKeyPath @ [newline] @
     ''    StrictHostKeyChecking no'' @ [newline] @
     ''    UserKnownHostsFile /dev/null'' @ [newline] @
     ''    LogLevel ERROR'' @ [newline] @ [newline]"

definition block_text :: "string \<Rightarrow> SSHConfigEntry list \<Rightarrow> string" where
  "block_text privKeyPath entries =
     beginMarker @ [newline] @ concat (map (entry_text privKeyPath) entries) @ endMarker @ [newline]"

definition replaceBlock :: "string \<Rightarrow> string \<Rightarrow> string" where
  "replaceBlock content newBlock =
     (case (strings_Index content beginMarker, strings_Index content endMarker) of
        (Some startIdx, Some endIdx) \<Rightarrow>
          (let endIdx = endIdx + length endMarker;
               endIdx = (if endIdx < length content \<and> content ! endIdx = newline then endIdx + 1 else endIdx)
           in take startIdx content @ newBlock @ drop endIdx content)
      | _ \<Rightarrow>
          (let content = (if length content > 0 \<and> \<not> suffix [newline] content then content @ [newline] else content)
           in content @ newline # newBlock))"

definition UpdateSSHConfig :: "SSHConfigEntry list \<Rightarrow> unit io" where
  "UpdateSSHConfig entries =
     bindM (os_Getenv ''DEVD_SSH_CONFIG'') (\<lambda>v.
     bindM (if v = [] then bindM os_UserHomeDir (\<lambda>home. returnM (filepath_Join [home, ''.ssh'', ''config'']))
            else returnM v) (\<lambda>sshConfigPath.
     bindM PrivateKeyPath (\<lambda>privKeyPath.
     let block = block_text privKeyPath entries in
     bindM (tryM (os_ReadFile sshConfigPath) returnM
              (\<lambda>e. if os_IsNotExist e then returnM [] else failM (Wrap ''read ssh config'' e))) (\<lambda>existing.
     thenM (os_MkdirAll (filepath_Dir sshConfigPath) 448)
     (os_WriteFile sshConfigPath (replaceBlock existing block) 384)))))"

definition RemoveSSHConfigEntry :: "unit io" where
  "RemoveSSHConfigEntry = UpdateSSHConfig []"

section \<open>Keys\<close>

definition EnsureKeypair :: "string io" where
  "EnsureKeypair =
     bindM PrivateKeyPath (\<lambda>privPath.
     bindM PublicKeyPath (\<lambda>pubPath.
     let read = wrapM ''read public key'' (os_ReadFile pubPath) in
     tryM (os_Stat privPath) (\<lambda>_. read) (\<lambda>_.
       thenM (wrapM ''ssh-keygen''
         (sys_exec [''ssh-keygen'', ''-t'', ''ed25519'', ''-f'', privPath, ''-N'', '''', ''-C'', ''devd'']))
       read)))"

definition PublicKey :: "string io" where
  "PublicKey = bindM PublicKeyPath (\<lambda>pubPath. wrapM ''read public key'' (os_ReadFile pubPath))"

context ignores_files
begin

lemma m_UpdateSSHConfig: "maintains R (UpdateSSHConfig es)"
  unfolding UpdateSSHConfig_def Let_def
  by (intro rules config_rules file_rules) (auto intro!: rules config_rules)

lemma m_EnsureKeypair: "maintains R EnsureKeypair"
  unfolding EnsureKeypair_def Let_def by (intro rules config_rules file_rules)

lemma m_PublicKey: "maintains R PublicKey"
  unfolding PublicKey_def by (intro rules config_rules)

lemmas ssh_rules = m_UpdateSSHConfig m_EnsureKeypair m_PublicKey

end

text \<open>The file that \<^verbatim>\<open>UpdateSSHConfig\<close> writes.\<close>

definition ssh_config_path :: "environ \<Rightarrow> string" where
  "ssh_config_path e =
     (if o_env e ''DEVD_SSH_CONFIG'' \<noteq> [] then o_env e ''DEVD_SSH_CONFIG''
      else case o_home e of Inl err \<Rightarrow> [] | Inr home \<Rightarrow> filepath_Join [home, ''.ssh'', ''config''])"

section \<open>Searching for markers\<close>

text \<open>A marker without a newline that does not occur in a text cannot straddle its end.\<close>

lemma Index_skip_line:
  assumes "newline \<notin> set m" "m \<noteq> []" "\<not> strings_Contains x m"
  shows "strings_Index (x @ newline # y) m = map_option ((+) (length x + 1)) (strings_Index y m)"
  using assms(3)
proof (induction x)
  case Nil
  have "\<not> prefix m (newline # y)" using assms(1,2) by (cases m) auto
  then show ?case by (auto simp: option.map_comp comp_def intro: option.map_cong)
next
  case (Cons c x)
  have "\<not> prefix m (c # x @ newline # y)"
  proof
    assume pre: "prefix m (c # x @ newline # y)"
    then obtain t where t: "c # x @ newline # y = m @ t" by (auto simp: prefix_def)
    have "length m \<le> length (c # x)"
    proof (rule ccontr)
      assume "\<not> length m \<le> length (c # x)"
      then have "m ! Suc (length x) = (c # x @ newline # y) ! Suc (length x)" using t by (simp add: nth_append)
      then have "m ! Suc (length x) = newline" by simp
      then show False using assms(1) \<open>\<not> length m \<le> length (c # x)\<close>
        by (metis length_Cons not_le_imp_less nth_mem)
    qed
    then have "m = take (length m) (c # x)" using t by (metis append_Cons append_eq_conv_conj take_all_iff take_append append_take_drop_id append.right_neutral diff_is_0_eq take_0)
    then have "c # x = [] @ m @ drop (length m) (c # x)" by (metis append_Nil append_take_drop_id)
    then show False using Cons.prems unfolding strings_Contains_iff by blast
  qed
  moreover have "\<not> strings_Contains x m" using Cons.prems by (auto simp: strings_Contains_def split: if_splits)
  ultimately show ?case using Cons.IH by (auto simp: option.map_comp comp_def intro: option.map_cong)
qed

lemma Index_skip_plain:
  assumes "m \<noteq> []" "hd m \<notin> set x"
  shows "strings_Index (x @ y) m = map_option ((+) (length x)) (strings_Index y m)"
  using assms(2)
proof (induction x)
  case Nil
  then show ?case by (cases "strings_Index y m") auto
next
  case (Cons c x)
  have "\<not> prefix m (c # x @ y)" using assms(1) Cons.prems by (cases m) auto
  then show ?case using Cons by (auto simp: option.map_comp comp_def intro: option.map_cong)
qed

lemma Index_self: "m \<noteq> [] \<Longrightarrow> strings_Index (m @ y) m = Some 0"
  by (cases m) auto

section \<open>The user's text survives\<close>

lemma marker_facts:
  "newline \<notin> set beginMarker" "beginMarker \<noteq> []" "newline \<notin> set endMarker" "endMarker \<noteq> []"
  "hd endMarker = CHR ''#''" "\<not> strings_Contains beginMarker endMarker"
  by (simp_all add: beginMarker_def endMarker_def strings_Contains_def)

text \<open>A block as devd writes it: the markers around a body without \<^verbatim>\<open>#\<close>.\<close>

definition is_block :: "string \<Rightarrow> bool" where
  "is_block b \<longleftrightarrow> (\<exists>body. CHR ''#'' \<notin> set body \<and> b = beginMarker @ newline # body @ endMarker @ [newline])"

definition unmarked :: "string \<Rightarrow> bool" where
  "unmarked u \<longleftrightarrow> \<not> strings_Contains u beginMarker \<and> \<not> strings_Contains u endMarker"

lemma replaceBlock_replaces:
  assumes "unmarked u" "is_block b"
  shows "replaceBlock (u @ newline # b @ v) b' = u @ newline # b' @ v"
proof -
  obtain body where body: "CHR ''#'' \<notin> set body" "b = beginMarker @ newline # body @ endMarker @ [newline]"
    using assms(2) by (auto simp: is_block_def)
  let ?c = "u @ newline # b @ v"
  have u: "\<not> strings_Contains u beginMarker" "\<not> strings_Contains u endMarker" using assms(1) by (simp_all add: unmarked_def)
  have start: "strings_Index ?c beginMarker = Some (length u + 1)"
    using Index_skip_line[OF marker_facts(1,2) u(1), of "b @ v"] body(2) by (simp add: Index_self marker_facts)
  have "strings_Index (b @ v) endMarker = Some (length beginMarker + 1 + length body)"
    using Index_skip_line[OF marker_facts(3,4,6), of "body @ endMarker @ [newline] @ v"]
      Index_skip_plain[of endMarker body "endMarker @ [newline] @ v"] body(1)
    by (simp add: body(2) Index_self marker_facts)
  then have stop: "strings_Index ?c endMarker = Some (length u + length beginMarker + length body + 2)"
    using Index_skip_line[OF marker_facts(3,4) u(2), of "b @ v"] by simp
  let ?e = "length u + length beginMarker + length body + 2 + length endMarker"
  define pre where "pre = u @ newline # beginMarker @ newline # body @ endMarker"
  have c: "?c = pre @ newline # v" "length pre = ?e" by (simp_all add: body(2) pre_def)
  have "?e < length ?c" "?c ! ?e = newline" "drop (?e + 1) ?c = v"
    unfolding c(1) c(2)[symmetric] by simp_all
  moreover have "take (length u + 1) ?c = u @ [newline]" by simp
  ultimately show ?thesis
    unfolding replaceBlock_def start stop prod.case option.case Let_def by simp
qed

lemma replaceBlock_appends:
  assumes "unmarked u"
  shows "replaceBlock u b = (if u \<noteq> [] \<and> \<not> suffix [newline] u then u @ [newline] else u) @ newline # b"
  using assms by (auto simp: replaceBlock_def unmarked_def strings_Contains_def)

lemma entry_text_plain:
  assumes "workspaceNamePattern (en_Name e)" "CHR ''#'' \<notin> set key"
  shows "CHR ''#'' \<notin> set (entry_text key e)"
proof -
  have "CHR ''#'' \<notin> set (en_Name e)"
    using valid_name_chars[OF assms(1), of "CHR ''#''"] by (auto simp: name_char_def name_first_def is_letter_def is_digit_def)
  moreover have "CHR ''#'' \<notin> set (strconv_Itoa (en_Port e))"
    using strconv_Itoa_chars[of "CHR ''#''" "en_Port e"] by (auto simp: is_digit_def)
  ultimately show ?thesis using assms(2) by (simp add: entry_text_def)
qed

lemma is_block_text:
  assumes "\<forall>e\<in>set es. workspaceNamePattern (en_Name e)" "CHR ''#'' \<notin> set key"
  shows "is_block (block_text key es)"
proof -
  have "CHR ''#'' \<notin> set (concat (map (entry_text key) es))"
    using assms entry_text_plain by fastforce
  then show ?thesis unfolding is_block_def block_text_def by (intro exI[of _ "concat (map (entry_text key) es)"]) simp
qed

lemma unmarked_newline: "unmarked u \<Longrightarrow> unmarked (u @ [newline])"
  using Index_skip_line[of beginMarker u "[]"] Index_skip_line[of endMarker u "[]"]
  by (auto simp: unmarked_def strings_Contains_def marker_facts)

text \<open>C36. Updating the managed block keeps the user's text. Starting from a configuration without
  markers, the first update appends the block after the text, and every later update
  replaces exactly that block, whatever the user has written after it in the meantime: blocks do not
  accumulate and no other byte changes. (Names are valid workspace names, the key path has
  no \<^verbatim>\<open>#\<close>.)\<close>

theorem ssh_config_keeps_user_text:
  assumes "unmarked u" "CHR ''#'' \<notin> set key"
    and "\<forall>e\<in>set es \<union> set es'. workspaceNamePattern (en_Name e)"
  shows "\<exists>sep. (sep = [] \<or> sep = [newline]) \<and>
    replaceBlock u (block_text key es) = u @ sep @ newline # block_text key es \<and>
    replaceBlock (u @ sep @ newline # block_text key es @ v) (block_text key es') = u @ sep @ newline # block_text key es' @ v"
proof -
  let ?sep = "if u \<noteq> [] \<and> \<not> suffix [newline] u then [newline] else []"
  have "unmarked (u @ ?sep)" using assms(1) unmarked_newline by simp
  moreover have "is_block (block_text key es)" using assms(2,3) by (intro is_block_text) auto
  ultimately have "replaceBlock ((u @ ?sep) @ newline # block_text key es @ v) (block_text key es')
      = (u @ ?sep) @ newline # block_text key es' @ v" by (rule replaceBlock_replaces)
  moreover have "replaceBlock u (block_text key es) = u @ ?sep @ newline # block_text key es"
    using replaceBlock_appends[OF assms(1)] by simp
  ultimately show ?thesis by (intro exI[of _ ?sep]) simp
qed

theorem ssh_config_keeps_user_text_witness:
  "\<exists>sep. (sep = [] \<or> sep = [newline]) \<and>
    replaceBlock ''Host x'' (block_text ''/k'' []) = ''Host x'' @ sep @ newline # block_text ''/k'' [] \<and>
    replaceBlock (''Host x'' @ sep @ newline # block_text ''/k'' [] @ ''Host y'') (block_text ''/k'' [\<lparr>en_Name = ''a'', en_Port = 2222\<rparr>])
      = ''Host x'' @ sep @ newline # block_text ''/k'' [\<lparr>en_Name = ''a'', en_Port = 2222\<rparr>] @ ''Host y''"
proof (rule ssh_config_keeps_user_text)
  show "unmarked ''Host x''" by (simp add: unmarked_def strings_Contains_def beginMarker_def endMarker_def)
  show "CHR ''#'' \<notin> set ''/k''" by simp
  show "\<forall>e\<in>set [] \<union> set [\<lparr>en_Name = ''a'', en_Port = 2222\<rparr>]. workspaceNamePattern (en_Name e)"
    by (simp add: name_first_def is_letter_def)
qed

end
