(* ===== verification/SshLaws.thy ===== *)
theory SshLaws
  imports SshConfig Locks
begin

text \<open>
  The update of \<^verbatim>\<open>~/.ssh/config\<close> is not crash-safe. To say what happens when the process dies at one call of a run, runs are replayed
  with other faults: up to the first call whose fate is different nothing changes.
\<close>

section \<open>Replaying a run with other faults\<close>

definition with_faults :: "(nat \<Rightarrow> fault) \<Rightarrow> world \<Rightarrow> world" where
  "with_faults f w = w\<lparr>orc := (orc w)\<lparr>o_fault := f\<rparr>\<rparr>"

lemma with_faults_simps [simp]:
  "steps (with_faults f w) = steps w" "fs (with_faults f w) = fs w" "orc (with_faults f w) = (orc w)\<lparr>o_fault := f\<rparr>"
  "tick (with_faults f w) = with_faults f (tick w)" "die (with_faults f w) = with_faults f (die w)"
  "with_faults f w\<lparr>fs := g\<rparr> = with_faults f (w\<lparr>fs := g\<rparr>)" "set_file p x (with_faults f w) = with_faults f (set_file p x w)"
  "with_faults f w\<lparr>next_ino := i\<rparr> = with_faults f (w\<lparr>next_ino := i\<rparr>)" "next_ino (with_faults f w) = next_ino w"
  by (simp_all add: with_faults_def tick_def die_def set_file_def)

definition replays :: "'a io \<Rightarrow> bool" where
  "replays m \<longleftrightarrow> (\<forall>w r w'. m w = (r, w') \<longrightarrow> steps w \<le> steps w' \<and> orc w' = orc w \<and>
     (\<forall>f. (\<forall>n<steps w'. f n = o_fault (orc w) n) \<longrightarrow> m (with_faults f w) = (r, with_faults f w')))"

lemma replaysD:
  assumes "replays m" "m w = (r, w')"
  shows "steps w \<le> steps w'" "orc w' = orc w"
    "\<forall>n<steps w'. f n = o_fault (orc w) n \<Longrightarrow> m (with_faults f w) = (r, with_faults f w')"
  using assms unfolding replays_def by blast+

named_theorems replay \<open>commands whose runs can be replayed\<close>

lemma replays_pure [replay]: "replays (returnM x)" "replays (failM e)" "replays (liftM y)"
  by (auto simp: replays_def returnM_def failM_def liftM_def split: sum.splits)

lemma replays_ask: "(\<And>e f. g (e\<lparr>o_fault := f\<rparr>) = g e) \<Longrightarrow> replays (askM g)"
  by (simp add: replays_def askM_def)

lemma replays_try [replay]:
  assumes m: "replays m" and k: "\<And>x. replays (k x)" and h: "\<And>e. replays (h e)"
  shows "replays (tryM m k h)"
proof -
  have step: "steps w \<le> steps w' \<and> orc w' = orc w \<and>
      (\<forall>f. (\<forall>n<steps w'. f n = o_fault (orc w) n) \<longrightarrow> tryM m k h (with_faults f w) = (r, with_faults f w'))"
    if 1: "m w = (q, w1)" and c: "replays c" "c w1 = (r, w')"
      and eq: "\<And>f. m (with_faults f w) = (q, with_faults f w1) \<Longrightarrow> tryM m k h (with_faults f w) = c (with_faults f w1)" for w q w1 c r w'
    using replaysD[OF m 1] replaysD[OF c] eq by (metis order_less_le_trans order_trans)
  show ?thesis
    unfolding replays_def
  proof (intro allI impI)
    fix w r w' assume "tryM m k h w = (r, w')"
    then show "steps w \<le> steps w' \<and> orc w' = orc w \<and>
      (\<forall>f. (\<forall>n<steps w'. f n = o_fault (orc w) n) \<longrightarrow> tryM m k h (with_faults f w) = (r, with_faults f w'))"
    proof (cases rule: tryM_cases)
      case (ok x w1)
      show ?thesis by (rule step[OF ok(1) k ok(2)]) (simp add: tryM_def)
    next
      case (err e w1)
      show ?thesis by (rule step[OF err(1) h err(2)]) (simp add: tryM_def)
    next
      case crash
      show ?thesis using replaysD[OF m crash(1)] crash(2) by (simp add: tryM_def)
    qed
  qed
qed

lemma bindM_tryM: "bindM m k = tryM m k failM"
  by (auto simp: bindM_def tryM_def failM_def fun_eq_iff split: prod.splits outcome.splits)

lemma replays_bind [replay]: "replays m \<Longrightarrow> (\<And>x. replays (k x)) \<Longrightarrow> replays (bindM m k)"
  by (simp add: bindM_tryM replays_try replays_pure)

lemma replays_then [replay]: "replays m \<Longrightarrow> replays c \<Longrightarrow> replays (thenM m c)"
  by (simp add: thenM_def replays_bind)

lemma replays_syscall_part:
  assumes "\<And>n w. steps (snd (g n w)) = steps w \<and> orc (snd (g n w)) = orc w"
    and "\<And>n k w. steps (part n k w) = steps w \<and> orc (part n k w) = orc w"
    and "\<And>n w f. g n (with_faults f w) = map_prod id (with_faults f) (g n w)"
    and "\<And>n k w f. part n k (with_faults f w) = with_faults f (part n k w)"
  shows "replays (syscall_part part g)"
proof -
  have "steps w \<le> steps w' \<and> orc w' = orc w \<and>
      (\<forall>f. (\<forall>n<steps w'. f n = o_fault (orc w) n) \<longrightarrow> syscall_part part g (with_faults f w) = (r, with_faults f w'))"
    if run: "syscall_part part g w = (r, w')" for w r w'
  proof -
    let ?n = "steps w"
    have s: "steps w' = Suc ?n \<and> orc w' = orc w"
      using run assms(1)[of ?n "tick w"] assms(2)[of ?n _ "tick w"]
      by (auto simp: syscall_part_def Let_def tick_def die_def split: fault.splits prod.splits sum.splits)
    have "syscall_part part g (with_faults f w) = (r, with_faults f w')" if "f ?n = o_fault (orc w) ?n" for f
      using run that assms(3)[of ?n f "tick w"] assms(4)[of ?n _ f "tick w"]
      by (auto simp: syscall_part_def Let_def split: fault.splits prod.splits sum.splits)
    then show ?thesis using s by simp
  qed
  then show ?thesis unfolding replays_def by blast
qed

lemma replays_files [replay]: "replays (os_ReadFile p)" "replays (os_MkdirAll p m)" "replays (sys_open_trunc p m)"
  unfolding os_ReadFile_def os_MkdirAll_def sys_open_trunc_def syscall_def
  by (rule replays_syscall_part; auto simp: set_file_def split: option.splits node.splits sum.splits)+

lemma replays_env [replay]: "replays (os_Getenv v)" "replays os_UserHomeDir"
  unfolding os_Getenv_def os_UserHomeDir_def by (intro replays_ask replays_bind replays_pure; simp)+

lemma replays_PrivateKeyPath [replay]: "replays PrivateKeyPath"
proof -
  have "replays DevdDir" unfolding DevdDir_def by (intro replay) (auto intro!: replay)
  then have "replays SSHDir" unfolding SSHDir_def Let_def by (intro replay)
  then show ?thesis unfolding PrivateKeyPath_def by (intro replay)
qed

section \<open>An existing file before it is written\<close>

definition still_there :: "string \<Rightarrow> world \<Rightarrow> world \<Rightarrow> bool" where
  "still_there p w w' \<longleftrightarrow> same_env w w' \<and> (fs w p \<noteq> None \<longrightarrow> fs w' p = fs w p)"

interpretation there: change "still_there p" for p
  by unfold_locales (auto simp: still_there_def same_env_def tick_def die_def)

lemma there_MkdirAll: "maintains (still_there p) (os_MkdirAll d m)"
  unfolding os_MkdirAll_def
  by (rule there.m_syscall_part) (auto simp: still_there_def same_env_def dest: mkdir_missing_keeps split: sum.splits)

lemma there_PrivateKeyPath: "maintains (still_there p) PrivateKeyPath"
proof -
  have "maintains (still_there p) DevdDir"
    unfolding DevdDir_def os_Getenv_def os_UserHomeDir_def by (intro there.rules there_MkdirAll) (auto intro!: there.rules)
  then have "maintains (still_there p) SSHDir" unfolding SSHDir_def Let_def by (intro there.rules there_MkdirAll)
  then show ?thesis unfolding PrivateKeyPath_def by (intro there.rules)
qed

text \<open>\<^verbatim>\<open>UpdateSSHConfig\<close> up to the call of \<^verbatim>\<open>os.WriteFile\<close>: the path and the new text.\<close>

definition new_config :: "SSHConfigEntry list \<Rightarrow> (string \<times> string) io" where
  "new_config entries =
     bindM (os_Getenv ''DEVD_SSH_CONFIG'') (\<lambda>v.
     bindM (if v = [] then bindM os_UserHomeDir (\<lambda>home. returnM (filepath_Join [home, ''.ssh'', ''config'']))
            else returnM v) (\<lambda>path.
     bindM PrivateKeyPath (\<lambda>key.
     bindM (tryM (os_ReadFile path) returnM
              (\<lambda>e. if os_IsNotExist e then returnM [] else failM (Wrap ''read ssh config'' e))) (\<lambda>existing.
     thenM (os_MkdirAll (filepath_Dir path) 448)
     (returnM (path, replaceBlock existing (block_text key entries)))))))"

lemma bindM_return: "bindM (returnM x) f = f x"
  by (simp add: bindM_def returnM_def fun_eq_iff)

lemma UpdateSSHConfig_parts: "UpdateSSHConfig entries = bindM (new_config entries) (\<lambda>(path, content). os_WriteFile path content 384)"
  unfolding UpdateSSHConfig_def new_config_def Let_def thenM_def by (simp only: bindM_assoc bindM_return prod.case)

lemma replays_new_config: "replays (new_config entries)"
  unfolding new_config_def by (intro replay) (auto intro!: replay)

lemma there_new_config: "maintains (still_there p) (new_config entries)"
  unfolding new_config_def os_Getenv_def os_UserHomeDir_def
  by (intro there.rules there_MkdirAll there_PrivateKeyPath) (auto intro!: there.rules)

lemma new_config_path:
  "new_config entries w = (Ok (path, content), w') \<Longrightarrow> path = ssh_config_path (orc w)"
  unfolding new_config_def os_Getenv_def os_UserHomeDir_def ssh_config_path_def
  by (auto elim!: bindM_OkE thenM_OkE split: if_splits sum.splits)

lemma WriteFile_calls:
  assumes "os_WriteFile p d m w = (Ok u, w')"
  obtains w1 w2 where "sys_open_trunc p m w = (Ok (), w1)" "sys_write p d w1 = (Ok (), w2)" "sys_noop w2 = (Ok u, w')"
  using assms unfolding os_WriteFile_def by (auto elim!: thenM_OkE tryM_OkE)

text \<open>C37. The update of the configuration is not crash-safe. Unlike devd's own files, \<^verbatim>\<open>~/.ssh/config\<close> is truncated and rewritten in place: whenever an
  update of an existing file succeeds, the same run would have left the user with an empty file if the process had died
  at one particular call, and nothing else had been different.\<close>

theorem ssh_config_update_can_lose_text:
  assumes "UpdateSSHConfig entries w = (Ok (), w')" "fs w (ssh_config_path (orc w)) = Some (Reg i m c)"
  shows "\<exists>n w''. UpdateSSHConfig entries (with_faults ((o_fault (orc w))(n := Die 0)) w) = (Crash, w'') \<and> n < steps w' \<and>
    fs w'' (ssh_config_path (orc w)) = Some (Reg i m [])"
proof -
  let ?p = "ssh_config_path (orc w)"
  obtain x w1 where x: "new_config entries w = (Ok x, w1)" "(case x of (path, content) \<Rightarrow> os_WriteFile path content 384) w1 = (Ok (), w')"
    by (rule bindM_OkE[OF assms(1)[unfolded UpdateSSHConfig_parts]])
  obtain path content where pc: "x = (path, content)" by fastforce
  have "path = ?p" by (rule new_config_path[OF x(1)[unfolded pc]])
  then have 1: "new_config entries w = (Ok (?p, content), w1)" and wr: "os_WriteFile ?p content 384 w1 = (Ok (), w')"
    using x pc by simp_all
  have w1: "fs w1 ?p = Some (Reg i m c)" using maintainsD[OF there_new_config 1, of ?p] assms(2) by (simp add: still_there_def)
  obtain w2 w3 where 2: "sys_open_trunc ?p 384 w1 = (Ok (), w2)" and 3: "sys_write ?p content w2 = (Ok (), w3)" "sys_noop w3 = (Ok (), w')"
    using WriteFile_calls[OF wr] by blast
  have w2: "fs w2 ?p = Some (Reg i m [])" "steps w2 = Suc (steps w1)"
    using syscall_OkE[OF 2[unfolded sys_open_trunc_def]] w1 by (auto simp: set_file_def tick_def)
  let ?f = "(o_fault (orc w))(steps w2 := Die 0)"
  have o1: "orc w1 = orc w" by (rule replaysD(2)[OF replays_new_config 1])
  have r1: "new_config entries (with_faults ?f w) = (Ok (?p, content), with_faults ?f w1)"
    by (rule replaysD(3)[OF replays_new_config 1]) (simp add: w2(2))
  have r2: "sys_open_trunc ?p 384 (with_faults ?f w1) = (Ok (), with_faults ?f w2)"
    by (rule replaysD(3)[OF replays_files(3) 2]) (simp add: o1)
  have r3: "sys_write ?p content (with_faults ?f w2) = (Crash, die (append_bytes ?p [] (tick (with_faults ?f w2))))"
    by (simp add: sys_write_def syscall_part_def del: with_faults_simps(4,5))
  have "UpdateSSHConfig entries (with_faults ?f w) = (Crash, die (append_bytes ?p [] (tick (with_faults ?f w2))))"
    using r1 r2 r3 by (simp add: UpdateSSHConfig_parts os_WriteFile_def bindM_def thenM_def tryM_def)
  moreover have "fs (die (append_bytes ?p [] (tick (with_faults ?f w2)))) ?p = Some (Reg i m [])"
    using w2(1) by (simp add: append_bytes_def die_def set_file_def)
  moreover have "steps w2 < steps w'"
    using syscall_part_OkE[OF 3(1)[unfolded sys_write_def]] syscall_OkE[OF 3(2)[unfolded sys_noop_def]]
    by (auto simp: tick_def append_bytes_def set_file_def split: option.splits node.splits)
  ultimately show ?thesis by blast
qed

section \<open>An example\<close>

text \<open>A host whose user has an ssh configuration.\<close>

definition ssh_host :: world where
  "ssh_host = blank\<lparr>fs := (fs blank)(''/h'' := Some (Dir 448), ''/h/.ssh'' := Some (Dir 448),
     ''/h/.ssh/config'' := Some (Reg 1 384 ''Host x''))\<rparr>"

theorem ssh_config_update_can_lose_text_witness:
  "\<exists>f w''. UpdateSSHConfig [] (with_faults f ssh_host) = (Crash, w'') \<and> fs ssh_host ''/h/.ssh/config'' = Some (Reg 1 384 ''Host x'') \<and>
     fs w'' ''/h/.ssh/config'' = Some (Reg 1 384 [])"
proof -
  have ok: "fst (UpdateSSHConfig [] ssh_host) = Ok ()" by code_simp
  have p: "ssh_config_path (orc ssh_host) = ''/h/.ssh/config''" "fs ssh_host ''/h/.ssh/config'' = Some (Reg 1 384 ''Host x'')" by code_simp+
  from ssh_config_update_can_lose_text[OF run_pair[OF ok], unfolded p(1), OF p(2)] p(2) show ?thesis by blast
qed

end
