(* ===== verification/Vm.thy ===== *)
theory Vm
  imports WorkspaceFiles
begin

text \<open>
  \<^verbatim>\<open>internal/vm\<close>: the identity of a VM process (\<^verbatim>\<open>process.go\<close>, \<^verbatim>\<open>process_linux.go\<close>,
  \<^verbatim>\<open>process_darwin.go\<close>), locating the companions, and launching and stopping a VM
  (\<^verbatim>\<open>runtime.go\<close>). Times are in milliseconds. A process is never identified by its
  number alone: the theorems say that stopping succeeds only when the exact incarnation is
  gone and that no other process is signalled.
\<close>

section \<open>Process identity\<close>

record Process =
  pr_PID :: int
  pr_StartTime :: string

definition processIdentity :: "int \<Rightarrow> string io" where
  "processIdentity pid = wrapM ''inspect PID'' (sys_identity pid)"

definition Running :: "Process \<Rightarrow> bool io" where
  "Running p =
     (if pr_PID p \<le> 0 \<or> pr_StartTime p = [] then failM (Msg ''incomplete VM process identity'')
      else bindM (processIdentity (pr_PID p)) (\<lambda>identity.
           returnM (identity \<noteq> [] \<and> identity = pr_StartTime p)))"

definition IsRunning :: "int \<Rightarrow> bool io" where
  "IsRunning pid =
     (if pid \<le> 0 then returnM False
      else tryM (processIdentity pid) (\<lambda>identity. returnM (identity \<noteq> [])) (\<lambda>_. returnM True))"

subsection \<open>Linux: \<^verbatim>\<open>/proc/<pid>/stat\<close>\<close>

definition is_space :: "char \<Rightarrow> bool" where
  "is_space c = (c = CHR '' '' \<or> c = CHR 0x09 \<or> c = CHR 0x0A \<or> c = CHR 0x0B \<or> c = CHR 0x0C \<or> c = CHR 0x0D)"

text \<open>\<^verbatim>\<open>strings.Fields\<close> and \<^verbatim>\<open>strings.TrimSpace\<close> on ASCII text.\<close>

function strings_Fields :: "string \<Rightarrow> string list" where
  "strings_Fields s =
     (let t = dropWhile is_space s in
      if t = [] then [] else takeWhile (\<lambda>c. \<not> is_space c) t # strings_Fields (dropWhile (\<lambda>c. \<not> is_space c) t))"
  by pat_completeness auto
termination
proof (relation "measure length")
  fix s t assume t: "t = dropWhile is_space s" "t \<noteq> []"
  obtain c r where c: "t = c # r" using t(2) by (cases t) auto
  have "\<not> is_space (hd t)" using t by (metis hd_dropWhile)
  note cr = c this[unfolded c list.sel]
  have "length (dropWhile (\<lambda>c. \<not> is_space c) t) \<le> length r" using cr by (simp add: length_dropWhile_le)
  also have "length t \<le> length s" unfolding t(1) by (rule length_dropWhile_le)
  then have "length r < length s" using cr(1) by simp
  finally show "(dropWhile (\<lambda>c. \<not> is_space c) t, s) \<in> measure length" by simp
qed simp

declare strings_Fields.simps [simp del]

definition strings_TrimSpace :: "string \<Rightarrow> string" where
  "strings_TrimSpace s = rev (dropWhile is_space (rev (dropWhile is_space s)))"

text \<open>The part of the Linux \<^verbatim>\<open>processIdentity\<close> after the two reads. The commands use \<open>processIdentity\<close>, where the identity of a process is one
  observation of the process table; that the text computed here identifies an incarnation is what this abstraction takes from it.\<close>

definition linux_identity :: "string \<Rightarrow> string \<Rightarrow> string result" where
  "linux_identity boot data =
     (case last_index_byte data CHR '')'' of
        None \<Rightarrow> Inl (Msg ''invalid process stat'')
      | Some i \<Rightarrow>
         (let fields = strings_Fields (drop (Suc i) data) in
          if length fields < 20 then Inl (Msg ''incomplete process stat'')
          else if fields ! 0 = ''Z'' \<or> fields ! 0 = ''X'' then Inr []
          else Inr (strings_TrimSpace boot @ '':'' @ fields ! 19)))"

subsection \<open>Darwin: \<^verbatim>\<open>kern.proc.pid\<close>\<close>

record kinfo =
  ki_pid :: int
  ki_stat :: int
  ki_sec :: int
  ki_usec :: nat

definition pad6 :: "nat \<Rightarrow> string" where
  "pad6 n = replicate (6 - length (nat_digits n)) CHR ''0'' @ nat_digits n"

definition darwin_identity :: "kinfo list \<Rightarrow> string" where
  "darwin_identity entries =
     (case entries of [] \<Rightarrow> []
      | info # _ \<Rightarrow> if ki_pid info = 0 \<or> ki_stat info = 5 then []
                    else strconv_Itoa (ki_sec info) @ ''.'' @ pad6 (ki_usec info))"

section \<open>The launch receipt\<close>

definition Process_members :: "Process \<Rightarrow> (string \<times> json) list" where
  "Process_members p = [(''pid'', JNum (strconv_Itoa (pr_PID p))), (''start_time'', JStr (pr_StartTime p))]"

definition Process_fields :: "(string \<times> Process setter) list" where
  "Process_fields = [(''pid'', set_int (\<lambda>i p. p\<lparr>pr_PID := i\<rparr>)), (''start_time'', set_string (\<lambda>v p. p\<lparr>pr_StartTime := v\<rparr>))]"

definition zero_Process :: Process where "zero_Process = \<lparr>pr_PID = 0, pr_StartTime = []\<rparr>"

definition ReadProcess :: "string \<Rightarrow> Process option io" where
  "ReadProcess path =
     tryM (os_ReadFile path)
       (\<lambda>data.
         bindM (wrapM ''decode VM process receipt'' (liftM (json_Unmarshal Process_fields data zero_Process))) (\<lambda>p.
         if pr_PID p \<le> 0 \<or> pr_StartTime p = [] then failM (Msg ''invalid VM process receipt'')
         else returnM (Some p)))
       (\<lambda>e. if os_IsNotExist e then returnM None else failM (Wrap ''read VM process receipt'' e))"

definition close_on_error :: "error \<Rightarrow> unit io" where
  "close_on_error e = thenM (ignoreM sys_noop) (failM e)"

definition writeProcess :: "string \<Rightarrow> Process \<Rightarrow> unit io" where
  "writeProcess path p =
     (let data = json_Marshal (JObj (Process_members p)) in
      bindM (os_CreateTemp (filepath_Dir path) ''.process-'' []) (\<lambda>name.
      deferM
        (thenM (tryM (sys_write name data) returnM close_on_error)
        (thenM (tryM sys_noop returnM close_on_error)
        (thenM sys_noop
        (thenM (os_Rename name path)
        (bindM (sys_open_read (filepath_Dir path)) (\<lambda>dir. deferM sys_noop (sys_close dir)))))))
        (os_Remove name)))"

section \<open>Locating the companions\<close>

definition executable_node :: "node \<Rightarrow> bool" where
  "executable_node x = (case x of Reg i m c \<Rightarrow> m mod 2 = 1 \<or> m div 8 mod 2 = 1 \<or> m div 64 mod 2 = 1
     | Special m \<Rightarrow> m mod 2 = 1 \<or> m div 8 mod 2 = 1 \<or> m div 64 mod 2 = 1 | Dir m \<Rightarrow> False)"

definition os_Executable :: "string io" where
  "os_Executable = bindM (askM o_executable) liftM"

definition exec_LookPath :: "string \<Rightarrow> string io" where
  "exec_LookPath name = bindM (askM (\<lambda>e. o_lookpath e name)) liftM"

definition companionPath :: "string \<Rightarrow> string \<Rightarrow> string io" where
  "companionPath envName name =
     bindM (os_Getenv envName) (\<lambda>path.
     if path \<noteq> [] then
       tryM (os_Stat path)
         (\<lambda>info. if executable_node info then returnM path else failM (Msg ''companion points to unavailable executable''))
         (\<lambda>_. failM (Msg ''companion points to unavailable executable''))
     else
       (let look = tryM (exec_LookPath name) returnM (\<lambda>_. failM (Msg ''companion not found'')) in
        tryM os_Executable
          (\<lambda>executable.
             let path = filepath_Join [filepath_Dir executable, name] in
             tryM (os_Stat path) (\<lambda>info. if executable_node info then returnM path else look) (\<lambda>_. look))
          (\<lambda>_. look)))"

definition RuntimePath :: "string io" where
  "RuntimePath = companionPath ''DEVD_VM_RUNTIME'' ''devd-vm''"

definition ImageHelperPath :: "string io" where
  "ImageHelperPath = companionPath ''DEVD_IMAGE_HELPER'' ''devd-image-helper''"

definition CheckRuntime :: "unit io" where
  "CheckRuntime = thenM RuntimePath (thenM ImageHelperPath (returnM ()))"

section \<open>Launching\<close>

record Mount =
  mt_Tag :: string
  mt_HostPath :: string

record StartOpts =
  so_DiskPath :: string
  so_CPUs :: int
  so_Memory :: int
  so_Env :: "string list"
  so_Mounts :: "Mount list"
  so_Command :: string
  so_Args :: "string list"
  so_Workdir :: string
  so_LogFile :: string
  so_KernelPath :: string
  so_ProcessFile :: string

definition appendVMConfig :: "string list \<Rightarrow> int \<Rightarrow> int \<Rightarrow> string list \<Rightarrow> Mount list \<Rightarrow> string \<Rightarrow> string list" where
  "appendVMConfig args cpus memory env mounts workdir =
     (let args = (if cpus > 0 then args @ [''--cpus'', strconv_Itoa cpus] else args);
          args = (if memory > 0 then args @ [''--mem'', strconv_Itoa memory] else args);
          args = foldl (\<lambda>args m. args @ [''--virtiofs'', mt_Tag m @ '':'' @ mt_HostPath m]) args mounts;
          args = foldl (\<lambda>args v. args @ [''--env'', v]) args env
      in if workdir \<noteq> [] then args @ [''--workdir'', workdir] else args)"

definition startArgs :: "StartOpts \<Rightarrow> string list result" where
  "startArgs opts =
     (if so_DiskPath opts = [] \<or> so_Command opts = [] \<or> so_ProcessFile opts = []
      then Inl (Msg ''root disk, guest command, and process receipt path are required'')
      else if so_CPUs opts < 1 \<or> so_CPUs opts > 255 \<or> so_Memory opts < 1 \<or> so_Memory opts > 4294967295
      then Inl (Msg ''invalid VM CPU or memory allocation'')
      else if length (so_Env opts) > 64 \<or> length (so_Mounts opts) > 8
      then Inl (Msg ''VM configuration exceeds companion limits'')
      else
        (let args = [''--disk'', so_DiskPath opts];
             args = (if so_KernelPath opts \<noteq> [] then args @ [''--kernel'', so_KernelPath opts] else args);
             args = appendVMConfig args (so_CPUs opts) (so_Memory opts) (so_Env opts) (so_Mounts opts) (so_Workdir opts);
             args = args @ [''--'', so_Command opts]
         in Inr (args @ so_Args opts)))"

definition Start :: "StartOpts \<Rightarrow> Process io" where
  "Start opts =
     bindM RuntimePath (\<lambda>runtimePath.
     bindM (liftM (startArgs opts)) (\<lambda>args.
     thenM (if so_LogFile opts \<noteq> [] then wrapM ''open VM log'' (sys_open_trunc (so_LogFile opts) 420) else returnM ())
     (bindM (wrapM ''start devd-vm'' (sys_spawn (runtimePath # args))) (\<lambda>pid.
      tryM (bindM (processIdentity pid) (\<lambda>identity.
             if identity = [] then failM (Msg ''VM exited before its process identity could be recorded'')
             else thenM (writeProcess (so_ProcessFile opts) \<lparr>pr_PID = pid, pr_StartTime = identity\<rparr>)
                  (returnM \<lparr>pr_PID = pid, pr_StartTime = identity\<rparr>)))
        returnM
        (\<lambda>e. thenM (ignoreM (sys_kill pid ''SIGKILL'')) (failM (Wrap ''record VM process'' e)))))))"

record PackOpts =
  po_HelperRoot :: string
  po_SourceRoot :: string
  po_TargetDisk :: string
  po_CPUs :: int
  po_Memory :: int
  po_LogFile :: string

definition Pack :: "PackOpts \<Rightarrow> unit io" where
  "Pack opts =
     bindM RuntimePath (\<lambda>runtimePath.
     let args = [''--helper-root'', po_HelperRoot opts, ''--data-disk'', po_TargetDisk opts,
                 ''--virtiofs'', ''source:'' @ po_SourceRoot opts];
         args = appendVMConfig args (po_CPUs opts) (po_Memory opts) [] [] ''/'';
         args = args @ [''--'', ''/devd-image-helper''] in
     thenM (if po_LogFile opts \<noteq> [] then wrapM ''open image conversion log'' (sys_open_trunc (po_LogFile opts) 420) else returnM ())
     (bindM (wrapM ''run image conversion VM'' (sys_exec (runtimePath # args))) (\<lambda>output.
      if \<not> strings_Contains output ''DEVD_IMAGE_COMPLETE''
      then failM (Msg ''image conversion VM exited without completion marker'')
      else returnM ())))"

section \<open>Stopping\<close>

definition alive :: "Process \<Rightarrow> world \<Rightarrow> bool" where
  "alive p w \<longleftrightarrow> (case map_of (procs w) (pr_PID p) of None \<Rightarrow> False | Some q \<Rightarrow> p_ident q = pr_StartTime p)"

lemma identity_cases:
  assumes "processIdentity pid w = (r, w')"
  obtains "r = Ok (case map_of (procs w') pid of None \<Rightarrow> [] | Some p \<Rightarrow> p_ident p)" "w' = tick w"
    | e where "r = Err e" "w' = tick w" | "r = Crash" "w' = die (tick w)"
proof (cases "o_fault (orc w) (steps w)")
  case Proceed
  let ?x = "case map_of (procs (tick w)) pid of None \<Rightarrow> [] | Some p \<Rightarrow> p_ident p"
  have "sys_identity pid w = (Ok ?x, tick w)"
    using Proceed by (simp add: sys_identity_def syscall_def syscall_part_def Let_def)
  then have "processIdentity pid w = (Ok ?x, tick w)" by (simp add: processIdentity_def)
  then have "r = Ok ?x" "w' = tick w" using assms by (simp_all only: prod.inject)
  then show ?thesis by (intro that(1)) simp_all
next
  case (Fail x k)
  then have "processIdentity pid w = (Err (Wrap ''inspect PID'' (Sys x)), tick w)"
    by (simp add: processIdentity_def wrapM_def tryM_def failM_def sys_identity_def syscall_def syscall_part_def Let_def)
  then show ?thesis using assms by (intro that(2)) simp_all
next
  case (Die k)
  then have "processIdentity pid w = (Crash, die (tick w))"
    by (simp add: processIdentity_def wrapM_def tryM_def sys_identity_def syscall_def syscall_part_def Let_def)
  then show ?thesis using assms by (intro that(3)) simp_all
qed

lemma Running_run:
  assumes "Running p w = (r, w')"
  shows "(\<forall>b. r = Ok b \<longrightarrow> b = alive p w' \<and> w' = tick w \<and> 0 < pr_PID p \<and> pr_StartTime p \<noteq> []) \<and>
    clock w \<le> clock w'"
proof (cases "pr_PID p \<le> 0 \<or> pr_StartTime p = []")
  case True
  then show ?thesis using assms by (auto simp: Running_def)
next
  case False
  from assms False have "bindM (processIdentity (pr_PID p)) (\<lambda>identity. returnM (identity \<noteq> [] \<and> identity = pr_StartTime p)) w = (r, w')"
    by (simp add: Running_def)
  then show ?thesis
  proof (cases rule: bindM_cases)
    case (go x w1)
    from go(1) show ?thesis
      by (rule identity_cases) (use go(2) False in \<open>auto simp: alive_def clock_tick split: option.splits\<close>)
  next
    case (stop e)
    from stop(1) show ?thesis by (rule identity_cases) (use stop in \<open>auto simp: clock_tick\<close>)
  next
    case crash
    from crash(1) show ?thesis by (rule identity_cases) (use crash in \<open>auto simp: clock_tick\<close>)
  qed
qed

text \<open>The polling loop of \<^verbatim>\<open>waitForExit\<close>. Every round sleeps, so the deadline is reached.\<close>

function waitForExit_loop :: "Process \<Rightarrow> nat \<Rightarrow> bool io" where
  "waitForExit_loop p deadline w =
     (case Running p w of
        (Err e, w1) \<Rightarrow> (Err e, w1)
      | (Crash, w1) \<Rightarrow> (Crash, w1)
      | (Ok live, w1) \<Rightarrow>
          if \<not> live then (Ok True, w1)
          else if \<not> clock w1 < deadline then (Ok False, w1)
          else waitForExit_loop p deadline (snd (time_Sleep 50 w1)))"
  by pat_completeness auto
termination
proof (relation "measure (\<lambda>(p, deadline, w). deadline - clock w)")
  fix p deadline w r w1 b
  assume "(r, w1) = Running p w" "\<not> \<not> clock w1 < deadline"
  then show "((p, deadline, snd (time_Sleep 50 w1)), p, deadline, w) \<in> measure (\<lambda>(p, deadline, w). deadline - clock w)"
    using Running_run[of p w r w1, THEN conjunct2] by (auto simp: time_Sleep_def)
qed simp

declare waitForExit_loop.simps [simp del]

definition waitForExit :: "Process \<Rightarrow> nat \<Rightarrow> bool io" where
  "waitForExit p timeout = bindM time_Now (\<lambda>now. waitForExit_loop p (now + timeout))"

record StopOpts =
  st_Process :: Process
  st_SSHPort :: int
  st_KeyPath :: string
  st_Graceful :: nat

definition ssh_stop_args :: "StopOpts \<Rightarrow> string list" where
  "ssh_stop_args opts =
     [''ssh'', ''-o'', ''BatchMode=yes'', ''-o'', ''StrictHostKeyChecking=no'', ''-o'', ''UserKnownHostsFile=/dev/null'',
      ''-o'', ''LogLevel=ERROR'', ''-o'', ''ConnectTimeout=2'', ''-i'', st_KeyPath opts, ''-p'', strconv_Itoa (st_SSHPort opts),
      ''root@127.0.0.1'', ''sync; kill -TERM \"$(cat /run/devd-workload.pid)\"'']"

fun Stop_signals :: "Process \<Rightarrow> string list \<Rightarrow> unit io" where
  "Stop_signals p [] = failM (Msg ''PID did not exit after SIGKILL'')"
| "Stop_signals p (signal # sigs) =
     bindM (Running p) (\<lambda>live.
     if \<not> live then returnM ()
     else
       thenM (tryM (sys_kill (pr_PID p) signal) returnM
                (\<lambda>e. if errors_Is e ESRCH then returnM () else failM (Wrap ''signal PID'' e)))
       (bindM (waitForExit p 5000) (\<lambda>exited.
        if exited then returnM () else Stop_signals p sigs)))"

definition Stop :: "StopOpts \<Rightarrow> unit io" where
  "Stop opts =
     bindM (Running (st_Process opts)) (\<lambda>live.
     if \<not> live then returnM ()
     else
       (let graceful = (if st_Graceful opts = 0 then 5000 else st_Graceful opts);
            escalate = Stop_signals (st_Process opts) [''SIGTERM'', ''SIGKILL''] in
        if st_SSHPort opts > 0 \<and> st_KeyPath opts \<noteq> [] then
          thenM (ignoreM (sys_exec (ssh_stop_args opts)))
          (bindM (waitForExit (st_Process opts) graceful) (\<lambda>exited.
           if exited then returnM () else escalate))
        else escalate))"

context change
begin

lemma m_Running: "maintains R (Running p)"
  unfolding Running_def processIdentity_def by (auto intro!: rules)

lemma m_IsRunning: "maintains R (IsRunning pid)"
  unfolding IsRunning_def processIdentity_def by (auto intro!: rules)

lemma waitForExit_loop_change: "waitForExit_loop p deadline w = (r, w') \<Longrightarrow> R w w'"
proof (induction p deadline w rule: waitForExit_loop.induct)
  case (1 p deadline w)
  obtain r1 w1 where run: "Running p w = (r1, w1)" by fastforce
  note R = maintainsD[OF m_Running run]
  show ?case
  proof (cases "r1 = Ok True \<and> clock w1 < deadline")
    case True
    then have "waitForExit_loop p deadline (snd (time_Sleep 50 w1)) = (r, w')"
      using 1(2) run by (simp add: waitForExit_loop.simps[of p deadline w])
    then have "R (snd (time_Sleep 50 w1)) w'" using 1(1)[OF run[symmetric], of True] True by simp
    moreover have "R w1 (snd (time_Sleep 50 w1))" by (simp add: time_Sleep_def R_sleep)
    ultimately show ?thesis using R R_trans by blast
  next
    case False
    then show ?thesis
      using 1(2) run R by (cases r1) (auto simp: waitForExit_loop.simps[of p deadline w] split: if_splits)
  qed
qed

lemma m_waitForExit: "maintains R (waitForExit p t)"
proof (rule maintainsI)
  fix w
  show "R w (snd (waitForExit p t w))"
    by (simp add: waitForExit_def bindM_def time_Now_def waitForExit_loop_change[OF surjective_pairing])
qed

lemmas wait_rules = m_Running m_IsRunning m_waitForExit

end

context ignores_host
begin

lemma m_Stop_signals: "maintains R (Stop_signals p sigs)"
  by (induction sigs) (auto intro!: rules wait_rules proc_rules)

lemma m_Stop: "maintains R (Stop opts)"
  unfolding Stop_def Let_def by (auto intro!: rules wait_rules m_kill m_exec)

lemma m_writeProcess: "maintains R (writeProcess path p)"
  unfolding writeProcess_def Let_def close_on_error_def by (intro rules file_rules lock_rules)

lemma m_ReadProcess: "maintains R (ReadProcess path)"
  unfolding ReadProcess_def by (auto intro!: rules)

lemma m_companionPath: "maintains R (companionPath e n)"
  unfolding companionPath_def os_Executable_def exec_LookPath_def Let_def by (auto intro!: rules config_rules)

lemma m_Start: "maintains R (Start opts)"
  unfolding Start_def RuntimePath_def processIdentity_def
  by (auto intro!: rules m_companionPath file_rules proc_rules m_writeProcess)

lemmas vm_rules = wait_rules m_Stop m_writeProcess m_ReadProcess m_companionPath m_Start

end

section \<open>Stopping stops the right process\<close>

lemma waitForExit_loop_run:
  "waitForExit_loop p deadline w = (r, w') \<Longrightarrow>
     (\<forall>b. r = Ok b \<longrightarrow> b = (\<not> alive p w') \<and> (\<not> b \<longrightarrow> deadline \<le> clock w'))"
proof (induction p deadline w rule: waitForExit_loop.induct)
  case (1 p deadline w)
  obtain r1 w1 where run: "Running p w = (r1, w1)" by fastforce
  note R = Running_run[OF run]
  show ?case
  proof (cases "r1 = Ok True \<and> clock w1 < deadline")
    case True
    then have "waitForExit_loop p deadline (snd (time_Sleep 50 w1)) = (r, w')"
      using 1(2) run by (simp add: waitForExit_loop.simps[of p deadline w])
    then show ?thesis using 1(1)[OF run[symmetric], of True] True by simp
  next
    case False
    then show ?thesis
      using 1(2) run R by (cases r1) (auto simp: waitForExit_loop.simps[of p deadline w] split: if_splits)
  qed
qed

lemma waitForExit_Ok:
  "waitForExit p t w = (Ok b, w') \<Longrightarrow> b = (\<not> alive p w') \<and> (\<not> b \<longrightarrow> clock w + t \<le> clock w')"
  using waitForExit_loop_run[of p "clock w + t" w "Ok b" w'] by (simp add: waitForExit_def bindM_def time_Now_def)

lemma Running_Ok: "Running p w = (Ok b, w') \<Longrightarrow> b = alive p w' \<and> w' = tick w"
  using Running_run by blast

lemma Stop_signals_Ok: "Stop_signals p sigs w = (Ok (), w') \<Longrightarrow> \<not> alive p w'"
proof (induction sigs arbitrary: w)
  case (Cons s sigs)
  from Cons.prems show ?case
    by (auto elim!: bindM_OkE thenM_OkE dest!: Running_Ok waitForExit_Ok split: if_splits dest!: Cons.IH)
qed simp

lemma Stop_Ok: "Stop opts w = (Ok (), w') \<Longrightarrow> \<not> alive (st_Process opts) w'"
  unfolding Stop_def Let_def
  by (auto elim!: bindM_OkE thenM_OkE dest!: Running_Ok waitForExit_Ok split: if_splits dest: Stop_signals_Ok)

text \<open>Only signals from the list, in its order, to the exact incarnation.\<close>

definition sent :: "Process \<Rightarrow> string list \<Rightarrow> world \<Rightarrow> world \<Rightarrow> bool" where
  "sent p sigs w w' \<longleftrightarrow> (\<exists>S. signals w' = signals w @ S \<and> subseq (map (\<lambda>(pid, s, q). s) S) sigs \<and>
     (\<forall>(pid, s, q)\<in>set S. pid = pr_PID p \<and> (\<forall>x. q = Some x \<longrightarrow> p_ident x = pr_StartTime p)))"

definition same_signals :: "world \<Rightarrow> world \<Rightarrow> bool" where
  "same_signals w w' \<longleftrightarrow> signals w' = signals w"

interpretation nosig: ignores_files same_signals
  by unfold_locales (auto simp: same_signals_def)

lemma sent_refl: "same_signals w w' \<Longrightarrow> sent p sigs w w'"
  by (auto simp: sent_def same_signals_def)

lemma sent_trans_same: "same_signals u v \<Longrightarrow> sent p sigs v w \<Longrightarrow> sent p sigs u w"
  by (auto simp: sent_def same_signals_def)

text \<open>A process number is not given to another process within a single step of devd.\<close>

definition no_recycle :: "environ \<Rightarrow> bool" where
  "no_recycle e \<longleftrightarrow> (\<forall>n t pid q q'. map_of t pid = Some q \<longrightarrow> map_of (o_evolve e n t) pid = Some q' \<longrightarrow> p_ident q' = p_ident q)"

lemma alive_tick:
  assumes "alive p w" "no_recycle (orc w)" "map_of (procs (tick w)) (pr_PID p) = Some q"
  shows "p_ident q = pr_StartTime p"
proof -
  obtain q0 where "map_of (procs w) (pr_PID p) = Some q0" "p_ident q0 = pr_StartTime p"
    using assms(1) by (auto simp: alive_def split: option.splits)
  moreover have "map_of (o_evolve (orc w) (steps w) (procs w)) (pr_PID p) = Some q"
    using assms(3) by (simp add: tick_def)
  ultimately show ?thesis using assms(2) unfolding no_recycle_def by metis
qed

lemma kill_sent:
  assumes "alive p w" "no_recycle (orc w)" "sys_kill (pr_PID p) s w = (r, w')"
  shows "sent p [s] w w'"
proof -
  have "signals w' = signals w \<or> signals w' = signals w @ [(pr_PID p, s, map_of (procs (tick w)) (pr_PID p))]"
    using syscall_cases[OF assms(3)[unfolded sys_kill_def]] by (auto simp: Let_def split: option.splits)
  then show ?thesis
    using alive_tick[OF assms(1,2)] unfolding sent_def
    by (elim disjE) (auto intro: exI[of _ "[(pr_PID p, s, map_of (procs (tick w)) (pr_PID p))]"])
qed

lemma sent_weaken: "sent p [s] u v \<Longrightarrow> sent p (s # sigs) u v"
  unfolding sent_def by (meson subseq_order.order_trans list_emb_append2 subseq_Cons2 list_emb_Nil)

lemma sent_Cons:
  assumes "sent p [s] u v" "same_signals v x" "sent p sigs x w"
  shows "sent p (s # sigs) u w"
proof -
  obtain S where S: "signals v = signals u @ S" "subseq (map (\<lambda>(pid, s, q). s) S) [s]"
     "\<forall>(pid, s, q)\<in>set S. pid = pr_PID p \<and> (\<forall>x. q = Some x \<longrightarrow> p_ident x = pr_StartTime p)"
    using assms(1) by (auto simp: sent_def)
  obtain T where T: "signals w = signals x @ T" "subseq (map (\<lambda>(pid, s, q). s) T) sigs"
     "\<forall>(pid, s, q)\<in>set T. pid = pr_PID p \<and> (\<forall>x. q = Some x \<longrightarrow> p_ident x = pr_StartTime p)"
    using assms(3) by (auto simp: sent_def)
  have "subseq (map (\<lambda>(pid, s, q). s) (S @ T)) ([s] @ sigs)"
    using S(2) T(2) by (simp only: map_append list_emb_append_mono)
  moreover have "signals w = signals u @ (S @ T)" using S T assms(2) by (simp add: same_signals_def)
  moreover have "\<forall>(pid, s, q)\<in>set (S @ T). pid = pr_PID p \<and> (\<forall>x. q = Some x \<longrightarrow> p_ident x = pr_StartTime p)"
    using S(3) T(3) by auto
  ultimately show ?thesis unfolding sent_def by (intro exI[of _ "S @ T"]) simp
qed

lemma Stop_signals_sent:
  assumes "Stop_signals p sigs w = (r, w')" "no_recycle (orc w)"
  shows "sent p sigs w w'"
  using assms
proof (induction sigs arbitrary: w)
  case Nil
  then show ?case by (simp add: sent_refl same_signals_def)
next
  case (Cons s sigs)
  from Cons.prems(1)[unfolded Stop_signals.simps] show ?case
  proof (cases rule: bindM_cases)
    case (go live w1)
    have w1: "same_signals w w1" "same_env w w1" "live = alive p w1"
      using maintainsD[OF nosig.m_Running go(1)] maintainsD[OF env.m_Running go(1)] Running_Ok[OF go(1)] by auto
    show ?thesis
    proof (cases live)
      case False
      then show ?thesis using go(2) w1(1) by (simp add: sent_refl)
    next
      case True
      have nr: "no_recycle (orc w1)" using Cons.prems(2) w1(2) by (simp add: same_env_def)
      have al: "alive p w1" using True w1(3) by simp
      let ?kill = "tryM (sys_kill (pr_PID p) s) returnM
          (\<lambda>e. if errors_Is e ESRCH then returnM () else failM (Wrap ''signal PID'' e))"
      have kill: "sent p [s] w1 v \<and> same_env w1 v" if "?kill w1 = (x, v)" for x v
      proof -
        from that have "\<exists>y. sys_kill (pr_PID p) s w1 = (y, v)"
          by (cases rule: tryM_cases) (auto split: if_splits)
        then show ?thesis using kill_sent[OF al nr] maintainsD[OF env.m_kill] by blast
      qed
      from go(2) True have "thenM ?kill (bindM (waitForExit p 5000) (\<lambda>exited.
          if exited then returnM () else Stop_signals p sigs)) w1 = (r, w')" by simp
      then show ?thesis
      proof (cases rule: thenM_cases)
        case (go y w2)
        note k = kill[OF go(1)]
        from go(2) show ?thesis
        proof (cases rule: bindM_cases)
          case (go exited w3)
          have w3: "same_signals w2 w3" "same_env w2 w3"
            using maintainsD[OF nosig.m_waitForExit go(1)] maintainsD[OF env.m_waitForExit go(1)] .
          have "sent p sigs w3 w'"
          proof (cases exited)
            case True
            then show ?thesis using go(2) by (simp add: sent_refl same_signals_def)
          next
            case False
            moreover have "no_recycle (orc w3)" using nr k w3(2) by (simp add: same_env_def)
            ultimately show ?thesis using Cons.IH go(2) by simp
          qed
          then show ?thesis using sent_trans_same[OF w1(1) sent_Cons] k w3(1) by blast
        next
          case (stop e)
          have "same_signals w2 w'" using maintainsD[OF nosig.m_waitForExit stop(1)] .
          then show ?thesis using sent_trans_same[OF w1(1) sent_Cons] k sent_refl nosig.R_refl by blast
        next
          case crash
          have "same_signals w2 w'" using maintainsD[OF nosig.m_waitForExit crash(1)] .
          then show ?thesis using sent_trans_same[OF w1(1) sent_Cons] k sent_refl nosig.R_refl by blast
        qed
      qed (use kill w1(1) sent_weaken sent_trans_same in blast)+
    qed
  qed (use maintainsD[OF nosig.m_Running] sent_refl in blast)+
qed

text \<open>C11. \<^verbatim>\<open>Stop\<close> stops the right process. When it reports success, no process with the
  receipt's number and birth identity is running. On every path, failures and timeouts included, it
  has sent at most a SIGTERM and then a SIGKILL, only to the receipt's number, and every
  one of them that reached a process reached exactly that incarnation (given that a number
  is not recycled between the check and the signal).\<close>

theorem Stop_right_process:
  assumes "Stop opts w = (r, w')" "no_recycle (orc w)"
  shows "(r = Ok () \<longrightarrow> \<not> alive (st_Process opts) w') \<and> sent (st_Process opts) [''SIGTERM'', ''SIGKILL''] w w'"
proof -
  let ?p = "st_Process opts" and ?sigs = "[''SIGTERM'', ''SIGKILL'']"
  let ?g = "if st_Graceful opts = 0 then 5000 else st_Graceful opts"
  have esc: "sent ?p ?sigs w w'"
    if "same_signals w v" "same_env w v" "Stop_signals ?p ?sigs v = (r, w')" for v
  proof -
    have "no_recycle (orc v)" using that(2) assms(2) by (simp add: same_env_def)
    then show ?thesis using sent_trans_same[OF that(1) Stop_signals_sent[OF that(3)]] by blast
  qed
  from assms(1)[unfolded Stop_def Let_def] have "sent ?p ?sigs w w'"
  proof (cases rule: bindM_cases)
    case (go live w1)
    have w1: "same_signals w w1" "same_env w w1"
      using maintainsD[OF nosig.m_Running go(1)] maintainsD[OF env.m_Running go(1)] .
    show ?thesis
    proof (cases "live \<and> st_SSHPort opts > 0 \<and> st_KeyPath opts \<noteq> []")
      case True
      let ?m = "thenM (ignoreM (sys_exec (ssh_stop_args opts))) (waitForExit ?p ?g)"
      have run: "bindM ?m (\<lambda>exited. if exited then returnM () else Stop_signals ?p ?sigs) w1 = (r, w')"
        using go(2) True unfolding thenM_def bindM_assoc by simp
      have M: "maintains same_signals ?m" "maintains same_env ?m"
        by (intro nosig.rules nosig.m_exec nosig.m_waitForExit) (intro env.rules env.m_exec env.m_waitForExit)
      have w2: "same_signals w v \<and> same_env w v" if "?m w1 = (x, v)" for x v
        using maintainsD[OF M(1) that] maintainsD[OF M(2) that] w1 by (auto simp: same_signals_def same_env_def)
      from run show ?thesis
      proof (cases rule: bindM_cases)
        case (go ex v)
        then show ?thesis using w2[OF go(1)] esc by (cases ex) (auto simp: sent_refl)
      qed (use w2 sent_refl in blast)+
    next
      case False
      then show ?thesis using go(2) w1 esc by (auto simp: sent_refl split: if_splits)
    qed
  qed (use maintainsD[OF nosig.m_Running] sent_refl in blast)+
  then show ?thesis using Stop_Ok assms(1) by blast
qed

text \<open>A VM that exits after its SIGTERM.\<close>

definition vm_host :: world where
  "vm_host = blank\<lparr>orc := quiet\<lparr>o_evolve := \<lambda>n t. if 3 \<le> n then [] else t\<rparr>, procs := [(7, \<lparr>p_ident = ''42'', p_holds = []\<rparr>)]\<rparr>"

definition vm_stop :: StopOpts where
  "vm_stop = \<lparr>st_Process = \<lparr>pr_PID = 7, pr_StartTime = ''42''\<rparr>, st_SSHPort = 0, st_KeyPath = [], st_Graceful = 0\<rparr>"

theorem Stop_right_process_witness:
  "fst (Stop vm_stop vm_host) = Ok () \<and> \<not> alive (st_Process vm_stop) (snd (Stop vm_stop vm_host)) \<and>
   sent (st_Process vm_stop) [''SIGTERM'', ''SIGKILL''] vm_host (snd (Stop vm_stop vm_host)) \<and>
   map (\<lambda>(pid, s, q). (pid, s)) (signals (snd (Stop vm_stop vm_host))) = [(7, ''SIGTERM'')]"
proof -
  have ok: "fst (Stop vm_stop vm_host) = Ok ()" by code_simp
  have log: "map (\<lambda>(pid, s, q). (pid, s)) (signals (snd (Stop vm_stop vm_host))) = [(7, ''SIGTERM'')]" by code_simp
  have "no_recycle (orc vm_host)" by (simp add: no_recycle_def vm_host_def)
  from Stop_right_process[OF run_pair[OF ok] this] show ?thesis using ok log by simp
qed

end
