(* ===== verification/VmLaws.thy ===== *)
theory VmLaws
  imports Vm
begin

text \<open>
  What launching guarantees: the parsing of \<^verbatim>\<open>/proc/<pid>/stat\<close> is robust against any command
  name, the launch receipt is written atomically and read back as it was written, and a
  successful launch has left its receipt.
\<close>

section \<open>Parsing \<^verbatim>\<open>/proc\<close>\<close>

definition word_ok :: "string \<Rightarrow> bool" where
  "word_ok f \<longleftrightarrow> f \<noteq> [] \<and> (\<forall>c\<in>set f. \<not> is_space c)"

lemma Fields_space: "is_space c \<Longrightarrow> strings_Fields (c # s) = strings_Fields s"
  by (subst (1 2) strings_Fields.simps) simp

lemma Fields_word:
  assumes "word_ok f" "s = [] \<or> is_space (hd s)"
  shows "strings_Fields (f @ s) = f # strings_Fields s"
proof -
  obtain c r where f: "f = c # r" "\<not> is_space c" using assms(1) by (cases f) (auto simp: word_ok_def)
  have "dropWhile is_space (f @ s) = f @ s" using f by simp
  moreover have "takeWhile (\<lambda>c. \<not> is_space c) (f @ s) = f"
    using assms by (cases s) (auto simp: word_ok_def takeWhile_append takeWhile_eq_all_conv)
  moreover have "dropWhile (\<lambda>c. \<not> is_space c) (f @ s) = s"
    using assms by (cases s) (auto simp: word_ok_def dropWhile_append dropWhile_eq_Nil_conv)
  ultimately show ?thesis using f by (subst strings_Fields.simps) (simp add: Let_def)
qed

lemma Fields_Join:
  "\<forall>f\<in>set ws. word_ok f \<Longrightarrow> strings_Fields (strings_Join ws CHR '' '' @ [CHR 0x0A]) = ws"
proof (induction ws "CHR '' ''" rule: strings_Join.induct)
  case 1
  show ?case by (subst strings_Fields.simps) (simp add: is_space_def)
next
  case (2 x)
  have "strings_Fields [CHR 0x0A] = []" by (subst strings_Fields.simps) (simp add: is_space_def)
  with 2 show ?case using Fields_word[of x "[CHR 0x0A]"] by (simp add: is_space_def)
next
  case (3 x y zs)
  then show ?case
    using Fields_word[of x "CHR '' '' # strings_Join (y # zs) CHR '' '' @ [CHR 0x0A]"] by (simp add: is_space_def Fields_space)
qed

text \<open>The Linux identity of a process does not depend on its command name: whatever bytes
  precede the last closing parenthesis of the \<^verbatim>\<open>stat\<close> line (the command can contain
  spaces and parentheses), the identity is the boot id and the start time, the twentieth
  field after it; a zombie has none.\<close>

theorem linux_identity_robust:
  assumes "\<forall>f\<in>set flds. word_ok f \<and> CHR '')'' \<notin> set f" "20 \<le> length flds"
  shows "linux_identity boot (pre @ '') '' @ strings_Join flds CHR '' '' @ [CHR 0x0A]) =
    Inr (if flds ! 0 = ''Z'' \<or> flds ! 0 = ''X'' then [] else strings_TrimSpace boot @ '':'' @ flds ! 19)"
proof -
  let ?t = "CHR '' '' # strings_Join flds CHR '' '' @ [CHR 0x0A]"
  have "CHR '')'' \<notin> set (strings_Join flds CHR '' '')"
    using assms(1) by (induction flds "CHR '' ''" rule: strings_Join.induct) auto
  then have i: "last_index_byte (pre @ CHR '')'' # ?t) CHR '')'' = Some (length pre)"
    by (intro last_index_byte_sep) simp
  have "strings_Fields ?t = flds"
    using assms(1) by (simp add: Fields_space is_space_def Fields_Join)
  then show ?thesis using i assms(2) by (simp add: linux_identity_def Let_def)
qed

theorem linux_identity_robust_witness:
  "linux_identity ''b1'' (''7 (a) Z (b'' @ '') '' @ strings_Join (''S'' # replicate 18 ''0'' @ [''99'']) CHR '' '' @ [CHR 0x0A]) =
     Inr ''b1:99''"
proof -
  have "\<forall>f\<in>set (''S'' # replicate 18 ''0'' @ [''99'']). word_ok f \<and> CHR '')'' \<notin> set f"
    by (simp add: word_ok_def is_space_def)
  from linux_identity_robust[OF this, of "''b1''" "''7 (a) Z (b''"] show ?thesis
    by (simp add: strings_TrimSpace_def is_space_def numeral_eq_Suc)
qed

section \<open>The receipt\<close>

definition Process_ok :: "Process \<Rightarrow> bool" where
  "Process_ok p \<longleftrightarrow> - (2 ^ 63) \<le> pr_PID p \<and> pr_PID p < 2 ^ 63 \<and> valid_utf8 (pr_StartTime p)"

definition Process_text :: "Process \<Rightarrow> string" where
  "Process_text p = json_Marshal (JObj (Process_members p))"

interpretation process_codec: codec Process_ok Process_text "\<lambda>c. json_Unmarshal Process_fields c zero_Process"
proof
  fix p assume ok: "Process_ok p"
  have "json_wf (JObj (Process_members p))" using ok by (auto simp: Process_members_def Process_ok_def valid_ascii)
  from json_round_trip(2)[OF this] have "json_parse (Process_text p) = Some (JObj (Process_members p))"
    by (simp add: Process_text_def)
  moreover have "decode_members Process_fields (Process_members p) zero_Process = Inr p"
    using ok by (simp add: Process_members_def Process_fields_def select_field_def set_int_def set_string_def
        atoi_Itoa Process_ok_def zero_Process_def)
  ultimately show "json_Unmarshal Process_fields (Process_text p) zero_Process = Inr p"
    by (simp add: json_Unmarshal_def)
qed

lemma write_Ok:
  assumes "sys_write p d w = (Ok u, w')" "fs w p = Some (Reg i m [])"
  shows "fs w' p = Some (Reg i m d)"
  using syscall_part_OkE[OF assms(1)[unfolded sys_write_def]] assms(2) by (auto simp: append_bytes_def set_file_def)

lemma files_write: "A p \<Longrightarrow> maintains (only_files A) (sys_write p d)"
  unfolding sys_write_def
  by (rule files.m_syscall_part)
    (auto simp: append_bytes_def set_file_def only_files_def split: option.splits node.splits)

text \<open>The part of \<^verbatim>\<open>writeProcess\<close> after the temporary file exists: until the rename only that
  file changes, the rename installs the complete data.\<close>

lemma receipt_body:
  assumes "thenM (tryM (sys_write name data) returnM close_on_error)
        (thenM (tryM sys_noop returnM close_on_error)
        (thenM sys_noop
        (thenM (os_Rename name path)
        (bindM (sys_open_read (filepath_Dir path)) (\<lambda>dir. deferM sys_noop (sys_close dir)))))) w = (r, w')"
    and "fs w name = Some (Reg i m [])" "name \<noteq> path"
  shows "only_files (\<lambda>p. p = name \<or> p = path) w w' \<and>
    (fs w' path = fs w path \<or> fs w' path = Some (Reg i m data)) \<and> (r = Ok () \<longrightarrow> fs w' path = Some (Reg i m data))"
proof -
  let ?pre = "thenM (tryM (sys_write name data) returnM close_on_error) (thenM (tryM sys_noop returnM close_on_error) sys_noop)"
  let ?A = "\<lambda>p. p = name"
  have pre: "maintains (only_files ?A) ?pre"
    unfolding close_on_error_def by (intro files.rules files_write) simp
  have "thenM ?pre (thenM (os_Rename name path) (sync_dir (filepath_Dir path))) w = (r, w')"
    using assms(1) unfolding sync_dir_def thenM_def bindM_assoc .
  then show ?thesis
  proof (cases rule: thenM_cases)
    case (go u w1)
    have w1: "only_files ?A w w1" using maintainsD[OF pre go(1)] .
    obtain u1 v1 v2 where "sys_write name data w = (Ok u1, v1)" "sys_noop v1 = (Ok (), v2)" "sys_noop v2 = (Ok u, w1)"
      using go(1) by (auto elim!: thenM_OkE tryM_OkE simp: close_on_error_def)
    then have name: "fs w1 name = Some (Reg i m data)"
      using write_Ok[OF _ assms(2)] maintainsD[OF nofs.m_noop] by (metis same_files_def)
    from go(2) show ?thesis
    proof (cases rule: thenM_cases)
      case (go y w2)
      note fs2 = Rename_file_Ok[OF go(1) name assms(3)]
      have "fs w' = fs w2" using maintainsD[OF nofs_sync_dir go(2)] by (simp add: same_files_def)
      then show ?thesis using fs2 w1 assms(3) by (auto simp: only_files_def)
    next
      case (stop e)
      then show ?thesis using Rename_not_Ok[OF stop(1)] w1 assms(3) by (auto simp: only_files_def)
    next
      case crash
      then show ?thesis using Rename_not_Ok[OF crash(1)] w1 assms(3) by (auto simp: only_files_def)
    qed
  qed (use maintainsD[OF pre] assms(3) in \<open>fastforce simp: only_files_def\<close>)+
qed

lemma deferM_cases:
  assumes "deferM m c w = (r, w')"
  obtains r1 w1 where "m w = (r1, w1)" "w' = (if r1 = Crash then w1 else snd (c w1))" "r = r1 \<or> r = Crash"
proof -
  obtain r1 w1 where m: "m w = (r1, w1)" by fastforce
  obtain r2 w2 where c: "c w1 = (r2, w2)" by fastforce
  have "w' = (if r1 = Crash then w1 else w2) \<and> (r = r1 \<or> r = Crash)"
    using assms m c by (cases r1; cases r2)
      (auto simp: deferM_def tryM_def thenM_def bindM_def ignoreM_def returnM_def failM_def)
  then show thesis using that[OF m] c by simp
qed

lemma writeProcess_run:
  assumes "writeProcess path p w = (r, w')" "\<And>x. path \<noteq> filepath_Dir path @ slash # ''.process-'' @ x"
  shows "(fs w' path = fs w path \<or> (\<exists>i m. fs w' path = Some (Reg i m (Process_text p)))) \<and>
    (r = Ok () \<longrightarrow> (\<exists>i m. fs w' path = Some (Reg i m (Process_text p))))"
  using assms(1)[unfolded writeProcess_def Let_def, folded Process_text_def]
proof (cases rule: bindM_cases)
  case (go name w1)
  obtain i x where n: "name = filepath_Dir path @ slash # ''.process-'' @ x @ []" "fs w1 = (fs w)(name := Some (Reg i 384 []))"
    using CreateTemp_Ok[OF go(1)] by metis
  have ne: "name \<noteq> path" using n(1) assms(2)[of "x @ []"] by metis
  have f1: "fs w1 name = Some (Reg i 384 [])" "fs w1 path = fs w path" using n(2) ne by auto
  from go(2) show ?thesis
  proof (rule deferM_cases)
    fix r1 w2
    assume body: "thenM (tryM (sys_write name (Process_text p)) returnM close_on_error)
        (thenM (tryM sys_noop returnM close_on_error)
        (thenM sys_noop
        (thenM (os_Rename name path)
        (bindM (sys_open_read (filepath_Dir path)) (\<lambda>dir. deferM sys_noop (sys_close dir)))))) w1 = (r1, w2)"
      and w': "w' = (if r1 = Crash then w2 else snd (os_Remove name w2))" and r: "r = r1 \<or> r = Crash"
    have "only_files (\<lambda>p. p = name) w2 (snd (os_Remove name w2))"
      using files_at(2)[of "\<lambda>p. p = name" name] by (simp add: maintains_def)
    then have "fs w' path = fs w2 path" using w' ne by (auto simp: only_files_def)
    then show ?thesis using receipt_body[OF body f1(1) ne] f1(2) r by auto
  qed
qed (use CreateTemp_not_Ok in fastforce)+

section \<open>Launching\<close>

text \<open>\<^verbatim>\<open>Start\<close> up to and including the launch of the process.\<close>

definition launch :: "StartOpts \<Rightarrow> int io" where
  "launch opts =
     bindM RuntimePath (\<lambda>runtimePath.
     bindM (liftM (startArgs opts)) (\<lambda>args.
     thenM (if so_LogFile opts \<noteq> [] then wrapM ''open VM log'' (sys_open_trunc (so_LogFile opts) 420) else returnM ())
     (wrapM ''start devd-vm'' (sys_spawn (runtimePath # args)))))"

text \<open>\<^verbatim>\<open>Start\<close> after the launch.\<close>

definition record_launch :: "StartOpts \<Rightarrow> int \<Rightarrow> Process io" where
  "record_launch opts pid = bindM (processIdentity pid) (\<lambda>identity.
     if identity = [] then failM (Msg ''VM exited before its process identity could be recorded'')
     else thenM (writeProcess (so_ProcessFile opts) \<lparr>pr_PID = pid, pr_StartTime = identity\<rparr>)
          (returnM \<lparr>pr_PID = pid, pr_StartTime = identity\<rparr>))"

lemma Start_parts:
  "Start opts = bindM (launch opts) (\<lambda>pid. tryM (record_launch opts pid) returnM
     (\<lambda>e. thenM (ignoreM (sys_kill pid ''SIGKILL'')) (failM (Wrap ''record VM process'' e))))"
  unfolding Start_def launch_def record_launch_def thenM_def bindM_assoc ..

lemma files_open_trunc: "A p \<Longrightarrow> maintains (only_files A) (sys_open_trunc p m)"
  unfolding sys_open_trunc_def
  by (rule files.m_syscall)
    (auto simp: set_file_def only_files_def split: option.splits node.splits)

lemma files_companionPath: "maintains (only_files A) (companionPath e n)"
  unfolding companionPath_def os_Executable_def exec_LookPath_def os_Getenv_def Let_def by (auto intro!: files.rules)

lemma files_launch: "A (so_LogFile opts) \<Longrightarrow> maintains (only_files A) (launch opts)"
  unfolding launch_def RuntimePath_def
  by (auto intro!: files.rules files_companionPath files_open_trunc filesp.proc_rules)

lemma nofs_identity: "maintains same_files (processIdentity pid)"
  unfolding processIdentity_def by (intro nofs.rules)

lemma nofs_kill_fail: "maintains same_files (thenM (ignoreM (sys_kill pid s)) (failM e))"
  by (intro nofs.rules nofsp.proc_rules)

lemma ReadProcess_calm:
  assumes "calm w" "fs w path = Some (Reg i m (Process_text p))" "Process_ok p" "0 < pr_PID p" "pr_StartTime p \<noteq> []"
  shows "fst (ReadProcess path w) = Ok (Some p)"
  using assms process_codec.dec_enc[OF assms(3)]
  by (simp add: ReadProcess_def tryM_def os_ReadFile_def calm_syscall bindM_def wrapM_def liftM_def returnM_def)

lemma record_launch_run:
  assumes "record_launch opts pid w = (r, w')" "\<And>x. so_ProcessFile opts \<noteq> filepath_Dir (so_ProcessFile opts) @ slash # ''.process-'' @ x"
  shows "(fs w' (so_ProcessFile opts) = fs w (so_ProcessFile opts) \<or>
      (\<exists>q i m. fs w' (so_ProcessFile opts) = Some (Reg i m (Process_text q)))) \<and>
    (\<forall>p. r = Ok p \<longrightarrow> pr_PID p = pid \<and> pr_StartTime p \<noteq> [] \<and> (\<exists>i m. fs w' (so_ProcessFile opts) = Some (Reg i m (Process_text p))))"
  using assms(1)[unfolded record_launch_def]
proof (cases rule: bindM_cases)
  case (go ident w1)
  have w1: "fs w1 = fs w" using maintainsD[OF nofs_identity go(1)] by (simp add: same_files_def)
  show ?thesis
  proof (cases "ident = []")
    case True
    then show ?thesis using go(2) w1 by simp
  next
    case False
    let ?p = "\<lparr>pr_PID = pid, pr_StartTime = ident\<rparr>"
    from go(2) False have "thenM (writeProcess (so_ProcessFile opts) ?p) (returnM ?p) w1 = (r, w')" by simp
    then show ?thesis
    proof (cases rule: thenM_cases)
      case (go u w2)
      then show ?thesis using writeProcess_run[OF go(1) assms(2)] False w1 by auto
    next
      case (stop e)
      then show ?thesis using writeProcess_run[OF stop(1) assms(2)] w1 by auto
    next
      case crash
      then show ?thesis using writeProcess_run[OF crash(1) assms(2)] w1 by auto
    qed
  qed
next
  case (stop e)
  then show ?thesis using maintainsD[OF nofs_identity stop(1)] by (simp add: same_files_def)
next
  case crash
  then show ?thesis using maintainsD[OF nofs_identity crash(1)] by (simp add: same_files_def)
qed

lemma Start_run:
  assumes "Start opts w = (r, w')" "so_LogFile opts \<noteq> so_ProcessFile opts"
    and "\<And>x. so_ProcessFile opts \<noteq> filepath_Dir (so_ProcessFile opts) @ slash # ''.process-'' @ x"
  shows "(fs w' (so_ProcessFile opts) = fs w (so_ProcessFile opts) \<or>
      (\<exists>q i m. fs w' (so_ProcessFile opts) = Some (Reg i m (Process_text q)))) \<and>
    (\<forall>p. r = Ok p \<longrightarrow> pr_StartTime p \<noteq> [] \<and> (\<exists>i m. fs w' (so_ProcessFile opts) = Some (Reg i m (Process_text p))))"
proof -
  have l: "fs v (so_ProcessFile opts) = fs w (so_ProcessFile opts)" if "launch opts w = (x, v)" for x v
    using maintainsD[OF files_launch that, of "\<lambda>p. p = so_LogFile opts"] assms(2) by (auto simp: only_files_def)
  from assms(1)[unfolded Start_parts] show ?thesis
  proof (cases rule: bindM_cases)
    case (go pid w1)
    from go(2) show ?thesis
    proof (cases rule: tryM_cases)
      case (ok p w2)
      then show ?thesis using record_launch_run[OF ok(1) assms(3)] l[OF go(1)] by auto
    next
      case (err e w2)
      have "fs w' = fs w2" "\<forall>p. r \<noteq> Ok p"
        using maintainsD[OF nofs_kill_fail err(2)] err(2) by (auto simp: same_files_def elim!: thenM_OkE)
      then show ?thesis using record_launch_run[OF err(1) assms(3)] l[OF go(1)] by auto
    next
      case crash
      then show ?thesis using record_launch_run[OF crash(1) assms(3)] l[OF go(1)] by auto
    qed
  qed (use l in auto)
qed

text \<open>C10. A launch never succeeds without its recovery receipt: when \<^verbatim>\<open>Start\<close> returns a process,
  the receipt file contains exactly that process, with a non-empty birth identity, and a later
  \<^verbatim>\<open>ReadProcess\<close> returns it. On every other path, at every crash point, the file is as before or
  a complete receipt - never a partial one.\<close>

theorem Start_leaves_receipt:
  assumes "Start opts w = (r, w')" "so_LogFile opts \<noteq> so_ProcessFile opts"
    and "\<And>x. so_ProcessFile opts \<noteq> filepath_Dir (so_ProcessFile opts) @ slash # ''.process-'' @ x"
  shows "(fs w' (so_ProcessFile opts) = fs w (so_ProcessFile opts) \<or>
      (\<exists>q i m. fs w' (so_ProcessFile opts) = Some (Reg i m (Process_text q)))) \<and>
    (\<forall>p. r = Ok p \<longrightarrow> pr_StartTime p \<noteq> [] \<and>
       (\<forall>v. calm v \<and> fs v = fs w' \<and> Process_ok p \<and> 0 < pr_PID p \<longrightarrow> fst (ReadProcess (so_ProcessFile opts) v) = Ok (Some p)))"
proof -
  note run = Start_run[OF assms]
  have "fst (ReadProcess (so_ProcessFile opts) v) = Ok (Some p)"
    if h: "r = Ok p" "calm v" "fs v = fs w'" "Process_ok p" "0 < pr_PID p" for p v
  proof -
    obtain i m where "fs v (so_ProcessFile opts) = Some (Reg i m (Process_text p))" "pr_StartTime p \<noteq> []"
      using run h(1,3) by auto
    then show ?thesis using ReadProcess_calm h(2,4,5) by blast
  qed
  then show ?thesis using run by blast
qed

definition start_host :: world where
  "start_host = blank\<lparr>orc := quiet\<lparr>o_env := (\<lambda>v. if v = ''DEVD_VM_RUNTIME'' then ''/vm'' else [])\<rparr>,
     fs := (fs blank)(''/vm'' := Some (Reg 9 493 []))\<rparr>"

definition start_opts :: StartOpts where
  "start_opts = \<lparr>so_DiskPath = ''/d/disk'', so_CPUs = 2, so_Memory = 512, so_Env = [], so_Mounts = [], so_Command = ''/bin/sh'',
     so_Args = [], so_Workdir = ''/'', so_LogFile = ''/d/vm.log'', so_KernelPath = [], so_ProcessFile = ''/d/process.json''\<rparr>"

theorem Start_leaves_receipt_witness:
  "fst (Start start_opts start_host) = Ok \<lparr>pr_PID = 7, pr_StartTime = ''42''\<rparr> \<and>
   fst (ReadProcess ''/d/process.json'' (snd (Start start_opts start_host))) = Ok (Some \<lparr>pr_PID = 7, pr_StartTime = ''42''\<rparr>)"
proof -
  have ok: "fst (Start start_opts start_host) = Ok \<lparr>pr_PID = 7, pr_StartTime = ''42''\<rparr>" by code_simp
  have ne: "so_LogFile start_opts \<noteq> so_ProcessFile start_opts" by (simp add: start_opts_def)
  have dir: "filepath_Dir (so_ProcessFile start_opts) = ''/d''" by code_simp
  have nt: "so_ProcessFile start_opts \<noteq> filepath_Dir (so_ProcessFile start_opts) @ slash # ''.process-'' @ x" for x
    unfolding dir by (simp add: start_opts_def)
  have "calm start_host" by (simp add: calm_def start_host_def quiet_def)
  then have calm: "calm (snd (Start start_opts start_host))"
    using env.m_Start calm_same_env by (auto simp: maintains_def)
  have "Process_ok \<lparr>pr_PID = 7, pr_StartTime = ''42''\<rparr>" by (simp add: Process_ok_def valid_ascii)
  then show ?thesis
    using calm Start_leaves_receipt[OF run_pair[OF ok] ne nt] ok by (simp add: start_opts_def)
qed

end
