(* ===== verification/Storage.thy ===== *)
theory Storage
  imports VmLaws Locks
begin

text \<open>
  \<^verbatim>\<open>internal/storage\<close>: the cache of ext4 templates made from OCI images, cloning a disk, and
  the inode lock that a VM companion and the lifecycle commands share. Buildah, e2fsprogs and
  \<^verbatim>\<open>cp\<close> are external programs: the environment says what each run prints and does to the
  files.
\<close>

section \<open>The disk lock\<close>

definition LockDisk :: "string \<Rightarrow> nat io" where
  "LockDisk path =
     bindM (wrapM ''open workspace disk'' (sys_open_read path)) (\<lambda>file.
     let refuse = thenM (ignoreM (sys_close file)) (failM (Msg ''workspace disk is not a readable regular file'')) in
     tryM (sys_fstat_regular file)
       (\<lambda>regular. if \<not> regular then refuse
          else tryM (sys_flock_nb file) (\<lambda>_. returnM file)
                 (\<lambda>e. thenM (ignoreM (sys_close file)) (failM (Wrap ''workspace disk is in use'' e))))
       (\<lambda>_. refuse))"

section \<open>Manifests and templates\<close>

definition templateDiskName :: string where "templateDiskName = ''rootfs.ext4''"

definition manifestName :: string where "manifestName = ''manifest.json''"

text \<open>A \<^verbatim>\<open>time.Time\<close> is kept as its RFC 3339 text, the form it has in JSON.\<close>

record ImageManifest =
  im_Image :: string
  im_Digest :: string
  im_Architecture :: string
  im_DiskMiB :: int
  im_FormatVersion :: int
  im_Environment :: "string list"
  im_WorkingDir :: string
  im_CreatedAt :: string

definition zero_ImageManifest :: ImageManifest where
  "zero_ImageManifest = \<lparr>im_Image = [], im_Digest = [], im_Architecture = [], im_DiskMiB = 0, im_FormatVersion = 0,
     im_Environment = [], im_WorkingDir = [], im_CreatedAt = ''0001-01-01T00:00:00Z''\<rparr>"

definition ImageManifest_members :: "ImageManifest \<Rightarrow> (string \<times> json) list" where
  "ImageManifest_members m =
     [(''image'', JStr (im_Image m)), (''digest'', JStr (im_Digest m)), (''architecture'', JStr (im_Architecture m)),
      (''disk_mib'', JNum (strconv_Itoa (im_DiskMiB m))), (''format_version'', JNum (strconv_Itoa (im_FormatVersion m)))] @
     (if im_Environment m = [] then [] else [(''environment'', JArr (map JStr (im_Environment m)))]) @
     omit_empty ''working_dir'' (im_WorkingDir m) @
     [(''created_at'', JStr (im_CreatedAt m))]"

text \<open>The strict RFC 3339 form that \<^verbatim>\<open>time.Time\<close> accepts: date, \<^verbatim>\<open>T\<close>, time with an optional
  fraction, and \<^verbatim>\<open>Z\<close> or a numeric zone.\<close>

definition two_digits :: "nat \<Rightarrow> nat \<Rightarrow> string \<Rightarrow> bool" where
  "two_digits lo hi s = (length s = 2 \<and> list_all is_digit s \<and> lo \<le> digits_value s \<and> digits_value s \<le> hi)"

definition days_in :: "nat \<Rightarrow> nat \<Rightarrow> nat" where
  "days_in year month =
     (if month = 2 then if year mod 4 = 0 \<and> (year mod 100 \<noteq> 0 \<or> year mod 400 = 0) then 29 else 28
      else if month \<in> {4, 6, 9, 11} then 30 else 31)"

definition zone_ok :: "string \<Rightarrow> bool" where
  "zone_ok s = (s = ''Z'' \<or>
     length s = 6 \<and> (s ! 0 = CHR ''+'' \<or> s ! 0 = CHR ''-'') \<and> two_digits 0 23 (take 2 (drop 1 s)) \<and>
     s ! 3 = CHR '':'' \<and> two_digits 0 59 (drop 4 s))"

definition rfc3339_ok :: "string \<Rightarrow> bool" where
  "rfc3339_ok s =
     (length s \<ge> 20 \<and> list_all is_digit (take 4 s) \<and> s ! 4 = CHR ''-'' \<and> two_digits 1 12 (take 2 (drop 5 s)) \<and>
      s ! 7 = CHR ''-'' \<and>
      two_digits 1 (days_in (digits_value (take 4 s)) (digits_value (take 2 (drop 5 s)))) (take 2 (drop 8 s)) \<and>
      s ! 10 = CHR ''T'' \<and> two_digits 0 23 (take 2 (drop 11 s)) \<and> s ! 13 = CHR '':'' \<and>
      two_digits 0 59 (take 2 (drop 14 s)) \<and> s ! 16 = CHR '':'' \<and> two_digits 0 59 (take 2 (drop 17 s)) \<and>
      (let r = drop 19 s in
       if hd r = CHR ''.'' then takeWhile is_digit (tl r) \<noteq> [] \<and> zone_ok (dropWhile is_digit (tl r)) else zone_ok r))"

definition set_time :: "(string \<Rightarrow> 'a \<Rightarrow> 'a) \<Rightarrow> 'a setter" where
  "set_time f v x = (case v of
     JStr s \<Rightarrow> if rfc3339_ok s then Inr (f s x) else Inl (Msg ''cannot parse time'')
   | _ \<Rightarrow> Inl (Msg ''Time.UnmarshalJSON: input is not a JSON string''))"

definition ImageManifest_fields :: "(string \<times> ImageManifest setter) list" where
  "ImageManifest_fields =
     [(''image'', set_string (\<lambda>v m. m\<lparr>im_Image := v\<rparr>)),
      (''digest'', set_string (\<lambda>v m. m\<lparr>im_Digest := v\<rparr>)),
      (''architecture'', set_string (\<lambda>v m. m\<lparr>im_Architecture := v\<rparr>)),
      (''disk_mib'', set_int (\<lambda>v m. m\<lparr>im_DiskMiB := v\<rparr>)),
      (''format_version'', set_int (\<lambda>v m. m\<lparr>im_FormatVersion := v\<rparr>)),
      (''environment'', set_list string_elem (\<lambda>v m. m\<lparr>im_Environment := v\<rparr>)),
      (''working_dir'', set_string (\<lambda>v m. m\<lparr>im_WorkingDir := v\<rparr>)),
      (''created_at'', set_time (\<lambda>v m. m\<lparr>im_CreatedAt := v\<rparr>))]"

record Template =
  tp_Dir :: string
  tp_DiskPath :: string
  tp_Manifest :: ImageManifest
  tp_Cached :: bool

text \<open>The part of \<^verbatim>\<open>buildah inspect\<close> that is read; nested structs are decoded in place.\<close>

record oci_config =
  oc_Env :: "string list"
  oc_WorkingDir :: string

record oci_v1 =
  ov_Architecture :: string
  ov_Config :: oci_config

record buildahInspect =
  bi_FromImage :: string
  bi_FromImageID :: string
  bi_FromImageDigest :: string
  bi_OCIv1 :: oci_v1

definition zero_buildahInspect :: buildahInspect where
  "zero_buildahInspect = \<lparr>bi_FromImage = [], bi_FromImageID = [], bi_FromImageDigest = [],
     bi_OCIv1 = \<lparr>ov_Architecture = [], ov_Config = \<lparr>oc_Env = [], oc_WorkingDir = []\<rparr>\<rparr>\<rparr>"

definition set_struct :: "(string \<times> 'b setter) list \<Rightarrow> ('a \<Rightarrow> 'b) \<Rightarrow> ('b \<Rightarrow> 'a \<Rightarrow> 'a) \<Rightarrow> 'a setter" where
  "set_struct fl get put v x = (case v of
     JObj ms \<Rightarrow> result_bind (decode_members fl ms (get x)) (\<lambda>y. Inr (put y x))
   | _ \<Rightarrow> Inl (Msg ''cannot unmarshal into Go struct''))"

definition oci_config_fields :: "(string \<times> oci_config setter) list" where
  "oci_config_fields =
     [(''Env'', set_list string_elem (\<lambda>v c. c\<lparr>oc_Env := v\<rparr>)),
      (''WorkingDir'', set_string (\<lambda>v c. c\<lparr>oc_WorkingDir := v\<rparr>))]"

definition oci_v1_fields :: "(string \<times> oci_v1 setter) list" where
  "oci_v1_fields =
     [(''architecture'', set_string (\<lambda>v o1. o1\<lparr>ov_Architecture := v\<rparr>)),
      (''config'', set_struct oci_config_fields ov_Config (\<lambda>c o1. o1\<lparr>ov_Config := c\<rparr>))]"

definition buildahInspect_fields :: "(string \<times> buildahInspect setter) list" where
  "buildahInspect_fields =
     [(''FromImage'', set_string (\<lambda>v b. b\<lparr>bi_FromImage := v\<rparr>)),
      (''FromImageID'', set_string (\<lambda>v b. b\<lparr>bi_FromImageID := v\<rparr>)),
      (''FromImageDigest'', set_string (\<lambda>v b. b\<lparr>bi_FromImageDigest := v\<rparr>)),
      (''OCIv1'', set_struct oci_v1_fields bi_OCIv1 (\<lambda>v b. b\<lparr>bi_OCIv1 := v\<rparr>))]"

section \<open>Image names\<close>

definition imageArchitecture :: "string \<Rightarrow> string" where
  "imageArchitecture goarch = (if goarch = ''amd64'' then ''amd64'' else ''arm64'')"

definition templateKey :: "string \<Rightarrow> string \<Rightarrow> string" where
  "templateKey goarch digest =
     replace_byte digest CHR '':'' CHR ''-'' @ ''-'' @ imageArchitecture goarch @ ''-v'' @
     strconv_Itoa TemplateFormatVersion @ ''-'' @ strconv_Itoa DefaultDiskMiB @ ''m''"

definition QualifyImage :: "string \<Rightarrow> string" where
  "QualifyImage img =
     (if strings_Contains img ''://'' \<or> prefix ''containers-storage:'' img \<or> prefix ''docker-archive:'' img \<or>
         prefix ''oci-archive:'' img \<or> prefix ''dir:'' img
      then img
      else
        (let (registry, _, found) = strings_Cut img slash in
         if \<not> found then ''docker.io/library/'' @ img
         else if CHR ''.'' \<in> set registry \<or> CHR '':'' \<in> set registry \<or> registry = ''localhost'' then img
         else ''docker.io/'' @ img))"

section \<open>Finding tools\<close>

text \<open>The first of some paths that exists and is not a directory.\<close>

fun first_file :: "string list \<Rightarrow> error \<Rightarrow> string io" where
  "first_file [] e = failM e"
| "first_file (candidate # rest) e =
     tryM (os_Stat candidate)
       (\<lambda>info. if \<not> is_dir (Some info) then returnM candidate else first_file rest e)
       (\<lambda>_. first_file rest e)"

definition signaturePolicy :: "string io" where
  "signaturePolicy =
     bindM (os_Getenv ''SIGNATURE_POLICY'') (\<lambda>path.
     if path \<noteq> [] then
       tryM (os_Stat path) (\<lambda>_. returnM path) (\<lambda>_. failM (Msg ''SIGNATURE_POLICY points to unavailable file''))
     else
       bindM (os_Getenv ''HOME'') (\<lambda>home.
       first_file
         [filepath_Join [home, ''.config/containers/policy.json''], ''/opt/homebrew/etc/containers/policy.json'',
          ''/usr/local/etc/containers/policy.json'', ''/etc/containers/policy.json'']
         (Msg ''containers policy.json not found; set SIGNATURE_POLICY'')))"

definition findE2fsTool :: "string \<Rightarrow> string io" where
  "findE2fsTool name =
     tryM (exec_LookPath name) returnM (\<lambda>_.
       first_file
         [filepath_Join [''/opt/homebrew/opt/e2fsprogs/sbin'', name], filepath_Join [''/opt/homebrew/opt/e2fsprogs/bin'', name],
          filepath_Join [''/usr/local/opt/e2fsprogs/sbin'', name], filepath_Join [''/usr/local/opt/e2fsprogs/bin'', name]]
         (Msg ''not found; install e2fsprogs''))"

definition CheckDependencies :: "unit io" where
  "CheckDependencies =
     thenM (tryM (exec_LookPath ''buildah'') returnM (\<lambda>_. failM (Msg ''buildah not found; run install-runtime'')))
     (thenM (findE2fsTool ''mke2fs'')
     (thenM (findE2fsTool ''e2fsck'') (returnM ())))"

section \<open>Writing files\<close>

definition syncFile :: "string \<Rightarrow> unit io" where
  "syncFile path = bindM (sys_open_read path) (\<lambda>file. deferM sys_noop (sys_close file))"

definition syncDir :: "string \<Rightarrow> unit io" where
  "syncDir path = bindM (sys_open_read path) (\<lambda>dir. deferM sys_noop (sys_close dir))"

definition storage_writeJSON :: "string \<Rightarrow> json \<Rightarrow> nat \<Rightarrow> unit io" where
  "storage_writeJSON path v mode =
     (let data = json_MarshalIndent v @ [CHR 0x0A]; temp = path @ ''.tmp'' in
      thenM (os_WriteFile temp data mode)
      (thenM (tryM (syncFile temp) returnM (drop_temp temp))
      (thenM (tryM (os_Rename temp path) returnM (drop_temp temp))
      (syncDir (filepath_Dir path)))))"

definition copyFile :: "string \<Rightarrow> string \<Rightarrow> nat \<Rightarrow> unit io" where
  "copyFile source destination mode =
     bindM (sys_open_read source) (\<lambda>inp.
     deferM
       (thenM (sys_create_excl destination mode)
       (tryM (bindM (os_ReadFile source) (sys_write destination))
          (\<lambda>_. sys_noop)
          (\<lambda>e. thenM (ignoreM sys_noop) (failM e))))
       (sys_close inp))"

section \<open>Making a template\<close>

definition prepareHelperRoot :: "string \<Rightarrow> unit io" where
  "prepareHelperRoot dir =
     thenM (wrapM ''create conversion helper root'' (os_MkdirAll dir 448))
     (bindM ImageHelperPath (\<lambda>helper.
      wrapM ''install image helper'' (copyFile helper (filepath_Join [dir, ''devd-image-helper'']) 493)))"

definition createExt4 :: "string \<Rightarrow> int \<Rightarrow> unit io" where
  "createExt4 path sizeMiB =
     thenM (wrapM ''create sparse disk'' (sys_create_excl path 384))
     (thenM (tryM (sys_truncate path (sizeMiB * 1024 * 1024)) returnM
              (\<lambda>e. thenM (ignoreM sys_noop) (failM (Wrap ''size sparse disk'' e))))
     (thenM (wrapM ''close sparse disk'' sys_noop)
     (bindM (findE2fsTool ''mke2fs'') (\<lambda>mke2fs.
      thenM (wrapM ''format ext4 template''
              (sys_exec [mke2fs, ''-q'', ''-t'', ''ext4'', ''-F'', ''-m'', ''0'', ''-L'', ''devd-root'', path]))
      (returnM ())))))"

definition inspectImage :: "string \<Rightarrow> buildahInspect io" where
  "inspectImage img =
     bindM (wrapM ''inspect image'' (sys_exec [''buildah'', ''inspect'', ''--type'', ''image'', img])) (\<lambda>output.
     wrapM ''decode image inspection'' (liftM (json_Unmarshal buildahInspect_fields output zero_buildahInspect)))"

definition ensureLocalImage :: "string \<Rightarrow> buildahInspect io" where
  "ensureLocalImage img =
     bindM (askM o_goarch) (\<lambda>goarch.
     let pull =
       bindM signaturePolicy (\<lambda>policy.
       thenM (wrapM ''pull image''
               (sys_exec [''buildah'', ''--signature-policy'', policy, ''pull'', ''--os'', ''linux'',
                          ''--arch'', imageArchitecture goarch, img]))
       (bindM (inspectImage img) (\<lambda>inspect.
        if ov_Architecture (bi_OCIv1 inspect) \<noteq> imageArchitecture goarch
        then failM (Msg ''image architecture does not match host architecture'')
        else returnM inspect))) in
     tryM (inspectImage img)
       (\<lambda>inspect. if ov_Architecture (bi_OCIv1 inspect) = imageArchitecture goarch then returnM inspect else pull)
       (\<lambda>_. pull))"

definition populateTemplate :: "string \<Rightarrow> string \<Rightarrow> ImageManifest \<Rightarrow> unit io" where
  "populateTemplate tempDir container manifest =
     bindM (wrapM ''mount temporary OCI rootfs'' (sys_exec [''buildah'', ''mount'', container])) (\<lambda>mountOutput.
     let sourceRoot = strings_TrimSpace mountOutput in
     if sourceRoot = [] then failM (Msg ''buildah mount returned an empty rootfs path'')
     else
       (let diskPath = filepath_Join [tempDir, templateDiskName]; helperRoot = filepath_Join [tempDir, ''helper-root''];
            logPath = filepath_Join [tempDir, ''conversion.log''] in
        thenM (createExt4 diskPath (im_DiskMiB manifest))
        (thenM (prepareHelperRoot helperRoot)
        (thenM (wrapM ''populate ext4 template''
                 (Pack \<lparr>po_HelperRoot = helperRoot, po_SourceRoot = sourceRoot, po_TargetDisk = diskPath,
                        po_CPUs = DefaultCPUs, po_Memory = DefaultMemory, po_LogFile = logPath\<rparr>))
        (thenM (wrapM ''remove conversion helper root'' (os_RemoveAll helperRoot))
        (bindM (findE2fsTool ''e2fsck'') (\<lambda>e2fsck.
         thenM (wrapM ''validate ext4 template'' (sys_exec [e2fsck, ''-fn'', diskPath]))
         (thenM (wrapM ''write image manifest''
                  (storage_writeJSON (filepath_Join [tempDir, manifestName]) (JObj (ImageManifest_members manifest)) 384))
         (thenM (wrapM ''sync ext4 template'' (syncFile diskPath))
         (syncDir tempDir))))))))))"

definition prepareTemplate :: "string \<Rightarrow> string \<Rightarrow> ImageManifest \<Rightarrow> unit io" where
  "prepareTemplate tempDir img manifest =
     bindM signaturePolicy (\<lambda>policy.
     bindM (askM o_goarch) (\<lambda>goarch.
     bindM (wrapM ''create temporary OCI rootfs''
             (sys_exec [''buildah'', ''--signature-policy'', policy, ''from'', ''--os'', ''linux'', ''--arch'',
                        imageArchitecture goarch, img])) (\<lambda>output.
     let container = strings_TrimSpace output in
     if container = [] then failM (Msg ''buildah from returned an empty container name'')
     else deferM (populateTemplate tempDir container manifest)
            (thenM (ignoreM (sys_exec [''buildah'', ''umount'', container]))
                   (ignoreM (sys_exec [''buildah'', ''rm'', container]))))))"

section \<open>The cache\<close>

definition loadTemplate :: "string \<Rightarrow> Template io" where
  "loadTemplate dir =
     bindM (os_ReadFile (filepath_Join [dir, manifestName])) (\<lambda>manifestData.
     bindM (liftM (json_Unmarshal ImageManifest_fields manifestData zero_ImageManifest)) (\<lambda>manifest.
     if im_FormatVersion manifest \<noteq> TemplateFormatVersion \<or> im_DiskMiB manifest \<noteq> DefaultDiskMiB
     then failM (Msg ''template format mismatch'')
     else
       (let disk = filepath_Join [dir, templateDiskName] in
        bindM (os_Stat disk) (\<lambda>info.
        case info of
          Reg i m c \<Rightarrow>
            if int (length c) \<noteq> im_DiskMiB manifest * 1024 * 1024 then failM (Msg ''invalid template disk'')
            else returnM \<lparr>tp_Dir = dir, tp_DiskPath = disk, tp_Manifest = manifest, tp_Cached = False\<rparr>
        | _ \<Rightarrow> failM (Msg ''invalid template disk'')))))"

definition lockTemplate :: "string \<Rightarrow> nat io" where
  "lockTemplate path =
     bindM (wrapM ''open template lock'' (sys_open_create path 384)) (\<lambda>file.
     tryM (sys_flock_wait file) (\<lambda>_. returnM file)
       (\<lambda>e. thenM (ignoreM (sys_close file)) (failM (Wrap ''lock image template'' e))))"

definition image_digest :: "buildahInspect \<Rightarrow> string" where
  "image_digest inspect =
     (if bi_FromImageDigest inspect = [] \<and> bi_FromImageID inspect \<noteq> []
      then ''sha256:'' @ strings_TrimPrefix (bi_FromImageID inspect) ''sha256:'' else bi_FromImageDigest inspect)"

text \<open>Building a template in a staging directory and publishing it by a rename; the
  staging directory is removed at the end (after the rename there is none).\<close>

definition buildTemplate :: "string \<Rightarrow> string \<Rightarrow> string \<Rightarrow> string \<Rightarrow> buildahInspect \<Rightarrow> Template io" where
  "buildTemplate imagesDir key canonical digest inspect =
     (let finalDir = filepath_Join [imagesDir, key] in
      thenM (wrapM ''remove invalid image template'' (os_RemoveAll finalDir))
      (bindM (wrapM ''create template staging directory'' (os_MkdirTemp imagesDir (''.tmp-'' @ key @ ''-''))) (\<lambda>tempDir.
       deferM
         (bindM time_Now (\<lambda>now.
          bindM (askM (\<lambda>e. o_time_text e now)) (\<lambda>createdAt.
          let manifest = \<lparr>im_Image = canonical, im_Digest = digest, im_Architecture = ov_Architecture (bi_OCIv1 inspect),
                im_DiskMiB = DefaultDiskMiB, im_FormatVersion = TemplateFormatVersion,
                im_Environment = oc_Env (ov_Config (bi_OCIv1 inspect)),
                im_WorkingDir = oc_WorkingDir (ov_Config (bi_OCIv1 inspect)), im_CreatedAt = createdAt\<rparr> in
          thenM (prepareTemplate tempDir canonical manifest)
          (thenM (wrapM ''publish image template'' (os_Rename tempDir finalDir))
          (thenM (wrapM ''sync images directory'' (syncDir imagesDir))
          (returnM \<lparr>tp_Dir = finalDir, tp_DiskPath = filepath_Join [finalDir, templateDiskName],
                    tp_Manifest = manifest, tp_Cached = False\<rparr>))))))
         (os_RemoveAll tempDir))))"

definition EnsureTemplate :: "string \<Rightarrow> Template io" where
  "EnsureTemplate img =
     thenM CheckDependencies
     (let canonical = QualifyImage img in
      bindM (ensureLocalImage canonical) (\<lambda>inspect.
      let digest = image_digest inspect in
      if digest = [] then failM (Msg ''inspect image: no immutable digest or image ID'')
      else
        bindM (wrapM ''images directory'' ImagesDir) (\<lambda>imagesDir.
        bindM (askM o_goarch) (\<lambda>goarch.
        let key = templateKey goarch digest; finalDir = filepath_Join [imagesDir, key];
            cached = (\<lambda>template. returnM (template\<lparr>tp_Cached := True\<rparr>)) in
        tryM (loadTemplate finalDir) cached (\<lambda>_.
        bindM (lockTemplate (filepath_Join [imagesDir, ''.'' @ key @ ''.lock''])) (\<lambda>lock.
        deferM
          (tryM (loadTemplate finalDir) cached (\<lambda>_. buildTemplate imagesDir key canonical digest inspect))
          (sys_close lock)))))))"

section \<open>Cloning\<close>

definition clone_args :: "string \<Rightarrow> string \<Rightarrow> string \<Rightarrow> string list result" where
  "clone_args goos source temp =
     (if goos = ''darwin'' then Inr [''/bin/cp'', ''-c'', source, temp]
      else if goos = ''linux'' then Inr [''cp'', ''--reflink=always'', ''--sparse=always'', source, temp]
      else Inl (Msg ''ext4 disk cloning is unsupported''))"

definition CloneDisk :: "string \<Rightarrow> string \<Rightarrow> unit io" where
  "CloneDisk source destination =
     thenM (wrapM ''create disk destination directory'' (os_MkdirAll (filepath_Dir destination) 448))
     (let temp = destination @ ''.tmp'' in
      thenM (ignoreM (os_Remove temp))
      (deferM
        (bindM (askM o_goos) (\<lambda>goos.
         bindM (liftM (clone_args goos source temp)) (\<lambda>args.
         thenM (wrapM ''clone ext4 disk'' (sys_exec args))
         (thenM (wrapM ''publish workspace disk'' (os_Rename temp destination))
         (syncDir (filepath_Dir destination))))))
        (os_Remove temp)))"

section \<open>Effects\<close>

context ignores_host
begin

lemma m_Pack: "maintains R (Pack o1)"
  unfolding Pack_def RuntimePath_def Let_def by (auto intro!: rules m_companionPath file_rules)

lemma m_LockDisk: "maintains R (LockDisk p)"
  unfolding LockDisk_def Let_def by (auto intro!: rules lock_rules)

lemma m_first_file: "maintains R (first_file cs e)"
  by (induction cs) (auto intro!: rules)

lemma m_find_tools: "maintains R signaturePolicy" "maintains R (findE2fsTool n)" "maintains R CheckDependencies"
  unfolding CheckDependencies_def signaturePolicy_def findE2fsTool_def exec_LookPath_def
  by (auto intro!: rules m_Getenv m_first_file)

lemma m_sync: "maintains R (syncFile p)" "maintains R (syncDir p)"
  unfolding syncFile_def syncDir_def by (intro rules lock_rules)+

lemma m_drop_temp: "maintains R (drop_temp p e)"
  unfolding drop_temp_def by (intro rules file_rules)

lemma m_storage_writeJSON: "maintains R (storage_writeJSON p v m)"
  unfolding storage_writeJSON_def Let_def by (intro rules file_rules m_sync m_drop_temp)

lemma m_copyFile: "maintains R (copyFile a b m)"
  unfolding copyFile_def by (intro rules file_rules lock_rules)

lemma m_prepareHelperRoot: "maintains R (prepareHelperRoot d)"
  unfolding prepareHelperRoot_def ImageHelperPath_def by (intro rules file_rules m_copyFile m_companionPath)

lemma m_createExt4: "maintains R (createExt4 p n)"
  unfolding createExt4_def by (intro rules file_rules m_find_tools)

lemma m_inspectImage: "maintains R (inspectImage i)"
  unfolding inspectImage_def by (intro rules file_rules)

lemma m_ensureLocalImage: "maintains R (ensureLocalImage i)"
  unfolding ensureLocalImage_def Let_def by (auto intro!: rules file_rules m_inspectImage m_find_tools)

lemma m_populateTemplate: "maintains R (populateTemplate d c m)"
  unfolding populateTemplate_def Let_def
  by (auto intro!: rules file_rules m_createExt4 m_prepareHelperRoot m_Pack m_find_tools m_storage_writeJSON m_sync)

lemma m_prepareTemplate: "maintains R (prepareTemplate d i m)"
  unfolding prepareTemplate_def Let_def by (auto intro!: rules file_rules m_populateTemplate m_find_tools)

lemma m_loadTemplate: "maintains R (loadTemplate d)"
  unfolding loadTemplate_def Let_def by (auto intro!: rules split: node.splits)

lemma m_lockTemplate: "maintains R (lockTemplate p)"
  unfolding lockTemplate_def by (intro rules lock_rules m_open_create)

lemma m_buildTemplate: "maintains R (buildTemplate d k c g i)"
  unfolding buildTemplate_def Let_def by (intro rules file_rules m_prepareTemplate m_sync)

lemma m_EnsureTemplate: "maintains R (EnsureTemplate i)"
  unfolding EnsureTemplate_def Let_def
  by (auto intro!: rules lock_rules m_find_tools m_ensureLocalImage m_ImagesDir m_loadTemplate m_lockTemplate m_buildTemplate)

lemma m_CloneDisk: "maintains R (CloneDisk a b)"
  unfolding CloneDisk_def Let_def by (intro rules file_rules m_sync)

lemmas storage_rules = m_LockDisk m_find_tools m_ensureLocalImage m_EnsureTemplate m_CloneDisk

end

end
