(* ===== verification/StorageLaws.thy ===== *)
theory StorageLaws
  imports Storage
begin

text \<open>
  What the storage package promises: image names are qualified once and for all, different
  digests have different cache directories, a template or a clone appears whole or not at all,
  and the disk lock excludes a running VM.
\<close>

section \<open>Names\<close>

definition transport :: "string \<Rightarrow> bool" where
  "transport s \<longleftrightarrow> strings_Contains s ''://'' \<or> prefix ''containers-storage:'' s \<or> prefix ''docker-archive:'' s \<or>
     prefix ''oci-archive:'' s \<or> prefix ''dir:'' s"

lemma QualifyImage_alt:
  "QualifyImage s =
     (if transport s then s else if slash \<notin> set s then ''docker.io/library/'' @ s
      else let registry = takeWhile (\<lambda>x. x \<noteq> slash) s in
        if CHR ''.'' \<in> set registry \<or> CHR '':'' \<in> set registry \<or> registry = ''localhost'' then s
        else ''docker.io/'' @ s)"
  by (simp add: QualifyImage_def transport_def strings_Cut_def Let_def)

lemma QualifyImage_hub: "QualifyImage (''docker.io/'' @ s) = ''docker.io/'' @ s"
  by (simp add: QualifyImage_alt Let_def)

text \<open>Qualifying an image name is idempotent, and a plain name, the same name below
  \<^verbatim>\<open>library/\<close> and its full Docker Hub name all denote the same image.\<close>

theorem QualifyImage_canonical:
  assumes "slash \<notin> set x" "\<not> transport x"
  shows "QualifyImage (QualifyImage i) = QualifyImage i \<and> QualifyImage x = ''docker.io/library/'' @ x \<and>
    QualifyImage (''library/'' @ x) = QualifyImage x \<and> QualifyImage (QualifyImage x) = QualifyImage x"
proof -
  have "QualifyImage (''docker.io/library/'' @ s) = ''docker.io/library/'' @ s" for s
    using QualifyImage_hub[of "''library/'' @ s"] by simp
  then have idem: "QualifyImage (QualifyImage i) = QualifyImage i" for i
    using QualifyImage_hub QualifyImage_alt[of i] by (auto simp: Let_def split: if_splits)
  have "\<not> strings_Contains (''library/'' @ x) ''://''"
  proof
    assume "strings_Contains (''library/'' @ x) ''://''"
    then obtain a b where ab: "''library/'' @ x = a @ '':'' @ ''//'' @ b" by (auto simp: gostr)
    have "length (filter (\<lambda>c. c = slash) (''library/'' @ x)) = 1" using assms(1) by (auto simp: filter_empty_conv)
    then show False unfolding ab by simp
  qed
  then have "\<not> transport (''library/'' @ x)" by (simp add: transport_def)
  then have "QualifyImage (''library/'' @ x) = ''docker.io/'' @ ''library/'' @ x"
    by (simp add: QualifyImage_alt Let_def)
  moreover have "QualifyImage x = ''docker.io/library/'' @ x" using assms by (simp add: QualifyImage_alt)
  ultimately show ?thesis using idem[of i] idem[of x] by (simp del: append.simps)
qed

theorem QualifyImage_canonical_witness:
  "QualifyImage ''alpine:3'' = ''docker.io/library/alpine:3'' \<and>
   QualifyImage ''library/alpine:3'' = QualifyImage ''alpine:3'' \<and> QualifyImage ''ghcr.io/a/b'' = ''ghcr.io/a/b''"
proof -
  have "slash \<notin> set ''alpine:3''" "\<not> transport ''alpine:3''" by (simp, code_simp)
  then show ?thesis using QualifyImage_canonical[of "''alpine:3''" "''x''"] by (simp, code_simp)
qed

lemma replace_byte_inj:
  assumes "b \<notin> set s" "b \<notin> set t" "replace_byte s a b = replace_byte t a b"
  shows "s = t"
proof -
  have "map (\<lambda>c. if c = a then b else c) s = map (\<lambda>c. if c = a then b else c) t"
    using assms(3) by (simp add: replace_byte_def)
  then show ?thesis
  proof (rule map_inj_on)
    show "inj_on (\<lambda>c. if c = a then b else c) (set s \<union> set t)"
      using assms(1,2) by (auto simp: inj_on_def)
  qed
qed

text \<open>The cache key separates digests and architectures: two digests of the usual form
  (without a hyphen) have the same template directory only if they are equal and are meant for
  the same architecture.\<close>

theorem templateKey_separates:
  assumes "CHR ''-'' \<notin> set d" "CHR ''-'' \<notin> set d'"
  shows "templateKey g d = templateKey g' d' \<longleftrightarrow> d = d' \<and> imageArchitecture g = imageArchitecture g'"
proof
  assume "templateKey g d = templateKey g' d'"
  then have "replace_byte d CHR '':'' CHR ''-'' = replace_byte d' CHR '':'' CHR ''-'' \<and> imageArchitecture g = imageArchitecture g'"
    unfolding templateKey_def by (subst (asm) append_eq_append_conv) (auto simp: imageArchitecture_def)
  then show "d = d' \<and> imageArchitecture g = imageArchitecture g'" using replace_byte_inj[OF assms] by blast
qed (simp add: templateKey_def)

theorem templateKey_separates_witness:
  "templateKey ''amd64'' ''sha256:ab'' \<noteq> templateKey ''amd64'' ''sha256:cd'' \<and>
   templateKey ''amd64'' ''sha256:ab'' \<noteq> templateKey ''riscv64'' ''sha256:ab'' \<and>
   templateKey ''arm64'' ''sha256:ab'' = templateKey ''riscv64'' ''sha256:ab''"
  using templateKey_separates[of "''sha256:ab''" "''sha256:cd''" "''amd64''" "''amd64''"]
    templateKey_separates[of "''sha256:ab''" "''sha256:ab''" "''amd64''" "''riscv64''"]
    templateKey_separates[of "''sha256:ab''" "''sha256:ab''" "''arm64''" "''riscv64''"]
  by (simp add: imageArchitecture_def)

section \<open>The disk lock\<close>

lemma flock_nb_idle:
  assumes "sys_flock_nb fd w = (Ok u, w')" "fds w fd = Some i"
  shows "\<not> held_by_proc w' i"
  using syscall_OkE[OF assms(1)[unfolded sys_flock_nb_def]] assms(2)
  by (auto simp: lock_busy_def held_by_proc_def split: if_splits)

text \<open>Opening a file for reading takes no lock.\<close>

definition same_flocks :: "world \<Rightarrow> world \<Rightarrow> bool" where
  "same_flocks w w' \<longleftrightarrow> flocks w' = flocks w"

interpretation flk: change same_flocks
  by unfold_locales (auto simp: same_flocks_def)

lemma read_keeps_flocks: "maintains same_flocks (wrapM s (sys_open_read p))"
  unfolding sys_open_read_def
  by (intro flk.m_wrap flk.m_syscall) (auto simp: same_flocks_def open_fd_def split: option.splits node.splits)

lemma nofs_LockDisk: "maintains same_files (LockDisk p)"
  unfolding LockDisk_def Let_def by (auto intro!: nofs.rules nofs.lock_rules)

lemma close_fail_flocks:
  assumes "thenM (ignoreM (sys_close fd)) (failM e) w = (r, w')" "\<forall>i. flocks w i \<noteq> Some fd"
  shows "flocks w' = flocks w \<and> (\<forall>x. r \<noteq> Ok x)"
proof -
  have "w' = snd (sys_close fd w) \<and> (\<forall>x. r \<noteq> Ok x)"
    using assms(1) ignoreM_snd[of "sys_close fd" w] by (cases rule: thenM_cases) auto
  then show ?thesis using assms(2) by (auto simp: close_run released_def fun_eq_iff split: option.splits)
qed

lemma LockDisk_run:
  assumes "LockDisk p w = (r, w')" "fds_fresh w"
  shows "fs w' = fs w \<and>
    (case r of
       Ok fd \<Rightarrow> holds w' p fd \<and> (\<forall>g. \<not> holds w p g) \<and>
         (\<forall>i m c. fs w p = Some (Reg i m c) \<longrightarrow> flocks w i = None \<and> flocks w' = (flocks w)(i := Some fd) \<and> \<not> held_by_proc w' i)
     | Err e \<Rightarrow> flocks w' = flocks w
     | Crash \<Rightarrow> True)"
proof -
  have fs: "fs w' = fs w" using maintainsD[OF nofs_LockDisk assms(1)] by (simp add: same_files_def)
  from assms(1)[unfolded LockDisk_def Let_def] show ?thesis
  proof (cases rule: bindM_cases)
    case (go fd w1)
    have op: "fd = next_fd w" "flocks w1 = flocks w" "fs w1 = fs w"
      "fds w1 fd = (case fs w p of Some (Reg i m c) \<Rightarrow> Some i | _ \<Rightarrow> None)"
      using syscall_OkE[OF go(1)[simplified, unfolded sys_open_read_def]]
      by (auto simp: open_fd_def split: option.splits node.splits)
    have free: "\<forall>i. flocks w1 i \<noteq> Some fd" using assms(2) op(1,2) by (auto simp: fds_fresh_def)
    from go(2) show ?thesis
    proof (cases rule: tryM_cases)
      case (ok regular w2)
      have w2: "regular = (fds w1 fd \<noteq> None)" "w2 = tick w1"
        using syscall_OkE[OF ok(1)[unfolded sys_fstat_regular_def]] by auto
      show ?thesis
      proof (cases regular)
        case False
        then show ?thesis using ok(2) close_fail_flocks[of fd _ w2 r w'] free w2 op fs
          by (cases r) auto
      next
        case True
        with ok(2) have "tryM (sys_flock_nb fd) (\<lambda>_. returnM fd)
            (\<lambda>e. thenM (ignoreM (sys_close fd)) (failM (Wrap ''workspace disk is in use'' e))) w2 = (r, w')" by simp
        then show ?thesis
        proof (cases rule: tryM_cases)
          case locked: (ok u w3)
          have w3: "r = Ok fd" "w' = w3" using locked(2) by auto
          obtain i where i: "fds w2 fd = Some i" "flocks w2 i = None \<or> flocks w2 i = Some fd"
            "flocks w3 = (flocks w2)(i := Some fd)" "fds w3 = fds w2" "fs w3 = fs w2"
            using flock_nb_Ok[OF locked(1)] by metis
          obtain m c where p: "fs w p = Some (Reg i m c)"
            using op(4) i(1) w2 by (auto split: option.splits node.splits)
          have "\<not> held_by_proc w3 i" using flock_nb_idle[OF locked(1) i(1)] .
          moreover have "flocks w i = None" using i(2) free w2 op(2) by auto
          ultimately show ?thesis
            using p i w3 w2 op fs by (auto simp: holds_def)
        next
          case (err e w3)
          then show ?thesis
            using flock_nb_Err[OF err(1)] close_fail_flocks[OF err(2)] free w2 op fs
            by (cases r) auto
        qed (use fs in simp)
      qed
    next
      case (err e w2)
      have "flocks w2 = flocks w1"
        using syscall_cases[OF err(1)[unfolded sys_fstat_regular_def]] by auto
      then show ?thesis using close_fail_flocks[OF err(2)] free op fs
        by (cases r) auto
    qed (use fs in simp)
  next
    case (stop e)
    have "flocks w' = flocks w"
      using maintainsD[OF read_keeps_flocks stop(1)] by (simp add: same_flocks_def)
    then show ?thesis using fs stop(2) by simp
  qed (use fs in simp)
qed

text \<open>C25. A disk lock is exclusive and excludes a running VM. \<^verbatim>\<open>LockDisk\<close> succeeds only when
  no descriptor of another devd command and no companion process holds the inode of the disk; then
  the new descriptor is its holder. After an error no lock has changed hands: the
  descriptor it had opened holds nothing. The file itself is never changed.\<close>

theorem LockDisk_excludes_vm:
  assumes "LockDisk p w = (r, w')" "fds_fresh w"
  shows "fs w' = fs w \<and>
    (case r of
       Ok fd \<Rightarrow> holds w' p fd \<and> (\<forall>g. \<not> holds w p g) \<and>
         (\<forall>i m c. fs w p = Some (Reg i m c) \<longrightarrow> flocks w i = None \<and> flocks w' = (flocks w)(i := Some fd) \<and> \<not> held_by_proc w' i)
     | Err e \<Rightarrow> flocks w' = flocks w
     | Crash \<Rightarrow> True)"
  using LockDisk_run[OF assms] .

text \<open>A disk that is free, and the same disk held by a VM.\<close>

definition disk_demo :: "proc_table \<Rightarrow> world" where
  "disk_demo t = blank\<lparr>fs := (fs blank)(''/d/disk'' \<mapsto> Reg 5 384 ''data''), procs := t\<rparr>"

theorem LockDisk_excludes_vm_witness:
  "fst (LockDisk ''/d/disk'' (disk_demo [])) = Ok 3 \<and>
   holds (snd (LockDisk ''/d/disk'' (disk_demo []))) ''/d/disk'' 3 \<and>
   fst (LockDisk ''/d/disk'' (disk_demo [(7, \<lparr>p_ident = ''42'', p_holds = [5]\<rparr>)])) =
     Err (Wrap ''workspace disk is in use'' (Sys EWOULDBLOCK)) \<and>
   flocks (snd (LockDisk ''/d/disk'' (disk_demo [(7, \<lparr>p_ident = ''42'', p_holds = [5]\<rparr>)]))) = (\<lambda>_. None)"
proof -
  let ?vm = "[(7, \<lparr>p_ident = ''42'', p_holds = [5]\<rparr>)]"
  have ok: "fst (LockDisk ''/d/disk'' (disk_demo [])) = Ok 3" by code_simp
  have no: "fst (LockDisk ''/d/disk'' (disk_demo ?vm)) = Err (Wrap ''workspace disk is in use'' (Sys EWOULDBLOCK))" by code_simp
  have f: "fds_fresh (disk_demo t)" "flocks (disk_demo t) = (\<lambda>_. None)" for t
    by (simp_all add: fds_fresh_def disk_demo_def blank_def)
  show ?thesis
    using LockDisk_excludes_vm[OF run_pair[OF ok] f(1)] LockDisk_excludes_vm[OF run_pair[OF no] f(1)] ok no f(2) by simp
qed

end
