(* ===== verification/Frames.thy ===== *)
theory Frames
  imports Storage Options SshConfig
begin

text \<open>
  Which existing files a command can change. \<open>intact D\<close> says that every file in \<open>D\<close> that exists
  keeps its inode, mode and contents, provided that the external programs devd runs leave
  the files in \<open>D\<close> alone (\<open>spares D\<close>). Creating directories, temporary files and lock files is
  harmless for every \<open>D\<close>, so most commands need no side condition.
\<close>

definition spares :: "(string \<Rightarrow> bool) \<Rightarrow> environ \<Rightarrow> bool" where
  "spares D e \<longleftrightarrow> (\<forall>n args f p. D p \<longrightarrow> f p \<noteq> None \<longrightarrow> snd (o_exec e n args f) p = f p)"

definition intact :: "(string \<Rightarrow> bool) \<Rightarrow> world \<Rightarrow> world \<Rightarrow> bool" where
  "intact D w w' \<longleftrightarrow> same_env w w' \<and>
     (spares D (orc w) \<longrightarrow> (\<forall>p. D p \<longrightarrow> fs w p \<noteq> None \<longrightarrow> fs w' p = fs w p))"

lemma intactD: "intact D w w' \<Longrightarrow> spares D (orc w) \<Longrightarrow> D p \<Longrightarrow> fs w p = Some x \<Longrightarrow> fs w' p = Some x"
  by (simp add: intact_def)

lemma intactI: "same_env w w' \<Longrightarrow> (\<And>p. D p \<Longrightarrow> fs w p \<noteq> None \<Longrightarrow> fs w' p = fs w p) \<Longrightarrow> intact D w w'"
  by (simp add: intact_def)

interpretation keep: ignores_locks "intact D" for D
proof
  fix u v w :: world
  assume "intact D u v" "intact D v w"
  then show "intact D u w"
    unfolding intact_def by (metis same_env_trans same_env_def)
qed (auto simp: intact_def same_env_def tick_def)

interpretation keepp: ignores_procs "intact D" for D
  by unfold_locales (auto simp: intact_def same_env_def)

interpretation keepd: ignores_db "intact D" for D
  by unfold_locales (auto simp: intact_def same_env_def)

lemma keep_exec: "maintains (intact D) (sys_exec args)"
  unfolding sys_exec_def
  by (rule keep.m_syscall_part) (auto simp: intact_def same_env_def spares_def split_beta)

text \<open>Commands that only create.\<close>

lemma mkdir_missing_intact:
  "mkdir_missing m ds f = Inr g \<Longrightarrow> f p \<noteq> None \<Longrightarrow> g p = f p"
  using mkdir_missing_keeps by fastforce

lemma keep_create:
  "maintains (intact D) (os_MkdirAll p m)" "maintains (intact D) (os_Mkdir p m)"
  "maintains (intact D) (os_MkdirTemp p s)" "maintains (intact D) (os_CreateTemp p s t)"
  "maintains (intact D) (sys_open_create p m)" "maintains (intact D) (sys_create_excl p m)"
  "maintains (intact D) (sys_open_append p m)"
proof -
  show "maintains (intact D) (os_MkdirAll p m)"
    unfolding os_MkdirAll_def
    by (rule keep.m_syscall_part)
      (auto simp: keep.R_refl same_env_def mkdir_missing_intact intro!: intactI split: sum.splits)
  have new: "intact D w (set_file q x (w\<lparr>next_ino := j\<rparr>))" "intact D w (set_file q x w)" if "fs w q = None" for w q x j
    using that by (auto simp: intact_def same_env_def set_file_def)
  show "maintains (intact D) (os_Mkdir p m)" "maintains (intact D) (sys_create_excl p m)"
    "maintains (intact D) (sys_open_append p m)"
    unfolding os_Mkdir_def sys_create_excl_def sys_open_append_def
    by (rule keep.m_syscall; simp add: keep.R_refl new split: option.splits node.splits)+
  show "maintains (intact D) (os_MkdirTemp p s)" "maintains (intact D) (os_CreateTemp p s t)"
    unfolding os_MkdirTemp_def os_CreateTemp_def
    by (rule keep.m_syscall; auto simp: keep.R_refl intro!: new dest!: free_name_Some split: option.splits)+
  have fd: "intact D w (snd (open_fd i v))" if "intact D w v" for w v i
    using that by (auto simp: intact_def same_env_def open_fd_def)
  show "maintains (intact D) (sys_open_create p m)"
    unfolding sys_open_create_def
    by (rule keep.m_syscall) (simp add: keep.R_refl Let_def split_beta fd new split: option.splits node.splits)
qed

text \<open>Commands that change or remove a file.\<close>

lemma keep_at:
  assumes "\<not> D p"
  shows "maintains (intact D) (os_WriteFile p d m)" "maintains (intact D) (os_Remove p)"
    "maintains (intact D) (sys_open_trunc p m)" "maintains (intact D) (sys_write p d)"
    "maintains (intact D) (sys_truncate p sz)" "maintains (intact D) (os_Chmod p m)"
proof -
  have at: "intact D w (set_file p x (w\<lparr>next_ino := j\<rparr>))" "intact D w (set_file p x w)" for w x j
    using assms by (auto simp: intact_def same_env_def set_file_def)
  have ap: "intact D w (append_bytes p s w)" for w s
    by (auto simp: append_bytes_def keep.R_refl at split: option.splits node.splits)
  show tr: "maintains (intact D) (sys_open_trunc p m)" "maintains (intact D) (os_Remove p)"
    "maintains (intact D) (sys_truncate p sz)" "maintains (intact D) (os_Chmod p m)" for m
    unfolding sys_open_trunc_def os_Remove_def sys_truncate_def os_Chmod_def
    by (rule keep.m_syscall; simp add: keep.R_refl at split: option.splits node.splits)+
  show wr: "maintains (intact D) (sys_write p d)" for d
    unfolding sys_write_def by (rule keep.m_syscall_part) (auto simp: ap)
  show "maintains (intact D) (os_WriteFile p d m)"
    unfolding os_WriteFile_def by (intro keep.rules tr wr)
qed

lemma keep_RemoveAll: "(\<And>q. D q \<Longrightarrow> \<not> beneath d q) \<Longrightarrow> maintains (intact D) (os_RemoveAll d)"
  unfolding os_RemoveAll_def
  by (rule keep.m_syscall_part) (auto simp: intact_def same_env_def remove_tree_def)

lemma keep_Rename:
  "(\<And>q. D q \<Longrightarrow> \<not> beneath a q) \<Longrightarrow> (\<And>q. D q \<Longrightarrow> \<not> beneath b q) \<Longrightarrow> maintains (intact D) (os_Rename a b)"
  unfolding os_Rename_def
  by (rule keep.m_syscall)
    (auto simp: intact_def same_env_def rename_tree_def rename_file_def beneath_def split: option.splits)

lemma keep_Rename_file:
  assumes "\<not> D a" "\<not> D b" "\<And>w. P w \<Longrightarrow> \<not> is_dir (fs w a)" "P w" "os_Rename a b w = (r, w')"
  shows "intact D w w'"
proof -
  have "\<not> is_dir (fs (tick w) a)" using assms(3,4) by simp
  then have "(case snd (case fs (tick w) a of None \<Rightarrow> (Inl (Sys ENOENT), tick w)
      | Some x \<Rightarrow> if is_dir (fs (tick w) b) then (Inl (Sys EEXIST), tick w)
          else if a = b then (Inr (), tick w)
          else if \<not> is_dir (fs (tick w) (filepath_Dir b)) then (Inl (Sys ENOENT), tick w)
          else if \<not> is_dir (Some x) then (Inr (), rename_file a b (tick w))
          else if fs (tick w) b \<noteq> None then (Inl (Sys ENOTDIR), tick w)
          else (Inr (), rename_tree a b (tick w))) of v \<Rightarrow> intact D w v)"
    using assms(1,2) same_env_tick[of w]
    by (auto simp: intact_def same_env_def rename_file_def split: option.splits)
  then show ?thesis
    using syscall_cases[OF assms(5)[unfolded os_Rename_def]] keep.R_tick[of D w]
      keep.R_trans[OF keep.R_tick[of D w] keep.R_die]
    by (auto split: prod.splits sum.splits)
qed

section \<open>The paths of an installation\<close>

lemma keep_config:
  "maintains (intact D) DevdDir" "maintains (intact D) DBPath" "maintains (intact D) DaemonSocketPath"
  "maintains (intact D) DaemonLockPath" "maintains (intact D) DaemonLogPath" "maintains (intact D) SSHDir"
  "maintains (intact D) ImagesDir" "maintains (intact D) WorkspacesDir" "maintains (intact D) (WorkspaceDir n)"
  "maintains (intact D) PrivateKeyPath" "maintains (intact D) PublicKeyPath"
proof -
  show dd: "maintains (intact D) DevdDir"
    unfolding DevdDir_def os_Getenv_def os_UserHomeDir_def by (intro keep.rules keep_create) (auto intro!: keep.rules)
  show "maintains (intact D) DBPath" "maintains (intact D) DaemonSocketPath"
    "maintains (intact D) DaemonLockPath" "maintains (intact D) DaemonLogPath"
    unfolding DBPath_def DaemonSocketPath_def DaemonLockPath_def DaemonLogPath_def by (intro keep.rules dd)+
  show sd: "maintains (intact D) SSHDir" and "maintains (intact D) ImagesDir" and wd: "maintains (intact D) WorkspacesDir"
    unfolding SSHDir_def ImagesDir_def WorkspacesDir_def Let_def by (intro keep.rules keep_create dd)+
  show "maintains (intact D) (WorkspaceDir n)" unfolding WorkspaceDir_def by (intro keep.rules wd)
  show "maintains (intact D) PrivateKeyPath" "maintains (intact D) PublicKeyPath"
    unfolding PrivateKeyPath_def PublicKeyPath_def by (intro keep.rules sd)+
qed

lemma keep_companionPath: "maintains (intact D) (companionPath e n)"
  unfolding companionPath_def os_Getenv_def os_Executable_def exec_LookPath_def Let_def by (auto intro!: keep.rules)

lemma keep_LockMetadata: "maintains (intact D) LockMetadata"
  unfolding LockMetadata_def by (intro keep.rules keep.lock_rules keep_create keep_config)

lemma keep_LockDisk: "maintains (intact D) (LockDisk p)"
  unfolding LockDisk_def Let_def by (auto intro!: keep.rules keep.lock_rules)

lemma keep_EnsureKeypair: "maintains (intact D) EnsureKeypair" and keep_PublicKey: "maintains (intact D) PublicKey"
  unfolding EnsureKeypair_def PublicKey_def Let_def by (intro keep.rules keep_exec keep_config)+

lemma keep_ReadProcess: "maintains (intact D) (ReadProcess p)"
  unfolding ReadProcess_def by (auto intro!: keep.rules)

lemma keep_Stop: "maintains (intact D) (Stop opts)"
proof -
  have "maintains (intact D) (Stop_signals p sigs)" for p sigs
    by (induction sigs) (auto intro!: keep.rules keep.wait_rules keepp.m_kill)
  then show ?thesis
    unfolding Stop_def Let_def by (auto intro!: keep.rules keep.wait_rules keep_exec keepp.m_kill)
qed

lemmas keep_rules = keep.rules keep.lock_rules keep.wait_rules keepd.db_rules keepp.proc_rules keep_exec keep_create
  keep_config keep_companionPath keep_LockMetadata keep_LockDisk keep_EnsureKeypair keep_PublicKey keep_ReadProcess
  keep_Stop keep.option_rules

end
