(* ===== verification/DaemonClient.thy ===== *)
theory DaemonClient
  imports Vm
begin

text \<open>
  \<^verbatim>\<open>internal/cli/daemon.go\<close>, the side of the commands: the control protocol's messages, asking
  the proxy daemon to own ports (starting it when it does not answer) and shutting it down.
  The daemon itself is in theory \<open>Proxy\<close>. Times are in milliseconds.
\<close>

section \<open>Messages\<close>

record daemonRequest =
  dq_Command :: string
  dq_Ports :: "int list"

record daemonResponse =
  ds_Error :: string

definition daemonRequest_members :: "daemonRequest \<Rightarrow> (string \<times> json) list" where
  "daemonRequest_members q =
     (''command'', JStr (dq_Command q)) #
     (if dq_Ports q = [] then [] else [(''ports'', JArr (map (\<lambda>p. JNum (strconv_Itoa p)) (dq_Ports q)))])"

definition daemonRequest_fields :: "(string \<times> daemonRequest setter) list" where
  "daemonRequest_fields =
     [(''command'', set_string (\<lambda>v q. q\<lparr>dq_Command := v\<rparr>)), (''ports'', set_list int_elem (\<lambda>v q. q\<lparr>dq_Ports := v\<rparr>))]"

definition zero_daemonRequest :: daemonRequest where
  "zero_daemonRequest = \<lparr>dq_Command = [], dq_Ports = []\<rparr>"

definition daemonResponse_members :: "daemonResponse \<Rightarrow> (string \<times> json) list" where
  "daemonResponse_members s = omit_empty ''error'' (ds_Error s)"

definition daemonResponse_fields :: "(string \<times> daemonResponse setter) list" where
  "daemonResponse_fields = [(''error'', set_string (\<lambda>v s. s\<lparr>ds_Error := v\<rparr>))]"

definition zero_daemonResponse :: daemonResponse where
  "zero_daemonResponse = \<lparr>ds_Error = []\<rparr>"

text \<open>\<^verbatim>\<open>json.NewEncoder(connection).Encode\<close> ends a message with a newline.\<close>

definition encode_request :: "daemonRequest \<Rightarrow> string" where
  "encode_request q = json_Marshal (JObj (daemonRequest_members q)) @ [CHR 0x0A]"

definition encode_response :: "daemonResponse \<Rightarrow> string" where
  "encode_response s = json_Marshal (JObj (daemonResponse_members s)) @ [CHR 0x0A]"

section \<open>Requests\<close>

definition response_error :: "string \<Rightarrow> error option" where
  "response_error reply =
     (case json_Unmarshal daemonResponse_fields reply zero_daemonResponse of
        Inl e \<Rightarrow> Some (Wrap ''read proxy daemon response'' e)
      | Inr response \<Rightarrow>
          if ds_Error response \<noteq> [] then Some (Msg (''prepare declared ports: '' @ ds_Error response)) else None)"

text \<open>\<^verbatim>\<open>sendProxyDaemonRequest\<close> returns whether a daemon was reached, and the error.\<close>

definition sendProxyDaemonRequest :: "daemonRequest \<Rightarrow> (bool \<times> error option) io" where
  "sendProxyDaemonRequest request =
     tryM DaemonSocketPath (\<lambda>socketPath.
     tryM (sys_dial socketPath) (\<lambda>_.
       deferM
         (tryM sys_noop (\<lambda>_.
          tryM (sys_exchange (encode_request request))
            (\<lambda>reply. returnM (True, response_error reply))
            (\<lambda>e. returnM (True, Some (Wrap ''read proxy daemon response'' e))))
          (\<lambda>e. returnM (True, Some (Wrap ''send proxy daemon request'' e))))
         sys_noop)
     (\<lambda>e. returnM (False, Some e)))
     (\<lambda>e. returnM (False, Some e))"

definition requestProxyDaemon :: "int list \<Rightarrow> (bool \<times> error option) io" where
  "requestProxyDaemon ports = sendProxyDaemonRequest \<lparr>dq_Command = ''ensure'', dq_Ports = ports\<rparr>"

definition startProxyDaemonProcess :: "unit io" where
  "startProxyDaemonProcess =
     bindM (wrapM ''locate devd executable'' os_Executable) (\<lambda>executable.
     bindM DaemonLogPath (\<lambda>logPath.
     thenM (wrapM ''open proxy daemon log'' (sys_open_append logPath 384))
     (thenM (tryM (sys_spawn [executable, ''daemon'']) returnM
              (\<lambda>e. thenM (ignoreM sys_noop) (failM (Wrap ''start proxy daemon'' e))))
     (thenM (ignoreM sys_noop)
     (wrapM ''detach proxy daemon'' sys_noop)))))"

text \<open>\<^verbatim>\<open>return err\<close> for a possibly absent error.\<close>

definition return_err :: "'a \<Rightarrow> error option \<Rightarrow> 'a io" where
  "return_err x err = (case err of None \<Rightarrow> returnM x | Some e \<Rightarrow> failM e)"

definition ensureProxyDaemon :: "int list \<Rightarrow> unit io" where
  "ensureProxyDaemon ports =
     (if ports = [] then returnM ()
      else
        bindM (requestProxyDaemon ports) (\<lambda>(connected, err).
        if connected then return_err () err
        else
          thenM startProxyDaemonProcess
          (bindM time_Now (\<lambda>now.
           poll (now + 5000) 50
             (bindM (requestProxyDaemon ports) (\<lambda>(connected, requestErr).
              if connected then return_err (Some ()) requestErr else returnM None))
             (thenM (ignoreM DaemonLogPath) (failM (Msg ''proxy daemon did not become ready'')))))))"

definition shutdownProxyDaemon :: "unit io" where
  "shutdownProxyDaemon =
     bindM (sendProxyDaemonRequest \<lparr>dq_Command = ''shutdown'', dq_Ports = []\<rparr>) (\<lambda>(connected, err).
     if \<not> connected then returnM ()
     else thenM (return_err () err)
       (bindM DaemonSocketPath (\<lambda>path.
        bindM time_Now (\<lambda>now.
        poll (now + 5000) 20
          (tryM sys_stat_socket (\<lambda>_. returnM None) (\<lambda>e. if os_IsNotExist e then returnM (Some ()) else failM e))
          (failM (Msg ''proxy daemon did not remove its control socket after shutdown''))))))"

section \<open>Effects\<close>

context ignores_host
begin

lemma m_return_err: "maintains R (return_err x err)"
  by (auto simp: return_err_def intro!: rules split: option.splits)

lemma m_sendProxyDaemonRequest: "maintains R (sendProxyDaemonRequest q)"
  unfolding sendProxyDaemonRequest_def by (intro rules config_rules)

lemma m_startProxyDaemonProcess: "maintains R startProxyDaemonProcess"
  unfolding startProxyDaemonProcess_def os_Executable_def by (intro rules config_rules file_rules proc_rules)

lemma m_ensureProxyDaemon: "maintains R (ensureProxyDaemon ps)"
  unfolding ensureProxyDaemon_def requestProxyDaemon_def
  by (auto intro!: rules config_rules m_sendProxyDaemonRequest m_return_err m_startProxyDaemonProcess)

lemma m_shutdownProxyDaemon: "maintains R shutdownProxyDaemon"
  unfolding shutdownProxyDaemon_def
  by (auto intro!: rules config_rules m_sendProxyDaemonRequest m_return_err)

lemmas daemon_rules = m_ensureProxyDaemon m_shutdownProxyDaemon

end

section \<open>The protocol\<close>

lemma elems_ints:
  "(\<And>p. p \<in> set ps \<Longrightarrow> - (2 ^ 63) \<le> p \<and> p < 2 ^ 63) \<Longrightarrow> elems int_elem (map (\<lambda>p. JNum (strconv_Itoa p)) ps) = Inr ps"
  by (induction ps) (auto simp: atoi_Itoa)

definition request_ok :: "daemonRequest \<Rightarrow> bool" where
  "request_ok q \<longleftrightarrow> valid_utf8 (dq_Command q) \<and> (\<forall>p\<in>set (dq_Ports q). - (2 ^ 63) \<le> p \<and> p < 2 ^ 63)"

interpretation request_codec: codec request_ok encode_request "\<lambda>c. json_Unmarshal daemonRequest_fields c zero_daemonRequest"
proof
  fix q assume ok: "request_ok q"
  have wf: "json_wf (JObj (daemonRequest_members q))"
    using ok by (auto simp: daemonRequest_members_def request_ok_def valid_ascii)
  have "decode_members daemonRequest_fields (daemonRequest_members q) zero_daemonRequest = Inr q"
    using ok elems_ints[of "dq_Ports q"]
    by (auto simp: daemonRequest_members_def daemonRequest_fields_def select_field_def set_string_def set_list_def
        zero_daemonRequest_def request_ok_def)
  then show "json_Unmarshal daemonRequest_fields (encode_request q) zero_daemonRequest = Inr q"
    using json_round_trip(3)[OF wf] by (simp add: json_Unmarshal_def encode_request_def)
qed

interpretation response_codec: codec "\<lambda>s :: daemonResponse. valid_utf8 (ds_Error s)" encode_response
  "\<lambda>c. json_Unmarshal daemonResponse_fields c zero_daemonResponse"
proof
  fix s :: daemonResponse assume ok: "valid_utf8 (ds_Error s)"
  have wf: "json_wf (JObj (daemonResponse_members s))"
    using ok by (auto simp: daemonResponse_members_def omit_empty_def valid_ascii)
  have "decode_members daemonResponse_fields (daemonResponse_members s) zero_daemonResponse = Inr s"
    by (auto simp: daemonResponse_members_def daemonResponse_fields_def select_field_def set_string_def omit_empty_def
        zero_daemonResponse_def)
  then show "json_Unmarshal daemonResponse_fields (encode_response s) zero_daemonResponse = Inr s"
    using json_round_trip(3)[OF wf] by (simp add: json_Unmarshal_def encode_response_def)
qed

end
