(* ===== verification/Guest.thy ===== *)
theory Guest
  imports Config
begin

text \<open>
  \<^verbatim>\<open>internal/vm/guest.go\<close>: the bootstrap command of a VM and the init script that the host
  writes into the control directory. The script runs inside the guest; here it is data.
\<close>

definition guestInitName :: string where "guestInitName = ''devd-init''"

definition GuestBootstrap :: string where
  "GuestBootstrap = ''mkdir -p /devd && mount -t virtiofs devd /devd && exec /bin/sh /devd/devd-init''"

definition guestInitLines :: "string list" where
  "guestInitLines =
     [''#!/bin/sh'',
      ''set -eu'',
      [],
      ''LABEL=${DEVD_NAME:?DEVD_NAME is required}'',
      ''SSH_PORT=${DEVD_SSH_PORT:?DEVD_SSH_PORT is required}'',
      [],
      ''ts() { date '' @ [CHR 0x27] @ ''+%H:%M:%S'' @ [CHR 0x27] @ ''; }'',
      ''echo \"=== $LABEL boot [$(ts)] ===\"'',
      [],
      ''WS_DIR=/devd'',
      ''test -d \"$WS_DIR\"'',
      [],
      ''if [ -f \"$WS_DIR/regenerate-identity\" ]; then'',
      ''    rm -f /etc/ssh/ssh_host_*'',
      ''    rm -f /var/lib/dbus/machine-id'',
      ''    : >/etc/machine-id'',
      ''fi'',
      [],
      ''if [ -s \"$WS_DIR/mount-guest\" ]; then'',
      ''    MOUNT_GUEST=$(cat \"$WS_DIR/mount-guest\")'',
      ''    if [ -n \"$MOUNT_GUEST\" ]; then'',
      ''        mkdir -p \"$MOUNT_GUEST\"'',
      ''        mount -t virtiofs workspace \"$MOUNT_GUEST\"'',
      ''    fi'',
      ''fi'',
      [],
      ''hostname \"$LABEL\" 2>/dev/null || true'',
      ''chmod 755 /root'',
      ''mkdir -p /root/.ssh /run/sshd'',
      ''chmod 700 /root/.ssh'',
      ''cat \"$WS_DIR/authorized_keys\" >/root/.ssh/authorized_keys'',
      ''chmod 600 /root/.ssh/authorized_keys'',
      ''# Unlock the account for key login without installing a shared password.'',
      ''# Password and keyboard-interactive authentication are disabled below.'',
      ''passwd -d root >/dev/null 2>&1 || true'',
      [],
      ''if [ ! -s /etc/machine-id ] && [ -r /proc/sys/kernel/random/uuid ]; then'',
      ''    tr -d '' @ [CHR 0x27] @ ''-'' @ [CHR 0x27] @ '' </proc/sys/kernel/random/uuid >/etc/machine-id'',
      ''fi'',
      ''ssh-keygen -A >/dev/null 2>&1'',
      [],
      ''cat >/tmp/sshd_config <<SSHEOF'',
      ''Port $SSH_PORT'',
      ''PermitRootLogin prohibit-password'',
      ''PubkeyAuthentication yes'',
      ''PasswordAuthentication no'',
      ''KbdInteractiveAuthentication no'',
      ''PermitEmptyPasswords no'',
      ''PidFile /run/sshd-devd.pid'',
      ''HostKey /etc/ssh/ssh_host_rsa_key'',
      ''HostKey /etc/ssh/ssh_host_ecdsa_key'',
      ''HostKey /etc/ssh/ssh_host_ed25519_key'',
      ''SSHEOF'',
      ''/usr/sbin/sshd -f /tmp/sshd_config'',
      [],
      ''if [ -f \"$WS_DIR/regenerate-identity\" ]; then'',
      ''    rm -f \"$WS_DIR/regenerate-identity\"'',
      ''fi'',
      [],
      ''if [ -s \"$WS_DIR/user-command\" ]; then'',
      ''    WORKDIR=$(cat \"$WS_DIR/image-workdir\")'',
      ''    ('',
      ''        cd \"$WORKDIR\" 2>/dev/null || cd /'',
      ''        /bin/sh \"$WS_DIR/user-command\"'',
      ''    ) &'',
      ''    echo \"user cmd PID=$!\"'',
      ''fi'',
      [],
      ''echo $$ >/run/devd-workload.pid'',
      ''shutdown_workload() {'',
      ''    sync'',
      ''    exit 0'',
      ''}'',
      ''trap shutdown_workload TERM INT'',
      [],
      ''echo \"=== $LABEL ready [$(ts)] ===\"'',
      ''echo DEVD_READY'',
      ''while true; do'',
      ''    sleep 3600 &'',
      ''    wait $! || true'',
      ''done'']"

definition guestInitScript :: string where
  "guestInitScript = concat (map (\<lambda>l. l @ [CHR 0x0A]) guestInitLines)"

definition WriteGuestInit :: "string \<Rightarrow> string io" where
  "WriteGuestInit dir =
     (let path = filepath_Join [dir, guestInitName] in
      thenM (wrapM ''write guest init'' (os_WriteFile path guestInitScript 493)) (returnM path))"

context ignores_files
begin

lemma m_WriteGuestInit: "maintains R (WriteGuestInit d)"
  unfolding WriteGuestInit_def Let_def by (intro rules file_rules)

end

end
