(* ===== verification/Lifecycle.thy ===== *)
theory Lifecycle
  imports Frames DaemonClient Guest
begin

text \<open>
  \<^verbatim>\<open>internal/cli/lifecycle.go\<close>: observing, starting and stopping a workspace. A workspace
  record that the code changes through its pointer is returned by the command. Progress
  messages are not modelled.
\<close>

definition processPath :: "Workspace \<Rightarrow> string" where
  "processPath ws = filepath_Join [ws_WorkspaceDir ws, ''process.json'']"

section \<open>Observing\<close>

text \<open>State and PID according to the launch receipt.\<close>

definition observe :: "Workspace \<Rightarrow> (string \<times> int) io" where
  "observe ws =
     bindM (ReadProcess (processPath ws)) (\<lambda>process.
     case process of
       Some p \<Rightarrow> bindM (Running p) (\<lambda>live. returnM (if live then (running, pr_PID p) else (stopped, 0)))
     | None \<Rightarrow> bindM (IsRunning (ws_PID ws)) (\<lambda>legacy.
         if legacy then failM (Msg ''workspace has an unverified legacy PID'') else returnM (stopped, 0)))"

definition confirm_stopped :: "Workspace \<Rightarrow> unit io" where
  "confirm_stopped ws =
     tryM (LockDisk (ws_DiskPath ws))
       (\<lambda>lock. ignoreM (sys_close lock))
       (\<lambda>e. if errors_Is e ENOENT then returnM () else failM (Wrap ''cannot confirm workspace is stopped'' e))"

definition loadWorkspace :: "string \<Rightarrow> Workspace io" where
  "loadWorkspace name =
     bindM (GetWorkspace name) (\<lambda>ws.
     bindM (observe ws) (\<lambda>(state, pid).
     thenM (if state = stopped \<and> ws_DiskPath ws \<noteq> [] then confirm_stopped ws else returnM ())
     (thenM (if ws_State ws \<noteq> state \<or> ws_PID ws \<noteq> pid \<or> state = stopped \<and> ws_IsActive ws
             then wrapM ''reconcile workspace state'' (SetWorkspaceState name state pid) else returnM ())
     (returnM (ws\<lparr>ws_State := state, ws_PID := pid, ws_IsActive := (state \<noteq> stopped \<and> ws_IsActive ws)\<rparr>)))))"

section \<open>Stopping\<close>

definition stopWorkspace :: "Workspace \<Rightarrow> Workspace io" where
  "stopWorkspace ws =
     bindM (ReadProcess (processPath ws)) (\<lambda>process.
     bindM (case process of None \<Rightarrow> IsRunning (ws_PID ws) | Some p \<Rightarrow> returnM False) (\<lambda>unverified.
     if unverified then failM (Msg ''cannot stop unverified VM PID'')
     else
       thenM (case process of
                None \<Rightarrow> returnM ()
              | Some p \<Rightarrow> bindM PrivateKeyPath (\<lambda>keyPath.
                  wrapM ''stop VM'' (Stop \<lparr>st_Process = p, st_SSHPort = ws_SSHPort ws, st_KeyPath = keyPath, st_Graceful = 0\<rparr>)))
       (thenM (wrapM ''record stopped state'' (SetWorkspaceState (ws_Name ws) stopped 0))
       (returnM (ws\<lparr>ws_State := stopped, ws_PID := 0, ws_IsActive := False\<rparr>)))))"

section \<open>Ports\<close>

definition ensurePortAvailable :: "int \<Rightarrow> unit io" where
  "ensurePortAvailable port = thenM (wrapM ''SSH port is already in use'' (sys_listen port)) sys_noop"

fun first_available :: "int list \<Rightarrow> int io" where
  "first_available [] = failM (Msg ''no SSH ports are available'')"
| "first_available (port # ports) = tryM (ensurePortAvailable port) (\<lambda>_. returnM port) (\<lambda>_. first_available ports)"

definition nextAvailableSSHPort :: "int io" where
  "nextAvailableSSHPort = bindM NextSSHPort (\<lambda>start. first_available [start..65535])"

section \<open>Booting\<close>

definition ssh_probe_args :: "string \<Rightarrow> int \<Rightarrow> string list" where
  "ssh_probe_args keyPath port =
     [''ssh'', ''-o'', ''BatchMode=yes'', ''-o'', ''StrictHostKeyChecking=no'', ''-o'', ''UserKnownHostsFile=/dev/null'',
      ''-o'', ''LogLevel=ERROR'', ''-o'', ''ConnectTimeout=1'', ''-o'', ''ConnectionAttempts=1'',
      ''-i'', keyPath, ''-p'', strconv_Itoa port, ''root@127.0.0.1'', ''true'']"

definition probe :: "string \<Rightarrow> int \<Rightarrow> Process \<Rightarrow> unit option io" where
  "probe keyPath port process =
     bindM (Running process) (\<lambda>live.
     if \<not> live then failM (Msg ''VM process exited before SSH became ready'')
     else tryM (sys_exec (ssh_probe_args keyPath port)) (\<lambda>_. returnM (Some ())) (\<lambda>_. returnM None))"

definition waitForSSH :: "int \<Rightarrow> Process \<Rightarrow> nat \<Rightarrow> unit io" where
  "waitForSSH port process timeout =
     bindM PrivateKeyPath (\<lambda>keyPath.
     bindM time_Now (\<lambda>now.
     poll (now + timeout) 100 (probe keyPath port process) (failM (Msg ''SSH not ready''))))"

definition boot_mounts :: "string \<Rightarrow> Spec \<Rightarrow> Mount list" where
  "boot_mounts control spec =
     \<lparr>mt_Tag = ''devd'', mt_HostPath = control\<rparr> #
     (if sp_MountHost spec \<noteq> [] then [\<lparr>mt_Tag = ''workspace'', mt_HostPath = sp_MountHost spec\<rparr>] else [])"

definition boot_opts :: "Workspace \<Rightarrow> Spec \<Rightarrow> string list \<Rightarrow> string \<Rightarrow> StartOpts" where
  "boot_opts ws spec environment control =
     \<lparr>so_DiskPath = ws_DiskPath ws, so_CPUs = ws_CPUs ws, so_Memory = ws_Memory ws,
      so_Env = environment @ [''HOME=/root'', ''DEVD_NAME='' @ ws_Name ws, ''DEVD_SSH_PORT='' @ strconv_Itoa (ws_SSHPort ws)],
      so_Mounts = boot_mounts control spec, so_Command = ''/bin/sh'',
      so_Args = [''-c'', GuestBootstrap], so_Workdir = ''/'',
      so_LogFile = filepath_Join [ws_WorkspaceDir ws, ''vm.log''],
      so_KernelPath = sp_KernelPath spec, so_ProcessFile = processPath ws\<rparr>"

definition stored_plan :: "Workspace \<Rightarrow> Spec \<Rightarrow> workspacePlan" where
  "stored_plan ws spec =
     \<lparr>pl_Image = [], pl_ImageDigest = [], pl_ParentName = [], pl_Spec = spec, pl_CPUs = ws_CPUs ws,
      pl_Memory = ws_Memory ws, pl_Ports = [], pl_Mount = stored_mount spec\<rparr>"

definition prepareBoot :: "Workspace \<Rightarrow> StartOpts io" where
  "prepareBoot ws =
     bindM (Load (ws_WorkspaceDir ws)) (\<lambda>spec.
     bindM (resolvePlan (stored_plan ws spec)) (\<lambda>plan.
     bindM (liftM (imageEnvironment (sp_Environment (pl_Spec plan)))) (\<lambda>environment.
     bindM PublicKey (\<lambda>publicKey.
     thenM (Save (ws_WorkspaceDir ws) (pl_Spec plan))
     (bindM (PrepareControl (ws_WorkspaceDir ws) (pl_Spec plan) publicKey) (\<lambda>control.
      thenM (WriteGuestInit control)
      (returnM (boot_opts ws (pl_Spec plan) environment control))))))))"

section \<open>Starting\<close>

definition fail_start :: "Workspace \<Rightarrow> error \<Rightarrow> 'a io" where
  "fail_start ws cause =
     tryM (stopWorkspace ws)
       (\<lambda>_. failM (Wrap ''workspace failed to start'' (Joined [cause])))
       (\<lambda>stopErr. failM (Wrap ''workspace failed to start'' (Joined [cause, stopErr])))"

text \<open>\<^verbatim>\<open>startWorkspace\<close> after the launch, for the running process.\<close>

definition finish_start :: "Workspace \<Rightarrow> StartOpts \<Rightarrow> Process \<Rightarrow> nat \<Rightarrow> (Workspace \<times> nat) io" where
  "finish_start ws boot process bootStart =
     tryM (SetWorkspaceState (ws_Name ws) running (pr_PID process)) (\<lambda>_.
     tryM (waitForSSH (ws_SSHPort ws) process 30000) (\<lambda>_.
     tryM (CompleteBoot (ws_WorkspaceDir ws)) (\<lambda>_.
     tryM (SetActiveWorkspace (ws_Name ws)) (\<lambda>_.
       bindM time_Now (\<lambda>now. returnM (ws\<lparr>ws_IsActive := True\<rparr>, now - bootStart)))
     (\<lambda>e. fail_start ws (Wrap ''activate workspace'' e)))
     (fail_start ws))
     (\<lambda>e. tryM (Running process)
            (\<lambda>live. if so_KernelPath boot \<noteq> [] \<and> live
               then failM (Wrap ''workspace did not reach SSH; VM left running'' e) else fail_start ws e)
            (\<lambda>_. fail_start ws e)))
     (\<lambda>e. fail_start ws (Wrap ''record running state'' e))"

definition startWorkspace :: "Workspace \<Rightarrow> (Workspace \<times> nat) io" where
  "startWorkspace ws =
     (if ws_State ws = running then failM (Msg ''workspace is already running'')
      else if ws_DiskPath ws = [] then failM (Msg ''workspace has no ext4 disk path'')
      else
        bindM (LockDisk (ws_DiskPath ws)) (\<lambda>diskLock.
        deferM
          (bindM (prepareBoot ws) (\<lambda>boot.
           bindM (wrapM ''read declared ports'' (GetReservedPorts (ws_Name ws))) (\<lambda>reservedPorts.
           thenM (wrapM ''prepare workspace ports'' (ensureProxyDaemon reservedPorts))
           (thenM (ensurePortAvailable (ws_SSHPort ws))
           (bindM time_Now (\<lambda>bootStart.
            thenM (sys_close diskLock)
            (bindM (wrapM ''start VM'' (Start boot)) (\<lambda>process.
             finish_start (ws\<lparr>ws_PID := pr_PID process, ws_State := running\<rparr>) boot process bootStart))))))))
          (sys_close diskLock)))"

section \<open>The SSH configuration\<close>

definition updateSSHConfig :: "unit io" where
  "updateSSHConfig =
     bindM ListWorkspaces (\<lambda>rows. UpdateSSHConfig (map (\<lambda>ws. \<lparr>en_Name = ws_Name ws, en_Port = ws_SSHPort ws\<rparr>) rows))"

section \<open>Effects\<close>

text \<open>The commands that change workspace rows are given their own rules; here are the rules
  of everything else.\<close>

context ignores_host
begin

lemma m_queries: "maintains R (GetWorkspace n)" "maintains R (GetReservedPorts n)" "maintains R GetAllReservedPorts"
    "maintains R ListWorkspaces" "maintains R NextSSHPort" "maintains R NextRelayPort" "maintains R (WorkspaceExists n)"
    "maintains R GetActiveWorkspace" "maintains R GetContestedPorts" "maintains R (GetRunningWorkspacesForPort p)"
  unfolding GetWorkspace_def GetReservedPorts_def GetAllReservedPorts_def ListWorkspaces_def NextSSHPort_def
    NextRelayPort_def WorkspaceExists_def GetActiveWorkspace_def GetContestedPorts_def GetRunningWorkspacesForPort_def
  by (auto intro!: rules split: option.splits)

lemma m_observe: "maintains R (observe ws)"
  unfolding observe_def by (auto intro!: rules vm_rules split: option.splits)

lemma m_confirm_stopped: "maintains R (confirm_stopped ws)"
  unfolding confirm_stopped_def by (auto intro!: rules lock_rules m_LockDisk)

lemma m_ensurePortAvailable: "maintains R (ensurePortAvailable p)"
  unfolding ensurePortAvailable_def by (intro rules)

lemma m_first_available: "maintains R (first_available ps)"
  by (induction ps) (auto intro!: rules m_ensurePortAvailable)

lemma m_nextAvailableSSHPort: "maintains R nextAvailableSSHPort"
  unfolding nextAvailableSSHPort_def by (intro rules m_queries m_first_available)

lemma m_probe: "maintains R (probe k p q)"
  unfolding probe_def by (auto intro!: rules vm_rules file_rules)

lemma m_waitForSSH: "maintains R (waitForSSH p q t)"
  unfolding waitForSSH_def by (intro rules config_rules m_probe)

lemma m_writeFile: "maintains R (writeFile p d m)"
  unfolding writeFile_stages stage_file_def sync_dir_def by (intro rules file_rules lock_rules m_drop_temp)

lemma m_spec_files: "maintains R (Save d s)" "maintains R (MarkRegenerateIdentity d)" "maintains R (CompleteBoot d)"
  unfolding Save_def writeJSON_def MarkRegenerateIdentity_def CompleteBoot_def
  by (auto intro!: rules file_rules m_writeFile)

lemma m_Load: "maintains R (Load d)"
  unfolding Load_def by (auto intro!: rules)

lemma m_PrepareControl: "maintains R (PrepareControl d s k)"
  unfolding PrepareControl_def Let_def by (auto intro!: rules file_rules m_spec_files split: prod.splits)

lemma m_prepareBoot: "maintains R (prepareBoot ws)"
  unfolding prepareBoot_def
  by (intro rules option_rules m_Load m_spec_files m_PrepareControl ssh_rules m_WriteGuestInit)

lemma m_updateSSHConfig: "maintains R updateSSHConfig"
  unfolding updateSSHConfig_def by (intro rules m_queries ssh_rules)

lemmas lifecycle_rules = m_queries m_observe m_confirm_stopped m_ensurePortAvailable m_nextAvailableSSHPort m_waitForSSH
  m_writeFile m_spec_files m_Load m_PrepareControl m_prepareBoot m_updateSSHConfig

end

end
