(* ===== verification/Provision.thy ===== *)
theory Provision
  imports Lifecycle
begin

text \<open>
  \<^verbatim>\<open>internal/cli/provision.go\<close>: creating a workspace. Everything is staged in a private
  directory, moved into place by one rename and recorded in one transaction.
\<close>

definition checkNewWorkspace :: "string \<Rightarrow> unit io" where
  "checkNewWorkspace name =
     bindM (WorkspaceDir name) (\<lambda>path.
     bindM (wrapM ''check workspace name'' (WorkspaceExists name)) (\<lambda>exists.
     if exists then failM (Msg ''workspace already exists'')
     else tryM (os_Stat path)
       (\<lambda>_. failM (Msg ''workspace directory already exists without a record''))
       (\<lambda>e. if \<not> os_IsNotExist e then failM (Wrap ''check workspace directory'' e) else returnM ())))"

text \<open>The deferred cleanup of \<^verbatim>\<open>publishWorkspace\<close> removes the directory it owns at the time of an
  error: first the staging directory, after the rename the destination. A step that can fail
  is run as \<open>owning d m f\<close>; its error comes with the directory \<open>d\<close> to remove.\<close>

definition owning :: "string \<Rightarrow> 'a io \<Rightarrow> ('a \<Rightarrow> ((string \<times> error) + 'b) io) \<Rightarrow> ((string \<times> error) + 'b) io" where
  "owning d m f = tryM m f (\<lambda>e. returnM (Inl (d, e)))"

definition sync_publication :: "string \<Rightarrow> unit io" where
  "sync_publication parent =
     bindM (sys_open_read parent) (\<lambda>parentDir.
     tryM sys_noop
       (\<lambda>_. ignoreM (sys_close parentDir))
       (\<lambda>e. thenM (ignoreM (sys_close parentDir)) (failM (Wrap ''sync workspace publication'' e))))"

definition new_row :: "string \<Rightarrow> string \<Rightarrow> int \<Rightarrow> int \<Rightarrow> workspacePlan \<Rightarrow> Workspace" where
  "new_row name destination sshPort relayPort plan =
     \<lparr>ws_Name = name, ws_Image = pl_Image plan, ws_ImageDigest = pl_ImageDigest plan, ws_WorkspaceDir = destination,
      ws_DiskPath = filepath_Join [destination, ''rootfs.ext4''], ws_ParentName = pl_ParentName plan,
      ws_SSHPort = sshPort, ws_RelayPort = relayPort, ws_CPUs = pl_CPUs plan, ws_Memory = pl_Memory plan,
      ws_State = stopped, ws_IsActive = False, ws_PID = 0, ws_CreatedAt = 0\<rparr>"

text \<open>The metadata critical section, from the key pair to the record.\<close>

definition publish_record :: "string \<Rightarrow> string \<Rightarrow> string \<Rightarrow> workspacePlan \<Rightarrow> ((string \<times> error) + Workspace) io" where
  "publish_record parent stage name plan =
     owning stage EnsureKeypair (\<lambda>_.
     owning stage nextAvailableSSHPort (\<lambda>sshPort.
     owning stage NextRelayPort (\<lambda>relayPort.
     owning stage (checkNewWorkspace name) (\<lambda>_.
     let destination = filepath_Join [parent, name] in
     owning stage (wrapM ''publish workspace files'' (os_Rename stage destination)) (\<lambda>_.
     owning destination (sync_publication parent) (\<lambda>_.
     let ws = new_row name destination sshPort relayPort plan in
     owning destination (wrapM ''record workspace'' (CreateWorkspace ws (pl_Ports plan))) (\<lambda>_.
     thenM (ignoreM updateSSHConfig) (returnM (Inr ws)))))))))"

definition publish_stage :: "string \<Rightarrow> string \<Rightarrow> workspacePlan \<Rightarrow> unit io" where
  "publish_stage stage sourceDisk plan =
     thenM (CloneDisk sourceDisk (filepath_Join [stage, ''rootfs.ext4'']))
     (thenM (Save stage (pl_Spec plan))
     (if pl_ParentName plan \<noteq> [] then MarkRegenerateIdentity stage else returnM ()))"

definition publish_owned :: "string \<Rightarrow> string \<Rightarrow> string \<Rightarrow> string \<Rightarrow> workspacePlan \<Rightarrow> ((string \<times> error) + Workspace) io" where
  "publish_owned parent stage name sourceDisk plan =
     owning stage (publish_stage stage sourceDisk plan) (\<lambda>_.
     owning stage LockMetadata (\<lambda>lock.
     deferM (publish_record parent stage name plan) (sys_close lock)))"

definition clean_up :: "((string \<times> error) + Workspace) \<Rightarrow> Workspace io" where
  "clean_up r =
     (case r of
        Inl (ownedDir, e) \<Rightarrow> thenM (ignoreM (os_RemoveAll ownedDir)) (failM e)
      | Inr ws \<Rightarrow> returnM ws)"

definition publishWorkspace :: "string \<Rightarrow> string \<Rightarrow> workspacePlan \<Rightarrow> Workspace io" where
  "publishWorkspace name sourceDisk plan =
     thenM (checkNewWorkspace name)
     (thenM (liftM (imageEnvironment (sp_Environment (pl_Spec plan))))
     (bindM WorkspacesDir (\<lambda>parent.
      bindM (wrapM ''stage workspace'' (os_MkdirTemp parent (''.create-'' @ name @ ''-''))) (\<lambda>stage.
      bindM (publish_owned parent stage name sourceDisk plan) clean_up))))"

record provisionOptions =
  pv_Name :: string
  pv_Image :: string
  pv_CPUs :: int
  pv_Memory :: int
  pv_Ports :: "int list"
  pv_Mount :: string
  pv_UserCommand :: string
  pv_KernelPath :: string

definition provision_plan :: "provisionOptions \<Rightarrow> workspacePlan" where
  "provision_plan opts =
     \<lparr>pl_Image = [], pl_ImageDigest = [], pl_ParentName = [],
      pl_Spec = zero_Spec\<lparr>sp_UserCommand := pv_UserCommand opts, sp_KernelPath := pv_KernelPath opts\<rparr>,
      pl_CPUs = pv_CPUs opts, pl_Memory = pv_Memory opts, pl_Ports = pv_Ports opts, pl_Mount = pv_Mount opts\<rparr>"

definition with_template :: "Template \<Rightarrow> workspacePlan \<Rightarrow> workspacePlan" where
  "with_template t plan =
     plan\<lparr>pl_Image := im_Image (tp_Manifest t), pl_ImageDigest := im_Digest (tp_Manifest t),
          pl_Spec := (pl_Spec plan)\<lparr>sp_Environment := im_Environment (tp_Manifest t),
                                     sp_WorkingDir := im_WorkingDir (tp_Manifest t)\<rparr>\<rparr>"

definition provisionWorkspace :: "provisionOptions \<Rightarrow> Workspace io" where
  "provisionWorkspace opts =
     thenM (checkNewWorkspace (pv_Name opts))
     (bindM (resolvePlan (provision_plan opts)) (\<lambda>plan.
      thenM CheckRuntime
      (bindM (wrapM ''prepare image'' (EnsureTemplate (pv_Image opts))) (\<lambda>template.
       publishWorkspace (pv_Name opts) (tp_DiskPath template) (with_template template plan)))))"

section \<open>Effects\<close>

context ignores_host
begin

lemma m_checkNewWorkspace: "maintains R (checkNewWorkspace n)"
  unfolding checkNewWorkspace_def by (auto intro!: rules config_rules m_queries)

lemma m_owning: "maintains R m \<Longrightarrow> (\<And>x. maintains R (f x)) \<Longrightarrow> maintains R (owning d m f)"
  unfolding owning_def by (intro rules)

lemma m_sync_publication: "maintains R (sync_publication p)"
  unfolding sync_publication_def by (intro rules lock_rules)

lemma m_publish_stage: "maintains R (publish_stage s d p)"
  unfolding publish_stage_def by (auto intro!: rules storage_rules lifecycle_rules)

lemma m_clean_up: "maintains R (clean_up r)"
  unfolding clean_up_def by (auto intro!: rules file_rules split: sum.splits prod.splits)

lemma m_CheckRuntime: "maintains R CheckRuntime"
  unfolding CheckRuntime_def RuntimePath_def ImageHelperPath_def by (intro rules m_companionPath)

lemmas provision_rules = m_checkNewWorkspace m_owning m_sync_publication m_publish_stage m_clean_up m_CheckRuntime

end

end
