(* ===== verification/DevContainer.thy ===== *)
theory DevContainer
  imports Jsonc Json Config
begin

text \<open>
  \<^verbatim>\<open>internal/config/devcontainer.go\<close>: reading a project's \<^verbatim>\<open>devcontainer.json\<close>.
\<close>

record DevContainer =
  dc_Image :: string
  dc_ForwardPorts :: "int list"
  dc_PostCreateCommand :: string

definition zero_DevContainer :: DevContainer where
  "zero_DevContainer = \<lparr>dc_Image = [], dc_ForwardPorts = [], dc_PostCreateCommand = []\<rparr>"

definition DevContainer_fields :: "(string \<times> DevContainer setter) list" where
  "DevContainer_fields =
     [(''image'', set_string (\<lambda>v d. d\<lparr>dc_Image := v\<rparr>)),
      (''forwardPorts'', set_list int_elem (\<lambda>v d. d\<lparr>dc_ForwardPorts := v\<rparr>)),
      (''postCreateCommand'', set_string (\<lambda>v d. d\<lparr>dc_PostCreateCommand := v\<rparr>))]"

text \<open>The contents of the first candidate that exists.\<close>

fun read_first :: "string list \<Rightarrow> string option io" where
  "read_first [] = returnM None"
| "read_first (candidate # rest) =
     tryM (os_ReadFile candidate) (\<lambda>contents. returnM (Some contents))
       (\<lambda>e. if \<not> os_IsNotExist e then failM (Wrap (''read '' @ candidate) e) else read_first rest)"

definition parse_devcontainer :: "string \<Rightarrow> DevContainer result" where
  "parse_devcontainer data =
     json_Unmarshal DevContainer_fields (removeTrailingJSONCommas (removeJSONComments data)) zero_DevContainer"

definition LoadDevContainer :: "string \<Rightarrow> DevContainer option io" where
  "LoadDevContainer dir =
     bindM (read_first [filepath_Join [dir, ''.devcontainer'', ''devcontainer.json''], filepath_Join [dir, ''devcontainer.json'']])
       (\<lambda>contents.
        case contents of
          None \<Rightarrow> returnM None
        | Some data \<Rightarrow> bindM (wrapM ''parse'' (liftM (parse_devcontainer data))) (\<lambda>d. returnM (Some d)))"

context change
begin

lemma m_read_first: "maintains R (read_first cs)"
  by (induction cs) (auto intro!: rules)

lemma m_LoadDevContainer: "maintains R (LoadDevContainer d)"
  unfolding LoadDevContainer_def by (auto intro!: rules m_read_first split: option.splits)

end

end
