(* ===== verification/Names.thy ===== *)
theory Names
  imports Config JsonText
begin

text \<open>
  \<^verbatim>\<open>internal/cli/names.go\<close>: workspace names generated from an image reference. Go ranges over
  the runes of a string; the letter, digit and lower-case tables beyond ASCII are a parameter.
\<close>

section \<open>Runes\<close>

record unicode =
  u_letter :: "nat \<Rightarrow> bool"
  u_digit :: "nat \<Rightarrow> bool"
  u_lower :: "nat \<Rightarrow> nat"

definition ascii_letter :: "nat \<Rightarrow> bool" where
  "ascii_letter r = (65 \<le> r \<and> r \<le> 90 \<or> 97 \<le> r \<and> r \<le> 122)"

definition ascii_digit :: "nat \<Rightarrow> bool" where
  "ascii_digit r = (48 \<le> r \<and> r \<le> 57)"

definition unicode_IsLetter :: "unicode \<Rightarrow> nat \<Rightarrow> bool" where
  "unicode_IsLetter u r = (if r < 128 then ascii_letter r else u_letter u r)"

definition unicode_IsDigit :: "unicode \<Rightarrow> nat \<Rightarrow> bool" where
  "unicode_IsDigit u r = (if r < 128 then ascii_digit r else u_digit u r)"

definition unicode_ToLower :: "unicode \<Rightarrow> nat \<Rightarrow> nat" where
  "unicode_ToLower u r = (if r < 128 then if 65 \<le> r \<and> r \<le> 90 then r + 32 else r else u_lower u r)"

text \<open>The value of a well-formed sequence, and the runes of a string (an invalid byte is
  \<^verbatim>\<open>U+FFFD\<close>).\<close>

definition rune_value :: "string \<Rightarrow> nat" where
  "rune_value s =
     (case map byte s of
        [a] \<Rightarrow> a
      | [a, b] \<Rightarrow> (a mod 32) * 64 + b mod 64
      | [a, b, c] \<Rightarrow> (a mod 16) * 4096 + (b mod 64) * 64 + c mod 64
      | [a, b, c, d] \<Rightarrow> (a mod 8) * 262144 + (b mod 64) * 4096 + (c mod 64) * 64 + d mod 64
      | _ \<Rightarrow> 65533)"

function runes :: "string \<Rightarrow> nat list" where
  "runes s =
     (if s = [] then []
      else if utf8_len s = 0 then 65533 # runes (tl s)
      else rune_value (take (utf8_len s) s) # runes (drop (utf8_len s) s))"
  by pat_completeness auto
termination
  by (relation "measure length") auto

declare runes.simps [simp del]

definition strings_ToLower_runes :: "unicode \<Rightarrow> string \<Rightarrow> nat list" where
  "strings_ToLower_runes u s = map (unicode_ToLower u) (runes s)"

section \<open>Names\<close>

text \<open>The part of the reference that names the image.\<close>

definition name_seed :: "string \<Rightarrow> string" where
  "name_seed seed =
     (let seed = strings_TrimSuffix seed ''/'';
          seed = (case last_index_byte seed slash of Some i \<Rightarrow> drop (Suc i) seed | None \<Rightarrow> seed);
          seed = (case strings_Index seed ''@'' of Some i \<Rightarrow> take i seed | None \<Rightarrow> seed)
      in case last_index_byte seed CHR '':'' of Some i \<Rightarrow> take i seed | None \<Rightarrow> seed)"

fun name_loop :: "unicode \<Rightarrow> string \<Rightarrow> bool \<Rightarrow> nat list \<Rightarrow> string" where
  "name_loop u result previousDash [] = result"
| "name_loop u result previousDash (char # rest) =
     (if unicode_IsLetter u char \<or> unicode_IsDigit u char then name_loop u (result @ utf8_encode char) False rest
      else if \<not> previousDash \<and> result \<noteq> [] then name_loop u (result @ ''-'') True rest
      else name_loop u result previousDash rest)"

definition workspaceNameBase :: "unicode \<Rightarrow> string \<Rightarrow> string" where
  "workspaceNameBase u seed =
     (let base = strings_Trim (name_loop u [] False (strings_ToLower_runes u (name_seed seed))) ''-'';
          base = (if base = [] then ''workspace'' else base)
      in if length base > 40 then strings_TrimRight (take 40 base) ''-'' else base)"

text \<open>\<^verbatim>\<open>rand.Read\<close> of \<open>k\<close> bytes.\<close>

definition rand_Read :: "nat \<Rightarrow> string io" where
  "rand_Read k = syscall (\<lambda>n w. (Inr (take k (o_rand (orc w) n 0 @ replicate k CHR 0x00)), w))"

definition generatedWorkspaceName :: "unicode \<Rightarrow> string \<Rightarrow> string io" where
  "generatedWorkspaceName u seed =
     bindM (wrapM ''generate workspace name'' (rand_Read 3)) (\<lambda>random.
     returnM (workspaceNameBase u seed @ ''-'' @ hex_EncodeToString random))"

context change
begin

lemma m_generatedWorkspaceName: "maintains R (generatedWorkspaceName u s)"
  unfolding generatedWorkspaceName_def rand_Read_def by (intro rules m_syscall) (simp add: R_refl)

end

section \<open>Generated names are valid\<close>

definition ascii :: "string \<Rightarrow> bool" where
  "ascii s \<longleftrightarrow> list_all (\<lambda>c. byte c < 128) s"

lemma ascii_sub: "ascii s \<Longrightarrow> set t \<subseteq> set s \<Longrightarrow> ascii t"
  by (auto simp: ascii_def list_all_iff)

lemma ascii_name_seed: "ascii s \<Longrightarrow> ascii (name_seed s)"
proof (rule ascii_sub)
  have t: "set (strings_TrimSuffix s x) \<subseteq> set s" for s x :: string
    by (auto simp: strings_TrimSuffix_def dest: in_set_takeD)
  have d: "set (case o1 of Some i \<Rightarrow> drop (Suc i) s | None \<Rightarrow> s) \<subseteq> set s"
    "set (case o1 of Some i \<Rightarrow> take i s | None \<Rightarrow> s) \<subseteq> set s" for o1 :: "nat option" and s :: string
    by (auto split: option.splits dest: in_set_takeD in_set_dropD)
  show "set (name_seed s) \<subseteq> set s"
    unfolding name_seed_def Let_def using t d by (meson subset_trans)
qed

lemma runes_ascii: "ascii s \<Longrightarrow> runes s = map byte s"
  by (induction s)
    (simp_all add: ascii_def runes.simps[of "[]"] runes.simps[of "_ # _"] utf8_len_ascii rune_value_def)

text \<open>The alphabet of a name made from ASCII text.\<close>

definition base_char :: "char \<Rightarrow> bool" where
  "base_char c \<longleftrightarrow> 97 \<le> byte c \<and> byte c \<le> 122 \<or> 48 \<le> byte c \<and> byte c \<le> 57 \<or> c = CHR ''-''"

lemma name_loop_chars:
  "\<forall>r\<in>set rs. r < 128 \<and> \<not> (65 \<le> r \<and> r \<le> 90) \<Longrightarrow> list_all base_char result \<Longrightarrow> list_all base_char (name_loop u result d rs)"
proof (induction u result d rs rule: name_loop.induct)
  case (2 u result d r rest)
  have "list_all base_char (utf8_encode r)" if "unicode_IsLetter u r \<or> unicode_IsDigit u r"
    using that 2(4) by (auto simp: unicode_IsLetter_def unicode_IsDigit_def ascii_letter_def ascii_digit_def
        utf8_encode_def base_char_def)
  moreover have "list_all base_char ''-''" by (simp add: base_char_def)
  ultimately show ?case using 2 by auto
qed simp

lemma base_char_name: "base_char c \<Longrightarrow> name_char c" and base_char_first: "base_char c \<Longrightarrow> c \<noteq> CHR ''-'' \<Longrightarrow> name_first c"
  by (auto simp: base_char_def name_char_def name_first_def is_letter_def is_digit_def Let_def)

lemma hd_Trim: "strings_Trim s cs \<noteq> [] \<Longrightarrow> hd (strings_Trim s cs) \<notin> set cs"
proof -
  assume ne: "strings_Trim s cs \<noteq> []"
  let ?l = "strings_TrimLeft s cs"
  have "prefix (strings_Trim s cs) ?l" unfolding strings_Trim_def by (rule prefix_strings_TrimRight)
  then obtain z where z: "?l = strings_Trim s cs @ z" by (auto elim: prefixE)
  then have "hd ?l = hd (strings_Trim s cs)" "?l \<noteq> []" using ne by auto
  moreover have "hd ?l \<notin> set cs" using \<open>?l \<noteq> []\<close> hd_dropWhile[of "\<lambda>c. c \<in> set cs" s] by (simp add: strings_TrimLeft_def)
  ultimately show ?thesis by simp
qed

lemma workspaceNameBase_run:
  assumes "ascii seed"
  shows "workspaceNamePattern (workspaceNameBase u seed) \<and> length (workspaceNameBase u seed) \<le> 40 \<and>
    list_all base_char (workspaceNameBase u seed)"
proof -
  let ?rs = "strings_ToLower_runes u (name_seed seed)"
  have rs: "\<forall>r\<in>set ?rs. r < 128 \<and> \<not> (65 \<le> r \<and> r \<le> 90)"
    using ascii_name_seed[OF assms]
    by (auto simp: strings_ToLower_runes_def runes_ascii unicode_ToLower_def ascii_def list_all_iff)
  let ?t = "strings_Trim (name_loop u [] False ?rs) ''-''"
  define b where "b = (if ?t = [] then ''workspace'' else ?t)"
  have "list_all base_char ?t"
    using name_loop_chars[OF rs, of "[]" u False] set_strings_Trim by (fastforce simp: list_all_iff)
  then have bc: "list_all base_char b" by (auto simp: b_def base_char_def)
  have bne: "b \<noteq> []" "hd b \<noteq> CHR ''-''" using hd_Trim[of "name_loop u [] False ?rs" "''-''"] by (auto simp: b_def)
  have eq: "workspaceNameBase u seed = (if length b > 40 then strings_TrimRight (take 40 b) ''-'' else b)"
    by (simp add: workspaceNameBase_def b_def Let_def)
  let ?r = "strings_TrimRight (take 40 b) ''-''"
  have pre: "prefix ?r (take 40 b)" by (rule prefix_strings_TrimRight)
  have "hd b \<in> set (take 40 b)" using bne(1) by (cases b) auto
  then have rne: "?r \<noteq> []" using strings_TrimRight_nonempty[of "hd b" "take 40 b" "''-''"] bne(2) by auto
  have "prefix ?r b" using pre by (meson prefix_order.trans take_is_prefix)
  then obtain z where "b = ?r @ z" by (auto elim: prefixE)
  then have r: "hd ?r = hd b" "set ?r \<subseteq> set b" using rne by (metis hd_append2, metis set_append Un_upper1)
  have rl: "length ?r \<le> 40" using prefix_length_le[OF pre] by simp
  have "workspaceNamePattern s" if "s \<noteq> []" "hd s = hd b" "list_all base_char s" for s
    using that bne(2) base_char_name base_char_first by (cases s) (auto simp: list_all_iff)
  then have "workspaceNamePattern b" "workspaceNamePattern ?r"
    using bne(1) bc rne r by (auto simp: list_all_iff subset_iff)
  then show ?thesis using eq bc r(2) rl by (auto simp: list_all_iff split: if_splits)
qed

lemma hex_base_char: "list_all base_char (hex_EncodeToString s)"
proof -
  have "base_char (hex_digit d)" if "d < 16" for d
    using that by (auto simp: hex_digit_def base_char_def)
  moreover have "byte c div 16 < 16" for c :: char using nat_of_char_less_256[of c] by (simp add: less_mult_imp_div_less)
  ultimately show ?thesis by (auto simp: hex_EncodeToString_def list_all_iff)
qed

lemma length_hex: "length (hex_EncodeToString s) = 2 * length s"
  by (induction s) (auto simp: hex_EncodeToString_def)

text \<open>A name generated from an ASCII image reference is one that \<^verbatim>\<open>devd\<close> accepts: it matches
  the pattern of workspace names, ends with a hyphen and six hexadecimal digits, and has at most
  47 bytes.\<close>

theorem generatedWorkspaceName_valid:
  assumes "generatedWorkspaceName u seed w = (Ok name, w')" "ascii seed"
  shows "workspaceNamePattern name \<and> length name \<le> 47 \<and>
    (\<exists>random. length random = 3 \<and> name = workspaceNameBase u seed @ ''-'' @ hex_EncodeToString random)"
proof -
  obtain random w1 where rnd: "rand_Read 3 w = (Ok random, w1)"
    and r: "name = workspaceNameBase u seed @ ''-'' @ hex_EncodeToString random"
    using assms(1) unfolding generatedWorkspaceName_def by (auto elim!: bindM_OkE)
  have len: "length random = 3" using syscall_OkE[OF rnd[unfolded rand_Read_def]] by auto
  note base = workspaceNameBase_run[OF assms(2), of u]
  have h: "list_all name_char (hex_EncodeToString random)"
    using hex_base_char base_char_name by (auto simp: list_all_iff)
  have "length (hex_EncodeToString random) = 6" using len by (simp add: length_hex)
  moreover have "workspaceNamePattern name"
    using base h r by (cases "workspaceNameBase u seed") (auto simp: name_char_def)
  ultimately show ?thesis using base r len by auto
qed

definition latin :: unicode where
  "latin = \<lparr>u_letter = \<lambda>r. 192 \<le> r \<and> r \<le> 255, u_digit = \<lambda>_. False, u_lower = \<lambda>r. r\<rparr>"

theorem generatedWorkspaceName_valid_witness:
  "fst (generatedWorkspaceName latin ''library/Go:1'' blank) = Ok ''go-300000'' \<and> workspaceNamePattern ''go-300000''"
proof -
  have seed: "name_seed ''library/Go:1'' = ''Go''" by code_simp
  have asc: "ascii s \<longleftrightarrow> (\<forall>c\<in>set s. byte c < 128)" for s by (simp add: ascii_def list_all_iff)
  have "strings_ToLower_runes latin ''Go'' = [103, 111]"
    by (simp add: strings_ToLower_runes_def runes_ascii asc unicode_ToLower_def)
  then have "workspaceNameBase latin ''library/Go:1'' = ''go''"
    using utf8_encode_ascii[of "CHR ''g''"] utf8_encode_ascii[of "CHR ''o''"]
    by (simp add: workspaceNameBase_def seed unicode_IsLetter_def ascii_letter_def strings_Trim_def strings_TrimLeft_def
        strings_TrimRight_def)
  moreover have "fst (rand_Read 3 blank) = Ok [CHR ''0'', CHR 0x00, CHR 0x00]" by code_simp
  moreover have "hex_EncodeToString [CHR ''0'', CHR 0x00, CHR 0x00] = ''300000''" by code_simp
  ultimately have ok: "fst (generatedWorkspaceName latin ''library/Go:1'' blank) = Ok ''go-300000''"
    by (cases "rand_Read 3 blank") (auto simp: generatedWorkspaceName_def bindM_def wrapM_def tryM_def returnM_def)
  have "ascii ''library/Go:1''" by (simp add: asc)
  from generatedWorkspaceName_valid[OF run_pair[OF ok] this] show ?thesis using ok by simp
qed

section \<open>Letters beyond ASCII\<close>

text \<open>A byte that no trimming removes and no cut reaches.\<close>

definition kept_at :: "nat \<Rightarrow> char \<Rightarrow> string \<Rightarrow> bool" where
  "kept_at k x s \<longleftrightarrow> (\<exists>a z. s = a @ x # z \<and> length a \<le> k)"

lemma kept_at_TrimLeft:
  assumes "kept_at k x s" "x \<notin> set cs"
  shows "kept_at k x (strings_TrimLeft s cs)"
proof -
  obtain a z where a: "s = a @ x # z" "length a \<le> k" using assms(1) by (auto simp: kept_at_def)
  have "dropWhile (\<lambda>c. c \<in> set cs) (a @ x # z) = dropWhile (\<lambda>c. c \<in> set cs) a @ x # z"
    using assms(2) by (induction a) auto
  then show ?thesis
    using a length_dropWhile_le[of "\<lambda>c. c \<in> set cs" a] unfolding kept_at_def strings_TrimLeft_def by (metis order_trans)
qed

lemma kept_at_TrimRight:
  assumes "kept_at k x s" "x \<notin> set cs"
  shows "kept_at k x (strings_TrimRight s cs)"
proof -
  obtain a z where a: "s = a @ x # z" "length a \<le> k" using assms(1) by (auto simp: kept_at_def)
  have "dropWhile (\<lambda>c. c \<in> set cs) (rev z @ x # rev a) = dropWhile (\<lambda>c. c \<in> set cs) (rev z) @ x # rev a"
    using assms(2) by (induction "rev z") (auto simp: dropWhile_append)
  then show ?thesis using a unfolding kept_at_def strings_TrimRight_def by simp blast
qed

lemma kept_at_take: "kept_at k x s \<Longrightarrow> k < n \<Longrightarrow> kept_at k x (take n s)"
  by (fastforce simp: kept_at_def take_Cons')

lemma name_loop_extends: "\<exists>y. name_loop u result d rs = result @ y \<and> length y \<le> 4 * length rs"
proof (induction u result d rs rule: name_loop.induct)
  case (2 u result d c rest)
  have "length (utf8_encode c) \<le> 4" by (simp add: utf8_encode_def)
  with 2 show ?case by (auto simp: algebra_simps) (force+)?
qed simp

lemma name_loop_append: "\<exists>d'. name_loop u result d (xs @ ys) = name_loop u (name_loop u result d xs) d' ys"
  by (induction u result d xs rule: name_loop.induct) auto

lemma utf8_encode_beyond:
  assumes "128 \<le> r" "r < 1114112"
  shows "\<exists>x z. utf8_encode r = x # z \<and> 128 \<le> byte x"
proof -
  have "byte (char_of n) = n" if "n < 256" for n :: nat using that by simp
  then show ?thesis using assms by (auto simp: utf8_encode_def)
qed

lemma base_keeps_letter:
  assumes "strings_ToLower_runes u (name_seed seed) = xs @ r # ys" "length xs \<le> 9"
    and "128 \<le> r" "r < 1114112" "unicode_IsLetter u r \<or> unicode_IsDigit u r"
  shows "\<exists>x\<in>set (workspaceNameBase u seed). 128 \<le> byte x"
proof -
  obtain x z where x: "utf8_encode r = x # z" "128 \<le> byte x" using utf8_encode_beyond[OF assms(3,4)] by blast
  then have dash: "x \<notin> set ''-''" by auto
  let ?a = "name_loop u [] False xs"
  obtain d where d: "name_loop u [] False (xs @ r # ys) = name_loop u (?a @ utf8_encode r) d ys"
    using name_loop_append[of u "[]" False xs "r # ys"] assms(5) by auto
  obtain y where y: "name_loop u [] False (xs @ r # ys) = ?a @ utf8_encode r @ y"
    using name_loop_extends[of u "?a @ utf8_encode r" d ys] d by auto
  have "length ?a \<le> 36" using name_loop_extends[of u "[]" False xs] assms(2) by auto
  then have "kept_at 36 x (name_loop u [] False (xs @ r # ys))"
    unfolding kept_at_def y x(1) by (intro exI[of _ ?a] exI[of _ "z @ y"]) simp
  then have t: "kept_at 36 x (strings_Trim (name_loop u [] False (xs @ r # ys)) ''-'')" (is "kept_at _ _ ?t")
    unfolding strings_Trim_def by (intro kept_at_TrimRight kept_at_TrimLeft dash)
  then have "?t \<noteq> []" by (auto simp: kept_at_def)
  moreover have "kept_at 36 x (strings_TrimRight (take 40 ?t) ''-'')"
    by (intro kept_at_TrimRight kept_at_take t dash) simp
  ultimately have "kept_at 36 x (workspaceNameBase u seed)" using t by (simp add: workspaceNameBase_def assms(1) Let_def)
  then show ?thesis using x(2) by (auto simp: kept_at_def)
qed

text \<open>C39. Names generated from a reference beyond ASCII are refused. If one of the first ten characters of the image's own name (the last path component without
  digest and tag, in lower case) is a letter or digit beyond ASCII, then \<^verbatim>\<open>workspaceNameBase\<close> keeps it, and every name that
  \<^verbatim>\<open>generatedWorkspaceName\<close> returns is one that \<^verbatim>\<open>ValidateWorkspaceName\<close> rejects.\<close>

theorem generated_name_rejected:
  assumes "generatedWorkspaceName u seed w = (Ok name, w')"
    and "strings_ToLower_runes u (name_seed seed) = xs @ r # ys" "length xs \<le> 9"
    and "128 \<le> r" "r < 1114112" "unicode_IsLetter u r \<or> unicode_IsDigit u r"
  shows "\<exists>e. ValidateWorkspaceName name = Inl e"
proof -
  obtain x where x: "x \<in> set (workspaceNameBase u seed)" "128 \<le> byte x" using base_keeps_letter[OF assms(2-6)] by blast
  have "x \<in> set name" using assms(1) x(1) by (auto simp: generatedWorkspaceName_def elim!: bindM_OkE)
  moreover have "\<not> name_char x" using x(2) by (auto simp: name_char_def name_first_def is_letter_def is_digit_def)
  ultimately have "\<not> workspaceNamePattern name" using valid_name_chars by blast
  then show ?thesis by (simp add: ValidateWorkspaceName_def)
qed

theorem generated_name_rejected_witness:
  "\<exists>name e. fst (generatedWorkspaceName latin (''caf'' @ [CHR 0xC3, CHR 0xA9] @ '':1'') blank) = Ok name \<and> ValidateWorkspaceName name = Inl e"
proof -
  have "runes (''caf'' @ [CHR 0xC3, CHR 0xA9]) = [99, 97, 102, 233]"
    by (simp add: runes.simps utf8_len_def utf8_need_def utf8_tail_def utf8_second_def in_range_def rune_value_def)
  moreover have "name_seed (''caf'' @ [CHR 0xC3, CHR 0xA9] @ '':1'') = ''caf'' @ [CHR 0xC3, CHR 0xA9]" by code_simp
  ultimately have r: "strings_ToLower_runes latin (name_seed (''caf'' @ [CHR 0xC3, CHR 0xA9] @ '':1'')) = [99, 97, 102] @ 233 # []"
    by (simp add: strings_ToLower_runes_def unicode_ToLower_def latin_def)
  obtain name where name: "fst (generatedWorkspaceName latin (''caf'' @ [CHR 0xC3, CHR 0xA9] @ '':1'') blank) = Ok name"
    by (simp add: generatedWorkspaceName_def rand_Read_def bindM_def wrapM_def tryM_def returnM_def syscall_def syscall_part_def blank_def quiet_def)
  have "unicode_IsLetter latin 233 \<or> unicode_IsDigit latin 233" by (simp add: unicode_IsLetter_def latin_def)
  from generated_name_rejected[OF run_pair[OF name] r _ _ _ this] name show ?thesis by auto
qed

end
