(* ===== verification/Commands.thy ===== *)
theory Commands
  imports Provision DevContainer Names
begin

text \<open>
  The commands of \<^verbatim>\<open>internal/cli\<close>: \<^verbatim>\<open>run\<close>, \<^verbatim>\<open>fork\<close>, \<^verbatim>\<open>start\<close>, \<^verbatim>\<open>stop\<close>, \<^verbatim>\<open>rm\<close>, \<^verbatim>\<open>switch\<close>, \<^verbatim>\<open>ps\<close>, \<^verbatim>\<open>ssh\<close> and
  \<^verbatim>\<open>logs\<close>. Each takes its flags and arguments; what it prints is not modelled. The flag
  parser itself is cobra's.
\<close>

text \<open>\<^verbatim>\<open>workspace.Lock(names...); defer unlock()\<close> and \<^verbatim>\<open>db.Open(); defer database.Close()\<close>.\<close>

definition with_lock :: "string list \<Rightarrow> 'a io \<Rightarrow> 'a io" where
  "with_lock names body = bindM (Lock names) (\<lambda>held. deferM body (unlock held))"

definition with_db :: "'a io \<Rightarrow> 'a io" where
  "with_db body = thenM Open (deferM body sys_noop)"

section \<open>run and fork\<close>

record runFlags =
  rf_Name :: string
  rf_CPUs :: int
  rf_Memory :: int
  rf_Ports :: "int list"
  rf_PortsChanged :: bool
  rf_Mount :: string
  rf_MountChanged :: bool
  rf_NoMount :: bool
  rf_Cmd :: string
  rf_Kernel :: string

text \<open>Image and ports from the arguments, the flags and the project's \<^verbatim>\<open>devcontainer.json\<close>.\<close>

definition choose_image :: "string list \<Rightarrow> DevContainer option \<Rightarrow> string" where
  "choose_image args dc =
     (case args of
        a # _ \<Rightarrow> a
      | [] \<Rightarrow> (case dc of Some d \<Rightarrow> if dc_Image d \<noteq> [] then dc_Image d else DefaultImage | None \<Rightarrow> DefaultImage))"

definition choose_ports :: "runFlags \<Rightarrow> DevContainer option \<Rightarrow> int list" where
  "choose_ports flags dc =
     (case dc of
        Some d \<Rightarrow> if \<not> rf_PortsChanged flags \<and> dc_ForwardPorts d \<noteq> [] then dc_ForwardPorts d else rf_Ports flags
      | None \<Rightarrow> rf_Ports flags)"

definition run_options :: "runFlags \<Rightarrow> string list \<Rightarrow> DevContainer option \<Rightarrow> string \<Rightarrow> provisionOptions" where
  "run_options flags args dc name =
     \<lparr>pv_Name = name, pv_Image = choose_image args dc, pv_CPUs = rf_CPUs flags, pv_Memory = rf_Memory flags,
      pv_Ports = choose_ports flags dc,
      pv_Mount = (if \<not> rf_NoMount flags \<and> \<not> rf_MountChanged flags then ''.:/workspace'' else rf_Mount flags),
      pv_UserCommand = rf_Cmd flags, pv_KernelPath = rf_Kernel flags\<rparr>"

definition runRun :: "unicode \<Rightarrow> runFlags \<Rightarrow> string list \<Rightarrow> unit io" where
  "runRun u flags args =
     bindM (LoadDevContainer ''.'') (\<lambda>devContainer.
     if rf_NoMount flags \<and> rf_MountChanged flags then failM (Msg ''--mount and --no-mount cannot be used together'')
     else
       bindM (if rf_Name flags = [] then generatedWorkspaceName u (choose_image args devContainer)
              else returnM (rf_Name flags)) (\<lambda>name.
       with_lock [name]
         (thenM (wrapM ''open database'' Open)
         (deferM
           (bindM (provisionWorkspace (run_options flags args devContainer name)) (\<lambda>ws.
            thenM (startWorkspace ws) (returnM ())))
           sys_noop))))"

definition doFork :: "string \<Rightarrow> string \<Rightarrow> forkOverrides \<Rightarrow> Workspace io" where
  "doFork sourceName destinationName overrides =
     (if sourceName = destinationName then failM (Msg ''fork destination must differ from source'')
      else
        thenM RuntimePath
        (bindM (loadWorkspace sourceName) (\<lambda>source.
         if ws_State source = running then failM (Msg ''workspace is running; stop it before forking'')
         else
           bindM (LockDisk (ws_DiskPath source)) (\<lambda>diskLock.
           deferM
             (bindM (Load (ws_WorkspaceDir source)) (\<lambda>spec.
              bindM (GetReservedPorts sourceName) (\<lambda>ports.
              let plan = applyForkOverrides
                    \<lparr>pl_Image = ws_Image source, pl_ImageDigest = ws_ImageDigest source, pl_ParentName = [],
                     pl_Spec = spec, pl_CPUs = ws_CPUs source, pl_Memory = ws_Memory source, pl_Ports = ports,
                     pl_Mount = stored_mount spec\<rparr> overrides in
              bindM (resolvePlan (plan\<lparr>pl_ParentName := sourceName\<rparr>)) (\<lambda>plan.
              publishWorkspace destinationName (ws_DiskPath source) plan))))
             (sys_close diskLock)))))"

definition runFork :: "unicode \<Rightarrow> string \<Rightarrow> bool \<Rightarrow> forkOverrides \<Rightarrow> string \<Rightarrow> unit io" where
  "runFork u forkName noMount overrides source =
     (if noMount \<and> ov_MountChanged overrides then failM (Msg ''--mount and --no-mount cannot be used together'')
      else
        bindM (if forkName = [] then generatedWorkspaceName u source else returnM forkName) (\<lambda>name.
        with_lock [source, name]
          (with_db
            (bindM (doFork source name
               (overrides\<lparr>ov_Mount := (if noMount then [] else ov_Mount overrides),
                          ov_MountChanged := (ov_MountChanged overrides \<or> noMount)\<rparr>)) (\<lambda>ws.
             thenM (startWorkspace ws) (returnM ()))))))"

section \<open>start, stop and switch\<close>

definition runStart :: "string \<Rightarrow> unit io" where
  "runStart name = with_lock [name] (with_db (bindM (loadWorkspace name) (\<lambda>ws. thenM (startWorkspace ws) (returnM ()))))"

definition runStop :: "string \<Rightarrow> unit io" where
  "runStop name =
     with_lock [name] (with_db
       (bindM (loadWorkspace name) (\<lambda>ws.
        if ws_State ws \<noteq> running then returnM ()
        else thenM (wrapM ''stop VM'' (stopWorkspace ws)) (returnM ()))))"

definition runSwitch :: "string \<Rightarrow> unit io" where
  "runSwitch name =
     with_lock [name] (with_db
       (bindM (loadWorkspace name) (\<lambda>ws.
        if ws_State ws \<noteq> running then failM (Msg ''workspace is not running'')
        else
          bindM GetActiveWorkspace (\<lambda>current.
          if (case current of Some c \<Rightarrow> ws_Name c = name | None \<Rightarrow> False) then returnM ()
          else thenM (wrapM ''set active'' (SetActiveWorkspace name)) (ignoreM GetContestedPorts)))))"

section \<open>rm\<close>

text \<open>The part under the metadata lock.\<close>

definition remove_record :: "Workspace \<Rightarrow> unit io" where
  "remove_record ws =
     thenM (wrapM ''delete workspace metadata'' (DeleteWorkspace (ws_Name ws)))
     (thenM (wrapM ''workspace metadata removed; remove remaining files'' (os_RemoveAll (ws_WorkspaceDir ws)))
     (thenM (ignoreM updateSSHConfig)
     (tryM GetAllReservedPorts
       (\<lambda>ports. if ports = [] then ignoreM shutdownProxyDaemon else returnM ())
       (\<lambda>_. returnM ()))))"

definition remove_stopped :: "Workspace \<Rightarrow> unit io" where
  "remove_stopped ws =
     (let locked = (\<lambda>close. deferM (bindM LockMetadata (\<lambda>lock. deferM (remove_record ws) (sys_close lock))) close) in
      tryM (LockDisk (ws_DiskPath ws))
        (\<lambda>diskLock. locked (sys_close diskLock))
        (\<lambda>e. if errors_Is e ENOENT then locked (returnM ()) else failM e))"

definition removeWorkspace :: "Workspace \<Rightarrow> bool \<Rightarrow> unit io" where
  "removeWorkspace ws force =
     (if ws_State ws = running then
        if \<not> force then failM (Msg ''workspace is running; use -f to force remove'')
        else bindM (stopWorkspace ws) remove_stopped
      else remove_stopped ws)"

definition runRm :: "bool \<Rightarrow> string \<Rightarrow> unit io" where
  "runRm force name = with_lock [name] (with_db (bindM (loadWorkspace name) (\<lambda>ws. removeWorkspace ws force)))"

section \<open>ps, ssh and logs\<close>

definition ps_entry :: "Workspace \<Rightarrow> Workspace io" where
  "ps_entry ws =
     tryM (Lock [ws_Name ws])
       (\<lambda>held. tryM (loadWorkspace (ws_Name ws))
          (\<lambda>current. thenM (unlock held) (returnM current))
          (\<lambda>_. thenM (unlock held) (returnM ws)))
       (\<lambda>_. returnM ws)"

fun ps_entries :: "Workspace list \<Rightarrow> Workspace list io" where
  "ps_entries [] = returnM []"
| "ps_entries (ws # rest) = bindM (ps_entry ws) (\<lambda>x. bindM (ps_entries rest) (\<lambda>xs. returnM (x # xs)))"

text \<open>A duration in milliseconds, as \<^verbatim>\<open>ps\<close> prints it.\<close>

definition formatAge :: "int \<Rightarrow> string" where
  "formatAge d =
     (if d < 0 then strconv_Itoa (- (- d div 1000)) @ ''s ago''
      else if d < 60000 then strconv_Itoa (d div 1000) @ ''s ago''
      else if d < 3600000 then strconv_Itoa (d div 60000) @ ''m ago''
      else if d < 86400000 then strconv_Itoa (d div 3600000) @ ''h ago''
      else strconv_Itoa (d div 86400000) @ ''d ago'')"

definition ps_row :: "int \<Rightarrow> Workspace \<Rightarrow> string list" where
  "ps_row now ws =
     [ws_Name ws, ws_Image ws, ws_State ws, strconv_Itoa (ws_SSHPort ws), strconv_Itoa (ws_CPUs ws),
      strconv_Itoa (ws_Memory ws) @ '' MB'', if ws_IsActive ws then ''*'' else [], formatAge (now - ws_CreatedAt ws)]"

text \<open>The rows of the table that \<^verbatim>\<open>ps\<close> prints.\<close>

definition runPs :: "bool \<Rightarrow> string list list io" where
  "runPs showAll =
     with_db
       (bindM ListWorkspaces (\<lambda>workspaces.
        bindM (ps_entries workspaces) (\<lambda>workspaces.
        bindM time_Now (\<lambda>now.
        returnM (map (ps_row (int now)) (filter (\<lambda>ws. showAll \<or> ws_State ws \<noteq> stopped) workspaces))))))"

fun remote_args :: "string list \<Rightarrow> string list" where
  "remote_args [] = []"
| "remote_args (a # as) = (if a = ''--'' then as else a # remote_args as)"

definition ssh_args :: "string \<Rightarrow> int \<Rightarrow> string list \<Rightarrow> string list" where
  "ssh_args keyPath port remoteArgs =
     [''ssh'', ''-o'', ''StrictHostKeyChecking=no'', ''-o'', ''UserKnownHostsFile=/dev/null'', ''-o'', ''LogLevel=ERROR'',
      ''-i'', keyPath, ''-p'', strconv_Itoa port, ''root@127.0.0.1''] @ remoteArgs"

definition runSSH :: "string \<Rightarrow> string list \<Rightarrow> unit io" where
  "runSSH name args =
     with_db
       (bindM (Lock [name]) (\<lambda>held.
        bindM (tryM (loadWorkspace name)
                 (\<lambda>ws. thenM (unlock held) (returnM ws))
                 (\<lambda>e. thenM (unlock held) (failM e))) (\<lambda>ws.
        if ws_State ws \<noteq> running then failM (Msg ''workspace is stopped'')
        else
          bindM PrivateKeyPath (\<lambda>keyPath.
          thenM (sys_exec (ssh_args keyPath (ws_SSHPort ws) (remote_args args))) (returnM ())))))"

text \<open>\<^verbatim>\<open>logs\<close> returns what it prints.\<close>

definition runLogs :: "bool \<Rightarrow> string \<Rightarrow> string io" where
  "runLogs follow name =
     bindM (WorkspaceDir name) (\<lambda>wsDir.
     let logFile = filepath_Join [wsDir, ''vm.log''];
         show_log = (if follow then sys_exec [''tail'', ''-f'', logFile]
           else bindM (wrapM ''open log file'' (sys_open_read logFile)) (\<lambda>f. deferM (os_ReadFile logFile) (sys_close f))) in
     tryM (os_Stat logFile) (\<lambda>_. show_log)
       (\<lambda>e. if os_IsNotExist e then failM (Msg ''no logs found for workspace'') else show_log))"

section \<open>Rules for every command\<close>

text \<open>A relation that the five updates of the database keep is kept by every command.\<close>

locale keeps_rows = ignores_host +
  assumes m_Open: "maintains R Open"
    and m_CreateWorkspace: "fresh_row ws \<Longrightarrow> maintains R (CreateWorkspace ws ports)"
    and m_DeleteWorkspace: "maintains R (DeleteWorkspace n)"
    and m_SetActiveWorkspace: "maintains R (SetActiveWorkspace n)"
    and m_SetWorkspaceState: "s = running \<or> s = stopped \<and> pid = 0 \<Longrightarrow> maintains R (SetWorkspaceState n s pid)"
begin

lemma m_unlock: "maintains R (unlock held)"
  unfolding unlock_def by (intro rules lock_rules)

lemma m_lock_names: "maintains R (lock_names dir held names)"
  by (induction names arbitrary: held) (auto intro!: rules lock_rules m_open_create m_unlock)

lemma m_Lock: "maintains R (Lock names)"
  unfolding Lock_def Let_def by (intro rules file_rules config_rules m_lock_names)

lemma m_with_lock: "maintains R m \<Longrightarrow> maintains R (with_lock ns m)"
  unfolding with_lock_def by (intro rules m_Lock m_unlock)

lemma m_with_db: "maintains R m \<Longrightarrow> maintains R (with_db m)"
  unfolding with_db_def by (intro rules m_Open)

lemma observe_state:
  assumes "observe ws w = (Ok (s, pid), w')"
  shows "s = running \<or> s = stopped \<and> pid = 0"
  using assms unfolding observe_def by (auto elim!: bindM_OkE split: option.splits if_splits)

lemma m_loadWorkspace: "maintains R (loadWorkspace n)"
  unfolding loadWorkspace_def
proof (rule m_bind, rule m_queries, rule m_bind_ok, rule m_observe)
  fix ws w x w'
  assume run: "observe ws w = (Ok x, w')"
  obtain s pid where x: "x = (s, pid)" by fastforce
  have st: "maintains R (SetWorkspaceState n s pid)" using observe_state[OF run[unfolded x]] by (rule m_SetWorkspaceState)
  show "maintains R (case x of (state, pid) \<Rightarrow>
      thenM (if state = stopped \<and> ws_DiskPath ws \<noteq> [] then confirm_stopped ws else returnM ())
     (thenM (if ws_State ws \<noteq> state \<or> ws_PID ws \<noteq> pid \<or> state = stopped \<and> ws_IsActive ws
             then wrapM ''reconcile workspace state'' (SetWorkspaceState n state pid) else returnM ())
     (returnM (ws\<lparr>ws_State := state, ws_PID := pid, ws_IsActive := (state \<noteq> stopped \<and> ws_IsActive ws)\<rparr>))))"
    unfolding x prod.case by (intro rules) (simp_all add: st m_confirm_stopped m_return m_wrap)
qed

lemma m_stopWorkspace: "maintains R (stopWorkspace ws)"
  unfolding stopWorkspace_def
  by (auto intro!: rules vm_rules config_rules m_SetWorkspaceState split: option.splits)

lemma m_fail_start: "maintains R (fail_start ws e)"
  unfolding fail_start_def by (intro rules m_stopWorkspace)

lemma m_finish_start: "maintains R (finish_start ws b p t)"
  unfolding finish_start_def
  by (auto intro!: rules vm_rules m_fail_start m_SetWorkspaceState m_SetActiveWorkspace m_spec_files m_waitForSSH)

lemma m_startWorkspace: "maintains R (startWorkspace ws)"
  unfolding startWorkspace_def
  by (auto intro!: rules vm_rules lock_rules m_LockDisk m_prepareBoot m_queries daemon_rules m_ensurePortAvailable m_finish_start)

lemma m_publish_record: "maintains R (publish_record p s n plan)"
  unfolding publish_record_def Let_def
  by (intro rules m_owning ssh_rules m_nextAvailableSSHPort m_queries m_checkNewWorkspace m_sync_publication
      file_rules m_updateSSHConfig m_CreateWorkspace) (simp add: fresh_row_def new_row_def)

lemma m_publishWorkspace: "maintains R (publishWorkspace n d p)"
  unfolding publishWorkspace_def publish_owned_def
  by (intro rules m_owning m_checkNewWorkspace config_rules file_rules m_publish_stage m_LockMetadata m_publish_record
      lock_rules m_clean_up)

lemma m_provisionWorkspace: "maintains R (provisionWorkspace o1)"
  unfolding provisionWorkspace_def
  by (intro rules m_checkNewWorkspace option_rules m_CheckRuntime storage_rules m_publishWorkspace)

lemma m_runRun: "maintains R (runRun u f a)"
  unfolding runRun_def
  by (auto intro!: rules m_with_lock m_LoadDevContainer m_generatedWorkspaceName m_Open m_provisionWorkspace m_startWorkspace)

lemma m_doFork: "maintains R (doFork s d ov)"
  unfolding doFork_def RuntimePath_def Let_def
  by (auto intro!: rules m_companionPath m_loadWorkspace m_LockDisk m_Load m_queries option_rules m_publishWorkspace lock_rules)

lemma m_runFork: "maintains R (runFork u n b ov s)"
  unfolding runFork_def
  by (auto intro!: rules m_with_lock m_with_db m_generatedWorkspaceName m_doFork m_startWorkspace)

lemma m_runStart: "maintains R (runStart n)" and m_runStop: "maintains R (runStop n)"
  unfolding runStart_def runStop_def
  by (auto intro!: rules m_with_lock m_with_db m_loadWorkspace m_startWorkspace m_stopWorkspace)

lemma m_runSwitch: "maintains R (runSwitch n)"
  unfolding runSwitch_def
  by (auto intro!: rules m_with_lock m_with_db m_loadWorkspace m_queries m_SetActiveWorkspace)

lemma m_remove_stopped: "maintains R (remove_stopped ws)"
  unfolding remove_stopped_def remove_record_def Let_def
  by (auto intro!: rules m_LockDisk lock_rules m_LockMetadata m_DeleteWorkspace file_rules m_updateSSHConfig m_queries daemon_rules)

lemma m_runRm: "maintains R (runRm f n)"
  unfolding runRm_def removeWorkspace_def
  by (auto intro!: rules m_with_lock m_with_db m_loadWorkspace m_stopWorkspace m_remove_stopped)

lemma m_ps_entries: "maintains R (ps_entries ws)"
  unfolding ps_entry_def
  by (induction ws) (auto simp: ps_entry_def intro!: rules m_Lock m_loadWorkspace m_unlock)

lemma m_runPs: "maintains R (runPs b)"
  unfolding runPs_def by (intro rules m_with_db m_queries m_ps_entries)

lemma m_runSSH: "maintains R (runSSH n a)"
  unfolding runSSH_def by (auto intro!: rules m_with_db m_Lock m_loadWorkspace m_unlock config_rules file_rules)

lemma m_runLogs: "maintains R (runLogs b n)"
  unfolding runLogs_def Let_def by (auto intro!: rules config_rules file_rules lock_rules)

lemmas command_rules = m_runRun m_runFork m_runStart m_runStop m_runSwitch m_runRm m_runPs m_runSSH m_runLogs

end

interpretation rows: keeps_rows keeps_inv
  by unfold_locales (simp_all add: inv_Open inv_CreateWorkspace inv_DeleteWorkspace inv_SetActiveWorkspace inv_SetWorkspaceState)

end
