(* ===== verification/LifecycleLaws.thy ===== *)
theory LifecycleLaws
  imports Commands
begin

text \<open>
  What starting and stopping promise: a stop is recorded only when the exact process of the
  receipt is gone, a boot that was prepared is one the launcher accepts, waiting for SSH ends
  and does not give up early.
\<close>

section \<open>A process that is gone stays gone\<close>

text \<open>The birth identity of a process is not given to another one later.\<close>

definition alive_in :: "Process \<Rightarrow> proc_table \<Rightarrow> bool" where
  "alive_in p t = (case map_of t (pr_PID p) of None \<Rightarrow> False | Some q \<Rightarrow> p_ident q = pr_StartTime p)"

definition no_rebirth :: "Process \<Rightarrow> environ \<Rightarrow> bool" where
  "no_rebirth p e \<longleftrightarrow> (\<forall>n t. alive_in p (o_evolve e n t) \<longrightarrow> alive_in p t)"

lemma alive_alt: "alive p w = alive_in p (procs w)"
  by (simp add: alive_def alive_in_def)

definition departs :: "Process \<Rightarrow> world \<Rightarrow> world \<Rightarrow> bool" where
  "departs p w w' \<longleftrightarrow> same_env w w' \<and> (no_rebirth p (orc w) \<longrightarrow> alive p w' \<longrightarrow> alive p w)"

interpretation dep: ignores_db "departs p" for p
proof
  fix u v w
  show "departs p u v \<Longrightarrow> departs p v w \<Longrightarrow> departs p u w" by (auto simp: departs_def same_env_def)
  show "departs p w (tick w)"
    using same_env_tick(1)[of w] by (auto simp: departs_def alive_alt no_rebirth_def tick_def)
qed (auto simp: departs_def same_env_def alive_def)

text \<open>The system reports a file as missing only when it is missing.\<close>

definition truthful :: "environ \<Rightarrow> bool" where
  "truthful e \<longleftrightarrow> (\<forall>n k. o_fault e n \<noteq> Fail ENOENT k)"

lemma ReadFile_present:
  assumes "os_ReadFile p w = (Err e, w')" "fs w p = Some (Reg i m c)" "truthful (orc w)"
  shows "\<not> os_IsNotExist e"
  using assms by (auto simp: os_ReadFile_def syscall_def syscall_part_def Let_def truthful_def split: fault.splits)

section \<open>Stopping\<close>

text \<open>A receipt of \<open>p\<close> at a path, as \<^verbatim>\<open>writeProcess\<close> leaves it.\<close>

definition receipt :: "Process \<Rightarrow> string \<Rightarrow> world \<Rightarrow> bool" where
  "receipt p path w \<longleftrightarrow> Process_ok p \<and> 0 < pr_PID p \<and> pr_StartTime p \<noteq> [] \<and>
     (\<exists>i m. fs w path = Some (Reg i m (Process_text p)))"

lemma ReadProcess_receipt:
  assumes "ReadProcess path w = (Ok x, w')" "receipt p path w" "truthful (orc w)"
  shows "x = Some p"
proof -
  obtain i m where f: "fs w path = Some (Reg i m (Process_text p))" and p: "Process_ok p" "0 < pr_PID p" "pr_StartTime p \<noteq> []"
    using assms(2) by (auto simp: receipt_def)
  have dec: "json_Unmarshal Process_fields (Process_text p) zero_Process = Inr p"
    using process_codec.dec_enc[OF p(1)] .
  from assms(1)[unfolded ReadProcess_def] show ?thesis
  proof (cases rule: tryM_cases)
    case (ok data w1)
    have "data = Process_text p"
      using syscall_OkE[OF ok(1)[unfolded os_ReadFile_def]] f by simp
    then show ?thesis using ok(2) dec p by (auto simp: bindM_def wrapM_def tryM_def liftM_def returnM_def)
  next
    case (err e w1)
    then show ?thesis using ReadFile_present[OF err(1) f assms(3)] by simp
  qed simp
qed

lemma SetWorkspaceState_run:
  assumes "SetWorkspaceState n s pid w = (r, w')" "tx w = None"
  shows "tx w' = None \<and> fs w' = fs w \<and> (db w' = db w \<or> db w' = sql_set_state n s pid (db w)) \<and>
    (r = Ok () \<longrightarrow> db w' = sql_set_state n s pid (db w))"
  using atomicD[OF atomic_exec assms(2) assms(1)[unfolded SetWorkspaceState_def]]
  by (auto split: outcome.splits)

lemma departs_SetWorkspaceState: "maintains (departs p) (SetWorkspaceState n s pid)"
  unfolding SetWorkspaceState_def by (rule dep.m_sql_exec)

text \<open>\<^verbatim>\<open>stopWorkspace\<close> up to the record.\<close>

definition stop_process :: "Workspace \<Rightarrow> unit io" where
  "stop_process ws =
     bindM (ReadProcess (processPath ws)) (\<lambda>process.
     bindM (case process of None \<Rightarrow> IsRunning (ws_PID ws) | Some p \<Rightarrow> returnM False) (\<lambda>unverified.
     if unverified then failM (Msg ''cannot stop unverified VM PID'')
     else case process of
            None \<Rightarrow> returnM ()
          | Some p \<Rightarrow> bindM PrivateKeyPath (\<lambda>keyPath.
              wrapM ''stop VM'' (Stop \<lparr>st_Process = p, st_SSHPort = ws_SSHPort ws, st_KeyPath = keyPath, st_Graceful = 0\<rparr>))))"

lemma stopWorkspace_parts:
  "stopWorkspace ws = thenM (stop_process ws)
     (thenM (wrapM ''record stopped state'' (SetWorkspaceState (ws_Name ws) stopped 0))
       (returnM (ws\<lparr>ws_State := stopped, ws_PID := 0, ws_IsActive := False\<rparr>)))"
proof -
  have if_bind: "bindM (if b then m else m') f = (if b then bindM m f else bindM m' f)" for b and m m' :: "unit io" and f
    by simp
  have fail: "bindM (failM e) f = failM e" for e and f :: "unit \<Rightarrow> Workspace io"
    by (auto simp: fun_eq_iff bindM_def failM_def)
  show ?thesis
    unfolding stopWorkspace_def stop_process_def thenM_def bindM_assoc if_bind fail ..
qed

lemma stop_process_Ok:
  assumes "stop_process ws w = (Ok (), w')" "receipt p (processPath ws) w" "truthful (orc w)"
  shows "\<not> alive p w'"
  using assms unfolding stop_process_def
  by (auto elim!: bindM_OkE dest!: ReadProcess_receipt Stop_Ok split: option.splits if_splits)

lemma stop_process_frame: "maintains same_db (stop_process ws)" "maintains same_env (stop_process ws)"
  "maintains (intact D) (stop_process ws)"
  unfolding stop_process_def
  by (auto intro!: nodb.rules nodb.vm_rules nodb.config_rules env.rules env.vm_rules env.config_rules keep_rules
      split: option.splits)

lemma stopWorkspace_run:
  assumes "stopWorkspace ws w = (r, w')" "tx w = None"
  shows "(db w' = db w \<and> (\<forall>x. r \<noteq> Ok x)) \<or>
    db w' = sql_set_state (ws_Name ws) stopped 0 (db w) \<and>
    (receipt p (processPath ws) w \<and> truthful (orc w) \<and> no_rebirth p (orc w) \<longrightarrow> \<not> alive p w')"
  using assms(1)[unfolded stopWorkspace_parts]
proof (cases rule: thenM_cases)
  case (go u w1)
  have w1: "db w1 = db w" "tx w1 = None" "orc w1 = orc w"
    using maintainsD[OF stop_process_frame(1) go(1)] maintainsD[OF stop_process_frame(2) go(1)] assms(2)
    by (auto simp: same_db_def same_env_def)
  obtain r2 w2 where set: "SetWorkspaceState (ws_Name ws) stopped 0 w1 = (r2, w2)" by fastforce
  have w': "w' = w2" "(\<exists>x. r = Ok x) \<Longrightarrow> r2 = Ok ()"
    using go(2) set by (auto simp: thenM_def bindM_def wrapM_def tryM_def returnM_def failM_def split: outcome.splits)
  have "departs p w1 w2" using maintainsD[OF departs_SetWorkspaceState set] .
  then have "\<not> alive p w2" if "receipt p (processPath ws) w" "truthful (orc w)" "no_rebirth p (orc w)"
    using stop_process_Ok[OF go(1)[unfolded unit_eq[of u]]] that w1(3) by (auto simp: departs_def)
  then show ?thesis using SetWorkspaceState_run[OF set w1(2)] w1 w' by auto
qed (use maintainsD[OF stop_process_frame(1)] in \<open>auto simp: same_db_def\<close>)

text \<open>C3. A workspace is recorded as stopped only after its process is gone. Whatever happens in
  \<^verbatim>\<open>stopWorkspace\<close> (a failed signal, a timeout, a crash at any point), either the database
  is unchanged and the call did not succeed, or the row is set to stopped and the process of
  the launch receipt, identified by number and birth identity, is no longer running.\<close>

theorem stop_recorded_after_exit:
  assumes "stopWorkspace ws w = (r, w')" "tx w = None" "receipt p (processPath ws) w"
    and "truthful (orc w)" "no_rebirth p (orc w)"
  shows "(db w' = db w \<and> (\<forall>x. r \<noteq> Ok x)) \<or> (db w' = sql_set_state (ws_Name ws) stopped 0 (db w) \<and> \<not> alive p w')"
  using stopWorkspace_run[OF assms(1,2)] assms(3-5) by blast

definition vm7 :: Process where "vm7 = \<lparr>pr_PID = 7, pr_StartTime = ''42''\<rparr>"

text \<open>The workspace \<^verbatim>\<open>a\<close> runs as process 7, which exits during the stop.\<close>

definition stop_demo :: world where
  "stop_demo = demo\<lparr>orc := quiet\<lparr>o_evolve := \<lambda>n t. if 6 \<le> n then [] else t\<rparr>,
     procs := [(7, \<lparr>p_ident = ''42'', p_holds = []\<rparr>)],
     fs := (fs blank)(''/d/workspaces/a/process.json'' \<mapsto> Reg 5 384 (Process_text vm7))\<rparr>"

theorem stop_recorded_after_exit_witness:
  "alive vm7 stop_demo \<and> receipt vm7 (processPath (row ''a'' 0 running True)) stop_demo \<and>
   fst (stopWorkspace (row ''a'' 0 running True) stop_demo) = Ok (row ''a'' 0 stopped False) \<and>
   db (snd (stopWorkspace (row ''a'' 0 running True) stop_demo)) = sql_set_state ''a'' stopped 0 (db stop_demo) \<and>
   \<not> alive vm7 (snd (stopWorkspace (row ''a'' 0 running True) stop_demo))"
proof -
  have "filepath_Join [''/d/workspaces/a'', ''process.json''] = ''/d/workspaces/a/process.json''" by code_simp
  then have path: "processPath (row ''a'' 0 running True) = ''/d/workspaces/a/process.json''"
    by (simp add: processPath_def row_def)
  have rc: "receipt vm7 (processPath (row ''a'' 0 running True)) stop_demo"
    unfolding path by (simp add: receipt_def stop_demo_def vm7_def Process_ok_def valid_ascii)
  have e: "tx stop_demo = None" "truthful (orc stop_demo)" "no_rebirth vm7 (orc stop_demo)"
    by (simp_all add: stop_demo_def demo_def blank_def truthful_def quiet_def no_rebirth_def alive_in_def)
  have ok: "fst (stopWorkspace (row ''a'' 0 running True) stop_demo) = Ok (row ''a'' 0 stopped False)" by code_simp
  have "alive vm7 stop_demo" by (simp add: alive_def stop_demo_def vm7_def)
  moreover have "ws_Name (row ''a'' 0 running True) = ''a''" by (simp add: row_def)
  ultimately show ?thesis
    using stop_recorded_after_exit[OF run_pair[OF ok] e(1) rc e(2,3)] rc ok by auto
qed

section \<open>Waiting\<close>

text \<open>How many system calls a command makes at most.\<close>

definition calls :: "nat \<Rightarrow> 'a io \<Rightarrow> bool" where
  "calls k m \<longleftrightarrow> (\<forall>w. steps (snd (m w)) \<le> steps w + k)"

lemma calls_pure: "calls 0 (returnM x)" "calls 0 (failM e)" "calls 0 (askM f)" "calls 0 (liftM r)" "calls 0 time_Now"
  by (auto simp: calls_def returnM_def failM_def askM_def liftM_def time_Now_def split: sum.splits)

lemma calls_mono: "calls k m \<Longrightarrow> k \<le> l \<Longrightarrow> calls l m"
  by (auto simp: calls_def intro: order_trans)

lemma calls_try:
  assumes "calls a m" "\<And>x. calls b (f x)" "\<And>e. calls b (h e)"
  shows "calls (a + b) (tryM m f h)"
proof -
  have "steps (snd (tryM m f h w)) \<le> steps w + (a + b)" for w
  proof -
    obtain r w1 where m: "m w = (r, w1)" by fastforce
    have "steps w1 \<le> steps w + a" using assms(1) m unfolding calls_def by (metis snd_conv)
    moreover have "steps (snd (f x w1)) \<le> steps w1 + b" "steps (snd (h e w1)) \<le> steps w1 + b" for x e
      using assms(2,3) by (auto simp: calls_def)
    note le = this calculation
    have "steps (snd (f x w1)) \<le> steps w + (a + b)" "steps (snd (h e w1)) \<le> steps w + (a + b)"
        "steps w1 \<le> steps w + (a + b)" for x e
      using le(1)[of x] le(2)[of e] le(3) by linarith+
    then show ?thesis using m by (cases r) (auto simp: tryM_def)
  qed
  then show ?thesis by (simp add: calls_def)
qed

lemma calls_bind:
  fixes f :: "'a \<Rightarrow> 'b io"
  shows "calls a m \<Longrightarrow> (\<And>x. calls b (f x)) \<Longrightarrow> calls (a + b) (bindM m f)"
proof -
  assume m: "calls a m" and f: "\<And>x. calls b (f x)"
  have "bindM m f = tryM m f failM" by (auto simp: fun_eq_iff bindM_def tryM_def failM_def split: prod.splits outcome.splits)
  moreover have "calls b (failM e :: 'b io)" for e using calls_mono[OF calls_pure(2)] by simp
  ultimately show ?thesis using calls_try[OF m f] by simp
qed

lemma calls_wrap: "calls a m \<Longrightarrow> calls a (wrapM s m)"
  by (simp add: calls_def)

lemma calls_syscall_part:
  assumes "\<And>n w. steps (snd (f n w)) = steps w" "\<And>n k w. steps (part n k w) = steps w"
  shows "calls 1 (syscall_part part f)"
proof -
  have "steps (snd (syscall_part part f w)) \<le> Suc (steps w)" for w
    using assms(1)[of "steps w" "tick w"]
    by (auto simp: syscall_part_def Let_def assms(2) split: fault.splits prod.splits sum.splits)
  then show ?thesis by (simp add: calls_def)
qed

lemma calls_syscall: "(\<And>n w. steps (snd (f n w)) = steps w) \<Longrightarrow> calls 1 (syscall f)"
  unfolding syscall_def by (rule calls_syscall_part) simp_all

lemma rounds_decrease:
  fixes d c c' i :: nat
  assumes "0 < i" "c < d" "c + i \<le> c'"
  shows "Suc ((d - c' + i - 1) div i) \<le> (d - c + i - 1) div i"
proof (cases "d \<le> c'")
  case True
  have "(d - c' + i - 1) div i = 0" using True assms(1) by simp
  moreover have "1 \<le> (d - c + i - 1) div i"
    using assms div_le_mono[of i "d - c + i - 1" i] by simp
  ultimately show ?thesis by simp
next
  case False
  have "d - c' + i - 1 + i \<le> d - c + i - 1" using False assms by simp
  then have "(d - c' + i - 1 + i) div i \<le> (d - c + i - 1) div i" by (rule div_le_mono)
  moreover have "(x + i) div i = Suc (x div i)" for x :: nat using assms(1) by (simp add: div_add_self2)
  ultimately show ?thesis by (simp only:)
qed

lemma calls_poll:
  assumes "calls k body" "calls j late" "0 < interval"
  shows "steps (snd (poll deadline interval body late w)) \<le>
    steps w + k * ((deadline - clock w + interval - 1) div interval) + j"
  using assms
proof (induction deadline interval body late w rule: poll.induct)
  case (1 deadline interval body late w)
  let ?n = "\<lambda>w. (deadline - clock w + interval - 1) div interval"
  show ?case
  proof (cases "clock w < deadline")
    case False
    have "steps (snd (late w)) \<le> steps w + j" using 1(3) by (simp add: calls_def)
    then show ?thesis using False by (simp add: poll.simps[of deadline interval body late w])
  next
    case True
    obtain r w1 where run: "body w = (r, w1)" by fastforce
    have b: "steps w1 \<le> steps w + k" using 1(2) run unfolding calls_def by (metis snd_conv)
    let ?v = "pause interval w w1"
    have v: "steps ?v = steps w1" "clock w + interval \<le> clock ?v" by (auto simp: pause_def)
    have n: "Suc (?n ?v) \<le> ?n w" using rounds_decrease[OF 1(4) True v(2)] .
    then have kn: "k + k * ?n ?v \<le> k * ?n w" using mult_le_mono2[OF n, of k] by simp
    show ?thesis
    proof (cases "r = Ok None")
      case none: True
      have "steps (snd (poll deadline interval body late ?v)) \<le> steps ?v + k * ?n ?v + j"
        using 1(1)[OF _ run[symmetric]] True none 1(2-4) by simp
      then show ?thesis
        using b v(1) kn True run none by (simp add: poll.simps[of deadline interval body late w])
    next
      case False
      have "k \<le> k * ?n w" using kn by (rule le_trans[OF le_add1])
      then have "steps w1 \<le> steps w + k * ?n w + j" using b by linarith
      then show ?thesis
        using True run False by (cases r) (auto simp: poll.simps[of deadline interval body late w] split: option.splits)
    qed
  qed
qed

lemma calls_probe: "calls 2 (probe k p q)"
proof -
  have r: "calls 1 (Running q)"
  proof (cases "pr_PID q \<le> 0 \<or> pr_StartTime q = []")
    case True
    then show ?thesis using calls_mono[OF calls_pure(2)] by (simp add: Running_def)
  next
    case False
    have "calls (1 + 0) (bindM (processIdentity (pr_PID q)) (\<lambda>identity. returnM (identity \<noteq> [] \<and> identity = pr_StartTime q)))"
      unfolding processIdentity_def sys_identity_def by (intro calls_bind calls_wrap calls_syscall calls_pure) simp
    then show ?thesis using False by (simp add: Running_def)
  qed
  have x: "calls 1 (sys_exec args)" for args
    unfolding sys_exec_def by (rule calls_syscall_part) (simp_all add: split_beta)
  have "calls (1 + 0) (tryM (sys_exec (ssh_probe_args k p)) (\<lambda>_. returnM (Some ())) (\<lambda>_. returnM None))"
    by (intro calls_try x calls_pure)
  then have "calls 1 (if \<not> live then failM e
      else tryM (sys_exec (ssh_probe_args k p)) (\<lambda>_. returnM (Some ())) (\<lambda>_. returnM None))" for live e
    using calls_mono[OF calls_pure(2), of 1] by auto
  then have "calls (1 + 1) (probe k p q)" unfolding probe_def by (intro calls_bind r)
  then show ?thesis by (simp only: one_add_one)
qed

lemma calls_MkdirAll: "calls 1 (os_MkdirAll d m)"
  unfolding calls_def
  by (auto simp: os_MkdirAll_def syscall_part_def Let_def split: fault.splits sum.splits)

lemma calls_PrivateKeyPath: "calls 2 PrivateKeyPath"
proof -
  have "calls (0 + (0 + (1 + 0))) DevdDir"
    unfolding DevdDir_def os_Getenv_def os_UserHomeDir_def thenM_def
    by (intro calls_bind calls_pure calls_MkdirAll)
      (auto intro!: calls_pure calls_bind[of 0 _ 0, simplified])
  then have "calls (1 + (1 + 0) + 0) PrivateKeyPath"
    unfolding PrivateKeyPath_def SSHDir_def Let_def thenM_def
    by (intro calls_bind calls_pure calls_MkdirAll) simp
  then show ?thesis by (simp add: numeral_2_eq_2)
qed

text \<open>C26. Waiting for SSH terminates: with a timeout of \<open>t\<close> milliseconds it probes at most
  \<open>\<lceil>t/100\<rceil>\<close> times, two system calls each, whatever the clock, the process and the probes do;
  within the 30 seconds of \<^verbatim>\<open>startWorkspace\<close> that is at most 300 probes.\<close>

theorem waitForSSH_terminates:
  "steps (snd (waitForSSH port process t w)) \<le> steps w + 2 + 2 * ((t + 99) div 100) \<and>
   steps (snd (waitForSSH port process 30000 w)) \<le> steps w + 2 + 2 * 300"
proof -
  have b: "steps (snd (waitForSSH port process t w)) \<le> steps w + 2 + 2 * ((t + 99) div 100)" for t
  proof -
    obtain r w1 where key: "PrivateKeyPath w = (r, w1)" by fastforce
    have w1: "steps w1 \<le> steps w + 2" using calls_PrivateKeyPath key unfolding calls_def by (metis snd_conv)
    have "steps (snd (poll (clock w1 + t) 100 (probe k port process) (failM e) w1)) \<le> steps w1 + 2 * ((t + 99) div 100)" for k e
      using calls_poll[OF calls_probe calls_pure(2), of 100 "clock w1 + t" k port process e w1] by (simp add: add.commute)
    then have "steps (snd (poll (clock w1 + t) 100 (probe k port process) (failM e) w1)) \<le> steps w + 2 + 2 * ((t + 99) div 100)" for k e
      using w1 by (meson add_le_mono1 le_trans)
    then show ?thesis using key w1
      by (cases r) (auto simp: waitForSSH_def bindM_def time_Now_def)
  qed
  have "(30000 + 99) div 100 = (300 :: nat)" by simp
  then show ?thesis using b[of t] b[of 30000] by (simp only: simp_thms)
qed

section \<open>Booting\<close>

lemma prepareBoot_Ok:
  assumes "prepareBoot ws w = (Ok boot, w')" "ws_DiskPath ws \<noteq> []"
  shows "\<exists>args. startArgs boot = Inr args \<and> length (so_Env boot) \<le> 64 \<and> length (so_Mounts boot) \<le> 2 \<and>
    so_DiskPath boot = ws_DiskPath ws \<and> so_ProcessFile boot = processPath ws"
proof -
  obtain spec w1 plan w2 environment control where
    plan: "resolvePlan (stored_plan ws spec) w1 = (Ok plan, w2)"
    and en: "imageEnvironment (sp_Environment (pl_Spec plan)) = Inr environment"
    and boot: "boot = boot_opts ws (pl_Spec plan) environment control"
    using assms(1) unfolding prepareBoot_def by (auto elim!: bindM_OkE thenM_OkE)
  have "1 \<le> ws_CPUs ws \<and> ws_CPUs ws \<le> 255 \<and> 1 \<le> ws_Memory ws \<and> ws_Memory ws \<le> 4294967295"
    using plan by (rule resolvePlan_Ok) (simp add: stored_plan_def)
  moreover have "length environment \<le> 61" using en by (auto simp: imageEnvironment_def split: sum.splits if_splits)
  moreover have "processPath ws \<noteq> []"
    by (simp add: processPath_def filepath_Join.simps filepath_Clean_def Let_def)
  ultimately show ?thesis
    using assms(2) unfolding boot by (simp add: startArgs_def boot_opts_def boot_mounts_def Let_def)
qed

text \<open>C28. A boot that \<^verbatim>\<open>prepareBoot\<close> has accepted is never refused by the launcher: whenever
  preparing a workspace that has a disk succeeds, the companion's limits on CPUs, memory,
  environment entries and mounts hold, and \<^verbatim>\<open>startArgs\<close> renders a command line for it.\<close>

theorem prepared_boot_launches:
  "case prepareBoot ws w of
     (Ok boot, w') \<Rightarrow> ws_DiskPath ws = [] \<or>
       (\<exists>args. startArgs boot = Inr args \<and> length (so_Env boot) \<le> 64 \<and> length (so_Mounts boot) \<le> 2 \<and>
          so_DiskPath boot = ws_DiskPath ws \<and> so_ProcessFile boot = processPath ws)
   | _ \<Rightarrow> True"
proof -
  have "\<exists>args. startArgs boot = Inr args \<and> length (so_Env boot) \<le> 64 \<and> length (so_Mounts boot) \<le> 2 \<and>
      so_DiskPath boot = ws_DiskPath ws \<and> so_ProcessFile boot = processPath ws"
    if "prepareBoot ws w = (Ok boot, w')" "ws_DiskPath ws \<noteq> []" for boot w'
    using prepareBoot_Ok[OF that] .
  then show ?thesis by (auto split: prod.splits outcome.splits)
qed

end
