(* ===== verification/CommandLaws.thy ===== *)
theory CommandLaws
  imports LifecycleLaws StorageLaws
begin

text \<open>
  What whole commands promise: every sequence of commands keeps the database consistent,
  removing a workspace never destroys files of a workspace that stays recorded, and a new
  workspace is recorded only when its files are in place.
\<close>

section \<open>Sequences of commands\<close>

datatype command =
    Run runFlags "string list"
  | Fork string bool forkOverrides string
  | StartCmd string
  | StopCmd string
  | Switch string
  | Rm bool string
  | Ps bool
  | SSH string "string list"
  | Logs bool string

fun run_command :: "unicode \<Rightarrow> command \<Rightarrow> unit io" where
  "run_command u (Run flags args) = runRun u flags args"
| "run_command u (Fork name noMount overrides source) = runFork u name noMount overrides source"
| "run_command u (StartCmd name) = runStart name"
| "run_command u (StopCmd name) = runStop name"
| "run_command u (Switch name) = runSwitch name"
| "run_command u (Rm force name) = runRm force name"
| "run_command u (Ps showAll) = thenM (runPs showAll) (returnM ())"
| "run_command u (SSH name args) = runSSH name args"
| "run_command u (Logs follow name) = thenM (runLogs follow name) (returnM ())"

text \<open>The states of an installation: it begins with a database nobody has opened; a command
  runs to its end, fails, or dies at some system call; between two commands anything may
  happen to the host except to the database file.\<close>

inductive installation :: "unicode \<Rightarrow> world \<Rightarrow> bool" for u where
  fresh: "tx w = None \<Longrightarrow> db w = \<lparr>t_workspaces = [], t_reserved = []\<rparr> \<Longrightarrow> installation u w"
| command: "installation u w \<Longrightarrow> run_command u c w = (r, w') \<Longrightarrow> installation u w'"
| elsewhere: "installation u w \<Longrightarrow> db w' = db w \<Longrightarrow> tx w' = None \<Longrightarrow> installation u w'"

lemma inv_run_command: "maintains keeps_inv (run_command u c)"
  by (cases c) (auto intro!: rows.command_rules inv.rules)

text \<open>C1. No sequence of commands, each one completed, failed or killed at any system call, and
  with any activity of the host in between, leaves the database inconsistent or a transaction open: names and
  ports stay unique, every declared port belongs to a workspace, at most one workspace is
  active, an active workspace is running, and a stopped one has no process.\<close>

theorem installation_invariant:
  assumes "installation u w"
  shows "tx w = None \<and> schema_ok (db w) \<and> routing_ok (db w)"
proof -
  have "tx w = None \<and> db_inv (db w)"
    using assms
  proof induction
    case (fresh w)
    then show ?case by (simp add: db_inv_def schema_ok_def routing_ok_def names_of_def)
  next
    case (command w c r w')
    then show ?case using maintainsD[OF inv_run_command command(2)] by (simp add: keeps_inv_def)
  qed simp
  then show ?thesis by (simp add: db_inv_def)
qed

text \<open>A new installation after two commands, of which the second one was killed.\<close>

definition killed :: "nat \<Rightarrow> world \<Rightarrow> world" where
  "killed k w = w\<lparr>orc := (orc w)\<lparr>o_fault := \<lambda>n. if n = k then Die 0 else Proceed\<rparr>\<rparr>"

theorem installation_invariant_witness:
  "let w1 = snd (run_command latin (StopCmd ''a'') blank);
       w2 = snd (run_command latin (Rm True ''a'') (killed 9 w1)) in
   tx w2 = None \<and> schema_ok (db w2) \<and> routing_ok (db w2)"
proof -
  have "installation latin blank" by (rule installation.fresh) (simp_all add: blank_def)
  then have w1: "installation latin (snd (run_command latin (StopCmd ''a'') blank))"
    by (rule installation.command) (rule surjective_pairing)
  then have "installation latin (killed 9 (snd (run_command latin (StopCmd ''a'') blank)))"
    by (rule installation.elsewhere) (use installation_invariant[OF w1] in \<open>simp_all add: killed_def\<close>)
  then show ?thesis
    unfolding Let_def
    by (rule installation_invariant[of latin, OF installation.command[OF _ surjective_pairing]])
qed

section \<open>Removing\<close>

text \<open>As long as a name is recorded, the files in \<open>D\<close> are left alone.\<close>

definition kept :: "string \<Rightarrow> (string \<Rightarrow> bool) \<Rightarrow> world \<Rightarrow> world \<Rightarrow> bool" where
  "kept n D w w' \<longleftrightarrow> tx w = None \<longrightarrow>
     tx w' = None \<and> (n \<in> set (names_of (db w')) \<longrightarrow> n \<in> set (names_of (db w)) \<and> intact D w w')"

lemma kept_same_db: "same_db w w' \<Longrightarrow> intact D w w' \<Longrightarrow> kept n D w w'"
  by (auto simp: kept_def same_db_def)

interpretation kpt: change "kept n D" for n D
proof
  fix u v w
  show "kept n D u v \<Longrightarrow> kept n D v w \<Longrightarrow> kept n D u w"
    using keep.R_trans[of D u v w] by (auto simp: kept_def)
qed (auto simp: kept_def keep.R_refl keep.R_tick keep.R_die keep.R_sleep)

lemma maintains_then:
  assumes "maintains R m" "\<And>w x w1 r w'. m w = (Ok x, w1) \<Longrightarrow> k w1 = (r, w') \<Longrightarrow> R w w'"
  shows "maintains R (thenM m k)"
proof (rule maintainsI)
  fix w
  obtain r w' where run: "thenM m k w = (r, w')" by fastforce
  then have "R w w'" by (cases rule: thenM_cases) (use maintainsD[OF assms(1)] assms(2) in blast)+
  then show "R w (snd (thenM m k w))" using run by simp
qed

lemma kept_quiet:
  assumes "maintains same_db m" "maintains (intact D) m"
  shows "maintains (kept n D) m"
  using assms by (auto simp: maintains_def intro!: kept_same_db)

lemma kept_db_only:
  assumes "atomic f m" "maintains (intact D) m" "\<And>now t t'. f now t = Inr t' \<Longrightarrow> n \<in> set (names_of t') \<Longrightarrow> n \<in> set (names_of t)"
  shows "maintains (kept n D) m"
proof (rule maintainsI)
  fix w
  obtain r w' where run: "m w = (r, w')" by fastforce
  show "kept n D w (snd (m w))"
    using atomicD[OF assms(1) _ run] assms(3) maintainsD[OF assms(2) run] run
    by (auto simp: kept_def split: outcome.splits)
qed

lemma kept_stopWorkspace: "maintains (kept n D) (stopWorkspace ws)"
  unfolding stopWorkspace_parts SetWorkspaceState_def
  by (intro kpt.rules kept_quiet[OF stop_process_frame(1,3)] kept_db_only[OF atomic_exec] keepd.m_sql_exec)
    (auto simp: sql_set_state_def)

text \<open>What \<^verbatim>\<open>remove_record\<close> does once the row is deleted.\<close>

definition remove_files :: "Workspace \<Rightarrow> unit io" where
  "remove_files ws =
     thenM (wrapM ''workspace metadata removed; remove remaining files'' (os_RemoveAll (ws_WorkspaceDir ws)))
     (thenM (ignoreM updateSSHConfig)
     (tryM GetAllReservedPorts
       (\<lambda>ports. if ports = [] then ignoreM shutdownProxyDaemon else returnM ())
       (\<lambda>_. returnM ())))"

lemma remove_record_parts:
  "remove_record ws = thenM (wrapM ''delete workspace metadata'' (DeleteWorkspace (ws_Name ws))) (remove_files ws)"
  by (simp add: remove_record_def remove_files_def)

lemma nodb_remove_files: "maintains same_db (remove_files ws)"
  unfolding remove_files_def
  by (auto intro!: nodb.rules nodb.file_rules nodb.m_updateSSHConfig nodb.m_queries nodb.daemon_rules)

lemma delete_Ok: "DeleteWorkspace n w = (Ok u, w') \<Longrightarrow> tx w = None \<Longrightarrow> tx w' = None \<and> n \<notin> set (names_of (db w'))"
  by (drule atomicD[OF DeleteWorkspace_atomic, rotated])
    (auto simp: delete_rows_def names_of_def sql_delete_workspace_def sql_delete_reserved_def dest!: sym[of _ "db w'"])

lemma kept_DeleteWorkspace: "maintains (kept n D) (DeleteWorkspace n)"
proof (rule kept_db_only[OF DeleteWorkspace_atomic])
  show "maintains (intact D) (DeleteWorkspace n)"
    unfolding DeleteWorkspace_def transactional_def by (intro keep_rules)
qed (auto simp: delete_rows_def names_of_def sql_delete_workspace_def sql_delete_reserved_def)

lemma kept_remove_record: "maintains (kept (ws_Name ws) D) (remove_record ws)"
  unfolding remove_record_parts
proof (rule maintains_then)
  fix w w1 r w' and u :: unit
  assume "wrapM ''delete workspace metadata'' (DeleteWorkspace (ws_Name ws)) w = (Ok u, w1)" "remove_files ws w1 = (r, w')"
  then show "kept (ws_Name ws) D w w'"
    using delete_Ok[of "ws_Name ws" w u w1] maintainsD[OF nodb_remove_files] by (auto simp: kept_def same_db_def)
qed (intro kpt.rules kept_DeleteWorkspace)

lemma kept_locks:
  "maintains (kept n D) (LockDisk p)" "maintains (kept n D) LockMetadata" "maintains (kept n D) (sys_close fd)"
  by (intro kept_quiet nodb.m_LockDisk nodb.m_LockMetadata nodb.lock_rules keep_rules)+

lemma stopWorkspace_name: "stopWorkspace ws w = (Ok x, w') \<Longrightarrow> ws_Name x = ws_Name ws"
  unfolding stopWorkspace_parts by (auto elim!: thenM_OkE)

lemma kept_removeWorkspace: "maintains (kept (ws_Name ws) D) (removeWorkspace ws force)"
proof -
  have rm: "maintains (kept (ws_Name ws) D) (remove_stopped ws)" for ws
    unfolding remove_stopped_def Let_def by (auto intro!: kpt.rules kept_locks kept_remove_record)
  then have "maintains (kept (ws_Name ws) D) (bindM (stopWorkspace ws) remove_stopped)"
    by (metis kpt.m_bind_ok kept_stopWorkspace stopWorkspace_name)
  then show ?thesis
    unfolding removeWorkspace_def using rm by (auto intro!: kpt.rules)
qed

text \<open>A command after whose success a name is not recorded.\<close>

definition erases :: "string \<Rightarrow> 'a io \<Rightarrow> bool" where
  "erases n m \<longleftrightarrow> (\<forall>w x w'. m w = (Ok x, w') \<longrightarrow> tx w = None \<longrightarrow> n \<notin> set (names_of (db w')))"

lemma erases_fail: "erases n (failM e)"
  by (simp add: erases_def)

lemma erases_defer: "erases n m \<Longrightarrow> maintains same_db c \<Longrightarrow> erases n (deferM m c)"
  unfolding erases_def by (fastforce elim!: deferM_OkE simp: maintains_def same_db_def)

lemma erases_bind:
  assumes "maintains (kept n D) m" "\<And>w x w'. m w = (Ok x, w') \<Longrightarrow> erases n (f x)"
  shows "erases n (bindM m f)"
  using maintainsD[OF assms(1)] assms(2) unfolding erases_def by (auto elim!: bindM_OkE simp: kept_def)

lemma erases_try:
  assumes "maintains (kept n D) m" "\<And>x. erases n (f x)" "\<And>e. erases n (h e)"
  shows "erases n (tryM m f h)"
  using maintainsD[OF assms(1)] assms(2,3) unfolding erases_def by (auto elim!: tryM_OkE simp: kept_def)

lemma erases_removeWorkspace: "erases (ws_Name ws) (removeWorkspace ws force)"
proof -
  have "erases (ws_Name v) (remove_record v)" for v
    unfolding erases_def remove_record_parts
    using delete_Ok maintainsD[OF nodb_remove_files] by (fastforce elim!: thenM_OkE simp: same_db_def)
  then have rm: "erases (ws_Name v) (remove_stopped v)" for v
    unfolding remove_stopped_def Let_def
    by (auto intro!: erases_try erases_defer erases_bind erases_fail kept_locks nodb.rules nodb.lock_rules)
  show ?thesis
    unfolding removeWorkspace_def using rm
    by (auto intro!: erases_bind erases_fail kept_stopWorkspace dest!: stopWorkspace_name) metis
qed

text \<open>C8. Removing a workspace deletes its record before its files. However \<^verbatim>\<open>removeWorkspace\<close> ends
  (success, a failed stop, a busy disk, a database error, a crash at any point), a workspace that is
  still recorded afterwards still has every file of its directory, unchanged; and success means that it
  is not recorded any more. The external programs (ssh) are assumed not to touch the
  directory.\<close>

theorem remove_record_before_files:
  assumes "removeWorkspace ws force w = (r, w')" "tx w = None" "spares (beneath (ws_WorkspaceDir ws)) (orc w)"
  shows "(ws_Name ws \<in> set (names_of (db w')) \<longrightarrow> r \<noteq> Ok () \<and> ws_Name ws \<in> set (names_of (db w)) \<and>
     (\<forall>p x. beneath (ws_WorkspaceDir ws) p \<longrightarrow> fs w p = Some x \<longrightarrow> fs w' p = Some x))"
proof -
  have "kept (ws_Name ws) (beneath (ws_WorkspaceDir ws)) w w'"
    using maintainsD[OF kept_removeWorkspace assms(1)] .
  moreover have "ws_Name ws \<notin> set (names_of (db w'))" if "r = Ok ()"
    using erases_removeWorkspace assms(1,2) that by (auto simp: erases_def)
  ultimately show ?thesis using assms(2,3) intactD by (auto simp: kept_def)
qed

text \<open>A stopped workspace with a disk, on a host where the second statement of the deletion
  fails.\<close>

definition rm_demo :: "fault \<Rightarrow> world" where
  "rm_demo f = demo\<lparr>orc := quiet\<lparr>o_fault := \<lambda>n. if n = 8 then f else Proceed\<rparr>,
     fs := (fs blank)(''/d/workspaces/a/rootfs.ext4'' \<mapsto> Reg 5 384 ''data'')\<rparr>"

theorem remove_record_before_files_witness:
  "fst (removeWorkspace (row ''a'' 0 stopped False) False (rm_demo Proceed)) = Ok () \<and>
   fst (removeWorkspace (row ''a'' 0 stopped False) False (rm_demo (Fail EIO 0))) \<noteq> Ok () \<and>
   ''a'' \<in> set (names_of (db (snd (removeWorkspace (row ''a'' 0 stopped False) False (rm_demo (Fail EIO 0)))))) \<and>
   fs (snd (removeWorkspace (row ''a'' 0 stopped False) False (rm_demo (Fail EIO 0)))) ''/d/workspaces/a/rootfs.ext4''
     = Some (Reg 5 384 ''data'')"
proof -
  let ?ws = "row ''a'' 0 stopped False" and ?w = "rm_demo (Fail EIO 0)"
  have ok: "fst (removeWorkspace ?ws False (rm_demo Proceed)) = Ok ()" by code_simp
  have rec: "''a'' \<in> set (names_of (db (snd (removeWorkspace ?ws False ?w))))" by code_simp
  have e: "tx ?w = None" "spares (beneath (ws_WorkspaceDir ?ws)) (orc ?w)"
    by (simp_all add: rm_demo_def demo_def blank_def quiet_def spares_def)
  have p: "beneath (ws_WorkspaceDir ?ws) ''/d/workspaces/a/rootfs.ext4''" "ws_Name ?ws = ''a''"
    "fs ?w ''/d/workspaces/a/rootfs.ext4'' = Some (Reg 5 384 ''data'')"
    by (simp_all add: beneath_def row_def rm_demo_def prefix_def)
  show ?thesis
    using remove_record_before_files[OF surjective_pairing e] p rec ok by auto
qed

end
