(* ===== verification/ProvisionLaws.thy ===== *)
theory ProvisionLaws
  imports CommandLaws
begin

text \<open>
  A workspace that is recorded is complete: whatever fails or wherever \<^verbatim>\<open>publishWorkspace\<close> dies, a new row of the database has
  its directory with the boot specification and the disk.
\<close>

section \<open>Assumptions on the environment\<close>

text \<open>\<^verbatim>\<open>cp\<close>, when it succeeds, has copied the source.\<close>

definition cp_copies :: "environ \<Rightarrow> bool" where
  "cp_copies e \<longleftrightarrow> (\<forall>n source temp args f out f'.
     clone_args (o_goos e) source temp = Inr args \<and> o_exec e n args f = (Inr out, f') \<longrightarrow>
     (\<exists>i m j k c. f source = Some (Reg i m c) \<and> f' temp = Some (Reg j k c)))"

text \<open>The random part of a temporary name is a decimal number.\<close>

definition rand_digits :: "environ \<Rightarrow> bool" where
  "rand_digits e \<longleftrightarrow> (\<forall>n k. list_all is_digit (o_rand e n k))"

text \<open>The files that external programs leave alone: the source disk and what exists below the directory of the workspaces, apart from temporary
  files.\<close>

definition workspace_file :: "string \<Rightarrow> string \<Rightarrow> string \<Rightarrow> bool" where
  "workspace_file parent sourceDisk p \<longleftrightarrow> (beneath parent p \<or> p = sourceDisk) \<and> \<not> suffix ''.tmp'' p"

lemma spares_mono: "spares D e \<Longrightarrow> (\<And>p. E p \<Longrightarrow> D p) \<Longrightarrow> spares E e"
  by (simp add: spares_def)

section \<open>Staging\<close>

definition spec_text :: "workspacePlan \<Rightarrow> string" where
  "spec_text plan = json_MarshalIndent (JObj (Spec_members ((pl_Spec plan)\<lparr>sp_Version := WorkspaceSpecVersion\<rparr>))) @ [CHR 0x0A]"

text \<open>A directory with the boot specification of a plan and a disk; for a copy of another workspace also the mark that lets its first boot
  make a new machine identity.\<close>

definition has_files :: "string \<Rightarrow> string \<Rightarrow> workspacePlan \<Rightarrow> world \<Rightarrow> bool" where
  "has_files dir disk plan w \<longleftrightarrow>
     (\<exists>i m. fs w (dir @ ''/config.json'') = Some (Reg i m (spec_text plan))) \<and>
     (\<exists>i m. fs w (dir @ ''/rootfs.ext4'') = Some (Reg i m disk))"

definition populated :: "string \<Rightarrow> string \<Rightarrow> workspacePlan \<Rightarrow> world \<Rightarrow> bool" where
  "populated dir disk plan w \<longleftrightarrow> has_files dir disk plan w \<and>
     (pl_ParentName plan \<noteq> [] \<longrightarrow> (\<exists>i m. fs w (dir @ ''/regenerate-identity'') = Some (Reg i m [])))"

lemmas populated_defs = populated_def has_files_def

definition covers :: "(string \<Rightarrow> bool) \<Rightarrow> string \<Rightarrow> bool" where
  "covers D dir \<longleftrightarrow> D (dir @ ''/config.json'') \<and> D (dir @ ''/rootfs.ext4'') \<and> D (dir @ ''/regenerate-identity'')"

text \<open>A file system path below which \<^verbatim>\<open>filepath.Join\<close> just appends.\<close>

definition plain_dir :: "string \<Rightarrow> bool" where
  "plain_dir d \<longleftrightarrow> (\<forall>x. comp_ok x \<longrightarrow> filepath_Join [d, x] = d @ slash # x)"

lemma plain_dir_abs: "\<forall>c\<in>set cs. comp_ok c \<Longrightarrow> cs \<noteq> [] \<Longrightarrow> plain_dir (abs_path cs)"
  by (simp add: plain_dir_def filepath_Join_abs_path abs_path_snoc)

lemma staged_names: "comp_ok ''rootfs.ext4''" "comp_ok ''config.json''" "comp_ok regenerateIdentityName"
  by (simp_all add: comp_ok_def regenerateIdentityName_def)

lemma exec_copies:
  assumes run: "sys_exec args w = (Ok out, w')" and cp: "cp_copies (orc w)" "clone_args (o_goos (orc w)) source temp = Inr args"
    and src: "fs w source = Some (Reg i m c)"
  shows "\<exists>j k. fs w' temp = Some (Reg j k c)"
proof -
  have "o_exec (orc w) (steps w) args (fs w) = (Inr out, fs w')"
    using syscall_part_OkE[OF run[unfolded sys_exec_def]] by (auto split: prod.splits)
  then show ?thesis using cp src unfolding cp_copies_def by fastforce
qed

lemma CloneDisk_Ok:
  assumes run: "CloneDisk source dest w = (Ok u, w')"
    and env: "cp_copies (orc w)" "spares D (orc w)"
    and D: "\<And>p. D p \<Longrightarrow> \<not> suffix ''.tmp'' p" "D source" "\<not> D dest" "dest \<noteq> source"
    and src: "fs w source = Some (Reg i m c)"
  shows "(\<exists>j k. fs w' dest = Some (Reg j k c)) \<and> intact D w w'"
proof -
  let ?t = "dest @ ''.tmp''"
  have t: "\<not> D ?t" using D(1)[of ?t] by (auto simp: suffix_def)
  from run obtain u1 w1 u2 w2 args out w4 u5 w5 u6 w6 where
    1: "os_MkdirAll (filepath_Dir dest) 448 w = (Ok u1, w1)" and
    2: "ignoreM (os_Remove ?t) w1 = (Ok u2, w2)" and
    3: "clone_args (o_goos (orc w2)) source ?t = Inr args" and
    4: "sys_exec args w2 = (Ok out, w4)" and
    5: "os_Rename ?t dest w4 = (Ok u5, w5)" and
    6: "syncDir (filepath_Dir dest) w5 = (Ok u6, w6)" and
    w': "w' = snd (os_Remove ?t w6)"
    unfolding CloneDisk_def Let_def by (auto elim!: thenM_OkE bindM_OkE deferM_OkE)
  have 7: "os_Remove ?t w6 = (fst (os_Remove ?t w6), w')" by (simp add: w')
  have i12: "intact D w w1" "intact D w1 w2"
    using maintainsD[OF keep_create(1) 1] maintainsD[OF keep.m_ignore[OF keep_at(2)[where D = D and p = ?t, OF t]] 2] by auto
  have i02: "intact D w w2" using keep.R_trans[OF i12] .
  then have orc2: "orc w2 = orc w" by (simp add: intact_def same_env_def)
  have src2: "fs w2 source = Some (Reg i m c)" using intactD[OF i02 env(2) D(2) src] .
  obtain j k where j: "fs w4 ?t = Some (Reg j k c)" using exec_copies[OF 4 _ 3 src2] env(1) orc2 by auto
  have i24: "intact D w2 w4" using maintainsD[OF keep_exec 4] .
  have fs5: "fs w5 = (fs w4)(?t := None, dest := Some (Reg j k c))" using Rename_file_Ok[OF 5 j] by simp
  have fs6: "fs w6 = fs w5" using maintainsD[OF nofs_sync_dir 6[unfolded syncDir_def, folded sync_dir_def]] by (simp add: same_files_def)
  have d: "fs w' dest = fs w6 dest"
    using maintainsD[OF files_at(2)[of "\<lambda>p. p = ?t"] 7] by (simp add: only_files_def)
  have i45: "intact D w4 w5"
    using maintainsD[OF env.m_Rename 5] fs5 t D(3) by (auto simp: intact_def)
  have sy: "maintains (intact D) (syncDir (filepath_Dir dest))" unfolding syncDir_def by (intro keep_rules)
  have i56: "intact D w5 w6" by (rule maintainsD[OF sy 6])
  have i67: "intact D w6 w'" using maintainsD[OF keep_at(2)[where D = D and p = ?t, OF t] 7] .
  have "intact D w w'" using i02 i24 i45 i56 i67 keep.R_trans by metis
  then show ?thesis using d fs5 fs6 by simp
qed

lemma publish_stage_Ok:
  assumes run: "publish_stage stage source plan w = (Ok u, w')"
    and env: "cp_copies (orc w)" "spares D (orc w)"
    and D: "\<And>p. D p \<longleftrightarrow> p = source \<or> p = stage" "\<not> suffix ''.tmp'' source" "\<not> suffix ''.tmp'' stage"
    and path: "plain_dir stage" "\<not> beneath stage source" and src: "fs w source = Some (Reg i m c)" and st: "fs w stage = Some (Dir d)"
  shows "populated stage c plan w' \<and> fs w' stage = Some (Dir d)"
proof -
  let ?r = "stage @ ''/rootfs.ext4''" and ?c = "stage @ ''/config.json''" and ?g = "stage @ slash # regenerateIdentityName"
  have j: "filepath_Join [stage, ''rootfs.ext4''] = ?r" "filepath_Join [stage, specName] = ?c"
    "filepath_Join [stage, regenerateIdentityName] = ?g"
    using path(1) staged_names unfolding plain_dir_def by (auto simp: specName_def)
  have dest: "\<not> D ?r" "?r \<noteq> source" using D(1) path(2) by (auto simp: beneath_def)
  from run obtain u1 w1 u2 w2 where 1: "CloneDisk source ?r w = (Ok u1, w1)" and 2: "writeFile ?c (spec_text plan) 384 w1 = (Ok u2, w2)"
    and 3: "(if pl_ParentName plan \<noteq> [] then MarkRegenerateIdentity stage else returnM ()) w2 = (Ok u, w')"
    unfolding publish_stage_def Save_def writeJSON_def j spec_text_def[symmetric] by (auto elim!: thenM_OkE)
  have tmp: "\<not> suffix ''.tmp'' p" if "D p" for p using that D by metis
  have "D source" using D(1) by blast
  note clone = CloneDisk_Ok[OF 1 env tmp this dest src]
  then have s1: "fs w1 stage = Some (Dir d)" using intactD[OF _ env(2) _ st] D(1) by blast
  note w2 = writeFile_run[OF 2]
  have "fs w' p = fs w2 p" if "p \<noteq> ?g" "p \<noteq> ?g @ ''.tmp''" for p
    using 3 writeFile_run[of ?g "[]" 384 w2] that by (auto simp: MarkRegenerateIdentity_def j split: if_splits)
  then have "fs w' ?r = fs w2 ?r" "fs w' ?c = fs w2 ?c" "fs w' stage = fs w2 stage"
    by (simp_all add: regenerateIdentityName_def)
  moreover have "\<exists>i m. fs w' (stage @ ''/regenerate-identity'') = Some (Reg i m [])" if "pl_ParentName plan \<noteq> []"
  proof -
    have "writeFile ?g [] 384 w2 = (Ok u, w')" using 3 that by (simp add: MarkRegenerateIdentity_def j)
    then have "\<exists>i m. fs w' ?g = Some (Reg i m [])" using writeFile_run by fastforce
    then show ?thesis by (simp add: regenerateIdentityName_def)
  qed
  moreover have "fs w2 ?r = fs w1 ?r" "fs w2 stage = fs w1 stage" using w2 by simp_all
  ultimately show ?thesis using clone s1 w2 by (auto simp: populated_defs)
qed

section \<open>Publication\<close>

lemma owning_cases:
  assumes "owning d m f w = (r, w')"
  obtains (go) x w1 where "m w = (Ok x, w1)" "f x w1 = (r, w')"
    | (stop) e where "m w = (Err e, w')" "r = Ok (Inl (d, e))"
    | (crash) "m w = (Crash, w')" "r = Crash"
  using assms by (auto simp: owning_def tryM_def returnM_def split: prod.splits outcome.splits)

lemma UpdateSSHConfig_intact:
  assumes "updateSSHConfig w = (r, w')" "\<not> D (ssh_config_path (orc w))"
  shows "intact D w w'"
proof -
  have body: "maintains (intact D) (bindM PrivateKeyPath (\<lambda>privKeyPath.
     let block = block_text privKeyPath es in
     bindM (tryM (os_ReadFile p) returnM (\<lambda>e. if os_IsNotExist e then returnM [] else failM (Wrap ''read ssh config'' e))) (\<lambda>existing.
     thenM (os_MkdirAll (filepath_Dir p) 448) (os_WriteFile p (replaceBlock existing block) 384))))"
    if "\<not> D p" for p es
    unfolding Let_def using that by (intro keep_rules keep_at(1)[where D = D and p = p]) (auto intro!: keep_rules)
  have "intact D v v'" if "UpdateSSHConfig es v = (r, v')" "\<not> D (ssh_config_path (orc v))" for es v v'
  proof (cases "o_env (orc v) ''DEVD_SSH_CONFIG'' = []")
    case True
    show ?thesis
    proof (cases "o_home (orc v)")
      case (Inl e)
      then show ?thesis using that(1) True keep.R_refl
        by (simp add: UpdateSSHConfig_def os_Getenv_def os_UserHomeDir_def bindM_def askM_def liftM_def failM_def)
    next
      case (Inr h)
      then have "\<not> D (filepath_Join [h, ''.ssh'', ''config''])" using that(2) True by (simp add: ssh_config_path_def)
      from maintainsD[OF body[OF this]] that(1) True Inr show ?thesis
        by (simp add: UpdateSSHConfig_def os_Getenv_def os_UserHomeDir_def bindM_def[of "askM _"] bindM_def[of "bindM _ _"]
            bindM_def[of "liftM _"] askM_def liftM_def returnM_def)
    qed
  next
    case False
    then have "\<not> D (o_env (orc v) ''DEVD_SSH_CONFIG'')" using that(2) by (simp add: ssh_config_path_def)
    from maintainsD[OF body[OF this]] that(1) False show ?thesis
      by (simp add: UpdateSSHConfig_def os_Getenv_def bindM_def[of "askM _"] bindM_def[of "returnM _"] askM_def returnM_def)
  qed
  note upd = this
  have list: "maintains (intact D) ListWorkspaces" unfolding ListWorkspaces_def by (rule keep.m_query)
  from assms(1)[unfolded updateSSHConfig_def] show ?thesis
  proof (cases rule: bindM_cases)
    case (go rows w1)
    have i: "intact D w w1" by (rule maintainsD[OF list go(1)])
    then have "orc w1 = orc w" by (simp add: intact_def same_env_def)
    then show ?thesis using keep.R_trans[OF i upd[OF go(2)]] assms(2) by simp
  qed (use maintainsD[OF list] in blast)+
qed

text \<open>What \<^verbatim>\<open>publishWorkspace\<close> may leave: the database as it was, or, unless it reports an error, the new row and a complete directory.\<close>

definition recorded :: "string \<Rightarrow> string \<Rightarrow> string \<Rightarrow> workspacePlan \<Rightarrow> tables \<Rightarrow> world \<Rightarrow> bool" where
  "recorded name dest disk plan t w \<longleftrightarrow>
     (\<exists>sshPort relayPort now. db w = with_workspace
        \<lparr>ws_Name = name, ws_Image = pl_Image plan, ws_ImageDigest = pl_ImageDigest plan, ws_WorkspaceDir = dest,
         ws_DiskPath = filepath_Join [dest, ''rootfs.ext4''], ws_ParentName = pl_ParentName plan, ws_SSHPort = sshPort,
         ws_RelayPort = relayPort, ws_CPUs = pl_CPUs plan, ws_Memory = pl_Memory plan, ws_State = stopped, ws_IsActive = False,
         ws_PID = 0, ws_CreatedAt = 0\<rparr> (pl_Ports plan) now t) \<and>
     populated dest disk plan w"

definition outcome_ok :: "string \<Rightarrow> string \<Rightarrow> string \<Rightarrow> workspacePlan \<Rightarrow> tables \<Rightarrow> ((string \<times> error) + Workspace) outcome \<Rightarrow> world \<Rightarrow> bool" where
  "outcome_ok name dest disk plan t r w \<longleftrightarrow> tx w = None \<and>
     (db w = t \<and> (\<forall>ws. r \<noteq> Ok (Inr ws)) \<or> (r = Crash \<or> (\<exists>ws. r = Ok (Inr ws))) \<and> recorded name dest disk plan t w)"

definition staged :: "string \<Rightarrow> string \<Rightarrow> workspacePlan \<Rightarrow> environ \<Rightarrow> tables \<Rightarrow> world \<Rightarrow> bool" where
  "staged stage disk plan e t w \<longleftrightarrow> tx w = None \<and> db w = t \<and> orc w = e \<and> populated stage disk plan w \<and> (\<exists>m. fs w stage = Some (Dir m))"

text \<open>Commands that change neither the database nor existing files of a set.\<close>

definition calmly :: "(string \<Rightarrow> bool) \<Rightarrow> 'a io \<Rightarrow> bool" where
  "calmly D m \<longleftrightarrow> maintains same_db m \<and> maintains (intact D) m"

lemma populated_intact:
  assumes "populated dir disk plan w" "intact D w w'" "spares D (orc w)" "covers D dir"
  shows "populated dir disk plan w'"
proof -
  have "fs w' p = Some x" if "fs w p = Some x" "p \<in> {dir @ ''/config.json'', dir @ ''/rootfs.ext4'', dir @ ''/regenerate-identity''}" for p x
    using intactD[OF assms(2,3) _ that(1)] assms(4) that(2) by (auto simp: covers_def)
  then show ?thesis using assms(1) unfolding populated_defs by blast
qed

lemma calmly_run:
  assumes "calmly D m" "m w = (r, w')" "staged stage disk plan e t w" "spares D e"
    and "D stage" "covers D stage"
  shows "staged stage disk plan e t w'"
proof -
  have m: "maintains same_db m" "maintains (intact D) m" using assms(1) by (auto simp: calmly_def)
  have s: "same_db w w'" by (rule maintainsD[OF m(1) assms(2)])
  have i: "intact D w w'" by (rule maintainsD[OF m(2) assms(2)])
  then show ?thesis
    using s assms(3-) populated_intact[OF _ i, of stage disk plan] intactD[OF i]
    by (auto simp: staged_def same_db_def intact_def same_env_def)
qed

lemma calmly_owning:
  assumes run: "owning d m f w = (r, w')" and m: "calmly D m"
    and w: "staged stage disk plan e t w" "spares D e" "D stage" "covers D stage"
    and f: "\<And>x w1. staged stage disk plan e t w1 \<Longrightarrow> f x w1 = (r, w') \<Longrightarrow> outcome_ok name dest disk plan t r w'"
  shows "outcome_ok name dest disk plan t r w'"
proof -
  note next1 = calmly_run[OF m _ w]
  from run show ?thesis
  proof (cases rule: owning_cases)
    case (go x w1)
    then show ?thesis using f next1 by blast
  qed (use next1 in \<open>fastforce simp: outcome_ok_def staged_def\<close>)+
qed

lemma record_run:
  assumes run: "owning dest (wrapM ''record workspace'' (CreateWorkspace ws (pl_Ports plan)))
      (\<lambda>_. thenM (ignoreM updateSSHConfig) (returnM (Inr ws))) w = (r, w')"
    and ws: "ws = new_row name dest sshPort relayPort plan"
    and w: "tx w = None" "db w = t" "orc w = e" "populated dest disk plan w"
    and D: "spares D e" "covers D dest" "\<not> D (ssh_config_path e)"
  shows "outcome_ok name dest disk plan t r w'"
proof -
  let ?m = "CreateWorkspace ws (pl_Ports plan)"
  obtain r1 w1 where c: "?m w = (r1, w1)" by fastforce
  note at = atomicD[OF CreateWorkspace_atomic w(1) c]
  have p1: "populated dest disk plan w1" "tx w1 = None" "orc w1 = e" using at w by (auto simp: populated_defs same_env_def)
  have db1: "db w1 = t \<or> recorded name dest disk plan t w1" and ok1: "r1 = Ok () \<longrightarrow> recorded name dest disk plan t w1"
    and err1: "r1 = Err x \<longrightarrow> db w1 = t" for x
    using at p1(1) ws w(2) by (auto simp: recorded_def new_row_def create_rows_Inr_iff split: outcome.splits)
  show ?thesis
  proof (cases r1)
    case (Ok u)
    then have "thenM (ignoreM updateSSHConfig) (returnM (Inr ws)) w1 = (r, w')"
      using run c by (simp add: owning_def tryM_def wrapM_def returnM_def)
    then have x: "updateSSHConfig w1 = (fst (updateSSHConfig w1), w') \<and> (r = Crash \<or> r = Ok (Inr ws))"
      by (auto simp: thenM_def bindM_def ignoreM_def tryM_def returnM_def split: prod.splits outcome.splits)
    have "intact D w1 w'" using UpdateSSHConfig_intact[of w1 _ w' D] x D(3) p1(3) by blast
    then have "populated dest disk plan w'" using populated_intact[OF p1(1)] D p1(3) by blast
    moreover have "same_db w1 w'" using x maintainsD[OF nodb.m_updateSSHConfig] by blast
    ultimately show ?thesis using ok1 Ok x p1(2) by (auto simp: outcome_ok_def recorded_def same_db_def)
  next
    case (Err e1)
    then have "w' = w1" "r = Ok (Inl (dest, Wrap ''record workspace'' e1))"
      using run c by (auto simp: owning_def tryM_def wrapM_def returnM_def failM_def)
    then show ?thesis using err1 Err p1(2) by (simp add: outcome_ok_def)
  next
    case Crash
    then have "w' = w1" "r = Crash" using run c by (auto simp: owning_def tryM_def wrapM_def)
    then show ?thesis using db1 p1(2) by (auto simp: outcome_ok_def)
  qed
qed

lemma Rename_tree_Ok:
  assumes "os_Rename a b w = (Ok u, w')" "fs w a = Some (Dir m)"
  shows "fs w' (b @ slash # x) = fs w (a @ slash # x)"
  using syscall_OkE[OF assms(1)[unfolded os_Rename_def]] assms(2)
  by (auto simp: rename_tree_def is_dir_def beneath_def split: if_splits)

lemma calmly_steps:
  "calmly D EnsureKeypair" "calmly D nextAvailableSSHPort" "calmly D NextRelayPort" "calmly D (checkNewWorkspace name)"
  "calmly D LockMetadata"
proof -
  have port: "maintains (intact D) (first_available ps)" for ps
    by (induction ps) (auto simp: ensurePortAvailable_def intro!: keep_rules)
  have q: "maintains (intact D) NextSSHPort" "maintains (intact D) NextRelayPort" "maintains (intact D) (WorkspaceExists name)"
    unfolding NextSSHPort_def NextRelayPort_def WorkspaceExists_def by (auto intro!: keep.rules keep.m_query split: option.splits)
  show "calmly D EnsureKeypair" "calmly D NextRelayPort" "calmly D LockMetadata"
    unfolding calmly_def using q by (auto intro: nodb.ssh_rules nodb.m_queries nodb.m_LockMetadata keep_EnsureKeypair keep_LockMetadata)
  show "calmly D nextAvailableSSHPort"
    unfolding calmly_def nextAvailableSSHPort_def by (intro conjI nodb.rules nodb.m_queries nodb.m_first_available keep.rules q port)
  have "maintains (intact D) (checkNewWorkspace name)"
    unfolding checkNewWorkspace_def by (auto intro!: keep_rules q)
  then show "calmly D (checkNewWorkspace name)" unfolding calmly_def using nodb.m_checkNewWorkspace by blast
qed

lemma sync_publication_run:
  "sync_publication p w = (r, w') \<Longrightarrow> same_db w w' \<and> fs w' = fs w \<and> orc w' = orc w"
proof -
  assume run: "sync_publication p w = (r, w')"
  have "maintains same_files (sync_publication p)" "maintains same_env (sync_publication p)"
    unfolding sync_publication_def by (intro nofs.rules nofs.lock_rules env.rules env.lock_rules)+
  from maintainsD[OF this(1) run] maintainsD[OF this(2) run] maintainsD[OF nodb.m_sync_publication run]
  show ?thesis by (simp add: same_files_def same_env_def)
qed

lemma rename_run:
  assumes run: "owning stage (wrapM ''publish workspace files'' (os_Rename stage dest)) (\<lambda>_.
       owning dest (sync_publication parent) (\<lambda>_.
       owning dest (wrapM ''record workspace'' (CreateWorkspace (new_row name dest sshPort relayPort plan) (pl_Ports plan))) (\<lambda>_.
       thenM (ignoreM updateSSHConfig) (returnM (Inr (new_row name dest sshPort relayPort plan)))))) w = (r, w')"
    and w: "staged stage disk plan e t w"
    and D: "spares D e" "covers D dest" "\<not> D (ssh_config_path e)"
  shows "outcome_ok name dest disk plan t r w'"
proof -
  have ren: "same_db u v \<and> orc v = orc u" if "wrapM ''publish workspace files'' (os_Rename stage dest) u = (x, v)" for u v x
    using maintainsD[OF nodb.m_wrap[OF nodb.m_Rename] that] maintainsD[OF env.m_wrap[OF env.m_Rename] that] by (simp add: same_env_def)
  from run show ?thesis
  proof (cases rule: owning_cases)
    case (go u w1)
    then have "os_Rename stage dest w = (Ok u, w1)" by simp
    from Rename_tree_Ok[OF this] w have p1: "populated dest disk plan w1" by (auto simp: staged_def populated_defs)
    have w1: "tx w1 = None" "db w1 = t" "orc w1 = e" using ren[OF go(1)] w by (auto simp: same_db_def staged_def)
    from go(2) show ?thesis
    proof (cases rule: owning_cases)
      case (go v w2)
      note sy = sync_publication_run[OF go(1)]
      then have "tx w2 = None" "db w2 = t" "orc w2 = e" "populated dest disk plan w2"
        using w1 p1 by (auto simp: same_db_def populated_defs)
      then show ?thesis using record_run[OF go(2) refl _ _ _ _ D] by blast
    qed (use sync_publication_run[of parent w1 _ w'] w1 in \<open>auto simp: outcome_ok_def same_db_def\<close>)
  qed (use ren[of w _ w'] w in \<open>auto simp: outcome_ok_def same_db_def staged_def\<close>)
qed

lemma publish_record_run:
  assumes run: "publish_record parent stage name plan w = (r, w')" and w: "staged stage disk plan e t w"
    and path: "filepath_Join [parent, name] = dest"
    and D: "spares D e" "D stage" "covers D stage" "covers D dest" "\<not> D (ssh_config_path e)"
  shows "outcome_ok name dest disk plan t r w'"
proof (rule calmly_owning[OF run[unfolded publish_record_def path Let_def] calmly_steps(1) w D(1-3)], goal_cases)
  case (1 a wa)
  show ?case
  proof (rule calmly_owning[OF 1(2) calmly_steps(2) 1(1) D(1-3)], goal_cases)
    case (1 sshPort wb)
    show ?case
    proof (rule calmly_owning[OF 1(2) calmly_steps(3) 1(1) D(1-3)], goal_cases)
      case (1 relayPort wc)
      show ?case
      proof (rule calmly_owning[OF 1(2) calmly_steps(4) 1(1) D(1-3)], goal_cases)
        case (1 u wd)
        show ?case by (rule rename_run[OF 1(2,1) D(1,4,5)])
      qed
    qed
  qed
qed

lemma recorded_same: "db w' = db w \<Longrightarrow> fs w' = fs w \<Longrightarrow> recorded name dest disk plan t w' = recorded name dest disk plan t w"
  by (simp add: recorded_def populated_defs)

lemma outcome_defer:
  assumes run: "deferM m (sys_close lock) w = (r, w')"
    and m: "\<And>r1 w1. m w = (r1, w1) \<Longrightarrow> outcome_ok name dest disk plan t r1 w1"
  shows "outcome_ok name dest disk plan t r w'"
proof -
  obtain r1 w1 where r1: "m w = (r1, w1)" by fastforce
  have "(r = r1 \<and> w' = w1 \<or> w' = snd (sys_close lock w1)) \<and> (r = r1 \<or> r = Crash)"
    using run r1 by (cases r1) (auto simp: deferM_def tryM_def thenM_def bindM_def ignoreM_def returnM_def failM_def split: prod.splits outcome.splits)
  moreover have "same_db w1 (snd (sys_close lock w1))" "fs (snd (sys_close lock w1)) = fs w1"
    using maintainsD[OF nodb.m_close surjective_pairing] maintainsD[OF nofs.m_close surjective_pairing] by (auto simp: same_files_def)
  ultimately show ?thesis
    using m[OF r1] recorded_same[of "snd (sys_close lock w1)" w1] by (auto simp: outcome_ok_def same_db_def)
qed

lemma publish_owned_run:
  assumes run: "publish_owned parent stage name source plan w = (r, w')"
    and w: "tx w = None" "db w = t" "orc w = e" "fs w source = Some (Reg i m disk)" "fs w stage = Some (Dir d)"
    and path: "filepath_Join [parent, name] = dest" "plain_dir stage" "\<not> beneath stage source"
    and env: "cp_copies e" "spares D e" "\<And>p. D p \<Longrightarrow> \<not> suffix ''.tmp'' p" "\<not> D (ssh_config_path e)"
    and D: "D source" "D stage" "covers D stage" "covers D dest"
  shows "outcome_ok name dest disk plan t r w'"
proof -
  let ?E = "\<lambda>p. p = source \<or> p = stage"
  have E: "spares ?E (orc w)" using spares_mono[OF env(2), of ?E] D(1,2) w(3) by blast
  have cp: "cp_copies (orc w)" using env(1) w(3) by simp
  have st: "same_db u v \<and> orc v = orc u" if "publish_stage stage source plan u = (x, v)" for u v x
    using maintainsD[OF nodb.m_publish_stage that] maintainsD[OF env.m_publish_stage that] by (simp add: same_env_def)
  from run[unfolded publish_owned_def] show ?thesis
  proof (cases rule: owning_cases)
    case (go u w1)
    have "populated stage disk plan w1 \<and> fs w1 stage = Some (Dir d)"
      by (rule publish_stage_Ok[OF go(1) cp E refl env(3)[OF D(1)] env(3)[OF D(2)] path(2,3) w(4,5)])
    then have s1: "staged stage disk plan e t w1" using st[OF go(1)] w by (auto simp: staged_def same_db_def)
    show ?thesis
    proof (rule calmly_owning[OF go(2) calmly_steps(5) s1 env(2) D(2,3)], goal_cases)
      case (1 lock w2)
      show ?case
        by (rule outcome_defer[OF 1(2)], rule publish_record_run[OF _ 1(1) path(1) env(2) D(2-4) env(4)])
    qed
  qed (use st[of w _ w'] w in \<open>auto simp: outcome_ok_def same_db_def\<close>)
qed

lemma clean_up_run:
  assumes run: "clean_up x w1 = (r, w')" and w1: "outcome_ok name dest disk plan t (Ok x) w1"
  shows "tx w' = None \<and> (db w' = t \<and> (\<forall>ws. r \<noteq> Ok ws) \<or> recorded name dest disk plan t w')"
proof (cases x)
  case (Inl y)
  then have "db w1 = t" "tx w1 = None" using w1 by (auto simp: outcome_ok_def)
  moreover have "r \<noteq> Ok ws" for ws
    using run Inl by (cases y) (auto simp: clean_up_def thenM_def bindM_def failM_def split: prod.splits outcome.splits)
  ultimately show ?thesis using maintainsD[OF nodb.m_clean_up run] by (simp add: same_db_def)
next
  case (Inr ws)
  then show ?thesis using run w1 by (auto simp: clean_up_def outcome_ok_def)
qed

lemma workspace_file_staged:
  assumes "list_all is_digit x" "comp_ok name"
  shows "workspace_file parent source (parent @ slash # ''.create-'' @ name @ ''-'' @ x)"
    and "covers (workspace_file parent source) (parent @ slash # d)"
proof -
  have "\<not> suffix ''.tmp'' (y @ ''-'' @ x)" for y
  proof
    assume "suffix ''.tmp'' (y @ ''-'' @ x)"
    then obtain zs where "y @ ''-'' @ x = zs @ ''.tmp''" by (auto simp: suffix_def)
    then have "last (y @ ''-'' @ x) = last (zs @ ''.tmp'')" by (rule arg_cong)
    then show False using assms(1) by (cases x rule: rev_cases) (auto simp: is_digit_def)
  qed
  from this[of "parent @ slash # ''.create-'' @ name"]
  show "workspace_file parent source (parent @ slash # ''.create-'' @ name @ ''-'' @ x)"
    by (simp add: workspace_file_def beneath_def)
  have "\<not> suffix ''.tmp'' (y @ [c])" if "c \<noteq> CHR ''p''" for y c using that by (auto simp: suffix_def append_eq_append_conv2 Cons_eq_append_conv)
  from this[of "CHR ''n''" "parent @ slash # d @ ''/config.jso''"] this[of "CHR ''4''" "parent @ slash # d @ ''/rootfs.ext''"]
    this[of "CHR ''y''" "parent @ slash # d @ ''/regenerate-identit''"]
  show "covers (workspace_file parent source) (parent @ slash # d)"
    by (simp add: covers_def workspace_file_def beneath_def)
qed

text \<open>The assumptions together, for an installation with its workspaces in \<open>parent\<close> and a source disk.\<close>

definition publishing_env :: "environ \<Rightarrow> string \<Rightarrow> string \<Rightarrow> bool" where
  "publishing_env e parent source \<longleftrightarrow> cp_copies e \<and> rand_digits e \<and> spares (workspace_file parent source) e \<and>
     \<not> suffix ''.tmp'' source \<and> \<not> prefix (parent @ slash # ''.create-'') source \<and>
     \<not> beneath parent (ssh_config_path e) \<and> ssh_config_path e \<noteq> source"

lemma MkdirTemp_name:
  assumes "os_MkdirTemp d pre w = (Ok name, w')"
  shows "\<exists>x. name = d @ slash # pre @ x \<and> x \<in> range (o_rand (orc w) (steps w))" "fs w' = (fs w)(name := Some (Dir 448))"
    "slash \<notin> set pre" "fs w name = None"
  using syscall_OkE[OF assms[unfolded os_MkdirTemp_def]]
    free_name_Some[of "fs w" "\<lambda>k. d @ slash # pre @ o_rand (orc w) (steps w) k" 0 name]
  by (auto simp: set_file_def split: if_splits option.splits)

lemma stage_plain:
  assumes "\<forall>c\<in>set cs. comp_ok c" "cs \<noteq> []" "slash \<notin> set pre" "list_all is_digit x" "2 < length pre"
  shows "plain_dir (abs_path cs @ slash # pre @ x)"
proof -
  have "slash \<notin> set x" using assms(4) by (auto simp: list_all_iff is_digit_def)
  moreover have "pre @ x \<noteq> y" if "length y \<le> 2" for y
  proof
    assume "pre @ x = y"
    then have "length (pre @ x) = length y" by (rule arg_cong)
    then show False using assms(5) that by simp
  qed
  from this[of "[]"] this[of "''.''"] this[of dotdot]
  have "pre @ x \<noteq> [] \<and> pre @ x \<noteq> ''.'' \<and> pre @ x \<noteq> dotdot" by simp
  ultimately have "comp_ok (pre @ x)" using assms(3) by (simp add: comp_ok_def)
  then have "plain_dir (abs_path (cs @ [pre @ x]))" using assms(1) by (intro plain_dir_abs) auto
  then show ?thesis using assms(2) by (simp add: abs_path_snoc)
qed

lemma publish_from_stage:
  assumes run: "bindM (wrapM ''stage workspace'' (os_MkdirTemp parent (''.create-'' @ name @ ''-''))) (\<lambda>stage.
      bindM (publish_owned parent stage name source plan) clean_up) w = (r, w')"
    and w: "tx w = None" "orc w = e" "fs w source = Some (Reg i m disk)"
    and env: "publishing_env e parent source" and parent: "parent = abs_path (root @ [''workspaces''])" "\<forall>c\<in>set root. comp_ok c"
    and name: "workspaceNamePattern name"
  shows "tx w' = None \<and> (db w' = db w \<and> (\<forall>ws. r \<noteq> Ok ws) \<or> recorded name (workspace_path root name) disk plan (db w) w')"
  using run
proof (cases rule: bindM_cases)
  case (go stage w1)
  let ?pre = "''.create-'' @ name @ ''-''" and ?dest = "workspace_path root name" and ?D = "workspace_file parent source"
  have mk: "os_MkdirTemp parent ?pre w = (Ok stage, w1)" using go(1) by simp
  obtain x where st: "stage = parent @ slash # ?pre @ x" and x: "list_all is_digit x"
    using MkdirTemp_name(1)[OF mk] env w(2) by (auto simp: publishing_env_def rand_digits_def)
  have fs1: "fs w1 = (fs w)(stage := Some (Dir 448))" "stage \<noteq> source" using MkdirTemp_name(2,4)[OF mk] w(3) by auto
  have w1: "tx w1 = None" "db w1 = db w" "orc w1 = e" "fs w1 source = Some (Reg i m disk)" "fs w1 stage = Some (Dir 448)"
    using maintainsD[OF nodb.m_MkdirTemp mk] maintainsD[OF env.m_MkdirTemp mk] w fs1 by (auto simp: same_db_def same_env_def)
  have ok: "comp_ok name" "comp_ok ''workspaces''" using name valid_name_comp_ok by auto
  have dest: "?dest = parent @ slash # name" using abs_path_snoc[of "root @ [''workspaces'']" name] by (simp add: workspace_path_def parent(1))
  have join: "filepath_Join [parent, name] = ?dest"
    using filepath_Join_abs_path[of "root @ [''workspaces'']" name] parent ok by (simp add: workspace_path_def)
  have plain: "plain_dir stage" unfolding st parent(1)
    by (rule stage_plain) (use parent(2) MkdirTemp_name(3)[OF mk] x in auto)
  have out: "\<not> beneath stage source" using env by (auto simp: publishing_env_def st beneath_def prefix_def)
  have D: "?D source" "\<not> ?D (ssh_config_path e)" "\<And>p. ?D p \<Longrightarrow> \<not> suffix ''.tmp'' p"
    using env by (auto simp: publishing_env_def workspace_file_def)
  have files: "?D stage" "covers ?D stage" "covers ?D ?dest"
    using workspace_file_staged(1)[OF x ok(1), of parent source] workspace_file_staged(2)[OF x ok(1), of parent source "?pre @ x"]
      workspace_file_staged(2)[OF x ok(1), of parent source name] by (simp_all add: st dest)
  have cp: "cp_copies e" "spares ?D e" using env by (auto simp: publishing_env_def)
  note own = publish_owned_run[OF _ w1 join plain out cp D(3,2,1) files]
  from go(2) show ?thesis
  proof (cases rule: bindM_cases)
    case (go y w2)
    then show ?thesis using clean_up_run[OF go(2) own[OF go(1)]] by simp
  qed (use own in \<open>fastforce simp: outcome_ok_def\<close>)+
qed (use maintainsD[OF nodb.m_wrap[OF nodb.m_MkdirTemp]] w(1) in \<open>auto simp: same_db_def\<close>)

lemma check_run:
  assumes "checkNewWorkspace name w = (r, w')"
  shows "same_db w w' \<and> intact D w w' \<and> (r = Ok () \<longrightarrow> workspaceNamePattern name)"
proof -
  have m: "maintains same_db (checkNewWorkspace name)" "maintains (intact D) (checkNewWorkspace name)"
    using calmly_steps(4)[of D name] by (auto simp: calmly_def)
  have "workspaceNamePattern name" if "r = Ok ()"
    using assms that unfolding checkNewWorkspace_def by (auto elim!: bindM_OkE WorkspaceDir_Ok)
  then show ?thesis using maintainsD[OF m(1) assms] maintainsD[OF m(2) assms] by blast
qed

section \<open>The source disk\<close>

text \<open>Frames for the runs that start in a given environment.\<close>

definition intact_in :: "environ \<Rightarrow> (string \<Rightarrow> bool) \<Rightarrow> world \<Rightarrow> world \<Rightarrow> bool" where
  "intact_in e D w w' \<longleftrightarrow> (orc w = e \<longrightarrow> intact D w w')"

interpretation keepi: change "intact_in e D" for e D
proof
  fix u v w assume "intact_in e D u v" "intact_in e D v w"
  then show "intact_in e D u w" using keep.R_trans[of D u v w] by (auto simp: intact_in_def intact_def same_env_def)
qed (simp_all add: intact_in_def keep.R_refl keep.R_tick keep.R_die keep.R_sleep)

lemma keepi: "maintains (intact D) m \<Longrightarrow> maintains (intact_in e D) m"
  by (simp add: maintains_def intact_in_def)

lemma keepi_owning: "maintains (intact_in e D) m \<Longrightarrow> (\<And>x. maintains (intact_in e D) (f x)) \<Longrightarrow> maintains (intact_in e D) (owning d m f)"
  unfolding owning_def by (intro keepi.rules)

lemma keepi_updateSSHConfig: "\<not> D (ssh_config_path e) \<Longrightarrow> maintains (intact_in e D) updateSSHConfig"
  using UpdateSSHConfig_intact[where D = D, OF surjective_pairing] by (auto simp: maintains_def intact_in_def)

lemma keep_replace:
  assumes "\<And>q. D q \<Longrightarrow> \<not> beneath p q" "\<not> D (p @ ''.tmp'')" "\<And>q. D q \<Longrightarrow> \<not> beneath (p @ ''.tmp'') q"
  shows "maintains (intact D) (writeFile p d m)"
  unfolding writeFile_def drop_temp_def Let_def
  by (intro keep_rules keep_Rename keep_at(1,2)[where D = D and p = "p @ ''.tmp''"] assms)

lemma keep_publish_stage:
  assumes "plain_dir stage" "\<And>q. D q \<Longrightarrow> \<not> beneath stage q"
  shows "maintains (intact D) (publish_stage stage source plan)"
proof -
  have no: "\<not> beneath (stage @ slash # x) q" if "D q" for x q using assms(2)[OF that] by (auto simp: beneath_def prefix_def)
  have at: "\<not> D (stage @ slash # x)" for x using assms(2)[of "stage @ slash # x"] by (auto simp: beneath_def)
  have wf: "maintains (intact D) (writeFile (stage @ slash # x) d m)" for x d m
    using no at[of "x @ ''.tmp''"] no[of _ "x @ ''.tmp''"] by (intro keep_replace) auto
  have j: "filepath_Join [stage, ''rootfs.ext4''] = stage @ ''/rootfs.ext4''" "filepath_Join [stage, specName] = stage @ ''/config.json''"
    "filepath_Join [stage, regenerateIdentityName] = stage @ slash # regenerateIdentityName"
    using assms(1) staged_names unfolding plain_dir_def by (auto simp: specName_def)
  have "maintains (intact D) (CloneDisk source (stage @ ''/rootfs.ext4''))"
    unfolding CloneDisk_def syncDir_def Let_def
    using no[of _ "''rootfs.ext4''"] no[of _ "''rootfs.ext4.tmp''"] at[of "''rootfs.ext4.tmp''"]
    by (intro keep_rules keep_Rename keep_at(2)[where D = D and p = "(stage @ ''/rootfs.ext4'') @ ''.tmp''"]) auto
  then show ?thesis
    unfolding publish_stage_def Save_def writeJSON_def MarkRegenerateIdentity_def j
    using wf[of "''config.json''"] wf[of regenerateIdentityName] by (auto intro!: keep_rules)
qed

lemma keepi_publish_owned:
  assumes "plain_dir stage" "\<And>q. D q \<Longrightarrow> \<not> beneath stage q" "\<And>q. D q \<Longrightarrow> \<not> beneath (filepath_Join [parent, name]) q" "\<not> D (ssh_config_path e)"
  shows "maintains (intact_in e D) (publish_owned parent stage name source plan)"
proof -
  have c: "maintains (intact D) EnsureKeypair" "maintains (intact D) nextAvailableSSHPort" "maintains (intact D) NextRelayPort"
    "maintains (intact D) (checkNewWorkspace name)" "maintains (intact D) LockMetadata"
    using calmly_steps[of D] by (simp_all add: calmly_def)
  have "maintains (intact D) (sql_exec_now f)" for f
    unfolding sql_exec_now_def
    by (rule keep.m_syscall) (auto simp: intact_def same_env_def set_cur_def split: sum.splits option.splits)
  then have "maintains (intact D) (CreateWorkspace ws ports)" for ws ports
    unfolding CreateWorkspace_def transactional_def by (intro keep_rules)
  then have r: "maintains (intact D) (wrapM s (CreateWorkspace ws ports))" "maintains (intact D) (sync_publication parent)" for s ws ports
    unfolding sync_publication_def by (intro keep_rules | assumption)+
  show ?thesis
    unfolding publish_owned_def publish_record_def Let_def
    by (intro keepi_owning keepi.rules keepi keep_publish_stage c r keep_Rename keep.m_wrap keep.m_close keepi_updateSSHConfig assms)
qed

lemma owning_dir:
  assumes "owning d m f w = (Ok (Inl (d', e)), w')"
  shows "d' = d \<or> (\<exists>x w1. f x w1 = (Ok (Inl (d', e)), w'))"
  using assms by (cases rule: owning_cases) auto

lemma publish_owned_dir:
  assumes "publish_owned parent stage name source plan w = (Ok (Inl (d, e)), w')"
  shows "d = stage \<or> d = filepath_Join [parent, name]"
proof -
  have "\<exists>w1 w2. publish_record parent stage name plan w1 = (Ok (Inl (d, e)), w2)" if "d \<noteq> stage"
    using assms that unfolding publish_owned_def by (auto dest!: owning_dir elim!: deferM_OkE)
  then show ?thesis
    unfolding publish_record_def Let_def by (fastforce dest!: owning_dir elim!: thenM_OkE)
qed

text \<open>A file that a new workspace has nothing to do with.\<close>

definition aside :: "environ \<Rightarrow> string list \<Rightarrow> string \<Rightarrow> string \<Rightarrow> bool" where
  "aside e root name p \<longleftrightarrow> \<not> beneath (workspace_path root name) p \<and>
     \<not> prefix (abs_path (root @ [''workspaces'']) @ slash # ''.create-'') p \<and> p \<noteq> ssh_config_path e"

lemma publishWorkspace_keeps:
  assumes run: "publishWorkspace name source plan w = (r, w')"
    and root: "devd_root (orc w) = Inr (abs_path root)" "\<forall>c\<in>set root. comp_ok c"
    and env: "rand_digits (orc w)" and out: "\<And>p. D p \<Longrightarrow> aside (orc w) root name p"
  shows "intact D w w'"
proof -
  let ?D = D and ?e = "orc w" and ?parent = "abs_path (root @ [''workspaces''])"
  have cl: "maintains (intact_in ?e ?D) (clean_up x)" if "\<And>d e p. x = Inl (d, e) \<Longrightarrow> D p \<Longrightarrow> \<not> beneath d p" for x
    unfolding clean_up_def using that keep_RemoveAll by (auto intro!: keepi keep_rules split: sum.splits)
  have chk: "maintains (intact_in ?e ?D) (checkNewWorkspace name)" using calmly_steps(4)[of ?D name] by (simp add: calmly_def keepi)
  from run[unfolded publishWorkspace_def] show ?thesis
  proof (cases rule: thenM_cases)
    case (go u w1)
    note c = check_run[OF go(1), of ?D]
    have i1: "intact ?D w w1" and name: "workspaceNamePattern name" using c by auto
    have e1: "orc w1 = ?e" using i1 by (simp add: intact_def same_env_def)
    let ?rest = "\<lambda>parent. bindM (wrapM ''stage workspace'' (os_MkdirTemp parent (''.create-'' @ name @ ''-''))) (\<lambda>stage.
      bindM (publish_owned parent stage name source plan) clean_up)"
    have rest: "intact_in ?e ?D v v'" if "?rest ?parent v = (y, v')" for v v' y
      using that
    proof (cases rule: bindM_cases)
      case (go stage v1)
      show ?thesis
      proof (cases "orc v = ?e")
        case True
        have mk: "os_MkdirTemp ?parent (''.create-'' @ name @ ''-'') v = (Ok stage, v1)" using go(1) by simp
        obtain x where st: "stage = ?parent @ slash # (''.create-'' @ name @ ''-'') @ x" and x: "list_all is_digit x"
          using MkdirTemp_name(1)[OF mk] env True by (auto simp: rand_digits_def)
        have plain: "plain_dir stage" unfolding st by (rule stage_plain) (use root(2) MkdirTemp_name(3)[OF mk] x in auto)
        have ok: "comp_ok name" using name by (rule valid_name_comp_ok)
        have join: "filepath_Join [?parent, name] = workspace_path root name"
          using filepath_Join_abs_path[of "root @ [''workspaces'']" name] root(2) ok by (simp add: workspace_path_def)
        have nb: "\<not> beneath stage p" if "D p" for p using out[OF that] by (auto simp: aside_def st beneath_def prefix_def)
        have ss: "\<not> D (ssh_config_path ?e)" using out by (auto simp: aside_def)
        have nd: "\<not> beneath (workspace_path root name) p" if "D p" for p using out[OF that] by (simp add: aside_def)
        have "maintains (intact_in ?e ?D) (bindM (publish_owned ?parent stage name source plan) clean_up)"
        proof (rule keepi.m_bind_ok)
          show "maintains (intact_in ?e ?D) (publish_owned ?parent stage name source plan)"
            by (rule keepi_publish_owned[OF plain]) (use nb nd ss in \<open>auto simp: join\<close>)
          show "maintains (intact_in ?e ?D) (clean_up x)" if "publish_owned ?parent stage name source plan a = (Ok x, b)" for a x b
            by (rule cl) (use publish_owned_dir[of ?parent stage name source plan a _ _ b] that nb nd in \<open>auto simp: join\<close>)
        qed
        from maintainsD[OF this go(2)] maintainsD[OF keepi[OF keep_create(3)] mk] show ?thesis using keepi.R_trans by blast
      qed (simp add: intact_in_def)
    qed (use maintainsD[OF keepi[OF keep.m_wrap[OF keep_create(3)]]] in auto)
    from go(2) show ?thesis
    proof (cases rule: thenM_cases)
      case (go v w2)
      then have w2: "w2 = w1" by (auto simp: liftM_def returnM_def failM_def split: sum.splits)
      from go(2)[unfolded w2] show ?thesis
      proof (cases rule: bindM_cases)
        case (go parent w3)
        have p: "parent = ?parent"
          using WorkspacesDir_Ok[OF go(1)] root e1 filepath_Join_abs_path[of root "''workspaces''"] by auto
        have i3: "intact ?D w w3" using keep.R_trans[OF i1 maintainsD[OF keep_config(8) go(1)]] .
        then have "orc w3 = ?e" by (simp add: intact_def same_env_def)
        then show ?thesis using keep.R_trans[OF i3] rest[OF go(2)[unfolded p]] by (simp add: intact_in_def)
      qed (use keep.R_trans[OF i1 maintainsD[OF keep_config(8)]] in auto)
    qed (use i1 in \<open>auto simp: liftM_def returnM_def failM_def split: sum.splits\<close>)
  qed (use check_run[of name w _ w' ?D] in auto)
qed

lemma publishWorkspace_run:
  assumes "publishWorkspace name sourceDisk plan w = (r, w')" "tx w = None" "fs w sourceDisk = Some (Reg i m disk)"
    and "devd_root (orc w) = Inr (abs_path root)" "\<forall>c\<in>set root. comp_ok c"
    and "publishing_env (orc w) (abs_path (root @ [''workspaces''])) sourceDisk"
  shows "tx w' = None \<and> (db w' = db w \<and> (\<forall>ws. r \<noteq> Ok ws) \<or> recorded name (workspace_path root name) disk plan (db w) w')"
proof -
  let ?D = "workspace_file (abs_path (root @ [''workspaces''])) sourceDisk"
  have sp: "spares ?D (orc w)" and src: "?D sourceDisk" using assms(6) by (auto simp: publishing_env_def workspace_file_def)
  from assms(1)[unfolded publishWorkspace_def] show ?thesis
  proof (cases rule: thenM_cases)
    case (go u w1)
    note c = check_run[OF go(1), of ?D]
    from go(2) show ?thesis
    proof (cases rule: thenM_cases)
      case (go v w2)
      then have w2: "w2 = w1" by (auto simp: liftM_def returnM_def failM_def split: sum.splits)
      from go(2)[unfolded w2] show ?thesis
      proof (cases rule: bindM_cases)
        case (go parent w3)
        have i: "intact ?D w w3" "same_db w w3"
          using keep.R_trans[OF _ maintainsD[OF keep_config(8) go(1)]] nodb.R_trans[OF _ maintainsD[OF nodb.m_WorkspacesDir go(1)]] c by auto
        then have o: "orc w3 = orc w" "tx w3 = None" "db w3 = db w" using assms(2) by (auto simp: intact_def same_env_def same_db_def)
        have "orc w1 = orc w" using c by (simp add: intact_def same_env_def)
        then have p: "parent = abs_path (root @ [''workspaces''])"
          using WorkspacesDir_Ok[OF go(1)] assms(4,5) filepath_Join_abs_path[of root "''workspaces''"] by auto
        have "fs w3 sourceDisk = Some (Reg i m disk)" by (rule intactD[OF i(1) sp src assms(3)])
        from publish_from_stage[OF go(2) o(2,1) this _ p assms(5)] show ?thesis
          using c assms(6) o(3) p by simp
      qed (use c maintainsD[OF nodb.m_WorkspacesDir] assms(2) in \<open>auto simp: same_db_def\<close>)
    qed (use c assms(2) in \<open>auto simp: same_db_def liftM_def returnM_def failM_def split: sum.splits\<close>)
  qed (use check_run[of name w _ w' ?D] assms(2) in \<open>auto simp: same_db_def\<close>)
qed

text \<open>C4. A recorded workspace is complete. Whatever system call of \<^verbatim>\<open>publishWorkspace\<close> fails, and wherever the process dies, the database
  afterwards is unchanged (and no success is reported), or it has exactly the new row and its ports and the directory of the row has the boot specification of the plan, a disk with
  the contents of the source disk and, for a copy of another workspace, the mark for a new machine identity. So no partially populated workspace is ever visible through the database. Assumed of the environment: \<^verbatim>\<open>cp\<close> copies when
  it reports success, the programs devd runs change no existing file of a workspace, and the user's ssh configuration is not kept among the workspaces. The source
  disk itself is never changed.\<close>

theorem published_workspace_complete:
  assumes "publishWorkspace name sourceDisk plan w = (r, w')" "tx w = None" "fs w sourceDisk = Some (Reg i m disk)"
    and "devd_root (orc w) = Inr (abs_path root)" "\<forall>c\<in>set root. comp_ok c"
    and "publishing_env (orc w) (abs_path (root @ [''workspaces''])) sourceDisk" "\<not> beneath (workspace_path root name) sourceDisk"
  shows "tx w' = None \<and> fs w' sourceDisk = fs w sourceDisk \<and>
    (db w' = db w \<and> (\<forall>ws. r \<noteq> Ok ws) \<or> recorded name (workspace_path root name) disk plan (db w) w')"
proof -
  have "spares (\<lambda>p. p = sourceDisk) (orc w)"
    using spares_mono[of _ "orc w" "\<lambda>p. p = sourceDisk"] assms(6) by (auto simp: publishing_env_def workspace_file_def)
  then have "fs w' sourceDisk = fs w sourceDisk"
    using intactD[OF publishWorkspace_keeps[OF assms(1,4,5), of "\<lambda>p. p = sourceDisk"] _ refl assms(3)] assms(3,6,7)
    by (auto simp: publishing_env_def aside_def)
  then show ?thesis using publishWorkspace_run[OF assms(1-6)] by blast
qed

section \<open>An example\<close>

text \<open>A host with a template disk and a key pair, on which \<^verbatim>\<open>cp\<close> copies to temporary files.\<close>

definition cp_demo :: "string list \<Rightarrow> file_system \<Rightarrow> string result \<times> file_system" where
  "cp_demo args f =
     (case args of
        [a, b, c, source, temp] \<Rightarrow>
          (case f source of
             Some (Reg i m d) \<Rightarrow> if suffix ''.tmp'' temp then (Inr [], f(temp \<mapsto> Reg 50 m d)) else (Inl (Sys EIO), f)
           | _ \<Rightarrow> (Inl (Sys ENOENT), f))
      | _ \<Rightarrow> (Inl (Sys EIO), f))"

definition publish_demo :: world where
  "publish_demo = blank\<lparr>orc := quiet\<lparr>o_exec := \<lambda>_. cp_demo\<rparr>,
     fs := (fs blank)(''/t'' \<mapsto> Reg 40 384 ''disk'', ''/d/ssh/devd_ed25519'' \<mapsto> Reg 41 384 ''k'', ''/d/ssh/devd_ed25519.pub'' \<mapsto> Reg 42 384 ''p'')\<rparr>"

definition plan_demo :: workspacePlan where
  "plan_demo = provision_plan \<lparr>pv_Name = ''a'', pv_Image = ''i'', pv_CPUs = 1, pv_Memory = 512, pv_Ports = [], pv_Mount = [],
     pv_UserCommand = [], pv_KernelPath = []\<rparr>"

lemma demo_env_at:
  assumes "\<not> suffix ''.tmp'' s" "\<not> prefix (''/d/workspaces'' @ slash # ''.create-'') s" "s \<noteq> ''/h/.ssh/config''"
  shows "publishing_env (orc publish_demo) (abs_path ([''d''] @ [''workspaces''])) s"
proof -
  let ?e = "orc publish_demo"
  have e: "o_exec ?e n args f = cp_demo args f" "o_goos ?e = ''linux''" "o_rand ?e n k = nat_digits k" for n k args f
    by (simp_all add: publish_demo_def quiet_def)
  have "cp_copies ?e"
    by (auto simp: cp_copies_def e clone_args_def cp_demo_def split: option.splits node.splits if_splits)
  moreover have "rand_digits ?e" using nat_digits_are_digits by (simp add: rand_digits_def e list_all_iff)
  moreover have "snd (cp_demo args f) p = f p" if "\<not> suffix ''.tmp'' p" for args f p
    using that by (auto simp: cp_demo_def split: list.splits option.splits node.splits)
  then have "spares (workspace_file parent source) ?e" for parent source
    by (simp add: spares_def workspace_file_def e)
  moreover have p: "abs_path ([''d''] @ [''workspaces'']) = ''/d/workspaces''" by code_simp
  have "filepath_Join [''/h'', ''.ssh'', ''config''] = ''/h/.ssh/config''" by code_simp
  then have "ssh_config_path ?e = ''/h/.ssh/config''" by (simp add: ssh_config_path_def publish_demo_def quiet_def)
  ultimately show ?thesis unfolding publishing_env_def p using assms by (auto simp: beneath_def)
qed

lemma demo_env: "publishing_env (orc publish_demo) (abs_path ([''d''] @ [''workspaces''])) ''/t''"
  by (rule demo_env_at) code_simp+

theorem published_workspace_complete_witness:
  "\<exists>w'. snd (publishWorkspace ''a'' ''/t'' plan_demo publish_demo) = w' \<and> tx w' = None \<and> fs w' ''/t'' = fs publish_demo ''/t'' \<and>
     (db w' = db publish_demo \<and> (\<forall>ws. fst (publishWorkspace ''a'' ''/t'' plan_demo publish_demo) \<noteq> Ok ws) \<or> recorded ''a'' (workspace_path [''d''] ''a'') ''disk'' plan_demo (db publish_demo) w')"
proof -
  have h: "tx publish_demo = None" "fs publish_demo ''/t'' = Some (Reg 40 384 ''disk'')" "devd_root (orc publish_demo) = Inr (abs_path [''d''])"
    using blank_root by (simp_all add: publish_demo_def blank_def devd_root_def split: if_splits)
  have "\<forall>c\<in>set [''d'']. comp_ok c" by (simp add: comp_ok_def)
  moreover have "\<not> beneath (workspace_path [''d''] ''a'') ''/t''" by code_simp
  ultimately show ?thesis using published_workspace_complete[OF surjective_pairing h _ demo_env] by blast
qed

end
