(* ===== verification/JsonUtf8.thy ===== *)
theory JsonUtf8
  imports Json
begin

text \<open>
  The strings that \<^verbatim>\<open>json.Unmarshal\<close> produces are valid UTF-8 whatever bytes it reads: invalid bytes and lone surrogates
  become U+FFFD. So a decoded value can always be written and read back without loss.
\<close>

section \<open>Valid strings\<close>

lemma valid_append: "valid_utf8 a \<Longrightarrow> valid_utf8 b \<Longrightarrow> valid_utf8 (a @ b)"
proof (induction a rule: valid_utf8.induct)
  case (1 a)
  show ?case
  proof (cases "a = []")
    case False
    let ?n = "utf8_len a"
    have n: "?n \<noteq> 0" "valid_utf8 (drop ?n a)" using 1(2) False valid_utf8.simps[of a] by (simp_all split: if_splits)
    have "utf8_len (take ?n a @ drop ?n a @ b) = ?n" by (rule utf8_len_take) (use n in simp)
    then have "utf8_len (a @ b) = ?n" by (metis append.assoc append_take_drop_id)
    then show ?thesis
      using 1(1)[OF False n(1) n(2) 1(3)] utf8_len_le[of a] n False by (simp add: valid_utf8.simps[of "a @ b"])
  qed (use 1 in simp)
qed

lemma valid_take: "0 < utf8_len s \<Longrightarrow> valid_utf8 (take (utf8_len s) s)"
  using utf8_len_take[of s "[]"] by (simp add: valid_utf8.simps[of "take _ _"] valid_utf8.simps[of "[]"])

lemma valid_sequence:
  assumes "0 < utf8_len s" "utf8_len s = length s"
  shows "valid_utf8 s"
  using assms by (simp add: valid_utf8.simps[of s] valid_utf8.simps[of "[]"])

lemma second_byte:
  assumes "2048 \<le> (n :: nat)" "n < 65536" "n < 55296 \<or> 57344 \<le> n"
  shows "n div 4096 = 0 \<Longrightarrow> 32 \<le> n div 64 mod 64" "n div 4096 = 13 \<Longrightarrow> n div 64 mod 64 < 32"
proof -
  have q: "n div 64 div 64 = n div 4096" by (simp flip: div_mult2_eq)
  have d: "n div 64 = 64 * (n div 4096) + n div 64 mod 64" using mult_div_mod_eq[of 64 "n div 64"] q by simp
  show "32 \<le> n div 64 mod 64" if "n div 4096 = 0" using d that assms(1) by linarith
  show "n div 64 mod 64 < 32" if "n div 4096 = 13" using d that assms(3) by linarith
qed

lemma second_byte4:
  assumes "65536 \<le> (n :: nat)" "n < 1114112"
  shows "n div 262144 = 0 \<Longrightarrow> 16 \<le> n div 4096 mod 64" "n div 262144 = 4 \<Longrightarrow> n div 4096 mod 64 < 16"
proof -
  have q: "n div 4096 div 64 = n div 262144" by (simp flip: div_mult2_eq)
  have d: "n div 4096 = 64 * (n div 262144) + n div 4096 mod 64" using mult_div_mod_eq[of 64 "n div 4096"] q by simp
  show "16 \<le> n div 4096 mod 64" if "n div 262144 = 0" using d that assms(1) by linarith
  show "n div 4096 mod 64 < 16" if "n div 262144 = 4" using d that assms(2) by linarith
qed

lemma byte_char_of: "k < 256 \<Longrightarrow> byte (char_of k) = k"
  by simp

text \<open>The encoding of a code point that is not a surrogate is a valid sequence.\<close>

lemma valid_encode:
  assumes "n < 1114112" "n < 55296 \<or> 57344 \<le> n"
  shows "valid_utf8 (utf8_encode n)"
proof -
  consider "n < 128" | "128 \<le> n" "n < 2048" | "2048 \<le> n" "n < 65536" | "65536 \<le> n" by linarith
  then show ?thesis
  proof cases
    case 1
    then show ?thesis by (intro valid_ascii) (simp add: utf8_encode_def)
  next
    case 2
    then have "2 \<le> n div 64" "n div 64 < 32" "n mod 64 < 64" by auto
    with 2 show ?thesis
      by (intro valid_sequence)
        (simp_all add: utf8_encode_def utf8_len_def utf8_need_def utf8_tail_def utf8_second_def in_range_def)
  next
    case 3
    note s = second_byte[OF 3 assms(2)]
    have "n div 4096 < 16" using 3 by auto
    moreover have "n div 64 mod 64 < 64" "n mod 64 < 64" by simp_all
    ultimately show ?thesis using 3 s
      by (intro valid_sequence)
        (auto simp: utf8_encode_def utf8_len_def utf8_need_def utf8_tail_def utf8_second_def in_range_def cont_def numeral_2_eq_2)
  next
    case 4
    note s = second_byte4[OF 4 assms(1)]
    have "n div 262144 < 5" using assms(1) by auto
    moreover have "n div 4096 mod 64 < 64" "n div 64 mod 64 < 64" "n mod 64 < 64" by simp_all
    ultimately show ?thesis using 4 s
      by (intro valid_sequence)
        (auto simp: utf8_encode_def utf8_len_def utf8_need_def utf8_tail_def utf8_second_def in_range_def cont_def numeral_3_eq_3)
  qed
qed

section \<open>String literals\<close>

lemma hex_val_bound: "hex_val c = Some d \<Longrightarrow> d < 16"
  by (auto simp: hex_val_def Let_def split: if_splits)

lemma hex4_bound: "hex4 s = Some (n, r) \<Longrightarrow> n < 65536"
  by (induction s rule: hex4.induct) (auto split: option.splits dest!: hex_val_bound)

lemma read_u_valid: "read_u s = Some (x, r) \<Longrightarrow> valid_utf8 x"
proof -
  assume read: "read_u s = Some (x, r)"
  then obtain n r1 where h: "hex4 s = Some (n, r1)" by (auto simp: read_u_def split: option.splits)
  have n: "n < 65536" using hex4_bound[OF h] .
  consider "x = utf8_encode n" "n < 55296 \<or> 57344 \<le> n" | "x = ufffd"
    | m where "x = utf8_encode (65536 + (n - 55296) * 1024 + (m - 56320))" "n < 56320" "56320 \<le> m" "m < 57344"
    using read h by (auto simp: read_u_def split: option.splits list.splits if_splits)
  then show ?thesis
  proof cases
    case (3 m)
    have "m - 56320 < 1024" using 3(3,4) by linarith
    moreover have "(n - 55296) * 1024 \<le> 1023 * 1024" using 3(2) by (intro mult_le_mono1) linarith
    ultimately show ?thesis unfolding 3(1) by (intro valid_encode) linarith+
  qed (use n in \<open>auto simp: ufffd_def intro!: valid_encode\<close>)
qed

lemma read_escape_valid: "read_escape s = Some (x, r) \<Longrightarrow> valid_utf8 x"
  by (auto simp: read_escape_def valid_ascii split: list.splits if_splits dest: read_u_valid)

lemma read_str_valid: "read_str s = Some (x, r) \<Longrightarrow> valid_utf8 x"
proof (induction s arbitrary: x rule: read_str.induct)
  case (1 s)
  show ?case
  proof (cases s)
    case (Cons c cs)
    have fffd: "valid_utf8 ufffd" by (simp add: ufffd_def valid_encode)
    have one: "valid_utf8 [c]" if "byte c < 128" using that by (simp add: valid_ascii)
    note IH = 1(1-4)[OF Cons]
    have read: "read_str (c # cs) = Some (x, r)" using 1(5) Cons by simp
    show ?thesis
    proof (cases "c = quote \<or> c = backslash \<or> byte c < 32")
      case True
      then show ?thesis using read
        by (subst (asm) read_str.simps)
          (auto split: if_splits option.splits simp: valid_ascii intro!: valid_append intro: IH(1) read_escape_valid)
    next
      case False
      then have c: "c \<noteq> quote" "c \<noteq> backslash" "\<not> byte c < 32" by auto
      consider y where "byte c < 128" "x = [c] @ y" "read_str cs = Some (y, r)"
        | y where "\<not> byte c < 128" "utf8_len s = 0" "x = ufffd @ y" "read_str cs = Some (y, r)"
        | y where "\<not> byte c < 128" "utf8_len s \<noteq> 0" "x = take (utf8_len s) s @ y" "read_str (drop (utf8_len s) s) = Some (y, r)"
        using read c by (subst (asm) read_str.simps) (auto simp: Cons split: if_splits)
      then show ?thesis
      proof cases
        case 1
        then show ?thesis using valid_append[OF one IH(2)[OF c(1,2,3)]] by metis
      next
        case 2
        then show ?thesis using valid_append[OF fffd IH(3)[OF c(1,2,3)]] Cons by metis
      next
        case 3
        then show ?thesis using valid_append[OF valid_take IH(4)[OF c(1,2,3)]] Cons by (metis not_gr_zero)
      qed
    qed
  qed (use 1(5) in \<open>simp add: read_str.simps\<close>)
qed

section \<open>Documents\<close>

fun strings_valid :: "json \<Rightarrow> bool" where
  "strings_valid (JStr s) = valid_utf8 s"
| "strings_valid (JArr vs) = list_all strings_valid vs"
| "strings_valid (JObj ms) = list_all (\<lambda>m. strings_valid (snd m)) ms"
| "strings_valid v = True"

lemma parse_valid:
  "parse f s = Some (v, r) \<Longrightarrow> strings_valid v"
  "parse_elems f s = Some (vs, r) \<Longrightarrow> list_all strings_valid vs"
  "parse_members f s = Some (ms, r) \<Longrightarrow> list_all (\<lambda>m. strings_valid (snd m)) ms"
proof (induction f arbitrary: s v vs ms r)
  case (Suc f)
  { case 1 then show ?case
      by (auto split: list.splits if_splits dest: read_str_valid Suc(2,3)) }
  { case 2 then show ?case
      by (auto split: option.splits prod.splits list.splits if_splits dest: Suc(1,2)) }
  { case 3 then show ?case
      by (auto split: option.splits prod.splits list.splits if_splits dest: Suc(1,3)) }
qed simp_all

lemma json_parse_valid: "json_parse s = Some v \<Longrightarrow> strings_valid v"
  by (auto simp: json_parse_def simp del: parse.simps split: option.splits if_splits dest: parse_valid(1))

section \<open>Decoded structs\<close>

lemma decode_members_keeps:
  assumes "decode_members fl ms x = Inr y" "list_all (\<lambda>m. strings_valid (snd m)) ms" "P x"
    and "\<And>n upd v x y. (n, upd) \<in> set fl \<Longrightarrow> strings_valid v \<Longrightarrow> P x \<Longrightarrow> upd v x = Inr y \<Longrightarrow> P y"
  shows "P y"
  using assms(1-3)
proof (induction ms arbitrary: x)
  case (Cons m ms)
  obtain k v where m: "m = (k, v)" by fastforce
  consider "decode_members fl ms x = Inr y"
    | n upd z where "(n, upd) \<in> set fl" "upd v x = Inr z" "decode_members fl ms z = Inr y"
    using Cons(2) by (auto simp: m split: option.splits if_splits dest!: map_of_SomeD)
  then show ?case
  proof cases
    case (2 n upd z)
    have "strings_valid v" using Cons(3) by (simp add: m)
    from assms(4)[OF 2(1) this Cons(4) 2(2)] have "P z" .
    then show ?thesis using Cons(1)[OF 2(3)] Cons(3) by simp
  qed (use Cons in simp)
qed simp

text \<open>A predicate that every field keeps when it is set from a valid value holds of what is decoded.\<close>

lemma json_Unmarshal_keeps:
  assumes "json_Unmarshal fl s x = Inr y" "P x"
    and "\<And>n upd v x y. (n, upd) \<in> set fl \<Longrightarrow> strings_valid v \<Longrightarrow> P x \<Longrightarrow> upd v x = Inr y \<Longrightarrow> P y"
  shows "P y"
proof -
  obtain v where v: "json_parse s = Some v" using assms(1) by (auto simp: json_Unmarshal_def split: option.splits)
  consider "v = JNull" "y = x" | ms where "v = JObj ms" "decode_members fl ms x = Inr y"
    using assms(1) v by (auto simp: json_Unmarshal_def split: json.splits)
  then show ?thesis
  proof cases
    case (2 ms)
    then have "list_all (\<lambda>m. strings_valid (snd m)) ms" using json_parse_valid[OF v] by simp
    from decode_members_keeps[where P = P, OF 2(2) this assms(2)] assms(3) show ?thesis by blast
  qed (use assms(2) in simp)
qed

lemma elems_valid: "elems string_elem vs = Inr xs \<Longrightarrow> list_all strings_valid vs \<Longrightarrow> list_all valid_utf8 xs"
proof (induction vs arbitrary: xs)
  case (Cons v vs)
  then show ?case by (cases v) (auto simp: valid_ascii)
qed simp

lemma set_string_valid:
  "set_string f v x = Inr y \<Longrightarrow> strings_valid v \<Longrightarrow> \<exists>s. valid_utf8 s \<and> y = f s x"
  by (cases v) (auto simp: set_string_def)

lemma set_strings_valid:
  "set_list string_elem f v x = Inr y \<Longrightarrow> strings_valid v \<Longrightarrow> \<exists>ss. list_all valid_utf8 ss \<and> y = f ss x"
  by (cases v) (auto simp: set_list_def dest: elems_valid)

end
