(* ===== verification/TemplateFrames.thy ===== *)
theory TemplateFrames
  imports ProvisionLaws JsonUtf8
begin

text \<open>
  Tools for the cache of image templates: the manifest is read back as written, what counts as a cache entry, and two frame conditions,
  one saying that a command adds no regular file to a set of paths, the other that it keeps the size of a file.
\<close>

section \<open>The manifest\<close>

definition Manifest_ok :: "ImageManifest \<Rightarrow> bool" where
  "Manifest_ok m \<longleftrightarrow> - (2 ^ 63) \<le> im_DiskMiB m \<and> im_DiskMiB m < 2 ^ 63 \<and> - (2 ^ 63) \<le> im_FormatVersion m \<and> im_FormatVersion m < 2 ^ 63 \<and>
     valid_utf8 (im_Image m) \<and> valid_utf8 (im_Digest m) \<and> valid_utf8 (im_Architecture m) \<and> (\<forall>e\<in>set (im_Environment m). valid_utf8 e) \<and>
     valid_utf8 (im_WorkingDir m) \<and> valid_utf8 (im_CreatedAt m) \<and> rfc3339_ok (im_CreatedAt m)"

definition manifest_text :: "ImageManifest \<Rightarrow> string" where
  "manifest_text m = json_MarshalIndent (JObj (ImageManifest_members m)) @ [CHR 0x0A]"

definition read_manifest :: "string \<Rightarrow> ImageManifest result" where
  "read_manifest c = json_Unmarshal ImageManifest_fields c zero_ImageManifest"

lemma ImageManifest_fields_select:
  "k \<in> set (map fst ImageManifest_fields) \<Longrightarrow> select_field (map fst ImageManifest_fields) k = Some k"
  by (simp add: select_field_def)

lemma decode_ImageManifest:
  assumes "Manifest_ok m"
  shows "decode_members ImageManifest_fields (ImageManifest_members m) zero_ImageManifest = Inr m"
proof -
  let ?D = "decode_members ImageManifest_fields"
  have str:
    "?D [(''image'', JStr v)] x = Inr (x\<lparr>im_Image := v\<rparr>)" "?D [(''digest'', JStr v)] x = Inr (x\<lparr>im_Digest := v\<rparr>)"
    "?D [(''architecture'', JStr v)] x = Inr (x\<lparr>im_Architecture := v\<rparr>)" for v x
    by (simp_all add: select_field_def ImageManifest_fields_def set_string_def)
  have num:
    "?D [(''disk_mib'', JNum (strconv_Itoa (im_DiskMiB m)))] x = Inr (x\<lparr>im_DiskMiB := im_DiskMiB m\<rparr>)"
    "?D [(''format_version'', JNum (strconv_Itoa (im_FormatVersion m)))] x = Inr (x\<lparr>im_FormatVersion := im_FormatVersion m\<rparr>)" for x
    using assms by (simp_all add: select_field_def ImageManifest_fields_def set_int_def atoi_Itoa Manifest_ok_def)
  have env: "?D (if im_Environment m = [] then [] else [(''environment'', JArr (map JStr (im_Environment m)))]) x
      = Inr (if im_Environment m = [] then x else x\<lparr>im_Environment := im_Environment m\<rparr>)" for x
    by (simp add: select_field_def ImageManifest_fields_def set_list_def elems_JStr)
  have dir: "?D (omit_empty ''working_dir'' v) x = Inr (if v = [] then x else x\<lparr>im_WorkingDir := v\<rparr>)" for v x
    by (subst decode_omit_empty[OF ImageManifest_fields_select]) (simp_all add: ImageManifest_fields_def)
  have time: "?D [(''created_at'', JStr (im_CreatedAt m))] x = Inr (x\<lparr>im_CreatedAt := im_CreatedAt m\<rparr>)" for x
    using assms by (simp add: select_field_def ImageManifest_fields_def set_time_def Manifest_ok_def)
  have members: "ImageManifest_members m =
     [(''image'', JStr (im_Image m))] @ [(''digest'', JStr (im_Digest m))] @ [(''architecture'', JStr (im_Architecture m))] @
     [(''disk_mib'', JNum (strconv_Itoa (im_DiskMiB m)))] @ [(''format_version'', JNum (strconv_Itoa (im_FormatVersion m)))] @
     (if im_Environment m = [] then [] else [(''environment'', JArr (map JStr (im_Environment m)))]) @
     omit_empty ''working_dir'' (im_WorkingDir m) @ [(''created_at'', JStr (im_CreatedAt m))]"
    by (simp only: ImageManifest_members_def append_Cons append_Nil)
  show ?thesis
    unfolding members by (simp only: decode_members_append str num env dir time result_bind.simps) (simp add: zero_ImageManifest_def)
qed

interpretation manifest_codec: codec Manifest_ok manifest_text read_manifest
proof
  fix m assume m: "Manifest_ok m"
  then have "json_wf (JObj (ImageManifest_members m))"
    by (auto simp: ImageManifest_members_def Manifest_ok_def omit_empty_def valid_ascii)
  then show "read_manifest (manifest_text m) = Inr m"
    using json_round_trip(1) decode_ImageManifest[OF m] by (simp add: json_Unmarshal_def manifest_text_def read_manifest_def)
qed

section \<open>Cache entries\<close>

definition disk_fits :: "ImageManifest \<Rightarrow> node option \<Rightarrow> bool" where
  "disk_fits m x = (case x of Some (Reg i p c) \<Rightarrow> int (length c) = im_DiskMiB m * 1024 * 1024 | _ \<Rightarrow> False)"

text \<open>The manifest of the entry in a directory, if \<^verbatim>\<open>loadTemplate\<close> would accept it.\<close>

definition entry :: "file_system \<Rightarrow> string \<Rightarrow> ImageManifest option" where
  "entry f dir =
     (case f (dir @ ''/manifest.json'') of
        Some (Reg i p c) \<Rightarrow>
          (case read_manifest c of
             Inr m \<Rightarrow>
               if im_FormatVersion m = TemplateFormatVersion \<and> im_DiskMiB m = DefaultDiskMiB \<and> disk_fits m (f (dir @ ''/rootfs.ext4''))
               then Some m else None
           | Inl e \<Rightarrow> None)
      | _ \<Rightarrow> None)"

lemma template_names: "comp_ok templateDiskName" "comp_ok manifestName" "comp_ok ''helper-root''" "comp_ok ''conversion.log''"
    "comp_ok ''devd-image-helper''"
  by (simp_all add: comp_ok_def templateDiskName_def manifestName_def)

lemma plain_join: "plain_dir d \<Longrightarrow> comp_ok x \<Longrightarrow> filepath_Join [d, x] = d @ slash # x"
  by (simp add: plain_dir_def)

lemma template_paths:
  assumes "plain_dir d"
  shows "filepath_Join [d, templateDiskName] = d @ ''/rootfs.ext4''" "filepath_Join [d, manifestName] = d @ ''/manifest.json''"
    "filepath_Join [d, ''helper-root''] = d @ ''/helper-root''" "filepath_Join [d, ''conversion.log''] = d @ ''/conversion.log''"
    "filepath_Join [d, ''devd-image-helper''] = d @ ''/devd-image-helper''"
  using plain_join[OF assms template_names(1)] plain_join[OF assms template_names(2)] plain_join[OF assms template_names(3)]
    plain_join[OF assms template_names(4)] plain_join[OF assms template_names(5)]
  by (simp_all add: templateDiskName_def manifestName_def)

text \<open>\<^verbatim>\<open>loadTemplate\<close> reads an entry and changes no file.\<close>

lemma loadTemplate_Ok:
  assumes "loadTemplate d w = (Ok t, w')" "plain_dir d"
  shows "fs w' = fs w \<and> tp_Dir t = d \<and> tp_DiskPath t = d @ ''/rootfs.ext4'' \<and> entry (fs w) d = Some (tp_Manifest t)"
proof -
  from assms obtain c w1 m x where 1: "os_ReadFile (d @ ''/manifest.json'') w = (Ok c, w1)" and m: "read_manifest c = Inr m"
    and v: "im_FormatVersion m = TemplateFormatVersion" "im_DiskMiB m = DefaultDiskMiB"
    and 2: "os_Stat (d @ ''/rootfs.ext4'') w1 = (Ok x, w')"
    and x: "(case x of Reg i p c \<Rightarrow> if int (length c) \<noteq> im_DiskMiB m * 1024 * 1024 then failM (Msg ''invalid template disk'')
        else returnM \<lparr>tp_Dir = d, tp_DiskPath = d @ ''/rootfs.ext4'', tp_Manifest = m, tp_Cached = False\<rparr>
      | _ \<Rightarrow> failM (Msg ''invalid template disk'')) w' = (Ok t, w')"
    unfolding loadTemplate_def template_paths[OF assms(2)] read_manifest_def Let_def
    by (auto elim!: bindM_OkE split: if_splits node.splits)
  have f1: "fs w1 = fs w" "\<exists>i p. fs w (d @ ''/manifest.json'') = Some (Reg i p c)"
    using syscall_OkE[OF 1[unfolded os_ReadFile_def]] by (auto split: option.splits node.splits)
  have f2: "fs w' = fs w" "fs w (d @ ''/rootfs.ext4'') = Some x"
    using syscall_OkE[OF 2[unfolded os_Stat_def]] f1 by (auto split: option.splits)
  show ?thesis using f1 f2 m v x by (auto simp: entry_def disk_fits_def split: node.splits if_splits)
qed

lemma nofs_loadTemplate: "maintains same_files (loadTemplate d)"
  unfolding loadTemplate_def Let_def by (auto intro!: nofs.rules split: node.splits)

section \<open>Commands that add no file\<close>

text \<open>External programs neither create nor change regular files at the paths of \<open>C\<close>.\<close>

definition fenced :: "(string \<Rightarrow> bool) \<Rightarrow> environ \<Rightarrow> bool" where
  "fenced C e \<longleftrightarrow> (\<forall>n args f p i m c. C p \<longrightarrow> snd (o_exec e n args f) p = Some (Reg i m c) \<longrightarrow> f p = Some (Reg i m c))"

definition no_growth :: "(string \<Rightarrow> bool) \<Rightarrow> world \<Rightarrow> world \<Rightarrow> bool" where
  "no_growth C w w' \<longleftrightarrow> same_env w w' \<and>
     (fenced C (orc w) \<longrightarrow> (\<forall>p i m c. C p \<longrightarrow> fs w' p = Some (Reg i m c) \<longrightarrow> fs w p = Some (Reg i m c)))"

lemma no_growthI: "same_env w w' \<Longrightarrow> (\<And>p i m c. C p \<Longrightarrow> fs w' p = Some (Reg i m c) \<Longrightarrow> fs w p = Some (Reg i m c)) \<Longrightarrow> no_growth C w w'"
  by (simp add: no_growth_def)

interpretation grow: ignores_locks "no_growth C" for C
proof
  fix u v w :: world
  assume a: "no_growth C u v" "no_growth C v w"
  then have "same_env u v" "same_env v w" by (simp_all add: no_growth_def)
  then have "same_env u w" "orc v = orc u" using same_env_trans by (auto simp: same_env_def)
  then show "no_growth C u w" using a by (simp add: no_growth_def)
qed (auto simp: no_growth_def same_env_def tick_def)

interpretation growp: ignores_procs "no_growth C" for C
  by unfold_locales (auto simp: no_growth_def same_env_def)

lemma grow_exec: "maintains (no_growth C) (sys_exec args)"
  unfolding sys_exec_def
  by (rule grow.m_syscall_part) (auto simp: no_growth_def same_env_def fenced_def split_beta)

lemma mkdir_missing_growth:
  "mkdir_missing m ds f = Inr g \<Longrightarrow> g p = Some (Reg i k c) \<Longrightarrow> f p = Some (Reg i k c)"
proof (induction m ds f rule: mkdir_missing.induct)
  case (2 mode d ds f)
  then show ?case by (cases "f d"; cases "the (f d)") (auto simp: fun_upd_apply[abs_def] split: if_splits)
qed simp

lemma grow_dirs:
  "maintains (no_growth C) (os_MkdirAll p m)" "maintains (no_growth C) (os_MkdirTemp p s)"
  "maintains (no_growth C) (os_Remove p)" "maintains (no_growth C) (os_RemoveAll p)"
proof -
  show "maintains (no_growth C) (os_MkdirAll p m)"
    unfolding os_MkdirAll_def
    by (rule grow.m_syscall_part)
      (auto simp: grow.R_refl same_env_def intro!: no_growthI intro: mkdir_missing_growth split: sum.splits)
  show "maintains (no_growth C) (os_MkdirTemp p s)" "maintains (no_growth C) (os_Remove p)"
    unfolding os_MkdirTemp_def os_Remove_def
    by (rule grow.m_syscall;
        auto simp: grow.R_refl same_env_def set_file_def intro!: no_growthI split: option.splits node.splits if_splits)+
  show "maintains (no_growth C) (os_RemoveAll p)"
    unfolding os_RemoveAll_def
    by (rule grow.m_syscall_part) (auto simp: no_growth_def same_env_def remove_tree_def split: if_splits)
qed

lemma grow_at:
  assumes "\<not> C p"
  shows "maintains (no_growth C) (os_WriteFile p d m)" "maintains (no_growth C) (sys_open_trunc p m)"
    "maintains (no_growth C) (sys_write p d)" "maintains (no_growth C) (sys_truncate p sz)"
    "maintains (no_growth C) (sys_create_excl p m)" "maintains (no_growth C) (sys_open_create p m)"
proof -
  have at: "no_growth C w (set_file p x (w\<lparr>next_ino := j\<rparr>))" "no_growth C w (set_file p x w)" for w x j
    using assms by (auto simp: no_growth_def same_env_def set_file_def)
  have ap: "no_growth C w (append_bytes p s w)" for w s
    by (auto simp: append_bytes_def grow.R_refl at split: option.splits node.splits)
  show tr: "maintains (no_growth C) (sys_open_trunc p m)" "maintains (no_growth C) (sys_truncate p sz)"
    "maintains (no_growth C) (sys_create_excl p m)" for m
    unfolding sys_open_trunc_def sys_truncate_def sys_create_excl_def
    by (rule grow.m_syscall; simp add: grow.R_refl at split: option.splits node.splits)+
  show wr: "maintains (no_growth C) (sys_write p d)" for d
    unfolding sys_write_def by (rule grow.m_syscall_part) (auto simp: ap)
  show "maintains (no_growth C) (os_WriteFile p d m)"
    unfolding os_WriteFile_def by (intro grow.rules tr wr)
  have fd: "no_growth C w (snd (open_fd i v))" if "no_growth C w v" for w v i
    using that by (auto simp: no_growth_def same_env_def open_fd_def)
  show "maintains (no_growth C) (sys_open_create p m)"
    unfolding sys_open_create_def
    by (rule grow.m_syscall) (simp add: grow.R_refl Let_def split_beta fd at split: option.splits node.splits)
qed

lemma grow_Rename: "(\<And>q. C q \<Longrightarrow> \<not> beneath b q) \<Longrightarrow> maintains (no_growth C) (os_Rename a b)"
  unfolding os_Rename_def
  by (rule grow.m_syscall)
    (auto simp: no_growth_def same_env_def rename_tree_def rename_file_def beneath_def split: option.splits if_splits)

lemma grow_config: "maintains (no_growth C) ImagesDir"
  unfolding ImagesDir_def DevdDir_def os_Getenv_def os_UserHomeDir_def Let_def
  by (intro grow.rules grow_dirs) (auto intro!: grow.rules)

lemma grow_find: "maintains (no_growth C) (first_file cs e)" "maintains (no_growth C) signaturePolicy"
  "maintains (no_growth C) (findE2fsTool n)" "maintains (no_growth C) CheckDependencies"
  "maintains (no_growth C) (companionPath v n)"
proof -
  show ff: "maintains (no_growth C) (first_file cs e)" for cs e by (induction cs) (auto intro!: grow.rules)
  show "maintains (no_growth C) signaturePolicy" "maintains (no_growth C) (companionPath v n)"
    unfolding signaturePolicy_def companionPath_def os_Getenv_def os_Executable_def exec_LookPath_def Let_def
    by (auto intro!: grow.rules ff)
  show "maintains (no_growth C) CheckDependencies" and "maintains (no_growth C) (findE2fsTool n)" for n
    unfolding CheckDependencies_def findE2fsTool_def exec_LookPath_def by (auto intro!: grow.rules ff)
qed

lemma grow_ensureLocalImage: "maintains (no_growth C) (ensureLocalImage i)"
  unfolding ensureLocalImage_def inspectImage_def Let_def by (auto intro!: grow.rules grow_exec grow_find)

lemmas grow_rules = grow.rules grow.lock_rules growp.proc_rules grow_exec grow_dirs grow_find grow_config grow_ensureLocalImage

section \<open>The size of a file\<close>

text \<open>External programs keep the file \<open>z\<close> regular and do not change its size.\<close>

definition keeps_size :: "string \<Rightarrow> environ \<Rightarrow> bool" where
  "keeps_size z e \<longleftrightarrow> (\<forall>n args f i m c. f z = Some (Reg i m c) \<longrightarrow>
     (\<exists>j k d. snd (o_exec e n args f) z = Some (Reg j k d) \<and> length d = length c))"

definition sized :: "string \<Rightarrow> world \<Rightarrow> world \<Rightarrow> bool" where
  "sized z w w' \<longleftrightarrow> same_env w w' \<and>
     (keeps_size z (orc w) \<longrightarrow> (\<forall>i m c. fs w z = Some (Reg i m c) \<longrightarrow> (\<exists>j k d. fs w' z = Some (Reg j k d) \<and> length d = length c)))"

lemma sizedD:
  "sized z w w' \<Longrightarrow> keeps_size z (orc w) \<Longrightarrow> fs w z = Some (Reg i m c) \<Longrightarrow> \<exists>j k d. fs w' z = Some (Reg j k d) \<and> length d = length c"
  by (auto simp: sized_def)

interpretation size: ignores_locks "sized z" for z
proof
  fix u v w :: world
  assume uv: "sized z u v" and vw: "sized z v w"
  have "same_env u v" "same_env v w" using uv vw by (simp_all add: sized_def)
  then have e: "same_env u w" "orc v = orc u" using same_env_trans by (auto simp: same_env_def)
  have "\<exists>j k d. fs w z = Some (Reg j k d) \<and> length d = length c" if "keeps_size z (orc u)" "fs u z = Some (Reg i m c)" for i m c
  proof -
    note k = that
    obtain j k' d where d: "fs v z = Some (Reg j k' d)" "length d = length c" using sizedD[OF uv k] by blast
    then show ?thesis using sizedD[OF vw _ d(1)] k(1) e(2) by auto
  qed
  then show "sized z u w" using e(1) by (simp add: sized_def)
qed (auto simp: sized_def same_env_def tick_def)

interpretation sizep: ignores_procs "sized z" for z
  by unfold_locales (auto simp: sized_def same_env_def)

lemma intact_sized: "intact (\<lambda>p. p = z) w w' \<Longrightarrow> spares (\<lambda>p. p = z) (orc w) \<Longrightarrow> sized z w w'"
  by (auto simp: intact_def sized_def)

lemma size_exec: "maintains (sized z) (sys_exec args)"
  unfolding sys_exec_def
  by (rule size.m_syscall_part) (auto simp: sized_def same_env_def keeps_size_def split_beta)

text \<open>A command that only changes other files keeps the size.\<close>

lemma size_create:
  "maintains (sized z) (os_MkdirAll p m)" "maintains (sized z) (sys_create_excl p m)"
proof -
  have m: "\<exists>j k d. g z = Some (Reg j k d) \<and> length d = length c"
    if "mkdir_missing mode ds f = Inr g" "f z = Some (Reg i m c)" for mode ds f g i m c
    using mkdir_missing_intact[OF that(1), of z] that(2) by auto
  show "maintains (sized z) (os_MkdirAll p m)"
    unfolding os_MkdirAll_def
    by (rule size.m_syscall_part) (auto simp: sized_def same_env_def m split: sum.splits)
  show "maintains (sized z) (sys_create_excl p m)"
    unfolding sys_create_excl_def by (rule size.m_syscall) (auto simp: sized_def same_env_def set_file_def)
qed

lemma size_at:
  assumes "p \<noteq> z"
  shows "maintains (sized z) (os_WriteFile p d m)" "maintains (sized z) (sys_open_trunc p m)"
    "maintains (sized z) (sys_write p d)" "maintains (sized z) (os_Remove p)"
proof -
  have at: "sized z w (set_file p x (w\<lparr>next_ino := j\<rparr>))" "sized z w (set_file p x w)" for w x j
    using assms by (auto simp: sized_def same_env_def set_file_def)
  have ap: "sized z w (append_bytes p s w)" for w s
    by (auto simp: append_bytes_def size.R_refl at split: option.splits node.splits)
  show tr: "maintains (sized z) (sys_open_trunc p m)" "maintains (sized z) (os_Remove p)" for m
    unfolding sys_open_trunc_def os_Remove_def
    by (rule size.m_syscall; simp add: size.R_refl at split: option.splits node.splits)+
  show wr: "maintains (sized z) (sys_write p d)" for d
    unfolding sys_write_def by (rule size.m_syscall_part) (auto simp: ap)
  show "maintains (sized z) (os_WriteFile p d m)"
    unfolding os_WriteFile_def by (intro size.rules tr wr)
qed

lemma size_tree:
  "\<not> beneath d z \<Longrightarrow> maintains (sized z) (os_RemoveAll d)"
  "\<not> beneath a z \<Longrightarrow> \<not> beneath b z \<Longrightarrow> maintains (sized z) (os_Rename a b)"
proof -
  show "maintains (sized z) (os_RemoveAll d)" if "\<not> beneath d z"
    unfolding os_RemoveAll_def by (rule size.m_syscall_part) (use that in \<open>auto simp: sized_def same_env_def remove_tree_def\<close>)
  show "maintains (sized z) (os_Rename a b)" if "\<not> beneath a z" "\<not> beneath b z"
    unfolding os_Rename_def
    by (rule size.m_syscall)
      (use that in \<open>auto simp: sized_def same_env_def rename_tree_def rename_file_def beneath_def split: option.splits\<close>)
qed

lemma size_find: "maintains (sized z) (first_file cs e)" "maintains (sized z) (findE2fsTool n)" "maintains (sized z) (companionPath v n)"
proof -
  show ff: "maintains (sized z) (first_file cs e)" for cs e by (induction cs) (auto intro!: size.rules)
  show "maintains (sized z) (findE2fsTool n)" "maintains (sized z) (companionPath v n)"
    unfolding findE2fsTool_def companionPath_def os_Getenv_def os_Executable_def exec_LookPath_def Let_def
    by (auto intro!: size.rules ff)
qed

lemmas size_rules = size.rules size.lock_rules sizep.proc_rules size_exec size_create size_find

end
