(* ===== verification/TemplateLaws.thy ===== *)
theory TemplateLaws
  imports TemplateFrames
begin

text \<open>
  The cache of image templates is sound: an entry appears only as a whole, under the key of its own digest, and what \<^verbatim>\<open>EnsureTemplate\<close>
  returns is such an entry. Whatever call fails and wherever the process dies, no half-built template is ever taken for a valid one.
\<close>

section \<open>Runs with deferred calls\<close>

lemma deferM_exits:
  assumes "deferM m c w = (r, w')"
  obtains (crash) "m w = (Crash, w')" "r = Crash"
    | (ended) r1 w1 rc where "m w = (r1, w1)" "c w1 = (rc, w')" "r = r1 \<or> r = Crash"
proof -
  obtain r1 w1 where m: "m w = (r1, w1)" by fastforce
  obtain rc w2 where c: "c w1 = (rc, w2)" by fastforce
  show thesis
  proof (cases r1)
    case Crash
    then show ?thesis using assms m that(1) by (simp add: deferM_def tryM_def)
  next
    case (Ok x)
    then have "w' = w2 \<and> (r = r1 \<or> r = Crash)"
      using assms m c by (auto simp: deferM_def tryM_def thenM_def bindM_def ignoreM_def returnM_def split: outcome.splits)
    then show ?thesis using that(2)[OF m] c by simp
  next
    case (Err e)
    then have "w' = w2 \<and> (r = r1 \<or> r = Crash)"
      using assms m c by (auto simp: deferM_def tryM_def thenM_def bindM_def ignoreM_def returnM_def failM_def split: outcome.splits)
    then show ?thesis using that(2)[OF m] c by simp
  qed
qed

section \<open>Building in the staging directory\<close>

lemma beneath_trans: "beneath a b \<Longrightarrow> beneath b c \<Longrightarrow> beneath a c"
  by (auto simp: beneath_def prefix_def)

lemma beneath_child: "beneath d (d @ slash # x)"
  by (simp add: beneath_def prefix_def)

lemma not_beneath_child: "\<not> beneath (d @ slash # x) d"
  by (auto simp: beneath_def prefix_def)

lemma grow_writeJSON:
  assumes "\<And>q. C q \<Longrightarrow> \<not> beneath p q" "\<not> C (p @ ''.tmp'')"
  shows "maintains (no_growth C) (storage_writeJSON p v m)"
  unfolding storage_writeJSON_def syncFile_def syncDir_def drop_temp_def Let_def
  by (intro grow_rules grow_Rename grow_at(1)) (use assms in auto)

lemma grow_prepareTemplate:
  assumes T: "plain_dir T" "plain_dir (T @ ''/helper-root'')" and C: "\<And>q. beneath T q \<Longrightarrow> \<not> C q"
  shows "maintains (no_growth C) (prepareTemplate T img man)"
proof -
  have out: "\<not> C (T @ slash # x)" for x using C beneath_child by blast
  have no: "\<not> beneath (T @ slash # x) q" if "C q" for x q using C beneath_trans[OF beneath_child] that by blast
  have cf: "maintains (no_growth C) (copyFile a (T @ slash # x) m)" for a x m
    unfolding copyFile_def by (intro grow_rules grow_at out)
  have ph: "maintains (no_growth C) (prepareHelperRoot (T @ ''/helper-root''))"
    unfolding prepareHelperRoot_def ImageHelperPath_def template_paths[OF T(2)]
    using cf[of _ "''helper-root/devd-image-helper''"] by (intro grow_rules) simp
  have ce: "maintains (no_growth C) (createExt4 (T @ ''/rootfs.ext4'') n)" for n
    unfolding createExt4_def using out[of "''rootfs.ext4''"] by (intro grow_rules grow_at) simp_all
  have pk: "maintains (no_growth C) (Pack \<lparr>po_HelperRoot = a, po_SourceRoot = b, po_TargetDisk = c, po_CPUs = x, po_Memory = y,
      po_LogFile = T @ ''/conversion.log''\<rparr>)" for a b c x y
    unfolding Pack_def RuntimePath_def Let_def using out[of "''conversion.log''"] by (auto intro!: grow_rules grow_at(2))
  have wj: "maintains (no_growth C) (storage_writeJSON (T @ ''/manifest.json'') v m)" for v m
    using no[of _ "''manifest.json''"] out[of "''manifest.json.tmp''"] by (intro grow_writeJSON) auto
  show ?thesis
    unfolding prepareTemplate_def populateTemplate_def Let_def template_paths[OF T(1)] syncFile_def syncDir_def
    by (auto intro!: grow_rules ph ce pk wj)
qed

lemma nofs_sync: "maintains same_files (syncFile p)" "maintains same_files (syncDir p)"
  unfolding syncFile_def syncDir_def by (intro nofs.rules nofs.lock_rules)+

lemma writeJSON_Ok:
  assumes "storage_writeJSON p v m w = (Ok u, w')"
  shows "\<exists>i k. fs w' p = Some (Reg i k (json_MarshalIndent v @ [CHR 0x0A]))"
proof -
  let ?t = "p @ ''.tmp''" and ?c = "json_MarshalIndent v @ [CHR 0x0A]"
  from assms obtain u1 w1 u2 w2 u3 w3 where 1: "os_WriteFile ?t ?c m w = (Ok u1, w1)" and 2: "syncFile ?t w1 = (Ok u2, w2)"
    and 3: "os_Rename ?t p w2 = (Ok u3, w3)" and 4: "syncDir (filepath_Dir p) w3 = (Ok u, w')"
    unfolding storage_writeJSON_def Let_def by (auto elim!: thenM_OkE tryM_OkE)
  have f: "fs w2 = fs w1" "fs w' = fs w3" using maintainsD[OF nofs_sync(1) 2] maintainsD[OF nofs_sync(2) 4]
    by (auto simp: same_files_def)
  obtain i k where "fs w1 ?t = Some (Reg i k ?c)" by (rule WriteFile_Ok[OF 1])
  then have "fs w3 = (fs w2)(?t := None, p := Some (Reg i k ?c))" using Rename_file_Ok[OF 3] f by simp
  then show ?thesis using f by simp
qed

text \<open>The commands that fill the staging directory \<open>T\<close> keep the directory itself, and once the disk has its size, they keep it.\<close>

lemma staging_frames:
  assumes T: "plain_dir T" "plain_dir (T @ ''/helper-root'')"
  shows "maintains (intact (\<lambda>p. p = T)) (prepareHelperRoot (T @ ''/helper-root''))"
    "maintains (sized (T @ ''/rootfs.ext4'')) (prepareHelperRoot (T @ ''/helper-root''))"
    "maintains (intact (\<lambda>p. p = T)) (storage_writeJSON (T @ ''/manifest.json'') v m)"
    "maintains (sized (T @ ''/rootfs.ext4'')) (storage_writeJSON (T @ ''/manifest.json'') v m)"
proof -
  let ?D = "\<lambda>p. p = T" and ?z = "T @ ''/rootfs.ext4''"
  have D: "\<not> ?D (T @ slash # x)" "\<not> beneath (T @ slash # x) T" for x using not_beneath_child by auto
  have "maintains (intact ?D) (copyFile a (T @ slash # x) k)" for a x k
    unfolding copyFile_def by (intro keep_rules keep_at(4)[of ?D "T @ slash # x"] D)
  from this[of _ "''helper-root/devd-image-helper''"]
  show "maintains (intact ?D) (prepareHelperRoot (T @ ''/helper-root''))"
    unfolding prepareHelperRoot_def ImageHelperPath_def template_paths[OF T(2)] by (intro keep_rules) simp
  have "maintains (sized ?z) (copyFile a (T @ ''/helper-root/devd-image-helper'') k)" for a k
    unfolding copyFile_def by (intro size_rules size_at) simp
  then show "maintains (sized ?z) (prepareHelperRoot (T @ ''/helper-root''))"
    unfolding prepareHelperRoot_def ImageHelperPath_def template_paths[OF T(2)] by (intro size_rules) simp
  have w: "maintains (intact ?D) (os_WriteFile (T @ slash # x) d k)" "maintains (intact ?D) (os_Remove (T @ slash # x))" for x d k
    by (intro keep_at D)+
  have r: "maintains (intact ?D) (os_Rename (T @ slash # x) (T @ slash # y))" for x y by (rule keep_Rename) (use D in auto)
  show "maintains (intact ?D) (storage_writeJSON (T @ ''/manifest.json'') v m)"
    using w[of "''manifest.json.tmp''"] r[of "''manifest.json.tmp''" "''manifest.json''"]
    unfolding storage_writeJSON_def syncFile_def syncDir_def drop_temp_def Let_def by (intro keep_rules) simp_all
  show "maintains (sized ?z) (storage_writeJSON (T @ ''/manifest.json'') v m)"
    unfolding storage_writeJSON_def syncFile_def syncDir_def drop_temp_def Let_def
    by (intro size_rules size_at size_tree) (auto simp: beneath_def)
qed

lemma createExt4_Ok:
  assumes run: "createExt4 (T @ ''/rootfs.ext4'') n w = (Ok u, w')" and "keeps_size (T @ ''/rootfs.ext4'') (orc w)" "0 \<le> n"
  shows "intact (\<lambda>p. p = T) w w' \<and> (\<exists>i m c. fs w' (T @ ''/rootfs.ext4'') = Some (Reg i m c) \<and> int (length c) = n * 1024 * 1024)"
proof -
  let ?z = "T @ ''/rootfs.ext4''"
  have D: "?z \<noteq> T" by simp
  have i: "maintains (intact (\<lambda>p. p = T)) (createExt4 ?z n)"
    unfolding createExt4_def findE2fsTool_def exec_LookPath_def
  proof (intro keep_rules keep_at(5)[where D = "\<lambda>p. p = T" and p = ?z], rule D)
    show "maintains (intact (\<lambda>p. p = T)) (first_file cs e)" for cs e by (induction cs) (auto intro!: keep_rules)
  qed
  from run obtain u1 w1 u2 w2 u3 w3 t w4 out where
    1: "sys_create_excl ?z 384 w = (Ok u1, w1)" and 2: "sys_truncate ?z (n * 1024 * 1024) w1 = (Ok u2, w2)" and
    3: "sys_noop w2 = (Ok u3, w3)" and 4: "findE2fsTool ''mke2fs'' w3 = (Ok t, w4)" and
    5: "sys_exec [t, ''-q'', ''-t'', ''ext4'', ''-F'', ''-m'', ''0'', ''-L'', ''devd-root'', ?z] w4 = (Ok out, w')"
    unfolding createExt4_def by (elim thenM_OkE tryM_OkE bindM_OkE) auto
  obtain j k where "fs w1 ?z = Some (Reg j k [])"
    using syscall_OkE[OF 1[unfolded sys_create_excl_def]] by (auto simp: set_file_def split: if_splits)
  then obtain c where c: "fs w2 ?z = Some (Reg j k c)" "length c = nat (n * 1024 * 1024)"
    using syscall_OkE[OF 2[unfolded sys_truncate_def]] assms(3) by (auto simp: set_file_def split: if_splits)
  have e: "orc w2 = orc w" using maintainsD[OF env.m_create_excl 1] maintainsD[OF env.m_truncate 2] by (simp add: same_env_def)
  have "sized ?z w2 w'"
    using size.R_trans[OF maintainsD[OF size.m_noop 3] size.R_trans[OF maintainsD[OF size_find(2) 4] maintainsD[OF size_exec 5]]] .
  from sizedD[OF this _ c(1)] e c(2) assms(2,3) maintainsD[OF i run] show ?thesis by auto
qed

definition filled :: "string \<Rightarrow> ImageManifest \<Rightarrow> world \<Rightarrow> bool" where
  "filled T man w \<longleftrightarrow> (\<exists>m. fs w T = Some (Dir m)) \<and> (\<exists>i m. fs w (T @ ''/manifest.json'') = Some (Reg i m (manifest_text man))) \<and>
     disk_fits man (fs w (T @ ''/rootfs.ext4''))"

text \<open>External programs leave the directory and the manifest in it alone and keep the size of the disk.\<close>

definition careful :: "string \<Rightarrow> environ \<Rightarrow> bool" where
  "careful T e \<longleftrightarrow> spares (\<lambda>p. p = T \<or> p = T @ ''/manifest.json'') e \<and> keeps_size (T @ ''/rootfs.ext4'') e"

lemma careful_filled:
  assumes "filled T man w" "intact (\<lambda>p. p = T \<or> p = T @ ''/manifest.json'') w w'" "sized (T @ ''/rootfs.ext4'') w w'" "careful T (orc w)"
  shows "filled T man w'"
proof -
  obtain m i k j l c where f: "fs w T = Some (Dir m)" "fs w (T @ ''/manifest.json'') = Some (Reg i k (manifest_text man))"
    "fs w (T @ ''/rootfs.ext4'') = Some (Reg j l c)" "int (length c) = im_DiskMiB man * 1024 * 1024"
    using assms(1) by (auto simp: filled_def disk_fits_def split: option.splits node.splits)
  have s: "spares (\<lambda>p. p = T \<or> p = T @ ''/manifest.json'') (orc w)" "keeps_size (T @ ''/rootfs.ext4'') (orc w)"
    using assms(4) by (auto simp: careful_def)
  have "fs w' T = Some (Dir m)" "fs w' (T @ ''/manifest.json'') = Some (Reg i k (manifest_text man))"
    using intactD[OF assms(2) s(1) _ f(1)] intactD[OF assms(2) s(1) _ f(2)] by auto
  then show ?thesis using sizedD[OF assms(3) s(2) f(3)] f(4) by (auto simp: filled_def disk_fits_def)
qed

lemma size_Pack:
  "po_LogFile o1 \<noteq> z \<Longrightarrow> maintains (sized z) (Pack o1)"
  unfolding Pack_def RuntimePath_def Let_def by (auto intro!: size_rules size_at(2))

lemma keep_Pack:
  "\<not> D (po_LogFile o1) \<Longrightarrow> maintains (intact D) (Pack o1)"
  unfolding Pack_def RuntimePath_def Let_def by (auto intro!: keep_rules keep_at(3)[where D = D])

lemma keep_findE2fsTool: "maintains (intact D) (findE2fsTool n)"
proof -
  have "maintains (intact D) (first_file cs e)" for cs e by (induction cs) (auto intro!: keep_rules)
  then show ?thesis unfolding findE2fsTool_def exec_LookPath_def by (intro keep_rules)
qed

lemma populateTemplate_Ok:
  assumes run: "populateTemplate T container man w = (Ok u, w')"
    and T: "plain_dir T" "plain_dir (T @ ''/helper-root'')" "fs w T = Some (Dir d)"
    and env: "careful T (orc w)" and man: "0 \<le> im_DiskMiB man"
  shows "filled T man w'"
proof -
  let ?D = "\<lambda>p. p = T" and ?z = "T @ ''/rootfs.ext4''" and ?h = "T @ ''/helper-root''" and ?m = "T @ ''/manifest.json''"
  from run obtain out w1 u2 w2 u3 w3 p u4 w4 u5 w5 t w6 out7 w7 u8 w8 u9 w9 where
    1: "sys_exec [''buildah'', ''mount'', container] w = (Ok out, w1)" and
    2: "createExt4 ?z (im_DiskMiB man) w1 = (Ok u2, w2)" and
    3: "prepareHelperRoot ?h w2 = (Ok u3, w3)" and
    4: "Pack p w3 = (Ok u4, w4)" and p: "po_LogFile p = T @ ''/conversion.log''" and
    5: "os_RemoveAll ?h w4 = (Ok u5, w5)" and
    6: "findE2fsTool ''e2fsck'' w5 = (Ok t, w6)" and
    7: "sys_exec [t, ''-fn'', ?z] w6 = (Ok out7, w7)" and
    8: "storage_writeJSON ?m (JObj (ImageManifest_members man)) 384 w7 = (Ok u8, w8)" and
    9: "syncFile ?z w8 = (Ok u9, w9)" and 10: "syncDir T w9 = (Ok u, w')"
    unfolding populateTemplate_def Let_def template_paths[OF T(1)] by (auto elim!: thenM_OkE bindM_OkE split: if_splits)
  have keep: "spares ?D (orc w)" "keeps_size ?z (orc w)" using env by (auto simp: careful_def spares_def)
  have e1: "orc w1 = orc w" using maintainsD[OF env.m_exec 1] by (simp add: same_env_def)
  note ext = createExt4_Ok[OF 2 keep(2)[folded e1] man]
  have e2: "orc w2 = orc w" using ext e1 by (simp add: intact_def same_env_def)
  have "maintains (intact ?D) (Pack p)" "maintains (intact ?D) (os_RemoveAll ?h)"
    using p not_beneath_child[of T "''helper-root''"] by (auto intro!: keep_Pack keep_RemoveAll)
  note rm = this
  have i: "intact ?D w2 w8"
    using maintainsD[OF staging_frames(1)[OF T(1,2)] 3] maintainsD[OF rm(1) 4] maintainsD[OF rm(2) 5]
      maintainsD[OF keep_findE2fsTool[of ?D] 6] maintainsD[OF keep_exec[of ?D] 7] maintainsD[OF staging_frames(3)[OF T(1,2)] 8] keep.R_trans[of ?D]
    by metis
  have "maintains (sized ?z) (Pack p)" "maintains (sized ?z) (os_RemoveAll ?h)"
    using p by (auto simp: beneath_def intro!: size_Pack size_tree)
  note sm = this
  have s: "sized ?z w2 w8"
    using maintainsD[OF staging_frames(2)[OF T(1,2)] 3] maintainsD[OF sm(1) 4] maintainsD[OF sm(2) 5]
      maintainsD[OF size_find(2)[of ?z] 6] maintainsD[OF size_exec[of ?z] 7] maintainsD[OF staging_frames(4)[OF T(1,2)] 8] size.R_trans[of ?z]
    by metis
  have "fs w1 T = Some (Dir d)" using intactD[OF maintainsD[OF keep_exec 1] keep(1) _ T(3)] by simp
  then have "fs w2 T = Some (Dir d)" using ext keep(1) e1 by (simp add: intact_def)
  then have "fs w8 T = Some (Dir d)" using i keep(1) e2 by (simp add: intact_def)
  moreover have "disk_fits man (fs w8 ?z)" using ext sizedD[OF s] keep(2) e2 by (fastforce simp: disk_fits_def)
  moreover have "fs w' = fs w8" using maintainsD[OF nofs_sync(1) 9] maintainsD[OF nofs_sync(2) 10] by (simp add: same_files_def)
  ultimately show ?thesis using writeJSON_Ok[OF 8] by (simp add: filled_def manifest_text_def)
qed

lemma prepareTemplate_Ok:
  assumes run: "prepareTemplate T img man w = (Ok u, w')"
    and T: "plain_dir T" "plain_dir (T @ ''/helper-root'')" "fs w T = Some (Dir d)"
    and env: "careful T (orc w)" and man: "0 \<le> im_DiskMiB man"
  shows "filled T man w'"
proof -
  let ?D = "\<lambda>p. p = T \<or> p = T @ ''/manifest.json''"
  from run obtain policy w1 goarch printed w2 w3 where
    1: "signaturePolicy w = (Ok policy, w1)" and
    2: "sys_exec [''buildah'', ''--signature-policy'', policy, ''from'', ''--os'', ''linux'', ''--arch'', imageArchitecture goarch, img] w1 = (Ok printed, w2)" and
    3: "populateTemplate T (strings_TrimSpace printed) man w2 = (Ok u, w3)" and
    w': "w' = snd (thenM (ignoreM (sys_exec [''buildah'', ''umount'', strings_TrimSpace printed]))
                   (ignoreM (sys_exec [''buildah'', ''rm'', strings_TrimSpace printed])) w3)"
    unfolding prepareTemplate_def Let_def by (auto elim!: bindM_OkE deferM_OkE split: if_splits)
  have "maintains (intact ?D) (first_file cs e)" for cs e by (induction cs) (auto intro!: keep_rules)
  then have sp: "maintains (intact ?D) signaturePolicy"
    unfolding signaturePolicy_def os_Getenv_def by (auto intro!: keep_rules)
  have i: "intact ?D w w2" using keep.R_trans[OF maintainsD[OF sp 1] maintainsD[OF keep_exec 2]] .
  then have e2: "orc w2 = orc w" by (simp add: intact_def same_env_def)
  have "fs w2 T = Some (Dir d)" using intactD[OF i _ _ T(3)] env by (simp add: careful_def)
  then have f: "filled T man w3" using populateTemplate_Ok[OF 3 T(1,2)] env man e2 by simp
  have e3: "orc w3 = orc w" using maintainsD[OF env.m_populateTemplate 3] e2 by (simp add: same_env_def)
  have "maintains (intact ?D) (thenM (ignoreM (sys_exec a)) (ignoreM (sys_exec b)))"
    "maintains (sized (T @ ''/rootfs.ext4'')) (thenM (ignoreM (sys_exec a)) (ignoreM (sys_exec b)))" for a b
    by (intro keep_rules size_rules)+
  then have "intact ?D w3 w'" "sized (T @ ''/rootfs.ext4'') w3 w'" unfolding w' maintains_def by blast+
  then show ?thesis using careful_filled[OF f] env e3 by simp
qed

section \<open>The cache\<close>

text \<open>The names of entries: the staging directories are not entries.\<close>

definition entry_name :: "string \<Rightarrow> bool" where
  "entry_name k \<longleftrightarrow> slash \<notin> set k \<and> \<not> prefix ''.tmp-'' k"

definition entry_file :: "string \<Rightarrow> string \<Rightarrow> bool" where
  "entry_file images p \<longleftrightarrow>
     (\<exists>k. entry_name k \<and> (p = images @ slash # k @ ''/manifest.json'' \<or> p = images @ slash # k @ ''/rootfs.ext4''))"

text \<open>Every entry is stored under the key of its digest.\<close>

definition cache_ok :: "string \<Rightarrow> string \<Rightarrow> file_system \<Rightarrow> bool" where
  "cache_ok goarch images f \<longleftrightarrow>
     (\<forall>k m. entry_name k \<longrightarrow> entry f (images @ slash # k) = Some m \<longrightarrow> k = templateKey goarch (im_Digest m))"

text \<open>From one world to another no entry has changed, and at most one has been added: at \<open>key\<close>, with that digest.\<close>

definition adds_only :: "string \<Rightarrow> string \<Rightarrow> string \<Rightarrow> world \<Rightarrow> world \<Rightarrow> bool" where
  "adds_only images key digest w w' \<longleftrightarrow> (\<forall>k m. entry_name k \<longrightarrow> entry (fs w') (images @ slash # k) = Some m \<longrightarrow>
     entry (fs w) (images @ slash # k) = Some m \<or> k = key \<and> im_Digest m = digest)"

lemma entry_eq:
  assumes "f (d @ ''/manifest.json'') = g (d @ ''/manifest.json'')" "f (d @ ''/rootfs.ext4'') = g (d @ ''/rootfs.ext4'')"
  shows "entry f d = entry g d"
  unfolding entry_def assms ..

lemma entry_mono:
  assumes "entry f d = Some m"
    and "\<And>i p c. f (d @ ''/manifest.json'') = Some (Reg i p c) \<Longrightarrow> g (d @ ''/manifest.json'') = Some (Reg i p c)"
    and "\<And>i p c. f (d @ ''/rootfs.ext4'') = Some (Reg i p c) \<Longrightarrow> g (d @ ''/rootfs.ext4'') = Some (Reg i p c)"
  shows "entry g d = Some m"
proof -
  obtain i p c j q b where f: "f (d @ ''/manifest.json'') = Some (Reg i p c)" "f (d @ ''/rootfs.ext4'') = Some (Reg j q b)"
    using assms(1) by (auto simp: entry_def disk_fits_def split: option.splits node.splits sum.splits if_splits)
  have "entry f d = entry g d" by (rule entry_eq) (use f assms(2)[OF f(1)] assms(3)[OF f(2)] in auto)
  then show ?thesis using assms(1) by simp
qed

lemma growth_adds_only:
  assumes "no_growth (entry_file images) w w'" "fenced (entry_file images) (orc w)"
  shows "adds_only images key digest w w'"
proof -
  have g: "fs w p = Some (Reg i m c)" if "entry_file images p" "fs w' p = Some (Reg i m c)" for p i m c
    using assms that by (auto simp: no_growth_def)
  have "entry (fs w) (images @ slash # k) = Some m" if "entry_name k" "entry (fs w') (images @ slash # k) = Some m" for k m
    by (rule entry_mono[OF that(2)]; rule g) (use that(1) in \<open>auto simp: entry_file_def\<close>)
  then show ?thesis by (simp add: adds_only_def)
qed

lemma adds_only_trans: "adds_only images key digest u v \<Longrightarrow> adds_only images key digest v w \<Longrightarrow> adds_only images key digest u w"
  unfolding adds_only_def by blast

lemma adds_only_same: "fs w' = fs w \<Longrightarrow> adds_only images key digest w w'"
  by (simp add: adds_only_def)

lemma split_first_slash: "slash \<notin> set a \<Longrightarrow> slash \<notin> set b \<Longrightarrow> a @ slash # x = b @ slash # y \<longleftrightarrow> a = b \<and> x = y"
  by (induction a arbitrary: b) (case_tac b, auto)+

lemma beneath_entry:
  assumes "slash \<notin> set a" "slash \<notin> set k"
  shows "beneath (images @ slash # a) (images @ slash # k @ slash # x) \<longleftrightarrow> a = k"
proof
  assume "beneath (images @ slash # a) (images @ slash # k @ slash # x)"
  then consider "a = k @ slash # x" | zs where "k @ slash # x = a @ slash # zs" by (auto simp: beneath_def prefix_def)
  then show "a = k" by cases (use assms split_first_slash in auto)
qed (simp add: beneath_def)

lemma staging_outside:
  assumes "slash \<notin> set x" "beneath (images @ slash # ''.tmp-'' @ x) q"
  shows "\<not> entry_file images q"
proof
  assume "entry_file images q"
  then obtain k y where k: "entry_name k" "q = images @ slash # k @ slash # y" by (auto simp: entry_file_def)
  then have "''.tmp-'' @ x = k" using assms beneath_entry[of "''.tmp-'' @ x" k images y] by (auto simp: entry_name_def)
  then show False using k(1) by (auto simp: entry_name_def)
qed

lemma Rename_dir_Ok:
  assumes "os_Rename a b w = (Ok u, w')" "fs w a = Some (Dir m)" "a \<noteq> b"
  shows "fs w' = (\<lambda>p. if beneath b p then fs w (a @ drop (length b) p) else if beneath a p then None else fs w p)"
  using syscall_OkE[OF assms(1)[unfolded os_Rename_def]] assms(2,3)
  by (auto simp: rename_tree_def is_dir_def fun_eq_iff split: if_splits)

text \<open>The rename makes the filled staging directory the entry and touches no other.\<close>

lemma publish_entry:
  assumes run: "os_Rename (images @ slash # ''.tmp-'' @ x) (images @ slash # key) w = (Ok u, w')"
    and f: "filled (images @ slash # ''.tmp-'' @ x) man w" and x: "slash \<notin> set x" and key: "entry_name key"
    and man: "Manifest_ok man" "im_FormatVersion man = TemplateFormatVersion" "im_DiskMiB man = DefaultDiskMiB"
  shows "entry (fs w') (images @ slash # key) = Some man \<and> adds_only images key (im_Digest man) w w'"
proof -
  let ?T = "images @ slash # ''.tmp-'' @ x" and ?F = "images @ slash # key"
  have ne: "''.tmp-'' @ x \<noteq> key" using key by (auto simp: entry_name_def)
  obtain m where "fs w ?T = Some (Dir m)" using f by (auto simp: filled_def)
  note fs' = Rename_dir_Ok[OF run this]
  have new: "fs w' (?F @ slash # y) = fs w (?T @ slash # y)" for y
    using fs' ne by (simp add: beneath_def)
  have e: "entry (fs w') ?F = Some man"
    using new[of "''manifest.json''"] new[of "''rootfs.ext4''"] f man manifest_codec.dec_enc[OF man(1)]
    by (auto simp: entry_def filled_def)
  have old: "fs w' (images @ slash # k @ slash # y) = fs w (images @ slash # k @ slash # y)" if "entry_name k" "k \<noteq> key" for k y
  proof -
    have "slash \<notin> set key" "slash \<notin> set k" "''.tmp-'' @ x \<noteq> k" using key that(1) by (auto simp: entry_name_def)
    then show ?thesis
      using fs' ne beneath_entry[of key k images y] beneath_entry[of "''.tmp-'' @ x" k images y] x that(2) by auto
  qed
  have "entry (fs w') (images @ slash # k) = entry (fs w) (images @ slash # k)" if "entry_name k" "k \<noteq> key" for k
    using old[OF that, of "''manifest.json''"] old[OF that, of "''rootfs.ext4''"] by (intro entry_eq) simp_all
  then show ?thesis using e unfolding adds_only_def by (metis option.inject)
qed

section \<open>What the environment has to guarantee\<close>

text \<open>The characters of an OCI digest; a digest starts with a letter or a digit.\<close>

definition digest_text :: "string \<Rightarrow> bool" where
  "digest_text d \<longleftrightarrow> list_all (\<lambda>c. is_letter c \<or> is_digit c \<or> c \<in> set ''=_:+.-'') d \<and> (d \<noteq> [] \<longrightarrow> is_letter (hd d) \<or> is_digit (hd d))"

text \<open>Programs write nothing into the entries, leave the staged manifest alone, keep the size of the staged disk, and \<^verbatim>\<open>buildah\<close> reports
  digests of the usual form; the clock prints as RFC 3339; random parts of names are digits.\<close>

definition template_env :: "environ \<Rightarrow> string \<Rightarrow> bool" where
  "template_env e images \<longleftrightarrow> fenced (entry_file images) e \<and> rand_digits e \<and>
     (\<forall>x. slash \<notin> set x \<longrightarrow> careful (images @ slash # ''.tmp-'' @ x) e) \<and>
     (\<forall>n. rfc3339_ok (o_time_text e n) \<and> valid_utf8 (o_time_text e n)) \<and>
     (\<forall>n args f out b. fst (o_exec e n args f) = Inr out \<longrightarrow> json_Unmarshal buildahInspect_fields out zero_buildahInspect = Inr b \<longrightarrow>
        digest_text (image_digest b))"

section \<open>Inspecting an image\<close>

definition inspect_valid :: "buildahInspect \<Rightarrow> bool" where
  "inspect_valid b \<longleftrightarrow> valid_utf8 (bi_FromImageID b) \<and> valid_utf8 (bi_FromImageDigest b) \<and> valid_utf8 (ov_Architecture (bi_OCIv1 b)) \<and>
     list_all valid_utf8 (oc_Env (ov_Config (bi_OCIv1 b))) \<and> valid_utf8 (oc_WorkingDir (ov_Config (bi_OCIv1 b)))"

lemma set_struct_keeps:
  assumes "set_struct fl get put v x = Inr y" "strings_valid v" "P (get x)"
    and "\<And>n upd v x y. (n, upd) \<in> set fl \<Longrightarrow> strings_valid v \<Longrightarrow> P x \<Longrightarrow> upd v x = Inr y \<Longrightarrow> P y"
  shows "\<exists>z. P z \<and> y = put z x"
proof -
  obtain ms z where "v = JObj ms" and z: "decode_members fl ms (get x) = Inr z" "y = put z x"
    using assms(1) by (auto simp: set_struct_def split: json.splits)
  then have "list_all (\<lambda>m. strings_valid (snd m)) ms" using assms(2) by simp
  from decode_members_keeps[where P = P, OF z(1) this assms(3)] assms(4) z(2) show ?thesis by blast
qed

lemma decoded_inspect_valid:
  assumes "json_Unmarshal buildahInspect_fields out zero_buildahInspect = Inr b"
  shows "inspect_valid b"
proof (rule json_Unmarshal_keeps[where P = inspect_valid, OF assms])
  show "inspect_valid zero_buildahInspect" by (simp add: inspect_valid_def zero_buildahInspect_def valid_ascii)
next
  let ?C = "\<lambda>c. list_all valid_utf8 (oc_Env c) \<and> valid_utf8 (oc_WorkingDir c)"
  let ?O = "\<lambda>v. valid_utf8 (ov_Architecture v) \<and> ?C (ov_Config v)"
  have c: "?C y" if "(n, upd) \<in> set oci_config_fields" "strings_valid v" "?C x" "upd v x = Inr y" for n upd v x y
    using that by (auto simp: oci_config_fields_def dest!: set_string_valid set_strings_valid)
  have o: "?O y" if "(n, upd) \<in> set oci_v1_fields" "strings_valid v" "?O x" "upd v x = Inr y" for n upd v x y
  proof -
    note a = that
    consider "set_string (\<lambda>v o1. o1\<lparr>ov_Architecture := v\<rparr>) v x = Inr y"
      | "set_struct oci_config_fields ov_Config (\<lambda>c o1. o1\<lparr>ov_Config := c\<rparr>) v x = Inr y"
      using a(1,4) by (auto simp: oci_v1_fields_def)
    then show ?thesis
    proof cases
      case 1
      then show ?thesis using a(2,3) by (auto dest!: set_string_valid)
    next
      case 2
      have "?C (ov_Config x)" using a(3) by blast
      then obtain z where "?C z" "y = x\<lparr>ov_Config := z\<rparr>"
        using set_struct_keeps[where P = ?C, OF 2 a(2)] c by blast
      then show ?thesis using a(3) by simp
    qed
  qed
  fix n upd v x y
  assume a: "(n, upd) \<in> set buildahInspect_fields" "strings_valid v" "inspect_valid x" "upd v x = Inr y"
  consider f where "f \<in> {\<lambda>v b. b\<lparr>bi_FromImage := v\<rparr>, \<lambda>v b. b\<lparr>bi_FromImageID := v\<rparr>, \<lambda>v b. b\<lparr>bi_FromImageDigest := v\<rparr>}" "set_string f v x = Inr y"
    | "set_struct oci_v1_fields bi_OCIv1 (\<lambda>v b. b\<lparr>bi_OCIv1 := v\<rparr>) v x = Inr y"
    using a(1,4) by (auto simp: buildahInspect_fields_def)
  then show "inspect_valid y"
  proof cases
    case 1
    then show ?thesis using a(2,3) by (auto simp: inspect_valid_def dest!: set_string_valid)
  next
    case 2
    have "?O (bi_OCIv1 x)" using a(3) by (simp add: inspect_valid_def)
    then obtain z where "?O z" "y = x\<lparr>bi_OCIv1 := z\<rparr>"
      using set_struct_keeps[where P = ?O, OF 2 a(2)] o by blast
    then show ?thesis using a(3) by (simp add: inspect_valid_def)
  qed
qed

lemma valid_tail: "valid_utf8 (c # s) \<Longrightarrow> byte c < 128 \<Longrightarrow> valid_utf8 s"
  by (simp add: valid_utf8.simps[of "c # s"] utf8_len_ascii)

lemma valid_drop: "list_all (\<lambda>c. byte c < 128) a \<Longrightarrow> valid_utf8 (a @ s) \<Longrightarrow> valid_utf8 s"
  by (induction a) (auto dest: valid_tail)

lemma image_digest_valid: "inspect_valid b \<Longrightarrow> valid_utf8 (image_digest b)"
proof -
  assume b: "inspect_valid b"
  have "valid_utf8 (strings_TrimPrefix (bi_FromImageID b) ''sha256:'')"
  proof (cases "prefix ''sha256:'' (bi_FromImageID b)")
    case True
    then obtain s where s: "bi_FromImageID b = ''sha256:'' @ s" by (rule prefixE)
    have "valid_utf8 s" by (rule valid_drop[of "''sha256:''"]) (use b s in \<open>simp_all add: inspect_valid_def\<close>)
    then show ?thesis unfolding s strings_TrimPrefix_append .
  qed (use b in \<open>simp add: strings_TrimPrefix_def inspect_valid_def\<close>)
  then have "valid_utf8 (''sha256:'' @ strings_TrimPrefix (bi_FromImageID b) ''sha256:'')"
    by (intro valid_append) (simp_all add: valid_ascii)
  then show ?thesis using b by (simp add: image_digest_def inspect_valid_def)
qed

lemma QualifyImage_valid: "valid_utf8 i \<Longrightarrow> valid_utf8 (QualifyImage i)"
proof -
  assume i: "valid_utf8 i"
  have "valid_utf8 (''docker.io/library/'' @ i)" "valid_utf8 (''docker.io/'' @ i)"
    using i by (intro valid_append; simp add: valid_ascii)+
  then show ?thesis using i by (simp add: QualifyImage_alt Let_def)
qed

text \<open>What \<^verbatim>\<open>buildah inspect\<close> has reported about an image, at some time, for the architecture of the host.\<close>

definition reported :: "environ \<Rightarrow> string \<Rightarrow> buildahInspect \<Rightarrow> bool" where
  "reported e img b \<longleftrightarrow> (\<exists>n f out. fst (o_exec e n [''buildah'', ''inspect'', ''--type'', ''image'', img] f) = Inr out \<and>
     json_Unmarshal buildahInspect_fields out zero_buildahInspect = Inr b) \<and> ov_Architecture (bi_OCIv1 b) = imageArchitecture (o_goarch e)"

text \<open>The part of \<^verbatim>\<open>ensureLocalImage\<close> that pulls the image.\<close>

definition pull_image :: "string \<Rightarrow> string \<Rightarrow> buildahInspect io" where
  "pull_image goarch img =
     bindM signaturePolicy (\<lambda>policy.
     thenM (wrapM ''pull image''
             (sys_exec [''buildah'', ''--signature-policy'', policy, ''pull'', ''--os'', ''linux'',
                        ''--arch'', imageArchitecture goarch, img]))
     (bindM (inspectImage img) (\<lambda>inspect.
      if ov_Architecture (bi_OCIv1 inspect) \<noteq> imageArchitecture goarch
      then failM (Msg ''image architecture does not match host architecture'')
      else returnM inspect)))"

lemma ensureLocalImage_pull:
  "ensureLocalImage img =
     bindM (askM o_goarch) (\<lambda>goarch.
     tryM (inspectImage img)
       (\<lambda>inspect. if ov_Architecture (bi_OCIv1 inspect) = imageArchitecture goarch then returnM inspect else pull_image goarch img)
       (\<lambda>_. pull_image goarch img))"
  unfolding ensureLocalImage_def pull_image_def Let_def ..

lemma inspectImage_Ok:
  assumes "inspectImage img w = (Ok b, w')" "ov_Architecture (bi_OCIv1 b) = imageArchitecture (o_goarch (orc w))"
  shows "reported (orc w) img b"
proof -
  obtain out w1 where 1: "sys_exec [''buildah'', ''inspect'', ''--type'', ''image'', img] w = (Ok out, w1)"
    and 2: "json_Unmarshal buildahInspect_fields out zero_buildahInspect = Inr b"
    using assms(1) unfolding inspectImage_def by (auto elim!: bindM_OkE)
  have "fst (o_exec (orc w) (steps w) [''buildah'', ''inspect'', ''--type'', ''image'', img] (fs w)) = Inr out"
    using syscall_part_OkE[OF 1[unfolded sys_exec_def]] by (auto split: prod.splits)
  then show ?thesis using 2 assms(2) unfolding reported_def by blast
qed

lemma pull_image_Ok:
  assumes "pull_image (o_goarch (orc w)) img w = (Ok b, w')"
  shows "reported (orc w) img b"
proof -
  obtain policy w1 args x w2 where 1: "signaturePolicy w = (Ok policy, w1)" and 2: "sys_exec args w1 = (Ok x, w2)"
    and 3: "inspectImage img w2 = (Ok b, w')" "ov_Architecture (bi_OCIv1 b) = imageArchitecture (o_goarch (orc w))"
    using assms unfolding pull_image_def by (auto elim!: bindM_OkE thenM_OkE split: if_splits)
  have "orc w2 = orc w" using maintainsD[OF env.m_find_tools(1) 1] maintainsD[OF env.m_exec 2] by (simp add: same_env_def)
  then show ?thesis using inspectImage_Ok[OF 3(1)] 3(2) by simp
qed

lemma ensureLocalImage_Ok:
  assumes "ensureLocalImage img w = (Ok b, w')"
  shows "reported (orc w) img b"
proof -
  have io: "orc v = orc w" if "inspectImage img w = (x, v)" for v x using maintainsD[OF env.m_inspectImage that] by (simp add: same_env_def)
  from assms have "tryM (inspectImage img)
       (\<lambda>inspect. if ov_Architecture (bi_OCIv1 inspect) = imageArchitecture (o_goarch (orc w)) then returnM inspect
          else pull_image (o_goarch (orc w)) img)
       (\<lambda>_. pull_image (o_goarch (orc w)) img) w = (Ok b, w')"
    unfolding ensureLocalImage_pull by (auto elim!: bindM_OkE)
  then show ?thesis
  proof (cases rule: tryM_OkE)
    case (ok c w1)
    then show ?thesis using inspectImage_Ok[of img w b] pull_image_Ok[of w1 img b w'] io[OF ok(1)] by (auto split: if_splits)
  next
    case (err e w1)
    then show ?thesis using pull_image_Ok[of w1 img b w'] io[OF err(1)] by simp
  qed
qed

section \<open>Building and publishing\<close>

lemma templateKey_name:
  assumes "digest_text d"
  shows "entry_name (templateKey g d)" "comp_ok (templateKey g d)"
proof -
  have n: "slash \<notin> set (strconv_Itoa i)" for i
    using nat_digits_are_digits[of slash "nat \<bar>i\<bar>"] by (auto simp: strconv_Itoa_def is_digit_def)
  define suf where "suf = ''-'' @ imageArchitecture g @ ''-v'' @ strconv_Itoa TemplateFormatVersion @ ''-'' @ strconv_Itoa DefaultDiskMiB @ ''m''"
  have k: "templateKey g d = replace_byte d CHR '':'' CHR ''-'' @ suf" by (simp add: templateKey_def suf_def)
  have c: "slash \<notin> set d" "d = c # r \<Longrightarrow> c \<noteq> CHR ''.''" for c r
    using assms by (auto simp: digest_text_def list_all_iff is_letter_def is_digit_def)
  have s: "slash \<notin> set (templateKey g d)" unfolding k by (auto simp: c n replace_byte_def suf_def imageArchitecture_def)
  have len: "2 < length (templateKey g d)" unfolding k by (simp add: suf_def)
  have "\<not> prefix ''.tmp-'' (templateKey g d)"
    unfolding k using c(2) by (cases d) (auto simp: replace_byte_def suf_def)
  then show "entry_name (templateKey g d)" using s by (simp add: entry_name_def)
  have "templateKey g d \<noteq> y" if "length y \<le> 2" for y using len that by (metis not_le)
  from this[of "[]"] this[of "''.''"] this[of dotdot] show "comp_ok (templateKey g d)" using s by (simp add: comp_ok_def)
qed

text \<open>The manifest that \<^verbatim>\<open>EnsureTemplate\<close> makes.\<close>

definition new_manifest :: "string \<Rightarrow> string \<Rightarrow> buildahInspect \<Rightarrow> string \<Rightarrow> ImageManifest" where
  "new_manifest canonical digest inspect createdAt =
     \<lparr>im_Image = canonical, im_Digest = digest, im_Architecture = ov_Architecture (bi_OCIv1 inspect),
      im_DiskMiB = DefaultDiskMiB, im_FormatVersion = TemplateFormatVersion,
      im_Environment = oc_Env (ov_Config (bi_OCIv1 inspect)),
      im_WorkingDir = oc_WorkingDir (ov_Config (bi_OCIv1 inspect)), im_CreatedAt = createdAt\<rparr>"

lemma new_manifest_ok:
  assumes "inspect_valid b" "valid_utf8 canonical" "valid_utf8 digest" "rfc3339_ok t" "valid_utf8 t"
  shows "Manifest_ok (new_manifest canonical digest b t)"
  using assms by (simp add: Manifest_ok_def new_manifest_def inspect_valid_def list_all_iff DefaultDiskMiB_def TemplateFormatVersion_def)

text \<open>An entry that has been made or found is returned.\<close>

definition serves :: "string \<Rightarrow> string \<Rightarrow> Template outcome \<Rightarrow> world \<Rightarrow> bool" where
  "serves images key r w \<longleftrightarrow> (\<forall>t. r = Ok t \<longrightarrow> tp_Dir t = images @ slash # key \<and> tp_DiskPath t = images @ slash # key @ ''/rootfs.ext4'' \<and>
     entry (fs w) (images @ slash # key) = Some (tp_Manifest t))"

lemma serves_not_Ok: "(\<And>t. r \<noteq> Ok t) \<Longrightarrow> serves images key r w"
  by (simp add: serves_def)

lemma sync_run:
  assumes "thenM (wrapM s (syncDir d)) (returnM x) w = (r, w')"
  shows "fs w' = fs w" "r = Ok t \<Longrightarrow> t = x"
proof -
  have "maintains same_files (thenM (wrapM s (syncDir d)) (returnM x))" by (intro nofs.rules nofs_sync)
  from maintainsD[OF this assms] show "fs w' = fs w" by (simp add: same_files_def)
  show "t = x" if "r = Ok t" using assms that by (auto elim!: thenM_OkE)
qed

lemma publish_run:
  assumes run: "thenM (prepareTemplate T canonical man)
          (thenM (wrapM ''publish image template'' (os_Rename T F))
          (thenM (wrapM ''sync images directory'' (syncDir images))
          (returnM \<lparr>tp_Dir = F, tp_DiskPath = F @ ''/rootfs.ext4'', tp_Manifest = man, tp_Cached = False\<rparr>))) w = (r, w')"
    and T: "T = images @ slash # ''.tmp-'' @ x" "slash \<notin> set x" "plain_dir T" "plain_dir (T @ ''/helper-root'')" "fs w T = Some (Dir d)"
    and F: "F = images @ slash # key" "entry_name key"
    and env: "careful T (orc w)" "fenced (entry_file images) (orc w)"
    and man: "Manifest_ok man" "im_FormatVersion man = TemplateFormatVersion" "im_DiskMiB man = DefaultDiskMiB"
  shows "adds_only images key (im_Digest man) w w' \<and> serves images key r w'"
proof -
  have pos: "0 \<le> im_DiskMiB man" by (simp add: man DefaultDiskMiB_def)
  have out: "\<And>q. beneath T q \<Longrightarrow> \<not> entry_file images q" using staging_outside T(1,2) by blast
  have prep: "adds_only images key (im_Digest man) w v" if "prepareTemplate T canonical man w = (y, v)" for y v
    by (rule growth_adds_only[OF maintainsD[OF grow_prepareTemplate[OF T(3,4) out] that] env(2)])
  from run show ?thesis
  proof (cases rule: thenM_cases)
    case (go u w1)
    note a1 = prep[OF go(1)]
    have f: "filled T man w1" by (rule prepareTemplate_Ok[OF go(1) T(3-5) env(1) pos])
    from go(2) show ?thesis
    proof (cases rule: thenM_cases)
      case (go u w2)
      then have "os_Rename T F w1 = (Ok u, w2)" by simp
      from publish_entry[OF this[unfolded T(1) F(1)] f[unfolded T(1)] T(2) F(2) man]
      have e: "entry (fs w2) F = Some man" "adds_only images key (im_Digest man) w1 w2" by (simp_all add: F)
      note sy = sync_run[OF go(2)]
      have "adds_only images key (im_Digest man) w w'"
        by (rule adds_only_trans[OF a1 adds_only_trans[OF e(2) adds_only_same[OF sy(1)]]])
      moreover have "serves images key r w'"
        unfolding serves_def
      proof (intro allI impI)
        fix t assume "r = Ok t"
        then have "t = \<lparr>tp_Dir = F, tp_DiskPath = F @ ''/rootfs.ext4'', tp_Manifest = man, tp_Cached = False\<rparr>" by (rule sy(2))
        then show "tp_Dir t = images @ slash # key \<and> tp_DiskPath t = images @ slash # key @ ''/rootfs.ext4'' \<and>
            entry (fs w') (images @ slash # key) = Some (tp_Manifest t)"
          using e(1) sy(1) by (simp add: F(1))
      qed
      ultimately show ?thesis ..
    next
      case (stop e)
      then have "fs w' = fs w1" using Rename_not_Ok[of T F w1] by (cases "os_Rename T F w1") (auto simp: wrapM_def tryM_def split: outcome.splits)
      then show ?thesis using adds_only_trans[OF a1 adds_only_same] stop(2) by (simp add: serves_def)
    next
      case crash
      then have "fs w' = fs w1" using Rename_not_Ok[of T F w1] by (cases "os_Rename T F w1") (auto simp: wrapM_def tryM_def split: outcome.splits)
      then show ?thesis using adds_only_trans[OF a1 adds_only_same] crash(2) by (simp add: serves_def)
    qed
  qed (use prep in \<open>auto simp: serves_def\<close>)
qed

lemma buildTemplate_run:
  assumes run: "buildTemplate images key canonical digest b w = (r, w')"
    and images: "images = abs_path (root @ [''images''])" "\<forall>c\<in>set root. comp_ok c"
    and key: "entry_name key" "comp_ok key" and env: "template_env (orc w) images"
    and b: "inspect_valid b" "valid_utf8 canonical" "valid_utf8 digest"
  shows "adds_only images key digest w w' \<and> serves images key r w'"
proof -
  have fence: "fenced (entry_file images) (orc w)" using env by (simp add: template_env_def)
  have comps: "\<forall>c\<in>set (root @ [''images'']). comp_ok c" using images(2) by (auto simp: comp_ok_def)
  have snoc: "abs_path ((root @ [''images'']) @ [c]) = images @ slash # c" for c
    using abs_path_snoc[of "root @ [''images'']" c] by (simp only: images(1)) simp
  have F: "filepath_Join [images, key] = images @ slash # key"
    using filepath_Join_abs_path[OF comps key(2)] snoc[of key] by (simp only: images(1))
  have pF: "plain_dir (images @ slash # key)"
    using plain_dir_abs[of "(root @ [''images'']) @ [key]"] comps key(2) snoc[of key] by simp
  from run[unfolded buildTemplate_def Let_def F template_paths(1)[OF pF]] show ?thesis
  proof (cases rule: thenM_cases)
    case (go u w1)
    have g1: "no_growth (entry_file images) w w1" using maintainsD[OF grow_dirs(4)] go(1) by (auto simp: wrapM_Ok_iff)
    from go(2) show ?thesis
    proof (cases rule: bindM_cases)
      case (go T w2)
      then have mk: "os_MkdirTemp images (''.tmp-'' @ key @ ''-'') w1 = (Ok T, w2)" by simp
      have g2: "no_growth (entry_file images) w w2" using grow.R_trans[OF g1 maintainsD[OF grow_dirs(2) mk]] .
      then have e2: "orc w2 = orc w" "orc w1 = orc w" using g1 by (simp_all add: no_growth_def same_env_def)
      obtain y where y: "T = images @ slash # ''.tmp-'' @ key @ ''-'' @ y" "list_all is_digit y"
        using MkdirTemp_name(1)[OF mk] env e2(2) by (auto simp: template_env_def rand_digits_def)
      define x where "x = key @ ''-'' @ y"
      have T: "T = images @ slash # ''.tmp-'' @ x" "slash \<notin> set x"
        using y key(1) by (auto simp: x_def entry_name_def list_all_iff is_digit_def)
      have "comp_ok (''.tmp-'' @ x)" using T(2) by (simp add: comp_ok_def)
      then have cT: "\<forall>c\<in>set (root @ [''images'', ''.tmp-'' @ x]). comp_ok c" "T = abs_path (root @ [''images'', ''.tmp-'' @ x])"
        using comps snoc[of "''.tmp-'' @ x"] by (auto simp: T(1))
      have pT: "plain_dir T" "plain_dir (T @ ''/helper-root'')"
        using plain_dir_abs[OF cT(1)] plain_dir_abs[of "(root @ [''images'', ''.tmp-'' @ x]) @ [''helper-root'']"] cT template_names(3)
          abs_path_snoc[of "root @ [''images'', ''.tmp-'' @ x]" "''helper-root''"] by auto
      have dT: "fs w2 T = Some (Dir 448)" using MkdirTemp_name(2)[OF mk] by simp
      have car: "careful T (orc w2)" using env T e2 by (simp add: template_env_def)
      have body: "adds_only images key digest w2 w3 \<and> serves images key r3 w3 \<and> orc w3 = orc w"
        if "bindM time_Now (\<lambda>now. bindM (askM (\<lambda>e. o_time_text e now)) (\<lambda>createdAt.
          thenM (prepareTemplate T canonical (new_manifest canonical digest b createdAt))
          (thenM (wrapM ''publish image template'' (os_Rename T (images @ slash # key)))
          (thenM (wrapM ''sync images directory'' (syncDir images))
          (returnM \<lparr>tp_Dir = images @ slash # key, tp_DiskPath = (images @ slash # key) @ ''/rootfs.ext4'',
             tp_Manifest = new_manifest canonical digest b createdAt, tp_Cached = False\<rparr>))))) w2 = (r3, w3)" for r3 w3
      proof -
        define man where "man = new_manifest canonical digest b (o_time_text (orc w2) (clock w2))"
        have m: "Manifest_ok man" "im_FormatVersion man = TemplateFormatVersion" "im_DiskMiB man = DefaultDiskMiB" "im_Digest man = digest"
          using new_manifest_ok[OF b] env e2 by (auto simp: man_def template_env_def new_manifest_def)
        have "thenM (prepareTemplate T canonical man)
          (thenM (wrapM ''publish image template'' (os_Rename T (images @ slash # key)))
          (thenM (wrapM ''sync images directory'' (syncDir images))
          (returnM \<lparr>tp_Dir = images @ slash # key, tp_DiskPath = (images @ slash # key) @ ''/rootfs.ext4'',
             tp_Manifest = man, tp_Cached = False\<rparr>))) w2 = (r3, w3)"
          using that by (simp add: bindM_def[of time_Now] bindM_def[of "askM _"] time_Now_def askM_def man_def)
        note run3 = this
        have "maintains same_env (thenM (prepareTemplate T canonical man)
          (thenM (wrapM ''publish image template'' (os_Rename T (images @ slash # key)))
          (thenM (wrapM ''sync images directory'' (syncDir images))
          (returnM \<lparr>tp_Dir = images @ slash # key, tp_DiskPath = (images @ slash # key) @ ''/rootfs.ext4'',
             tp_Manifest = man, tp_Cached = False\<rparr>))))"
          by (intro env.rules env.file_rules env.m_prepareTemplate env.m_sync)
        from maintainsD[OF this run3] publish_run[OF run3 T pT dT refl key(1) car _ m(1-3)] fence e2 m(4)
        show ?thesis by (simp add: same_env_def)
      qed
      have w2: "adds_only images key digest w w2" by (rule growth_adds_only[OF g2 fence])
      from go(2)[folded new_manifest_def] show ?thesis
      proof (cases rule: deferM_exits)
        case crash
        then show ?thesis using body[of Crash w'] adds_only_trans[OF w2] by (auto simp: serves_def)
      next
        case (ended r3 w3 rc)
        note b3 = body[OF ended(1)]
        then have e3: "orc w3 = orc w" by simp
        have "adds_only images key digest w3 w'"
          using growth_adds_only[OF maintainsD[OF grow_dirs(4) ended(2)]] fence e3 by simp
        moreover have "entry (fs w') (images @ slash # key) = entry (fs w3) (images @ slash # key)"
        proof (rule entry_eq)
          have "only_files (beneath T) w3 w'" by (rule maintainsD[OF files_RemoveAll ended(2)])
          then have "fs w' p = fs w3 p" if "\<not> beneath T p" for p using that by (simp add: only_files_def)
          moreover have "\<not> beneath T (images @ slash # key @ slash # z)" for z
            using beneath_entry[of "''.tmp-'' @ x" key images z] T key(1) by (auto simp: entry_name_def)
          ultimately have "fs w' (images @ slash # key @ slash # z) = fs w3 (images @ slash # key @ slash # z)" for z by blast
          from this[of "''manifest.json''"] this[of "''rootfs.ext4''"]
          show "fs w' ((images @ slash # key) @ ''/manifest.json'') = fs w3 ((images @ slash # key) @ ''/manifest.json'')"
            "fs w' ((images @ slash # key) @ ''/rootfs.ext4'') = fs w3 ((images @ slash # key) @ ''/rootfs.ext4'')" by simp_all
        qed
        ultimately show ?thesis
          using b3 adds_only_trans[OF w2 adds_only_trans[of images key digest w2 w3 w']] ended(3) by (auto simp: serves_def)
      qed
    qed (use growth_adds_only[OF grow.R_trans[OF g1 maintainsD[OF grow.m_wrap[OF grow_dirs(2)]]] fence] in \<open>auto simp: serves_def\<close>)
  qed (use growth_adds_only[OF maintainsD[OF grow.m_wrap[OF grow_dirs(4)]] fence] in \<open>auto simp: serves_def\<close>)
qed

section \<open>EnsureTemplate\<close>

lemma ImagesDir_Ok:
  assumes "ImagesDir w = (Ok d, w')"
  obtains r where "devd_root (orc w) = Inr r" "d = filepath_Join [r, ''images'']" "orc w' = orc w"
  using assms unfolding ImagesDir_def Let_def
  by (auto elim!: bindM_OkE thenM_OkE DevdDir_OkE dest!: MkdirAll_orc)

text \<open>\<^verbatim>\<open>EnsureTemplate\<close> once the image and the directory are known.\<close>

definition find_or_build :: "string \<Rightarrow> string \<Rightarrow> string \<Rightarrow> buildahInspect \<Rightarrow> Template io" where
  "find_or_build images canonical goarch b =
     (let digest = image_digest b; key = templateKey goarch digest; finalDir = filepath_Join [images, key];
          cached = (\<lambda>template. returnM (template\<lparr>tp_Cached := True\<rparr>)) in
      tryM (loadTemplate finalDir) cached (\<lambda>_.
      bindM (lockTemplate (filepath_Join [images, ''.'' @ key @ ''.lock''])) (\<lambda>lock.
      deferM
        (tryM (loadTemplate finalDir) cached (\<lambda>_. buildTemplate images key canonical digest b))
        (sys_close lock))))"

lemma EnsureTemplate_find:
  "EnsureTemplate img =
     thenM CheckDependencies
     (bindM (ensureLocalImage (QualifyImage img)) (\<lambda>b.
      if image_digest b = [] then failM (Msg ''inspect image: no immutable digest or image ID'')
      else
        bindM (wrapM ''images directory'' ImagesDir) (\<lambda>images.
        bindM (askM o_goarch) (\<lambda>goarch. find_or_build images (QualifyImage img) goarch b))))"
  unfolding EnsureTemplate_def find_or_build_def Let_def ..

lemma load_serves:
  assumes "tryM (loadTemplate (images @ slash # key)) (\<lambda>t. returnM (t\<lparr>tp_Cached := True\<rparr>)) h w = (r, w')" "plain_dir (images @ slash # key)"
    and "\<And>e w1. fs w1 = fs w \<Longrightarrow> orc w1 = orc w \<Longrightarrow> h e w1 = (r, w') \<Longrightarrow> adds_only images key digest w1 w' \<and> serves images key r w'"
  shows "adds_only images key digest w w' \<and> serves images key r w'"
  using assms(1)
proof (cases rule: tryM_cases)
  case (ok t w1)
  then show ?thesis using loadTemplate_Ok[OF ok(1) assms(2)] by (auto simp: serves_def adds_only_def)
next
  case (err e w1)
  have "fs w1 = fs w" "orc w1 = orc w" using maintainsD[OF nofs_loadTemplate err(1)] maintainsD[OF env.m_loadTemplate err(1)]
    by (simp_all add: same_files_def same_env_def)
  then show ?thesis using assms(3)[OF _ _ err(2)] by (simp add: adds_only_def)
next
  case crash
  then show ?thesis using maintainsD[OF nofs_loadTemplate crash(1)] by (simp add: same_files_def serves_def adds_only_same)
qed

lemma find_or_build_run:
  assumes run: "find_or_build images canonical (o_goarch (orc w)) b w = (r, w')"
    and images: "images = abs_path (root @ [''images''])" "\<forall>c\<in>set root. comp_ok c"
    and env: "template_env (orc w) images" and b: "inspect_valid b" "valid_utf8 canonical" "digest_text (image_digest b)"
  shows "adds_only images (templateKey (o_goarch (orc w)) (image_digest b)) (image_digest b) w w' \<and>
    serves images (templateKey (o_goarch (orc w)) (image_digest b)) r w'"
proof -
  define key where "key = templateKey (o_goarch (orc w)) (image_digest b)"
  have key: "entry_name key" "comp_ok key" using templateKey_name[OF b(3)] by (simp_all add: key_def)
  have fence: "fenced (entry_file images) (orc w)" using env by (simp add: template_env_def)
  have comps: "\<forall>c\<in>set (root @ [''images'']). comp_ok c" using images(2) by (auto simp: comp_ok_def)
  have snoc: "abs_path ((root @ [''images'']) @ [c]) = images @ slash # c" for c
    using abs_path_snoc[of "root @ [''images'']" c] by (simp only: images(1)) simp
  have join: "filepath_Join [images, c] = images @ slash # c" if "comp_ok c" for c
    using filepath_Join_abs_path[OF comps that] snoc[of c] by (simp only: images(1))
  have pF: "plain_dir (images @ slash # key)"
    using plain_dir_abs[of "(root @ [''images'']) @ [key]"] comps key(2) snoc[of key] by simp
  have lk: "comp_ok (''.'' @ key @ ''.lock'')" using key(1) by (simp add: comp_ok_def entry_name_def)
  have "\<not> entry_file images (images @ slash # ''.'' @ key @ ''.lock'')" using key(1) by (auto simp: entry_file_def entry_name_def)
  then have gl: "maintains (no_growth (entry_file images)) (lockTemplate (images @ slash # ''.'' @ key @ ''.lock''))"
    unfolding lockTemplate_def by (intro grow_rules grow_at(6))
  have r: "tryM (loadTemplate (images @ slash # key)) (\<lambda>t. returnM (t\<lparr>tp_Cached := True\<rparr>)) (\<lambda>_.
      bindM (lockTemplate (images @ slash # ''.'' @ key @ ''.lock'')) (\<lambda>lock.
      deferM (tryM (loadTemplate (images @ slash # key)) (\<lambda>t. returnM (t\<lparr>tp_Cached := True\<rparr>))
                (\<lambda>_. buildTemplate images key canonical (image_digest b) b))
        (sys_close lock))) w = (r, w')"
    using run unfolding find_or_build_def Let_def key_def[symmetric] join[OF key(2)] join[OF lk] .
  show ?thesis unfolding key_def[symmetric]
  proof (rule load_serves[OF r pF])
    fix e w1
    assume w1: "fs w1 = fs w" "orc w1 = orc w"
      and "bindM (lockTemplate (images @ slash # ''.'' @ key @ ''.lock'')) (\<lambda>lock.
      deferM (tryM (loadTemplate (images @ slash # key)) (\<lambda>t. returnM (t\<lparr>tp_Cached := True\<rparr>))
                (\<lambda>_. buildTemplate images key canonical (image_digest b) b))
        (sys_close lock)) w1 = (r, w')"
    note locked = this(3)
    have g: "adds_only images key (image_digest b) w1 v \<and> orc v = orc w"
      if "lockTemplate (images @ slash # ''.'' @ key @ ''.lock'') w1 = (y, v)" for y v
      using growth_adds_only[OF maintainsD[OF gl that]] maintainsD[OF gl that] fence w1(2) by (simp add: no_growth_def same_env_def)
    from locked show "adds_only images key (image_digest b) w1 w' \<and> serves images key r w'"
    proof (cases rule: bindM_cases)
      case (go lock w2)
      note g2 = g[OF go(1)]
      have two: "adds_only images key (image_digest b) w2 w3 \<and> serves images key r3 w3"
        if t: "tryM (loadTemplate (images @ slash # key)) (\<lambda>t. returnM (t\<lparr>tp_Cached := True\<rparr>))
                (\<lambda>_. buildTemplate images key canonical (image_digest b) b) w2 = (r3, w3)" for r3 w3
      proof (rule load_serves[OF t pF])
        fix e w4
        assume "orc w4 = orc w2" "buildTemplate images key canonical (image_digest b) b w4 = (r3, w3)"
        then show "adds_only images key (image_digest b) w4 w3 \<and> serves images key r3 w3"
          using buildTemplate_run[OF _ images key _ b(1,2) image_digest_valid[OF b(1)]] env g2 by simp
      qed
      from go(2) show ?thesis
      proof (cases rule: deferM_exits)
        case crash
        then show ?thesis using two[of Crash w'] g2 adds_only_trans[of images key _ w1 w2 w'] by (auto simp: serves_def)
      next
        case (ended r3 w3 rc)
        have f: "fs w' = fs w3" using maintainsD[OF nofs.m_close ended(2)] by (simp add: same_files_def)
        then have "adds_only images key (image_digest b) w3 w'" by (rule adds_only_same)
        then have "adds_only images key (image_digest b) w1 w'"
          using two[OF ended(1)] g2 adds_only_trans by blast
        then show ?thesis using two[OF ended(1)] ended(3) f by (auto simp: serves_def)
      qed
    qed (use g in \<open>auto simp: serves_def\<close>)
  qed
qed

lemma cache_ok_adds:
  assumes "cache_ok g images (fs w)" "adds_only images (templateKey g d) d w w'"
  shows "cache_ok g images (fs w')"
  unfolding cache_ok_def
proof (intro allI impI)
  fix k m assume k: "entry_name k" "entry (fs w') (images @ slash # k) = Some m"
  from assms(2) k have "entry (fs w) (images @ slash # k) = Some m \<or> k = templateKey g d \<and> im_Digest m = d"
    by (simp add: adds_only_def)
  then show "k = templateKey g (im_Digest m)" using assms(1) k(1) by (auto simp: cache_ok_def)
qed

lemma EnsureTemplate_run:
  assumes "EnsureTemplate img w = (r, w')"
    and "devd_root (orc w) = Inr (abs_path root)" "\<forall>c\<in>set root. comp_ok c" and images: "images = abs_path (root @ [''images''])"
    and "template_env (orc w) images" "valid_utf8 img"
    and "cache_ok (o_goarch (orc w)) images (fs w)"
  shows "cache_ok (o_goarch (orc w)) images (fs w') \<and>
    (\<forall>t. r = Ok t \<longrightarrow>
       entry (fs w') (tp_Dir t) = Some (tp_Manifest t) \<and> tp_DiskPath t = tp_Dir t @ ''/rootfs.ext4'' \<and>
       tp_Dir t = images @ slash # templateKey (o_goarch (orc w)) (im_Digest (tp_Manifest t)) \<and>
       (\<exists>b. reported (orc w) (QualifyImage img) b \<and> tp_Dir t = images @ slash # templateKey (o_goarch (orc w)) (image_digest b)))"
proof -
  let ?G = "no_growth (entry_file images)" and ?g = "o_goarch (orc w)"
  have fence: "fenced (entry_file images) (orc w)" using assms(5) by (simp add: template_env_def)
  have keep: ?thesis if g: "?G w w'" and r: "\<And>t. r \<noteq> Ok t"
    using cache_ok_adds[OF assms(7) growth_adds_only[OF g fence, of _ "[]"]] r by simp
  from assms(1)[unfolded EnsureTemplate_find] show ?thesis
  proof (cases rule: thenM_cases)
    case (go u w1)
    have g1: "?G w w1" by (rule maintainsD[OF grow_find(4) go(1)])
    from go(2) show ?thesis
    proof (cases rule: bindM_cases)
      case (go b w2)
      have g2: "?G w w2" by (rule grow.R_trans[OF g1 maintainsD[OF grow_ensureLocalImage go(1)]])
      have rep: "reported (orc w) (QualifyImage img) b" using ensureLocalImage_Ok[OF go(1)] g1 by (simp add: no_growth_def same_env_def)
      show ?thesis
      proof (cases "image_digest b = []")
        case True
        then show ?thesis using go(2) by (intro keep) (auto intro: g2)
      next
        case False
        with go(2) have "bindM (wrapM ''images directory'' ImagesDir) (\<lambda>images.
          bindM (askM o_goarch) (\<lambda>goarch. find_or_build images (QualifyImage img) goarch b)) w2 = (r, w')" by simp
        then show ?thesis
        proof (cases rule: bindM_cases)
          case (go d w3)
          have "ImagesDir w2 = (Ok d, w3)" using go(1) by simp
          then have g3: "?G w w3" using grow.R_trans[OF g2 maintainsD[OF grow_config]] by blast
          then have e3: "orc w3 = orc w" "orc w2 = orc w" using g2 by (simp_all add: no_growth_def same_env_def)
          have d: "d = images"
            using ImagesDir_Ok[OF \<open>ImagesDir w2 = (Ok d, w3)\<close>] assms(2,3) e3 filepath_Join_abs_path[of root "''images''"] by (auto simp: images comp_ok_def)
          have dec: "inspect_valid b" "digest_text (image_digest b)"
            using rep assms(5) decoded_inspect_valid by (auto simp: reported_def template_env_def)
          have "find_or_build images (QualifyImage img) (o_goarch (orc w3)) b w3 = (r, w')"
            using go(2) by (simp add: d bindM_def[of "askM _"] askM_def)
          from find_or_build_run[OF this images assms(3) _ dec(1) QualifyImage_valid[OF assms(6)] dec(2)] assms(5) e3
          have fb: "adds_only images (templateKey ?g (image_digest b)) (image_digest b) w3 w'"
            "serves images (templateKey ?g (image_digest b)) r w'" by simp_all
          have "adds_only images (templateKey ?g (image_digest b)) (image_digest b) w w'"
            by (rule adds_only_trans[OF growth_adds_only[OF g3 fence] fb(1)])
          then have ok: "cache_ok ?g images (fs w')" by (rule cache_ok_adds[OF assms(7)])
          have nm: "entry_name (templateKey ?g (image_digest b))" by (rule templateKey_name(1)[OF dec(2)])
          have key: "templateKey ?g (image_digest b) = templateKey ?g (im_Digest (tp_Manifest t))" if "r = Ok t" for t
            using ok nm fb(2) that by (simp add: serves_def cache_ok_def)
          show ?thesis
          proof (intro conjI allI impI ok)
            fix t assume t: "r = Ok t"
            have s: "tp_Dir t = images @ slash # templateKey ?g (image_digest b)"
              "tp_DiskPath t = images @ slash # templateKey ?g (image_digest b) @ ''/rootfs.ext4''"
              "entry (fs w') (images @ slash # templateKey ?g (image_digest b)) = Some (tp_Manifest t)"
              using fb(2) t by (simp_all add: serves_def)
            show "entry (fs w') (tp_Dir t) = Some (tp_Manifest t)" using s(3) unfolding s(1) .
            show "tp_DiskPath t = tp_Dir t @ ''/rootfs.ext4''" by (simp add: s(1,2))
            show "tp_Dir t = images @ slash # templateKey ?g (im_Digest (tp_Manifest t))" using s(1) unfolding key[OF t] .
            show "\<exists>b. reported (orc w) (QualifyImage img) b \<and> tp_Dir t = images @ slash # templateKey ?g (image_digest b)"
              using rep s(1) by blast
          qed
        qed (use keep[OF grow.R_trans[OF g2 maintainsD[OF grow.m_wrap[OF grow_config]]]] in auto)
      qed
    qed (use keep[OF grow.R_trans[OF g1 maintainsD[OF grow_ensureLocalImage]]] in auto)
  qed (use keep[OF maintainsD[OF grow_find(4)]] in auto)
qed

text \<open>C5. The cache of image templates is sound. Assume that every valid entry of the cache is stored under the key of the digest in its
  manifest. Whatever call of \<^verbatim>\<open>EnsureTemplate\<close> fails and wherever the process dies, this is still so afterwards: no valid entry appears under a wrong key. (Valid means
  what \<^verbatim>\<open>loadTemplate\<close> checks, a manifest of the current format and a disk of the right size; the manifest is written last.) A template that \<^verbatim>\<open>EnsureTemplate\<close> returns, from the cache or newly
  built, is a valid entry on disk (a manifest of the current format and a disk of the right size, exactly what is
  returned), in the directory that belongs both to the digest in its manifest and to the digest \<^verbatim>\<open>buildah\<close> reported for this image and the architecture of the host.\<close>

theorem template_cache_sound:
  assumes "EnsureTemplate img w = (r, w')"
    and "devd_root (orc w) = Inr (abs_path root)" "\<forall>c\<in>set root. comp_ok c" and images: "images = abs_path (root @ [''images''])"
    and "template_env (orc w) images" "valid_utf8 img"
    and "cache_ok (o_goarch (orc w)) images (fs w)"
  shows "cache_ok (o_goarch (orc w)) images (fs w') \<and>
    (\<forall>t. r = Ok t \<longrightarrow>
       entry (fs w') (tp_Dir t) = Some (tp_Manifest t) \<and> tp_DiskPath t = tp_Dir t @ ''/rootfs.ext4'' \<and>
       tp_Dir t = images @ slash # templateKey (o_goarch (orc w)) (im_Digest (tp_Manifest t)) \<and>
       (\<exists>b. reported (orc w) (QualifyImage img) b \<and> tp_Dir t = images @ slash # templateKey (o_goarch (orc w)) (image_digest b)))"
  by (rule EnsureTemplate_run[OF assms])

section \<open>An example\<close>

text \<open>An installation whose cache has one template, for the image that \<^verbatim>\<open>buildah\<close> reports.\<close>

definition inspect_demo :: string where
  "inspect_demo = json_Marshal (JObj [(''FromImageDigest'', JStr ''sha256:ab''), (''OCIv1'', JObj [(''architecture'', JStr ''amd64'')])])"

definition inspected_demo :: buildahInspect where
  "inspected_demo = zero_buildahInspect\<lparr>bi_FromImageDigest := ''sha256:ab'',
     bi_OCIv1 := (bi_OCIv1 zero_buildahInspect)\<lparr>ov_Architecture := ''amd64''\<rparr>\<rparr>"

definition manifest_demo :: ImageManifest where
  "manifest_demo = new_manifest ''docker.io/library/a'' ''sha256:ab'' inspected_demo ''2025-01-01T00:00:00Z''"

definition disk_demo_bytes :: string where
  "disk_demo_bytes = replicate (nat (DefaultDiskMiB * 1024 * 1024)) CHR 0x00"

abbreviation images_demo :: string where "images_demo \<equiv> ''/d/images''"

definition key_demo :: string where
  "key_demo = templateKey ''amd64'' ''sha256:ab''"

definition cache_demo :: world where
  "cache_demo = blank\<lparr>orc := quiet\<lparr>o_exec := \<lambda>n args f. (if take 2 args = [''buildah'', ''inspect''] then Inr inspect_demo else Inl (Sys EIO), f)\<rparr>,
     fs := \<lambda>p. if p = images_demo @ slash # key_demo @ ''/manifest.json'' then Some (Reg 2 384 (manifest_text manifest_demo))
        else if p = images_demo @ slash # key_demo @ ''/rootfs.ext4'' then Some (Reg 3 384 disk_demo_bytes)
        else if p = ''/'' \<or> p = ''/d'' \<or> p = images_demo then Some (Dir 448) else None\<rparr>"

lemma inspect_demo_decodes: "json_Unmarshal buildahInspect_fields inspect_demo zero_buildahInspect = Inr inspected_demo"
  by code_simp

lemma demo_orc: "orc cache_demo = quiet\<lparr>o_exec := \<lambda>n args f. (if take 2 args = [''buildah'', ''inspect''] then Inr inspect_demo else Inl (Sys EIO), f)\<rparr>"
  by (simp add: cache_demo_def)

lemma demo_digest: "image_digest inspected_demo = ''sha256:ab''" "digest_text ''sha256:ab''" "entry_name key_demo" "comp_ok key_demo"
proof -
  show "image_digest inspected_demo = ''sha256:ab''" by code_simp
  show d: "digest_text ''sha256:ab''" by code_simp
  show "entry_name key_demo" "comp_ok key_demo" using templateKey_name[OF d] by (simp_all add: key_demo_def)
qed

lemma manifest_demo_ok: "Manifest_ok manifest_demo"
  unfolding manifest_demo_def
  by (rule new_manifest_ok) (simp_all add: inspect_valid_def inspected_demo_def zero_buildahInspect_def valid_ascii, code_simp)

lemma demo_entry: "entry (fs cache_demo) (images_demo @ slash # key_demo) = Some manifest_demo"
proof -
  have "int (length disk_demo_bytes) = DefaultDiskMiB * 1024 * 1024" by (simp add: disk_demo_bytes_def DefaultDiskMiB_def)
  then show ?thesis
    using manifest_codec.dec_enc[OF manifest_demo_ok]
    by (simp add: entry_def cache_demo_def disk_fits_def manifest_demo_def new_manifest_def)
qed

lemma demo_cache_ok: "cache_ok ''amd64'' images_demo (fs cache_demo)"
  unfolding cache_ok_def
proof (intro allI impI)
  fix k m assume k: "entry_name k" "entry (fs cache_demo) (images_demo @ slash # k) = Some m"
  then have "fs cache_demo ((images_demo @ slash # k) @ ''/manifest.json'') \<noteq> None" by (auto simp: entry_def split: option.splits)
  then have "k @ ''/manifest.json'' = key_demo @ ''/manifest.json'' \<or> k @ slash # ''manifest.json'' = key_demo @ slash # ''rootfs.ext4''"
    by (auto simp: cache_demo_def split: if_splits)
  then have "k = key_demo" using split_first_slash[of k key_demo] k(1) demo_digest(3) by (auto simp: entry_name_def)
  then show "k = templateKey ''amd64'' (im_Digest m)" using k(2) demo_entry by (simp add: manifest_demo_def new_manifest_def key_demo_def)
qed

lemma demo_template_env: "template_env (orc cache_demo) images_demo"
proof -
  have t: "rfc3339_ok ''2025-01-01T00:00:00Z''" by code_simp
  have "fst (o_exec (orc cache_demo) n args f) = Inr out \<Longrightarrow> out = inspect_demo" for n args f out
    by (auto simp: demo_orc split: if_splits)
  then show ?thesis
    using inspect_demo_decodes demo_digest(1,2) t nat_digits_are_digits
    by (auto simp: template_env_def fenced_def rand_digits_def careful_def spares_def keeps_size_def demo_orc quiet_def valid_ascii list_all_iff)
qed

text \<open>Every world with the files and the environment of the example.\<close>

definition like_demo :: "world \<Rightarrow> bool" where
  "like_demo w \<longleftrightarrow> fs w = fs cache_demo \<and> orc w = orc cache_demo"

lemma like_demo_tick [simp]: "like_demo (tick w) = like_demo w"
  by (simp add: like_demo_def)

lemma like_demo_calm: "like_demo w \<Longrightarrow> calm w"
  by (simp add: like_demo_def calm_def demo_orc quiet_def)

lemma demo_MkdirAll:
  assumes "like_demo w" "d = ''/d'' \<or> d = images_demo"
  shows "os_MkdirAll d 448 w = (Ok (), tick w)"
proof -
  have a: "ancestors ''/d'' = [''/d'']" "ancestors images_demo = [''/d'', images_demo]" by code_simp+
  have "mkdir_missing 448 (ancestors d) (fs w) = Inr (fs w)"
    using assms by (auto simp: a like_demo_def cache_demo_def)
  moreover have "(tick w)\<lparr>fs := fs w\<rparr> = tick w" using tick_simps(2)[of w] by (cases "tick w") simp
  ultimately show ?thesis using like_demo_calm[OF assms(1)] by (simp add: os_MkdirAll_def calm_syscall_part)
qed

lemma demo_ImagesDir:
  assumes "like_demo w"
  shows "ImagesDir w = (Ok images_demo, tick (tick w))"
proof -
  have e: "o_env (orc w) ''DEVD_DIR'' = ''/d''" using assms by (simp add: like_demo_def demo_orc quiet_def)
  have "filepath_Join [''/d'', ''images''] = images_demo" by code_simp
  then show ?thesis using assms e
    by (simp add: ImagesDir_def DevdDir_def os_Getenv_def bindM_def thenM_def askM_def returnM_def demo_MkdirAll Let_def)
qed

lemma demo_inspect:
  assumes "like_demo w"
  shows "ensureLocalImage i w = (Ok inspected_demo, tick w)"
proof -
  have "(tick w)\<lparr>fs := fs w\<rparr> = tick w" using tick_simps(2)[of w] by (cases "tick w") simp
  then have "sys_exec [''buildah'', ''inspect'', ''--type'', ''image'', i] w = (Ok inspect_demo, tick w)"
    using like_demo_calm[OF assms] assms by (simp add: sys_exec_def calm_syscall_part like_demo_def demo_orc)
  then have "inspectImage i w = (Ok inspected_demo, tick w)"
    by (simp add: inspectImage_def bindM_def wrapM_def tryM_def returnM_def liftM_def inspect_demo_decodes)
  moreover have "ov_Architecture (bi_OCIv1 inspected_demo) = imageArchitecture (o_goarch (orc w))"
    using assms by (simp add: inspected_demo_def like_demo_def demo_orc quiet_def imageArchitecture_def)
  ultimately show ?thesis by (simp add: ensureLocalImage_pull bindM_def tryM_def askM_def returnM_def)
qed

definition entry_demo :: string where
  "entry_demo = images_demo @ slash # key_demo"

lemma demo_load:
  assumes "like_demo w"
  shows "loadTemplate entry_demo w =
    (Ok \<lparr>tp_Dir = entry_demo, tp_DiskPath = entry_demo @ ''/rootfs.ext4'', tp_Manifest = manifest_demo,
         tp_Cached = False\<rparr>, tick (tick w))"
proof -
  have c: "\<forall>c\<in>set [''d'', ''images'', key_demo]. comp_ok c" using demo_digest(4) by (auto simp: comp_ok_def)
  have "abs_path [''d'', ''images''] = images_demo" by code_simp
  then have "plain_dir entry_demo"
    using plain_dir_abs[OF c] abs_path_snoc[of "[''d'', ''images'']" key_demo] by (simp add: entry_demo_def)
  note p = template_paths(1,2)[OF this]
  have "int (length disk_demo_bytes) = im_DiskMiB manifest_demo * 1024 * 1024"
    by (simp add: disk_demo_bytes_def manifest_demo_def new_manifest_def DefaultDiskMiB_def)
  moreover have "im_FormatVersion manifest_demo = TemplateFormatVersion" "im_DiskMiB manifest_demo = DefaultDiskMiB"
    by (simp_all add: manifest_demo_def new_manifest_def)
  moreover have "fs w (entry_demo @ ''/manifest.json'') = Some (Reg 2 384 (manifest_text manifest_demo))"
    "fs w (entry_demo @ ''/rootfs.ext4'') = Some (Reg 3 384 disk_demo_bytes)"
    using assms by (simp_all add: like_demo_def cache_demo_def entry_demo_def)
  ultimately show ?thesis
    using like_demo_calm[OF assms] like_demo_calm[of "tick w"] assms manifest_codec.dec_enc[OF manifest_demo_ok]
    by (simp add: loadTemplate_def p bindM_def os_ReadFile_def os_Stat_def calm_syscall liftM_def returnM_def read_manifest_def Let_def)
qed

lemma demo_cached:
  "fst (EnsureTemplate ''a'' cache_demo) =
     Ok \<lparr>tp_Dir = entry_demo, tp_DiskPath = entry_demo @ ''/rootfs.ext4'', tp_Manifest = manifest_demo,
         tp_Cached = True\<rparr>"
proof -
  have w: "like_demo cache_demo" by (simp add: like_demo_def)
  have "CheckDependencies cache_demo = (Ok (), cache_demo)"
    by (simp add: CheckDependencies_def findE2fsTool_def exec_LookPath_def thenM_def bindM_def tryM_def askM_def liftM_def returnM_def demo_orc quiet_def)
  moreover have "o_goarch (orc w) = ''amd64''" if "like_demo w" for w using that by (simp add: like_demo_def demo_orc quiet_def)
  moreover have "\<forall>c\<in>set [''d'', ''images'']. comp_ok c" "abs_path [''d'', ''images''] = images_demo" by (simp add: comp_ok_def, code_simp)
  then have "filepath_Join [images_demo, key_demo] = entry_demo"
    using filepath_Join_abs_path[of "[''d'', ''images'']" key_demo] abs_path_snoc[of "[''d'', ''images'']" key_demo] demo_digest(4)
    by (simp add: entry_demo_def)
  ultimately show ?thesis
    using w by (simp add: EnsureTemplate_find find_or_build_def thenM_def bindM_def tryM_def wrapM_def returnM_def askM_def demo_inspect demo_ImagesDir
        demo_digest(1) demo_load key_demo_def[symmetric] Let_def)
qed

theorem template_cache_sound_witness:
  "\<exists>t. fst (EnsureTemplate ''a'' cache_demo) = Ok t \<and> tp_Cached t \<and> cache_ok ''amd64'' ''/d/images'' (fs cache_demo) \<and>
     cache_ok ''amd64'' ''/d/images'' (fs (snd (EnsureTemplate ''a'' cache_demo))) \<and>
     entry (fs (snd (EnsureTemplate ''a'' cache_demo))) (tp_Dir t) = Some (tp_Manifest t) \<and>
     tp_Dir t = ''/d/images/'' @ templateKey ''amd64'' ''sha256:ab''"
proof -
  have h: "devd_root (orc cache_demo) = Inr (abs_path [''d''])" "\<forall>c\<in>set [''d'']. comp_ok c"
    "''/d/images'' = abs_path ([''d''] @ [''images''])"
    using blank_root by (simp_all add: devd_root_def demo_orc blank_def quiet_def comp_ok_def, code_simp)
  have g: "o_goarch (orc cache_demo) = ''amd64''" "valid_utf8 ''a''" by (simp_all add: demo_orc quiet_def valid_ascii)
  note sound = template_cache_sound[OF surjective_pairing h demo_template_env g(2), unfolded g(1), OF demo_cache_ok]
  let ?t = "\<lparr>tp_Dir = entry_demo, tp_DiskPath = entry_demo @ ''/rootfs.ext4'', tp_Manifest = manifest_demo, tp_Cached = True\<rparr>"
  have "cache_ok ''amd64'' ''/d/images'' (fs (snd (EnsureTemplate ''a'' cache_demo)))"
    "entry (fs (snd (EnsureTemplate ''a'' cache_demo))) (tp_Dir ?t) = Some (tp_Manifest ?t)"
    using sound demo_cached by blast+
  moreover have "tp_Dir ?t = ''/d/images/'' @ templateKey ''amd64'' ''sha256:ab''" by (simp add: entry_demo_def key_demo_def)
  moreover have "tp_Cached ?t" by simp
  ultimately show ?thesis using demo_cached demo_cache_ok by blast
qed

end
