(* ===== verification/RunLaws.thy ===== *)
theory RunLaws
  imports TemplateLaws
begin

text \<open>
  Creating a workspace from an image, end to end: the cache of templates, the clone of the disk, the record in the database.
\<close>

section \<open>Paths\<close>

lemma abs_path_child: "abs_path (root @ [x]) = (if root = [] then [] else abs_path root) @ slash # x"
  by (simp add: abs_path_snoc)

lemma entry_disk_paths:
  assumes "\<forall>c\<in>set root. comp_ok c"
  shows "\<not> suffix ''.tmp'' (p @ ''/rootfs.ext4'')"
    "\<not> prefix (abs_path (root @ [''workspaces'']) @ slash # x) (abs_path (root @ [''images'']) @ slash # y)"
    "\<not> beneath (workspace_path root name) (abs_path (root @ [''images'']) @ slash # y)"
proof -
  have "last (p @ ''/rootfs.ext4'') = CHR ''4''" by simp
  then show "\<not> suffix ''.tmp'' (p @ ''/rootfs.ext4'')" by (auto simp: suffix_def simp del: last_append last_appendR)
  show "\<not> prefix (abs_path (root @ [''workspaces'']) @ slash # x) (abs_path (root @ [''images'']) @ slash # y)" for x
    by (simp add: abs_path_child)
  have "workspace_path root name = abs_path (root @ [''workspaces'']) @ slash # name"
    using abs_path_snoc[of "root @ [''workspaces'']" name] by (simp add: workspace_path_def)
  then show "\<not> beneath (workspace_path root name) (abs_path (root @ [''images'']) @ slash # y)"
    by (auto simp: beneath_def abs_path_child)
qed

text \<open>\<^verbatim>\<open>cp\<close> copies, no program changes an existing file of a template or of a workspace, and the user's ssh configuration is neither.\<close>

definition cloning_env :: "environ \<Rightarrow> string list \<Rightarrow> bool" where
  "cloning_env e root \<longleftrightarrow> cp_copies e \<and>
     \<not> beneath (abs_path (root @ [''workspaces''])) (ssh_config_path e) \<and> \<not> entry_file (abs_path (root @ [''images''])) (ssh_config_path e) \<and>
     spares (\<lambda>p. entry_file (abs_path (root @ [''images''])) p \<or> beneath (abs_path (root @ [''workspaces''])) p \<and> \<not> suffix ''.tmp'' p) e"

lemma cloning_publishing:
  assumes "cloning_env e root" "rand_digits e" "entry_name k" "\<forall>c\<in>set root. comp_ok c"
  shows "publishing_env e (abs_path (root @ [''workspaces''])) (abs_path (root @ [''images'']) @ slash # k @ ''/rootfs.ext4'')"
proof -
  let ?s = "abs_path (root @ [''images'']) @ slash # k @ ''/rootfs.ext4''"
  have d: "entry_file (abs_path (root @ [''images''])) ?s" using assms(3) unfolding entry_file_def by blast
  then have "spares (workspace_file (abs_path (root @ [''workspaces''])) ?s) e"
    using assms(1) unfolding cloning_env_def by (auto elim: spares_mono simp: workspace_file_def)
  moreover have "ssh_config_path e \<noteq> ?s" using assms(1) d by (auto simp: cloning_env_def)
  ultimately show ?thesis
    using assms(1,2) entry_disk_paths(1)[OF assms(4), of "abs_path (root @ [''images'']) @ slash # k"]
      entry_disk_paths(2)[OF assms(4), of "''.create-''" "k @ ''/rootfs.ext4''"]
    by (simp add: publishing_env_def cloning_env_def)
qed

section \<open>The steps before the template\<close>

lemma prefix_frames:
  "maintains (no_growth C) (checkNewWorkspace n)" "maintains (no_growth C) (resolvePlan p)" "maintains (no_growth C) CheckRuntime"
proof -
  have "maintains (no_growth C) (WorkspaceDir n)"
    unfolding WorkspaceDir_def WorkspacesDir_def DevdDir_def os_Getenv_def os_UserHomeDir_def Let_def
    by (intro grow_rules) (auto intro!: grow_rules)
  then show "maintains (no_growth C) (checkNewWorkspace n)"
    unfolding checkNewWorkspace_def WorkspaceExists_def by (auto intro!: grow_rules)
  show "maintains (no_growth C) (resolvePlan p)" by (intro grow.option_rules)
  show "maintains (no_growth C) CheckRuntime"
    unfolding CheckRuntime_def RuntimePath_def ImageHelperPath_def by (intro grow_rules)
qed

text \<open>The world in which \<^verbatim>\<open>EnsureTemplate\<close> is called: nothing that matters has changed.\<close>

definition ready :: "string \<Rightarrow> world \<Rightarrow> world \<Rightarrow> bool" where
  "ready images w u \<longleftrightarrow> no_growth (entry_file images) w u \<and> same_db w u"

lemma ready_step:
  assumes "ready images w u" "m u = (r, v)" "maintains (no_growth (entry_file images)) m" "maintains same_db m"
  shows "ready images w v"
  using assms grow.R_trans[OF _ maintainsD[OF assms(3,2)]] nodb.R_trans[OF _ maintainsD[OF assms(4,2)]] by (simp add: ready_def)

text \<open>Mount and kernel of a boot specification are what \<^verbatim>\<open>parseMount\<close> and \<^verbatim>\<open>resolveKernelPath\<close> make of the given values on this host.\<close>

definition resolves :: "environ \<Rightarrow> string \<Rightarrow> string \<Rightarrow> Spec \<Rightarrow> bool" where
  "resolves e mount kern spec \<longleftrightarrow>
     (\<exists>u v. orc u = e \<and> parseMount mount u = (Ok (sp_MountHost spec, sp_MountGuest spec), v)) \<and>
     (\<exists>u v. orc u = e \<and> resolveKernelPath kern u = (Ok (sp_KernelPath spec), v))"

lemma resolvePlan_keeps:
  assumes "resolvePlan p w = (Ok q, w')"
  shows "pl_CPUs q = pl_CPUs p \<and> pl_Memory q = pl_Memory p \<and> pl_Ports q = pl_Ports p \<and> pl_ParentName q = pl_ParentName p \<and>
    pl_Image q = pl_Image p \<and> pl_ImageDigest q = pl_ImageDigest p \<and> sp_Environment (pl_Spec q) = sp_Environment (pl_Spec p) \<and>
    sp_WorkingDir (pl_Spec q) = sp_WorkingDir (pl_Spec p) \<and> sp_UserCommand (pl_Spec q) = sp_UserCommand (pl_Spec p)"
    "resolves (orc w) (pl_Mount p) (sp_KernelPath (pl_Spec p)) (pl_Spec q)"
proof -
  from assms obtain x w1 host guest w2 kern w3 where
    1: "liftM (validatePorts (pl_Ports p)) w = (Ok x, w1)" and
    2: "parseMount (pl_Mount p) w1 = (Ok (host, guest), w2)" and
    3: "resolveKernelPath (sp_KernelPath (pl_Spec p)) w2 = (Ok kern, w3)" and
    q: "q = p\<lparr>pl_Spec := (pl_Spec p)\<lparr>sp_MountHost := host, sp_MountGuest := guest, sp_KernelPath := kern\<rparr>\<rparr>"
    unfolding resolvePlan_def Let_def by (auto elim!: bindM_OkE thenM_OkE split: if_splits prod.splits)
  have "orc w1 = orc w" using 1 by simp
  moreover have "orc w2 = orc w1" using maintainsD[OF env.m_parseMount 2] by (simp add: same_env_def)
  ultimately show "resolves (orc w) (pl_Mount p) (sp_KernelPath (pl_Spec p)) (pl_Spec q)" using 2 3 unfolding resolves_def q by auto
qed (use assms in \<open>auto simp: resolvePlan_def Let_def elim!: bindM_OkE thenM_OkE split: if_splits prod.splits\<close>)

section \<open>From the image to the record\<close>

text \<open>What a new workspace comes from: a template of the cache, with this manifest and disk, for the digest that was reported for the image.\<close>

definition from_template :: "environ \<Rightarrow> string \<Rightarrow> string \<Rightarrow> Template \<Rightarrow> string \<Rightarrow> world \<Rightarrow> bool" where
  "from_template e images img t disk w \<longleftrightarrow>
     (\<exists>b. reported e (QualifyImage img) b \<and> tp_Dir t = images @ slash # templateKey (o_goarch e) (image_digest b)) \<and>
     tp_Dir t = images @ slash # templateKey (o_goarch e) (im_Digest (tp_Manifest t)) \<and> entry (fs w) (tp_Dir t) = Some (tp_Manifest t) \<and>
     (\<exists>i m. fs w (tp_Dir t @ ''/rootfs.ext4'') = Some (Reg i m disk)) \<and> int (length disk) = DefaultDiskMiB * 1024 * 1024"

lemma entry_disk:
  assumes "entry f d = Some m"
  obtains i p c where "f (d @ ''/rootfs.ext4'') = Some (Reg i p c)" "int (length c) = DefaultDiskMiB * 1024 * 1024"
  using assms that by (auto simp: entry_def disk_fits_def split: option.splits node.splits sum.splits if_splits)

lemma clone_run:
  assumes run: "publishWorkspace name (tp_DiskPath t) plan w = (r, w')" and w: "tx w = None" "orc w = e"
    and root: "devd_root e = Inr (abs_path root)" "\<forall>c\<in>set root. comp_ok c"
    and env: "cloning_env e root" "rand_digits e"
    and t: "entry (fs w) (tp_Dir t) = Some (tp_Manifest t)" "tp_DiskPath t = tp_Dir t @ ''/rootfs.ext4''"
      "tp_Dir t = abs_path (root @ [''images'']) @ slash # templateKey (o_goarch e) (im_Digest (tp_Manifest t))"
      "reported e (QualifyImage img) b" "tp_Dir t = abs_path (root @ [''images'']) @ slash # templateKey (o_goarch e) (image_digest b)"
    and k: "entry_name (templateKey (o_goarch e) (image_digest b))"
  shows "tx w' = None \<and> (db w' = db w \<and> (\<forall>ws. r \<noteq> Ok ws) \<or>
    (\<exists>disk. from_template e (abs_path (root @ [''images''])) img t disk w' \<and> recorded name (workspace_path root name) disk plan (db w) w'))"
proof -
  obtain i m disk where d: "fs w (tp_Dir t @ ''/rootfs.ext4'') = Some (Reg i m disk)" "int (length disk) = DefaultDiskMiB * 1024 * 1024"
    by (rule entry_disk[OF t(1)])
  let ?s = "tp_Dir t @ ''/rootfs.ext4''"
  have p: "publishing_env (orc w) (abs_path (root @ [''workspaces''])) ?s"
    using cloning_publishing[OF env k root(2)] w(2) t(5) by simp
  let ?D = "\<lambda>p. p = tp_Dir t @ ''/manifest.json'' \<or> p = ?s"
  have dir: "tp_Dir t = abs_path (root @ [''images'']) @ slash # templateKey (o_goarch e) (image_digest b)" by (rule t(5))
  have ent: "entry_file (abs_path (root @ [''images''])) p" if "?D p" for p
    using that k unfolding entry_file_def dir by auto
  have side: "aside (orc w) root name p" if "?D p" for p
  proof -
    obtain x where p: "p = abs_path (root @ [''images'']) @ slash # x" using \<open>?D p\<close> dir by auto
    moreover have "p \<noteq> ssh_config_path e" using ent[OF that] env(1) by (auto simp: cloning_env_def)
    ultimately show ?thesis
      using entry_disk_paths(3)[OF root(2), of name x] entry_disk_paths(2)[OF root(2), of "''.create-''" x] w(2) by (simp add: aside_def)
  qed
  have keep: "intact ?D w w'" by (rule publishWorkspace_keeps[OF run _ root(2)]) (use root(1) w(2) env(2) side in auto)
  have sp: "spares ?D (orc w)" using env(1) ent w(2) unfolding cloning_env_def by (auto elim!: spares_mono)
  have "fs w' ?s = Some (Reg i m disk)" by (rule intactD[OF keep sp _ d(1)]) simp
  moreover have "entry (fs w') (tp_Dir t) = Some (tp_Manifest t)"
    by (rule entry_mono[OF t(1)]) (use intactD[OF keep sp] in auto)
  ultimately have "from_template e (abs_path (root @ [''images''])) img t disk w'"
    using d(2) t(3,4,5) unfolding from_template_def by blast
  then show ?thesis
    using publishWorkspace_run[OF run[unfolded t(2)] w(1) d(1) _ root(2) p] root(1) w(2) by blast
qed

text \<open>A plan that has what was asked for and, for the rest, what the template says.\<close>

definition requested :: "environ \<Rightarrow> provisionOptions \<Rightarrow> ImageManifest \<Rightarrow> workspacePlan \<Rightarrow> bool" where
  "requested e opts m plan \<longleftrightarrow>
     pl_Image plan = im_Image m \<and> pl_ImageDigest plan = im_Digest m \<and> pl_ParentName plan = [] \<and>
     pl_CPUs plan = pv_CPUs opts \<and> pl_Memory plan = pv_Memory opts \<and> pl_Ports plan = pv_Ports opts \<and>
     sp_UserCommand (pl_Spec plan) = pv_UserCommand opts \<and> resolves e (pv_Mount opts) (pv_KernelPath opts) (pl_Spec plan) \<and>
     sp_Environment (pl_Spec plan) = im_Environment m \<and> sp_WorkingDir (pl_Spec plan) = im_WorkingDir m"

lemma requested_with_template:
  assumes "resolvePlan (provision_plan opts) w = (Ok plan, w')"
  shows "requested (orc w) opts (tp_Manifest t) (with_template t plan)"
  using resolvePlan_keeps[OF assms] by (simp add: requested_def with_template_def provision_plan_def resolves_def)

text \<open>C6. Creating a workspace from an image, end to end. Whatever fails and wherever \<^verbatim>\<open>provisionWorkspace\<close> dies, either the database is unchanged
  and no success is reported, or it has exactly one new row with its ports. In that case the row has the image and digest of the template and no parent, the directory of
  the workspace is complete, its disk is a copy of the disk of the template, unchanged in the cache, that belongs to the digest \<^verbatim>\<open>buildah\<close> reported for the requested
  image, image, digest, environment and working directory are those of the manifest of that template in the cache, and resources, ports, the startup
  command, the mount and the kernel are the requested ones.\<close>

theorem provisioned_from_template:
  assumes "provisionWorkspace opts w = (r, w')" "tx w = None"
    and "devd_root (orc w) = Inr (abs_path root)" "\<forall>c\<in>set root. comp_ok c"
    and "template_env (orc w) (abs_path (root @ [''images'']))" "cloning_env (orc w) root" "valid_utf8 (pv_Image opts)"
    and "cache_ok (o_goarch (orc w)) (abs_path (root @ [''images''])) (fs w)"
  shows "tx w' = None \<and> (db w' = db w \<and> (\<forall>ws. r \<noteq> Ok ws) \<or>
    (\<exists>t plan disk. from_template (orc w) (abs_path (root @ [''images''])) (pv_Image opts) t disk w' \<and>
       requested (orc w) opts (tp_Manifest t) plan \<and> recorded (pv_Name opts) (workspace_path root (pv_Name opts)) disk plan (db w) w'))"
proof -
  let ?I = "abs_path (root @ [''images''])" and ?C = "entry_file (abs_path (root @ [''images'']))"
  have fence: "fenced ?C (orc w)" "rand_digits (orc w)" using assms(5) by (simp_all add: template_env_def)
  have r0: "ready ?I w w" by (simp add: ready_def grow.R_refl nodb.R_refl)
  have stop: ?thesis if "same_db w w'" "\<And>ws. r \<noteq> Ok ws"
    using that assms(2) by (simp add: same_db_def)
  note d = nodb.R_trans[OF conjunct2[OF iffD1[OF ready_def]]]
  from assms(1)[unfolded provisionWorkspace_def] show ?thesis
  proof (cases rule: thenM_cases)
    case (go u w1)
    note r1 = ready_step[OF r0 go(1) prefix_frames(1) nodb.m_checkNewWorkspace]
    from go(2) show ?thesis
    proof (cases rule: bindM_cases)
      case (go plan w2)
      have "orc w1 = orc w" using r1 by (simp add: ready_def no_growth_def same_env_def)
      note plan = requested_with_template[OF go(1), unfolded this]
      note r2 = ready_step[OF r1 go(1) prefix_frames(2) nodb.m_resolvePlan]
      from go(2) show ?thesis
      proof (cases rule: thenM_cases)
        case (go v w3)
        note r3 = ready_step[OF r2 go(1) prefix_frames(3) nodb.m_CheckRuntime]
        have e3: "orc w3 = orc w" and g3: "no_growth ?C w w3" using r3 by (simp_all add: ready_def no_growth_def same_env_def)
        have c3: "cache_ok (o_goarch (orc w3)) ?I (fs w3)"
          using cache_ok_adds[OF assms(8) growth_adds_only[OF g3 fence(1), of _ "[]"]] e3 by simp
        from go(2) show ?thesis
        proof (cases rule: bindM_cases)
          case (go t w4)
          then have run: "EnsureTemplate (pv_Image opts) w3 = (Ok t, w4)" by simp
          have e4: "orc w4 = orc w" using maintainsD[OF env.m_EnsureTemplate run] e3 by (simp add: same_env_def)
          have d4: "same_db w w4" using nodb.R_trans[OF _ maintainsD[OF nodb.m_EnsureTemplate run]] r3 by (simp add: ready_def)
          from EnsureTemplate_run[OF run _ assms(4) refl _ assms(7) c3] assms(3,5) e3 obtain b where
            t: "entry (fs w4) (tp_Dir t) = Some (tp_Manifest t)" "tp_DiskPath t = tp_Dir t @ ''/rootfs.ext4''"
              "tp_Dir t = ?I @ slash # templateKey (o_goarch (orc w)) (im_Digest (tp_Manifest t))"
              "reported (orc w) (QualifyImage (pv_Image opts)) b" "tp_Dir t = ?I @ slash # templateKey (o_goarch (orc w)) (image_digest b)"
            by auto
          have k: "entry_name (templateKey (o_goarch (orc w)) (image_digest b))"
            using t(4) assms(5) by (intro templateKey_name) (auto simp: reported_def template_env_def)
          have tx4: "tx w4 = None" "db w4 = db w" using d4 assms(2) by (simp_all add: same_db_def)
          from clone_run[OF go(2) tx4(1) e4 assms(3,4,6) fence(2) t k] tx4(2) plan show ?thesis
            by auto
        qed (use stop d[OF r3 maintainsD[OF nodb.m_wrap[OF nodb.m_EnsureTemplate]]] in auto)
      qed (use stop d[OF r2 maintainsD[OF nodb.m_CheckRuntime]] in auto)
    qed (use stop d[OF r1 maintainsD[OF nodb.m_resolvePlan]] in auto)
  qed (use stop d[OF r0 maintainsD[OF nodb.m_checkNewWorkspace]] in auto)
qed

section \<open>An example\<close>

text \<open>The installation with one template, on a host where \<^verbatim>\<open>cp\<close> clones disks.\<close>

definition clone_demo :: "string list \<Rightarrow> file_system \<Rightarrow> string result \<times> file_system" where
  "clone_demo args f =
     (case args of
        [a, b, c, source, temp] \<Rightarrow>
          (case f source of
             Some (Reg i m d) \<Rightarrow> if suffix ''/rootfs.ext4.tmp'' temp then (Inr [], f(temp \<mapsto> Reg 50 m d)) else (Inl (Sys EIO), f)
           | _ \<Rightarrow> (Inl (Sys ENOENT), f))
      | _ \<Rightarrow> (Inl (Sys EIO), f))"

definition exec_demo :: "string list \<Rightarrow> file_system \<Rightarrow> string result \<times> file_system" where
  "exec_demo args f = (if take 2 args = [''buildah'', ''inspect''] then (Inr inspect_demo, f) else clone_demo args f)"

definition run_demo :: world where
  "run_demo = cache_demo\<lparr>orc := quiet\<lparr>o_exec := \<lambda>n. exec_demo\<rparr>\<rparr>"

definition options_demo :: provisionOptions where
  "options_demo = \<lparr>pv_Name = ''b'', pv_Image = ''a'', pv_CPUs = 1, pv_Memory = 512, pv_Ports = [3000], pv_Mount = [], pv_UserCommand = [],
     pv_KernelPath = []\<rparr>"

lemma exec_demo_files: "\<not> suffix ''/rootfs.ext4.tmp'' p \<Longrightarrow> snd (exec_demo args f) p = f p"
  by (auto simp: exec_demo_def clone_demo_def split: list.splits option.splits node.splits)

lemma exec_demo_out: "fst (exec_demo args f) = Inr out \<Longrightarrow> out = inspect_demo \<or> out = []"
  by (auto simp: exec_demo_def clone_demo_def split: list.splits option.splits node.splits if_splits)

lemma not_temp:
  "\<not> suffix ''/rootfs.ext4.tmp'' (p @ ''/manifest.json'')" "\<not> suffix ''/rootfs.ext4.tmp'' (p @ ''/rootfs.ext4'')"
proof -
  have "last (p @ ''/manifest.json'') = CHR ''n''" "last (p @ ''/rootfs.ext4'') = CHR ''4''" by simp_all
  then show "\<not> suffix ''/rootfs.ext4.tmp'' (p @ ''/manifest.json'')" "\<not> suffix ''/rootfs.ext4.tmp'' (p @ ''/rootfs.ext4'')"
    by (auto simp: suffix_def simp del: last_append last_appendR)
qed

lemma entry_not_temp: "entry_file images p \<Longrightarrow> \<not> suffix ''/rootfs.ext4.tmp'' p"
proof -
  assume "entry_file images p"
  then obtain k where "p = (images @ slash # k) @ ''/manifest.json'' \<or> p = (images @ slash # k) @ ''/rootfs.ext4''"
    by (auto simp: entry_file_def)
  then show ?thesis using not_temp by blast
qed

lemma not_temp_staging:
  assumes "slash \<notin> set x"
  shows "\<not> suffix ''/rootfs.ext4.tmp'' (p @ slash # ''.tmp-'' @ x)"
proof
  assume "suffix ''/rootfs.ext4.tmp'' (p @ slash # ''.tmp-'' @ x)"
  then obtain y where "p @ slash # (''.tmp-'' @ x) = y @ slash # ''rootfs.ext4.tmp''" by (auto simp: suffix_def)
  then have "rev (''.tmp-'' @ x) @ slash # rev p = rev ''rootfs.ext4.tmp'' @ slash # rev y"
    by (metis append.assoc append_Cons append_Nil rev.simps(2) rev_append)
  then have "rev (''.tmp-'' @ x) = rev ''rootfs.ext4.tmp''"
    using split_first_slash[of "rev (''.tmp-'' @ x)" "rev ''rootfs.ext4.tmp''"] assms by simp
  then have "''.tmp-'' @ x = ''rootfs.ext4.tmp''" by (rule rev_is_rev_conv[THEN iffD1])
  then show False by simp
qed

lemma run_demo_orc: "orc run_demo = quiet\<lparr>o_exec := \<lambda>n. exec_demo\<rparr>"
  by (simp add: run_demo_def)

lemma run_demo_template_env: "template_env (orc run_demo) images_demo"
proof -
  let ?e = "orc run_demo"
  have x: "o_exec ?e n args f = exec_demo args f" for n args f by (simp add: run_demo_orc)
  have "fenced (entry_file images_demo) ?e" using exec_demo_files entry_not_temp by (simp add: fenced_def x)
  moreover have "rand_digits ?e" using nat_digits_are_digits by (simp add: rand_digits_def run_demo_orc quiet_def list_all_iff)
  moreover have car: "careful T ?e" if "\<not> suffix ''/rootfs.ext4.tmp'' T" for T
    using exec_demo_files that not_temp[of T] by (auto simp: careful_def spares_def keeps_size_def x)
  moreover have "careful (images_demo @ slash # ''.tmp-'' @ y) ?e" if "slash \<notin> set y" for y
    by (rule car[OF not_temp_staging[OF that]])
  moreover have "rfc3339_ok (o_time_text ?e n) \<and> valid_utf8 (o_time_text ?e n)" for n
  proof -
    have "rfc3339_ok ''2025-01-01T00:00:00Z''" by code_simp
    then show ?thesis by (simp add: run_demo_orc quiet_def valid_ascii)
  qed
  moreover have "digest_text (image_digest b)"
    if "fst (o_exec ?e n args f) = Inr out" "json_Unmarshal buildahInspect_fields out zero_buildahInspect = Inr b" for n args f out b
  proof -
    have "json_Unmarshal buildahInspect_fields [] zero_buildahInspect \<noteq> Inr b" by code_simp
    then show ?thesis using exec_demo_out[of args f out] that inspect_demo_decodes demo_digest(1,2) by (auto simp: x)
  qed
  ultimately show ?thesis unfolding template_env_def by blast
qed

lemma run_demo_cloning_env: "cloning_env (orc run_demo) [''d'']"
proof -
  let ?e = "orc run_demo"
  have x: "o_exec ?e n args f = exec_demo args f" "o_goos ?e = ''linux''" for n args f by (simp_all add: run_demo_orc quiet_def)
  have "filepath_Join [''/h'', ''.ssh'', ''config''] = ''/h/.ssh/config''" by code_simp
  then have h: "ssh_config_path ?e = ''/h/.ssh/config''" by (simp add: ssh_config_path_def run_demo_orc quiet_def)
  have p: "abs_path ([''d''] @ [''workspaces'']) = ''/d/workspaces''" "abs_path ([''d''] @ [''images'']) = images_demo" by code_simp+
  have cp: "cp_copies ?e"
    by (auto simp: cp_copies_def x clone_args_def exec_demo_def clone_demo_def split: option.splits node.splits if_splits)
  have "suffix ''.tmp'' q" if "suffix ''/rootfs.ext4.tmp'' q" for q
    using that suffix_order.trans[of "''.tmp''" "''/rootfs.ext4.tmp''" q] by (simp add: suffix_def)
  then have "spares (\<lambda>p. entry_file images_demo p \<or> beneath parent p \<and> \<not> suffix ''.tmp'' p) ?e" for parent
    using exec_demo_files entry_not_temp by (auto simp: spares_def x)
  moreover have "\<not> entry_file images_demo ''/h/.ssh/config''" by (auto simp: entry_file_def)
  moreover have "\<not> beneath ''/d/workspaces'' ''/h/.ssh/config''" by (simp add: beneath_def)
  ultimately show ?thesis using cp unfolding cloning_env_def p h by simp
qed

theorem provisioned_from_template_witness:
  "\<exists>r w'. provisionWorkspace options_demo run_demo = (r, w') \<and> tx w' = None \<and> (db w' = db run_demo \<and> (\<forall>ws. r \<noteq> Ok ws) \<or>
    (\<exists>t plan disk. from_template (orc run_demo) ''/d/images'' ''a'' t disk w' \<and>
       requested (orc run_demo) options_demo (tp_Manifest t) plan \<and> recorded ''b'' (workspace_path [''d''] ''b'') disk plan (db run_demo) w'))"
proof -
  have p: "abs_path ([''d''] @ [''images'']) = ''/d/images''" by code_simp
  have h: "tx run_demo = None" "devd_root (orc run_demo) = Inr (abs_path [''d''])" "\<forall>c\<in>set [''d'']. comp_ok c"
    using blank_root by (simp_all add: run_demo_def cache_demo_def blank_def devd_root_def quiet_def comp_ok_def)
  have v: "valid_utf8 (pv_Image options_demo)" by (simp add: options_demo_def valid_ascii)
  have c: "cache_ok (o_goarch (orc run_demo)) (abs_path ([''d''] @ [''images''])) (fs run_demo)"
    using demo_cache_ok unfolding p by (simp add: run_demo_def quiet_def)
  note t = run_demo_template_env[folded p]
  have o: "pv_Name options_demo = ''b''" "pv_Image options_demo = ''a''" by (simp_all add: options_demo_def)
  from provisioned_from_template[OF surjective_pairing h t run_demo_cloning_env v c] show ?thesis
    unfolding p o using surjective_pairing[of "provisionWorkspace options_demo run_demo"] by blast
qed

end
