(* ===== verification/ForkLaws.thy ===== *)
theory ForkLaws
  imports RunLaws
begin

text \<open>
  Forking a workspace, end to end: from the row and the directory of the source to the row and the directory of the copy.
\<close>

section \<open>Observing the source\<close>

text \<open>The rows are the same, except that those of one name may have another state, process number and activity.\<close>

definition restated :: "string \<Rightarrow> tables \<Rightarrow> tables \<Rightarrow> bool" where
  "restated name t t' \<longleftrightarrow> t_reserved t' = t_reserved t \<and>
     list_all2 (\<lambda>r r'. r' = r \<or> ws_Name r = name \<and>
       r' = r\<lparr>ws_State := ws_State r', ws_PID := ws_PID r', ws_IsActive := ws_IsActive r'\<rparr>) (t_workspaces t) (t_workspaces t')"

lemma restated_refl: "restated name t t"
  by (simp add: restated_def list.rel_refl)

lemma restated_set_state: "restated name t (sql_set_state name s pid t)"
  by (auto simp: restated_def sql_set_state_def sql_update_where_def list_all2_conv_all_nth)

lemma restated_ports: "restated name t t' \<Longrightarrow> sql_ports_of n t' = sql_ports_of n t"
  by (simp add: restated_def sql_ports_of_def)

text \<open>A world in which at most the state of the source has been updated.\<close>

definition looked :: "string \<Rightarrow> (string \<Rightarrow> bool) \<Rightarrow> world \<Rightarrow> world \<Rightarrow> bool" where
  "looked name D w u \<longleftrightarrow> tx u = None \<and> intact D w u \<and> restated name (db w) (db u)"

lemma looked_step:
  assumes "looked name D w u" "m u = (r, v)" "calmly D m"
  shows "looked name D w v \<and> db v = db u"
  using assms(1) maintainsD[of same_db m, OF _ assms(2)] maintainsD[of "intact D" m, OF _ assms(2)] assms(3)
    keep.R_trans[of D w u v]
  by (auto simp: looked_def calmly_def same_db_def)

lemma looked_trans: "looked name D w u \<Longrightarrow> db u = db w \<Longrightarrow> looked name D u v \<Longrightarrow> looked name D w v"
  using keep.R_trans[of D w u v] by (simp add: looked_def)

lemma calmly_fork:
  "calmly D RuntimePath" "calmly D (LockDisk p)" "calmly D (Load d)" "calmly D (GetReservedPorts n)" "calmly D (resolvePlan p0)"
  "calmly D (sys_close fd)" "calmly D (GetWorkspace n)" "calmly D (observe ws)" "calmly D (confirm_stopped ws)"
proof -
  have d: "maintains same_db RuntimePath" "maintains (intact D) RuntimePath"
    unfolding RuntimePath_def by (auto intro!: nodb.m_companionPath nodb.rules keep_rules)
  then show "calmly D RuntimePath" by (simp add: calmly_def)
  show "calmly D (LockDisk p)" "calmly D (sys_close fd)" "calmly D (resolvePlan p0)"
    unfolding calmly_def by (intro conjI nodb.m_LockDisk nodb.lock_rules nodb.option_rules keep_rules)+
  have "maintains (intact D) (Load d)" unfolding Load_def by (auto intro!: keep_rules)
  then show "calmly D (Load d)" by (simp add: calmly_def nodb.m_Load)
  have "maintains (intact D) (GetReservedPorts n)" "maintains (intact D) (GetWorkspace n)"
    unfolding GetReservedPorts_def GetWorkspace_def by (auto intro!: keep_rules split: option.splits)
  then show "calmly D (GetReservedPorts n)" "calmly D (GetWorkspace n)" by (simp_all add: calmly_def nodb.m_queries)
  have "maintains (intact D) (observe ws)" "maintains (intact D) (confirm_stopped ws)"
    unfolding observe_def confirm_stopped_def by (auto intro!: keep_rules split: option.splits)
  then show "calmly D (observe ws)" "calmly D (confirm_stopped ws)" by (simp_all add: calmly_def nodb.m_observe nodb.m_confirm_stopped)
qed

lemma wrapM_final: "wrapM s m w = (r, v) \<Longrightarrow> snd (m w) = v"
  using wrapM_snd[of s m w] by simp

lemma set_state_run:
  assumes "looked name D w u" "SetWorkspaceState name s pid u = (r, v)" "db u = db w"
  shows "looked name D w v \<and> (r = Ok () \<longrightarrow> db v = sql_set_state name s pid (db w))"
proof -
  have m: "maintains (intact D) (SetWorkspaceState name s pid)" by (simp add: SetWorkspaceState_def keepd.m_sql_exec)
  have "intact D u v" by (rule maintainsD[OF m assms(2)])
  then show ?thesis
    using SetWorkspaceState_run[OF assms(2)] assms(1,3) keep.R_trans[of D w u v] restated_refl restated_set_state
    by (auto simp: looked_def)
qed

lemma by_name_set_state:
  "sql_by_name name t = Some ws \<Longrightarrow> \<exists>row. sql_by_name name (sql_set_state name s pid t) = Some row \<and> ws_State row = s"
proof -
  have "find (\<lambda>w. ws_Name w = name) ws = Some x \<Longrightarrow> (\<And>r. ws_Name (f r) = ws_Name r) \<Longrightarrow>
      find (\<lambda>w. ws_Name w = name) (map (\<lambda>w. if ws_Name w = name then f w else w) ws) = Some (f x)" for ws x f
    by (induction ws) auto
  then show "sql_by_name name t = Some ws \<Longrightarrow> \<exists>row. sql_by_name name (sql_set_state name s pid t) = Some row \<and> ws_State row = s"
    by (force simp: sql_by_name_def sql_set_state_def sql_update_where_def)
qed

text \<open>\<^verbatim>\<open>loadWorkspace\<close> returns the row with its observed state, and a workspace that it takes for stopped is recorded as stopped.\<close>

lemma loadWorkspace_run:
  assumes run: "loadWorkspace name w = (r, w')" and w: "tx w = None" "sql_by_name name (db w) = Some ws"
  shows "looked name D w w'" "r = Ok x \<Longrightarrow> ws_State x \<noteq> running \<Longrightarrow>
    (\<exists>row. sql_by_name name (db w') = Some row \<and> ws_State row = stopped) \<and>
    x = ws\<lparr>ws_State := ws_State x, ws_PID := ws_PID x, ws_IsActive := ws_IsActive x\<rparr>"
proof -
  have l0: "looked name D w w" using w(1) by (simp add: looked_def keep.R_refl restated_refl)
  have "looked name D w w' \<and> (r = Ok x \<longrightarrow> ws_State x \<noteq> running \<longrightarrow>
    (\<exists>row. sql_by_name name (db w') = Some row \<and> ws_State row = stopped) \<and>
    x = ws\<lparr>ws_State := ws_State x, ws_PID := ws_PID x, ws_IsActive := ws_IsActive x\<rparr>)" (is ?G)
    using run[unfolded loadWorkspace_def]
  proof (cases rule: bindM_cases)
    case (go y w1)
    have y: "y = ws" using go(1) w by (auto simp: GetWorkspace_def cur_def elim!: bindM_OkE sql_query_OkE split: option.splits)
    note l1 = looked_step[OF l0 go(1) calmly_fork(7)]
    from go(2) show ?thesis
    proof (cases rule: bindM_cases)
      case (go sp w2)
      obtain s pid where sp: "sp = (s, pid)" by fastforce
      note st = rows.observe_state[OF go(1)[unfolded sp]]
      note l2 = looked_step[OF conjunct1[OF l1] go(1) calmly_fork(8)]
      have cf: "calmly D (if s = stopped \<and> ws_DiskPath y \<noteq> [] then confirm_stopped y else returnM ())"
        using calmly_fork(9) by (simp add: calmly_def nodb.rules keep.rules)
      from go(2)[unfolded sp prod.case] show ?thesis
      proof (cases rule: thenM_cases)
        case (go z w3)
        note l3 = looked_step[OF conjunct1[OF l2] go(1) cf]
        have d3: "db w3 = db w" using l1 l2 l3 by simp
        have l4: "looked name D w v" if "(if ws_State y \<noteq> s \<or> ws_PID y \<noteq> pid \<or> s = stopped \<and> ws_IsActive y
            then wrapM ''reconcile workspace state'' (SetWorkspaceState name s pid) else returnM ()) w3 = (q, v)" for q v
          using that l3 set_state_run[OF conjunct1[OF l3] surjective_pairing d3, of s pid] wrapM_final[of _ "SetWorkspaceState name s pid" w3]
          by (auto simp: returnM_def split: if_splits)
        from go(2) show ?thesis
        proof (cases rule: thenM_cases)
          case (go v w4)
          then have x: "r = Ok (ws\<lparr>ws_State := s, ws_PID := pid, ws_IsActive := (s \<noteq> stopped \<and> ws_IsActive ws)\<rparr>)" "w' = w4"
            by (auto simp: returnM_def y)
          show ?thesis
          proof (cases "ws_State y \<noteq> s \<or> ws_PID y \<noteq> pid \<or> s = stopped \<and> ws_IsActive y")
            case True
            then have "SetWorkspaceState name s pid w3 = (Ok (), w4)" using go(1) by simp
            from set_state_run[OF conjunct1[OF l3] this d3] show ?thesis
              using x st by_name_set_state[OF w(2), of s pid] by auto
          next
            case False
            then have "w4 = w3" using go(1) by (auto simp: returnM_def split: if_splits)
            then show ?thesis using x st l3 d3 w(2) False y by auto
          qed
        qed (use l4 in auto)
      qed (use looked_step[OF conjunct1[OF l2] _ cf] in auto)
    qed (use looked_step[OF conjunct1[OF l1] _ calmly_fork(8)] in auto)
  qed (use looked_step[OF l0 _ calmly_fork(7)] in auto)
  then show "looked name D w w'" "r = Ok x \<Longrightarrow> ws_State x \<noteq> running \<Longrightarrow>
    (\<exists>row. sql_by_name name (db w') = Some row \<and> ws_State row = stopped) \<and>
    x = ws\<lparr>ws_State := ws_State x, ws_PID := ws_PID x, ws_IsActive := ws_IsActive x\<rparr>" by blast+
qed

section \<open>The copy\<close>

text \<open>A plan that inherits from the source what the user does not override. The mount is stored as the pair of host and guest path and parsed again.\<close>

definition inherits :: "environ \<Rightarrow> Workspace \<Rightarrow> int list \<Rightarrow> Spec \<Rightarrow> forkOverrides \<Rightarrow> workspacePlan \<Rightarrow> bool" where
  "inherits e ws ports spec ov plan \<longleftrightarrow>
     pl_Image plan = ws_Image ws \<and> pl_ImageDigest plan = ws_ImageDigest ws \<and> pl_ParentName plan = ws_Name ws \<and>
     pl_CPUs plan = (if ov_CPUsChanged ov then ov_CPUs ov else ws_CPUs ws) \<and>
     pl_Memory plan = (if ov_MemoryChanged ov then ov_Memory ov else ws_Memory ws) \<and>
     pl_Ports plan = (if ov_PortsChanged ov then ov_Ports ov else ports) \<and>
     sp_UserCommand (pl_Spec plan) = (if ov_UserCommandChanged ov then ov_UserCommand ov else sp_UserCommand spec) \<and>
     sp_Environment (pl_Spec plan) = sp_Environment spec \<and> sp_WorkingDir (pl_Spec plan) = sp_WorkingDir spec \<and>
     resolves e
       (if ov_MountChanged ov then ov_Mount ov else if sp_MountHost spec \<noteq> [] then sp_MountHost spec @ '':'' @ sp_MountGuest spec else [])
       (if ov_KernelPathChanged ov then ov_KernelPath ov else sp_KernelPath spec) (pl_Spec plan)"

lemma applyForkOverrides_parts:
  "pl_CPUs (applyForkOverrides p ov) = (if ov_CPUsChanged ov then ov_CPUs ov else pl_CPUs p)"
  "pl_Memory (applyForkOverrides p ov) = (if ov_MemoryChanged ov then ov_Memory ov else pl_Memory p)"
  "pl_Ports (applyForkOverrides p ov) = (if ov_PortsChanged ov then ov_Ports ov else pl_Ports p)"
  "pl_Mount (applyForkOverrides p ov) = (if ov_MountChanged ov then ov_Mount ov else pl_Mount p)"
  "sp_KernelPath (pl_Spec (applyForkOverrides p ov)) = (if ov_KernelPathChanged ov then ov_KernelPath ov else sp_KernelPath (pl_Spec p))"
  "sp_UserCommand (pl_Spec (applyForkOverrides p ov)) = (if ov_UserCommandChanged ov then ov_UserCommand ov else sp_UserCommand (pl_Spec p))"
  "pl_Image (applyForkOverrides p ov) = pl_Image p" "pl_ImageDigest (applyForkOverrides p ov) = pl_ImageDigest p"
  "sp_Environment (pl_Spec (applyForkOverrides p ov)) = sp_Environment (pl_Spec p)"
  "sp_WorkingDir (pl_Spec (applyForkOverrides p ov)) = sp_WorkingDir (pl_Spec p)"
  by (simp_all add: applyForkOverrides_def Let_def)

lemma resolved_inherits:
  assumes "resolvePlan ((applyForkOverrides
      \<lparr>pl_Image = ws_Image ws, pl_ImageDigest = ws_ImageDigest ws, pl_ParentName = [], pl_Spec = spec, pl_CPUs = ws_CPUs ws,
       pl_Memory = ws_Memory ws, pl_Ports = ports, pl_Mount = stored_mount spec\<rparr> ov)\<lparr>pl_ParentName := ws_Name ws\<rparr>) w = (Ok plan, w')"
  shows "inherits (orc w) ws ports spec ov plan"
  using resolvePlan_keeps[OF assms] by (simp add: inherits_def applyForkOverrides_parts stored_mount_def cong: if_cong)

lemma Load_saved:
  assumes "Load d u = (Ok spec, u')" "fs u (filepath_Join [d, specName]) = Some (Reg i m (spec_text plan))" "Spec_ok (pl_Spec plan)"
  shows "spec = (pl_Spec plan)\<lparr>sp_Version := WorkspaceSpecVersion\<rparr>"
proof -
  have ok: "Spec_ok ((pl_Spec plan)\<lparr>sp_Version := WorkspaceSpecVersion\<rparr>)" using assms(3) by (simp add: Spec_ok_def WorkspaceSpecVersion_def)
  have data: "x = spec_text plan" if "os_ReadFile (filepath_Join [d, specName]) u = (Ok x, v)" for x v
    using syscall_OkE[OF that[unfolded os_ReadFile_def]] assms(2) by simp
  show ?thesis
    using assms(1) spec_codec.dec_enc[OF ok] unfolding Load_def
    by (auto elim!: bindM_OkE dest!: data simp: spec_text_def split: if_splits)
qed

text \<open>The directory of a recorded workspace.\<close>

definition at_home :: "string list \<Rightarrow> string \<Rightarrow> Workspace \<Rightarrow> bool" where
  "at_home root name ws \<longleftrightarrow> ws_Name ws = name \<and> workspaceNamePattern name \<and> ws_WorkspaceDir ws = workspace_path root name \<and>
     ws_DiskPath ws = workspace_path root name @ ''/rootfs.ext4''"

lemma home_paths:
  assumes "\<forall>c\<in>set root. comp_ok c" "workspaceNamePattern name"
  shows "workspace_path root name = abs_path (root @ [''workspaces'']) @ slash # name"
    "filepath_Join [workspace_path root name, specName] = workspace_path root name @ ''/config.json''"
    "workspace_file (abs_path (root @ [''workspaces''])) s (workspace_path root name @ ''/config.json'')"
    "workspaceNamePattern other \<Longrightarrow> other \<noteq> name \<Longrightarrow> \<not> beneath (workspace_path root other) (workspace_path root name @ ''/rootfs.ext4'')"
proof -
  have c: "\<forall>c\<in>set (root @ [''workspaces'', name]). comp_ok c" using assms valid_name_comp_ok by simp
  show p: "workspace_path root name = abs_path (root @ [''workspaces'']) @ slash # name"
    using abs_path_snoc[of "root @ [''workspaces'']" name] by (simp add: workspace_path_def)
  show "filepath_Join [workspace_path root name, specName] = workspace_path root name @ ''/config.json''"
    using plain_join[OF plain_dir_abs[OF c] staged_names(2)] by (simp add: workspace_path_def specName_def)
  have "last (workspace_path root name @ ''/config.json'') = CHR ''n''" by simp
  then have "\<not> suffix ''.tmp'' (workspace_path root name @ ''/config.json'')"
    by (auto simp: suffix_def simp del: last_append last_appendR)
  then show "workspace_file (abs_path (root @ [''workspaces''])) s (workspace_path root name @ ''/config.json'')"
    by (simp add: workspace_file_def beneath_def p)
  show "\<not> beneath (workspace_path root other) (workspace_path root name @ ''/rootfs.ext4'')"
    if "workspaceNamePattern other" "other \<noteq> name"
    using workspace_path_beneath[OF that(1) assms(2), of root "workspace_path root name @ ''/rootfs.ext4''"] that(2)
    by (auto simp: beneath_def)
qed

text \<open>\<^verbatim>\<open>doFork\<close> once the source is loaded, and once its disk is locked.\<close>

definition fork_locked :: "string \<Rightarrow> string \<Rightarrow> forkOverrides \<Rightarrow> Workspace \<Rightarrow> Workspace io" where
  "fork_locked src dst ov source =
     bindM (Load (ws_WorkspaceDir source)) (\<lambda>spec.
     bindM (GetReservedPorts src) (\<lambda>ports.
     bindM (resolvePlan ((applyForkOverrides
         \<lparr>pl_Image = ws_Image source, pl_ImageDigest = ws_ImageDigest source, pl_ParentName = [], pl_Spec = spec,
          pl_CPUs = ws_CPUs source, pl_Memory = ws_Memory source, pl_Ports = ports, pl_Mount = stored_mount spec\<rparr> ov)\<lparr>pl_ParentName := src\<rparr>))
       (publishWorkspace dst (ws_DiskPath source))))"

lemma doFork_parts:
  "doFork src dst ov =
     (if src = dst then failM (Msg ''fork destination must differ from source'')
      else thenM RuntimePath (bindM (loadWorkspace src) (\<lambda>source.
        if ws_State source = running then failM (Msg ''workspace is running; stop it before forking'')
        else bindM (LockDisk (ws_DiskPath source)) (\<lambda>lock. deferM (fork_locked src dst ov source) (sys_close lock)))))"
  unfolding doFork_def fork_locked_def Let_def ..

text \<open>From the locked source on: the plan, the clone and the record.\<close>

lemma fork_publish:
  assumes run: "publishWorkspace dst (ws_DiskPath ws) plan u = (r, w')" and u: "looked src (workspace_file parent (ws_DiskPath ws)) w u"
    and root: "devd_root (orc w) = Inr (abs_path root)" "\<forall>c\<in>set root. comp_ok c" and parent: "parent = abs_path (root @ [''workspaces''])"
    and env: "publishing_env (orc w) parent (ws_DiskPath ws)" and home: "at_home root src ws" "src \<noteq> dst"
    and disk: "fs w (ws_DiskPath ws) = Some (Reg i m disk)"
  shows "tx w' = None \<and> fs w' (ws_DiskPath ws) = fs w (ws_DiskPath ws) \<and>
    (db w' = db u \<and> (\<forall>x. r \<noteq> Ok x) \<or> recorded dst (workspace_path root dst) disk plan (db u) w')"
proof -
  let ?D = "workspace_file parent (ws_DiskPath ws)"
  have e: "orc u = orc w" and tx: "tx u = None" using u by (auto simp: looked_def intact_def same_env_def)
  have sp: "spares ?D (orc w)" "?D (ws_DiskPath ws)" using env by (auto simp: publishing_env_def workspace_file_def)
  have d: "fs u (ws_DiskPath ws) = Some (Reg i m disk)" using u intactD[OF _ sp disk] by (simp add: looked_def)
  have "fs w' (ws_DiskPath ws) = Some (Reg i m disk)"
  proof (cases "workspaceNamePattern dst")
    case True
    have out: "\<not> beneath (workspace_path root dst) (ws_DiskPath ws)"
      using home_paths(4)[OF root(2) _ True, of src] home by (auto simp: at_home_def)
    have one: "spares (\<lambda>p. p = ws_DiskPath ws) (orc u)" using spares_mono[OF sp(1), of "\<lambda>p. p = ws_DiskPath ws"] sp(2) e by simp
    have side: "aside (orc u) root dst p" if "p = ws_DiskPath ws" for p
      using out env e that unfolding aside_def publishing_env_def parent by auto
    have "intact (\<lambda>p. p = ws_DiskPath ws) u w'"
      by (rule publishWorkspace_keeps[OF run _ root(2) _ side]) (use root(1) env e in \<open>auto simp: publishing_env_def\<close>)
    from intactD[OF this one refl d] show ?thesis .
  next
    case False
    from run[unfolded publishWorkspace_def] have i: "intact ?D u w'"
      by (cases rule: thenM_cases) (use check_run[of dst u _ _ ?D] False in auto)
    show ?thesis by (rule intactD[OF i sp(1)[folded e] sp(2) d])
  qed
  then show ?thesis using publishWorkspace_run[OF run tx d _ root(2)] root(1) env e parent disk by simp
qed

text \<open>How the part under the disk lock ends, when the database was \<open>t\<close> and the source disk \<open>node\<close>.\<close>

definition copied :: "string \<Rightarrow> string \<Rightarrow> string \<Rightarrow> (workspacePlan \<Rightarrow> bool) \<Rightarrow> tables \<Rightarrow> string \<Rightarrow> node option \<Rightarrow> Workspace outcome \<Rightarrow> world \<Rightarrow> bool" where
  "copied dst dest disk ok t source node r w \<longleftrightarrow> tx w = None \<and> fs w source = node \<and>
     (db w = t \<and> (\<forall>x. r \<noteq> Ok x) \<or> (\<exists>plan. ok plan \<and> recorded dst dest disk plan t w))"

lemma copied_same: "copied dst dest disk ok t source node r u \<Longrightarrow> fs v = fs u \<Longrightarrow> same_db u v \<Longrightarrow> q = r \<or> q = Crash \<Longrightarrow>
    copied dst dest disk ok t source node q v"
  by (auto simp: copied_def recorded_def populated_defs same_db_def)

lemma looked_still:
  assumes "looked src (workspace_file parent source) w v \<and> db v = t" "publishing_env (orc w) parent source"
    and "fs w source = Some (Reg i m disk)" "\<And>y. r \<noteq> Ok y"
  shows "copied dst dest disk' ok t source (fs w source) r v"
proof -
  have "spares (workspace_file parent source) (orc w)" "workspace_file parent source source"
    using assms(2) by (auto simp: publishing_env_def workspace_file_def)
  then have "fs v source = fs w source" using intactD[of "workspace_file parent source" w v source] assms(1,3) by (simp add: looked_def)
  then show ?thesis using assms(1,4) by (simp add: copied_def looked_def)
qed

lemma fork_locked_run:
  assumes run: "fork_locked src dst ov x u = (r, w')" and u: "looked src (workspace_file parent (ws_DiskPath ws)) w u"
    and root: "devd_root (orc w) = Inr (abs_path root)" "\<forall>c\<in>set root. comp_ok c" and parent: "parent = abs_path (root @ [''workspaces''])"
    and env: "publishing_env (orc w) parent (ws_DiskPath ws)" and home: "at_home root src ws" "src \<noteq> dst"
    and disk: "fs w (ws_DiskPath ws) = Some (Reg i m disk)"
    and cfg: "fs w (workspace_path root src @ ''/config.json'') = Some (Reg j k (spec_text origin))" "Spec_ok (pl_Spec origin)"
    and x: "x = ws\<lparr>ws_State := s, ws_PID := pid, ws_IsActive := a\<rparr>"
  shows "copied dst (workspace_path root dst) disk (inherits (orc w) ws (sql_ports_of src (db w)) (pl_Spec origin) ov) (db u) (ws_DiskPath ws)
    (fs w (ws_DiskPath ws)) r w'"
proof -
  let ?D = "workspace_file parent (ws_DiskPath ws)"
  have sp: "spares ?D (orc w)" "?D (ws_DiskPath ws)" using env by (auto simp: publishing_env_def workspace_file_def)
  have stop: ?thesis if "looked src ?D w w' \<and> db w' = db u" "\<And>y. r \<noteq> Ok y"
    by (rule looked_still[OF that(1) env disk that(2)])
  have name: "workspaceNamePattern src" "ws_WorkspaceDir ws = workspace_path root src" "ws_Name ws = src" using home(1) by (auto simp: at_home_def)
  have i: "intact ?D w u" and p: "sql_ports_of src (db u) = sql_ports_of src (db w)" using u restated_ports by (auto simp: looked_def)
  have c: "fs u (filepath_Join [ws_WorkspaceDir ws, specName]) = Some (Reg j k (spec_text origin))"
    using intactD[OF i sp(1) home_paths(3)[OF root(2) name(1), folded parent] cfg(1)] home_paths(2)[OF root(2) name(1)] name(2) by simp
  from run[unfolded fork_locked_def] show ?thesis
  proof (cases rule: bindM_cases)
    case (go spec u1)
    have spec: "spec = (pl_Spec origin)\<lparr>sp_Version := WorkspaceSpecVersion\<rparr>" using Load_saved[OF go(1) _ cfg(2)] c x by simp
    note l1 = looked_step[OF u go(1) calmly_fork(3)]
    from go(2) show ?thesis
    proof (cases rule: bindM_cases)
      case (go ports u2)
      have ports: "ports = sql_ports_of src (db w)"
        using go(1) l1 p by (auto simp: GetReservedPorts_def cur_def looked_def elim!: sql_query_OkE)
      note l2 = looked_step[OF conjunct1[OF l1] go(1) calmly_fork(4)]
      from go(2) show ?thesis
      proof (cases rule: bindM_cases)
        case (go plan u3)
        note l3 = looked_step[OF conjunct1[OF l2] go(1) calmly_fork(5)]
        have "orc u2 = orc w" using l2 by (auto simp: looked_def intact_def same_env_def)
        moreover have "inherits (orc u2) ws ports spec ov plan" by (rule resolved_inherits) (use go(1) x name(3) in simp)
        ultimately have "inherits (orc w) ws (sql_ports_of src (db w)) (pl_Spec origin) ov plan" by (simp add: inherits_def spec ports cong: if_cong)
        moreover have "publishWorkspace dst (ws_DiskPath ws) plan u3 = (r, w')" using go(2) x by simp
        ultimately show ?thesis
          using fork_publish[OF _ conjunct1[OF l3] root parent env home disk] l1 l2 l3 by (auto simp: copied_def)
      qed (use stop looked_step[OF conjunct1[OF l2] _ calmly_fork(5)] l1 l2 in auto)
    qed (use stop looked_step[OF conjunct1[OF l1] _ calmly_fork(4)] l1 in auto)
  qed (use stop looked_step[OF u _ calmly_fork(3)] in auto)
qed

lemma fork_lock_run:
  assumes run: "bindM (LockDisk (ws_DiskPath ws)) (\<lambda>lock. deferM (fork_locked src dst ov x) (sys_close lock)) u = (r, w')"
    and u: "looked src (workspace_file parent (ws_DiskPath ws)) w u"
    and root: "devd_root (orc w) = Inr (abs_path root)" "\<forall>c\<in>set root. comp_ok c" and parent: "parent = abs_path (root @ [''workspaces''])"
    and env: "publishing_env (orc w) parent (ws_DiskPath ws)" and home: "at_home root src ws" "src \<noteq> dst"
    and disk: "fs w (ws_DiskPath ws) = Some (Reg i m disk)"
    and cfg: "fs w (workspace_path root src @ ''/config.json'') = Some (Reg j k (spec_text origin))" "Spec_ok (pl_Spec origin)"
    and x: "x = ws\<lparr>ws_State := s, ws_PID := pid, ws_IsActive := a\<rparr>"
  shows "copied dst (workspace_path root dst) disk (inherits (orc w) ws (sql_ports_of src (db w)) (pl_Spec origin) ov) (db u) (ws_DiskPath ws)
    (fs w (ws_DiskPath ws)) r w'" (is "copied _ _ _ ?ok _ _ _ _ _")
proof -
  let ?D = "workspace_file parent (ws_DiskPath ws)"
  have stop: ?thesis if "LockDisk (ws_DiskPath ws) u = (q, w')" "\<And>y. r \<noteq> Ok y" for q
    using looked_still[OF looked_step[OF u that(1) calmly_fork(2)] env disk that(2)] .
  from run show ?thesis
  proof (cases rule: bindM_cases)
    case (go lock u1)
    note l1 = looked_step[OF u go(1) calmly_fork(2)]
    note end1 = fork_locked_run[OF _ conjunct1[OF l1] root parent env home disk cfg x, unfolded conjunct2[OF l1]]
    from go(2) show ?thesis
    proof (cases rule: deferM_exits)
      case (ended r2 w2 rc)
      have "fs w' = fs w2" "same_db w2 w'"
        using maintainsD[OF nofs.m_close ended(2)] maintainsD[OF nodb.m_close ended(2)] by (simp_all add: same_files_def)
      then show ?thesis using copied_same[OF end1[OF ended(1)]] ended(3) by blast
    qed (use end1 in auto)
  qed (use stop in auto)
qed

text \<open>C7. A fork is a faithful copy. Let the source be a recorded workspace with its boot specification and its disk. Whatever call of \<^verbatim>\<open>doFork\<close> fails and wherever the
  process dies, the disk of the source is unchanged, and the database has at most an updated state of the source and no success is
  reported, or it has exactly one new row besides. In that case the names differ, the source is recorded as stopped, the directory of
  the copy is complete and marked for a new machine identity, its disk has the contents of the source's disk, and image, digest, resources, ports, startup command,
  environment, working directory, mount and kernel are those of the source wherever the user did not override them (the last two resolved again on this
  host), with the source as parent.\<close>

theorem fork_copies_source:
  assumes "doFork src dst ov w = (r, w')" "tx w = None"
    and "devd_root (orc w) = Inr (abs_path root)" "\<forall>c\<in>set root. comp_ok c"
    and "sql_by_name src (db w) = Some ws" "at_home root src ws"
    and "has_files (workspace_path root src) disk origin w" "Spec_ok (pl_Spec origin)"
    and "publishing_env (orc w) (abs_path (root @ [''workspaces''])) (ws_DiskPath ws)"
  shows "tx w' = None \<and> fs w' (ws_DiskPath ws) = fs w (ws_DiskPath ws) \<and>
    (\<exists>t. restated src (db w) t \<and>
      (db w' = t \<and> (\<forall>x. r \<noteq> Ok x) \<or>
       src \<noteq> dst \<and> (\<exists>row. sql_by_name src t = Some row \<and> ws_State row = stopped) \<and>
       (\<exists>plan. inherits (orc w) ws (sql_ports_of src (db w)) (pl_Spec origin) ov plan \<and>
          recorded dst (workspace_path root dst) disk plan t w')))"
proof -
  let ?P = "abs_path (root @ [''workspaces''])" and ?s = "ws_DiskPath ws"
  let ?D = "workspace_file ?P ?s"
  have sp: "spares ?D (orc w)" "?D ?s" using assms(9) by (auto simp: publishing_env_def workspace_file_def)
  obtain i m j k where disk: "fs w ?s = Some (Reg i m disk)"
    and cfg: "fs w (workspace_path root src @ ''/config.json'') = Some (Reg j k (spec_text origin))"
    using assms(6,7) by (auto simp: has_files_def at_home_def)
  have l0: "looked src ?D w w" using assms(2) by (simp add: looked_def keep.R_refl restated_refl)
  have stop: ?thesis if "looked src ?D w w'" "\<And>x. r \<noteq> Ok x"
    using looked_still[of src ?P ?s w w' "db w'", OF _ assms(9) disk that(2)] that by (auto simp: copied_def looked_def)
  show ?thesis
  proof (cases "src = dst")
    case True
    then show ?thesis using stop[of] l0 assms(1) by (simp add: doFork_def)
  next
    case False
    from assms(1)[unfolded doFork_parts if_not_P[OF False]] show ?thesis
    proof (cases rule: thenM_cases)
      case (go q w1)
      note l1 = looked_step[OF l0 go(1) calmly_fork(1)]
      have w1: "tx w1 = None" "sql_by_name src (db w1) = Some ws" using l1 assms(5) by (simp_all add: looked_def)
      have l2: "looked src ?D w v" if "loadWorkspace src w1 = (q, v)" for q v
        using looked_trans[OF _ _ loadWorkspace_run(1)[OF that w1]] l1 by blast
      from go(2) show ?thesis
      proof (cases rule: bindM_cases)
        case (go x w2)
        note l2 = l2[OF go(1)]
        show ?thesis
        proof (cases "ws_State x = running")
          case True
          then show ?thesis using stop l2 go(2) by simp
        next
          case st: False
          note x = loadWorkspace_run(2)[OF go(1) w1 refl st]
          have d: "ws_DiskPath x = ?s" by (subst conjunct2[OF x]) simp
          note run = fork_lock_run[OF _ l2 assms(3,4) refl assms(9,6) False disk cfg assms(8) conjunct2[OF x]]
          show ?thesis using run[OF go(2)[unfolded if_not_P[OF st] d]] l2 False x by (auto simp: copied_def looked_def)
        qed
      qed (use stop l2 in auto)
    qed (use stop looked_step[OF l0 _ calmly_fork(1)] in auto)
  qed
qed

section \<open>An example\<close>

text \<open>A stopped workspace \<^verbatim>\<open>a\<close> with its directory.\<close>

definition home_demo :: string where "home_demo = ''/d/workspaces/a''"

definition row_demo :: Workspace where
  "row_demo = \<lparr>ws_Name = ''a'', ws_Image = ''i'', ws_ImageDigest = ''sha256:ab'', ws_WorkspaceDir = home_demo,
     ws_DiskPath = home_demo @ ''/rootfs.ext4'', ws_ParentName = [], ws_SSHPort = 2222, ws_RelayPort = 9001, ws_CPUs = 1, ws_Memory = 512,
     ws_State = stopped, ws_IsActive = False, ws_PID = 0, ws_CreatedAt = 0\<rparr>"

definition fork_demo :: world where
  "fork_demo = publish_demo\<lparr>db := \<lparr>t_workspaces = [row_demo], t_reserved = [(''a'', 3000)]\<rparr>,
     fs := (fs publish_demo)(home_demo @ ''/config.json'' \<mapsto> Reg 60 384 (spec_text plan_demo),
       home_demo @ ''/rootfs.ext4'' \<mapsto> Reg 61 384 ''disk'')\<rparr>"

definition no_overrides :: forkOverrides where
  "no_overrides = \<lparr>ov_CPUs = 0, ov_CPUsChanged = False, ov_Memory = 0, ov_MemoryChanged = False, ov_Ports = [], ov_PortsChanged = False,
     ov_Mount = [], ov_MountChanged = False, ov_UserCommand = [], ov_UserCommandChanged = False, ov_KernelPath = [],
     ov_KernelPathChanged = False\<rparr>"

lemma home_demo_path: "workspace_path [''d''] ''a'' = home_demo"
  by code_simp

theorem fork_copies_source_witness:
  "\<exists>r w'. doFork ''a'' ''b'' no_overrides fork_demo = (r, w') \<and> tx w' = None \<and> fs w' (home_demo @ ''/rootfs.ext4'') = Some (Reg 61 384 ''disk'') \<and>
    (\<exists>t. restated ''a'' (db fork_demo) t \<and>
      (db w' = t \<and> (\<forall>x. r \<noteq> Ok x) \<or>
       ''a'' \<noteq> ''b'' \<and> (\<exists>row. sql_by_name ''a'' t = Some row \<and> ws_State row = stopped) \<and>
       (\<exists>plan. inherits (orc fork_demo) row_demo (sql_ports_of ''a'' (db fork_demo)) (pl_Spec plan_demo) no_overrides plan \<and>
          recorded ''b'' (workspace_path [''d''] ''b'') ''disk'' plan t w')))"
proof -
  have h: "tx fork_demo = None" "devd_root (orc fork_demo) = Inr (abs_path [''d''])" "\<forall>c\<in>set [''d'']. comp_ok c"
    using blank_root by (simp_all add: fork_demo_def publish_demo_def blank_def devd_root_def comp_ok_def split: if_splits)
  have row: "sql_by_name ''a'' (db fork_demo) = Some row_demo" by (simp add: sql_by_name_def fork_demo_def row_demo_def)
  have "workspaceNamePattern ''a''" by code_simp
  then have home: "at_home [''d''] ''a'' row_demo" by (simp add: at_home_def row_demo_def home_demo_path)
  have f: "fs fork_demo (home_demo @ ''/config.json'') = Some (Reg 60 384 (spec_text plan_demo))"
    "fs fork_demo (home_demo @ ''/rootfs.ext4'') = Some (Reg 61 384 ''disk'')"
    by (simp_all add: fork_demo_def)
  then have pop: "has_files (workspace_path [''d''] ''a'') ''disk'' plan_demo fork_demo" unfolding home_demo_path has_files_def by blast
  have spec: "Spec_ok (pl_Spec plan_demo)" by (simp add: Spec_ok_def plan_demo_def provision_plan_def zero_Spec_def valid_ascii)
  have "\<not> suffix ''.tmp'' (ws_DiskPath row_demo)" "\<not> prefix (''/d/workspaces'' @ slash # ''.create-'') (ws_DiskPath row_demo)"
    "ws_DiskPath row_demo \<noteq> ''/h/.ssh/config''" by code_simp+
  from demo_env_at[OF this] have env: "publishing_env (orc fork_demo) (abs_path ([''d''] @ [''workspaces''])) (ws_DiskPath row_demo)"
    by (simp add: fork_demo_def)
  have d: "ws_DiskPath row_demo = home_demo @ ''/rootfs.ext4''" by (simp add: row_demo_def)
  from fork_copies_source[OF surjective_pairing h row home pop spec env] show ?thesis
    unfolding d f(2) using surjective_pairing[of "doFork ''a'' ''b'' no_overrides fork_demo"] by blast
qed

end
