(* ===== verification/Proxy.thy ===== *)
theory Proxy
  imports DaemonClient Sha256
begin

text \<open>
  \<^verbatim>\<open>internal/proxy/proxy.go\<close> and the daemon's side of \<^verbatim>\<open>internal/cli/daemon.go\<close>. The proxy is a
  concurrent program. Its state is a record that holds, besides the fields of the Go
  struct, the objects behind its pointers (tunnels are addresses of \<open>px_heap\<close>, listeners are
  numbers) and its goroutines. A goroutine is the point its code has reached; a step of it runs
  the code up to the next point at which another goroutine can intervene: a critical section
  of \<^verbatim>\<open>p.mu\<close>, a blocking receive, or a call that leaves the process.
\<close>

section \<open>State\<close>

record Tunnel =
  tn_key :: string
  tn_Workspace :: string
  tn_Port :: int
  tn_Path :: string
  tn_Cmd :: "int option"
  tn_Ready :: bool
  tn_Err :: "error option"

text \<open>Where a goroutine is. \<open>Accepting\<close>: \<^verbatim>\<open>acceptLoop\<close> of a listener. \<open>Routing\<close> to \<open>Copying\<close>: the
  stages of \<^verbatim>\<open>handleConnection\<close> for a port, with the number of the attempt, the target and
  the address of the tunnel. \<open>Launching\<close> to \<open>Up\<close>: the stages of \<^verbatim>\<open>startTunnel\<close>. \<open>Reaping\<close>: the
  goroutine of \<^verbatim>\<open>startTunnel\<close> that waits for the ssh process.\<close>

datatype thread =
    Accepting nat int
  | Routing int
  | Ensuring int nat Workspace
  | Waiting int nat Workspace nat
  | Dialing int nat Workspace nat
  | Dropping int nat Workspace nat
  | Copying nat
  | Launching string nat Workspace
  | Launched string nat int
  | Starting string nat int
  | Up string nat int
  | Reaping nat int

text \<open>\<open>px_closed\<close>: listeners that have been closed; \<open>px_started\<close>: tunnels whose ssh process was
  started; \<open>px_signalled\<close>: tunnels to whose process a signal was sent; \<open>px_reaped\<close>:
  tunnels whose process has been waited for; \<open>px_swept\<close>: \<^verbatim>\<open>Stop\<close> has finished.\<close>

record Proxy =
  px_listeners :: "(int \<times> nat) list"
  px_tunnels :: "(string \<times> nat) list"
  px_stopCh :: bool
  px_heap :: "Tunnel list"
  px_threads :: "thread list"
  px_next :: nat
  px_closed :: "nat list"
  px_started :: "nat list"
  px_signalled :: "nat list"
  px_reaped :: "nat list"
  px_swept :: bool

definition New :: Proxy where
  "New = \<lparr>px_listeners = [], px_tunnels = [], px_stopCh = False, px_heap = [], px_threads = [], px_next = 0,
     px_closed = [], px_started = [], px_signalled = [], px_reaped = [], px_swept = False\<rparr>"

definition spawn :: "thread list \<Rightarrow> Proxy \<Rightarrow> Proxy" where
  "spawn ts p = p\<lparr>px_threads := px_threads p @ ts\<rparr>"

definition owned :: "Proxy \<Rightarrow> int list" where
  "owned p = map fst (px_listeners p)"

definition mapped :: "Proxy \<Rightarrow> string \<Rightarrow> nat \<Rightarrow> bool" where
  "mapped p key a = (map_of (px_tunnels p) key = Some a)"

definition set_tunnel :: "nat \<Rightarrow> (Tunnel \<Rightarrow> Tunnel) \<Rightarrow> Proxy \<Rightarrow> Proxy" where
  "set_tunnel a f p = p\<lparr>px_heap := (px_heap p)[a := f (px_heap p ! a)]\<rparr>"

text \<open>\<^verbatim>\<open>if p.tunnels[key] == tunnel { delete(p.tunnels, key) }\<close>\<close>

definition unmap :: "string \<Rightarrow> nat \<Rightarrow> Proxy \<Rightarrow> Proxy" where
  "unmap key a p = (if mapped p key a then p\<lparr>px_tunnels := filter (\<lambda>(k, b). k \<noteq> key) (px_tunnels p)\<rparr> else p)"

text \<open>\<^verbatim>\<open>tunnel.Cmd.Process.Signal\<close>: Go sends nothing to a process it has already waited for.\<close>

definition send_signal :: "string \<Rightarrow> nat \<Rightarrow> int \<Rightarrow> Proxy \<Rightarrow> Proxy io" where
  "send_signal sig a pid p =
     (if a \<in> set (px_reaped p) then returnM p
      else thenM (ignoreM (sys_kill pid sig)) (returnM (p\<lparr>px_signalled := a # px_signalled p\<rparr>)))"

definition signal_cmd :: "nat \<Rightarrow> Proxy \<Rightarrow> Proxy io" where
  "signal_cmd a p =
     (case tn_Cmd (px_heap p ! a) of None \<Rightarrow> returnM p | Some pid \<Rightarrow> send_signal ''SIGTERM'' a pid p)"

section \<open>Ports\<close>

definition ensurePort :: "int \<Rightarrow> Proxy \<Rightarrow> Proxy io" where
  "ensurePort port p =
     (if port < 1 \<or> port > 65535 then failM (Msg ''invalid TCP port'')
      else if px_stopCh p then failM (Msg ''proxy stopped'')
      else if port \<in> set (owned p) then returnM p
      else
        thenM (wrapM (''bind 0.0.0.0:'' @ strconv_Itoa port) (sys_listen port))
          (returnM (spawn [Accepting (px_next p) port]
             (p\<lparr>px_listeners := (port, px_next p) # px_listeners p, px_next := Suc (px_next p)\<rparr>))))"

definition preempt_text :: "int \<Rightarrow> string" where
  "preempt_text port = ''pre-empt :'' @ strconv_Itoa port"

fun ensure_loop :: "int list \<Rightarrow> error list \<Rightarrow> Proxy \<Rightarrow> (error list \<times> Proxy) io" where
  "ensure_loop [] errs p = returnM (errs, p)"
| "ensure_loop (port # ports) errs p =
     tryM (ensurePort port p)
       (\<lambda>p. ensure_loop ports errs p)
       (\<lambda>e. ensure_loop ports (errs @ [Wrap (preempt_text port) e]) p)"

definition errors_Join :: "error list \<Rightarrow> error option" where
  "errors_Join errs = (if errs = [] then None else Some (Joined errs))"

definition EnsurePorts :: "int list \<Rightarrow> Proxy \<Rightarrow> (error option \<times> Proxy) io" where
  "EnsurePorts ports p = bindM (ensure_loop ports [] p) (\<lambda>(errs, p). returnM (errors_Join errs, p))"

text \<open>Taking a tunnel out of use: \<^verbatim>\<open>SIGTERM\<close> to its process and removal of its socket.\<close>

definition retire :: "nat \<Rightarrow> Proxy \<Rightarrow> Proxy io" where
  "retire a p = bindM (signal_cmd a p) (\<lambda>p. thenM (ignoreM (os_Remove (tn_Path (px_heap p ! a)))) (returnM p))"

fun retire_all :: "nat list \<Rightarrow> Proxy \<Rightarrow> Proxy io" where
  "retire_all [] p = returnM p"
| "retire_all (a # as) p = bindM (retire a p) (retire_all as)"

text \<open>Closing the listeners and retiring the tunnels that do not satisfy a test on their port.\<close>

definition close_listeners :: "(int \<Rightarrow> bool) \<Rightarrow> Proxy \<Rightarrow> Proxy" where
  "close_listeners wanted p =
     p\<lparr>px_listeners := filter (\<lambda>(port, l). wanted port) (px_listeners p),
       px_closed := map snd (filter (\<lambda>(port, l). \<not> wanted port) (px_listeners p)) @ px_closed p\<rparr>"

definition drop_tunnels :: "(int \<Rightarrow> bool) \<Rightarrow> Proxy \<Rightarrow> Proxy io" where
  "drop_tunnels wanted p =
     (let stays = (\<lambda>(key :: string, a). wanted (tn_Port (px_heap p ! a))) in
      retire_all (map snd (filter (\<lambda>x. \<not> stays x) (px_tunnels p))) (p\<lparr>px_tunnels := filter stays (px_tunnels p)\<rparr>))"

definition release :: "int list \<Rightarrow> Proxy \<Rightarrow> Proxy io" where
  "release ports p = drop_tunnels (\<lambda>q. q \<in> set ports) (close_listeners (\<lambda>q. q \<in> set ports) p)"

definition ReconcilePorts :: "int list \<Rightarrow> Proxy \<Rightarrow> (error option \<times> Proxy) io" where
  "ReconcilePorts ports p = bindM (release ports p) (EnsurePorts ports)"

definition close_stopCh :: "Proxy \<Rightarrow> Proxy" where
  "close_stopCh p = p\<lparr>px_stopCh := True\<rparr>"

definition sweep :: "Proxy \<Rightarrow> Proxy io" where
  "sweep p = bindM (drop_tunnels (\<lambda>_. False) (close_listeners (\<lambda>_. False) p)) (\<lambda>p. returnM (p\<lparr>px_swept := True\<rparr>))"

definition Stop_proxy :: "Proxy \<Rightarrow> Proxy io" where
  "Stop_proxy p = sweep (close_stopCh p)"

section \<open>Routing\<close>

definition pick_target :: "Workspace list \<Rightarrow> Workspace result" where
  "pick_target workspaces =
     (case find ws_IsActive workspaces of
        Some w \<Rightarrow> Inr w
      | None \<Rightarrow>
          (case workspaces of
             [w] \<Rightarrow> Inr w
           | [] \<Rightarrow> Inl (Msg ''no running workspace declares this port'')
           | _ \<Rightarrow> Inl (Msg ''multiple workspaces declare this port but none is active'')))"

definition targetForPort :: "int \<Rightarrow> Workspace io" where
  "targetForPort port = bindM (GetRunningWorkspacesForPort port) (\<lambda>workspaces. liftM (pick_target workspaces))"

section \<open>Tunnels\<close>

definition tunnel_key :: "string \<Rightarrow> int \<Rightarrow> string \<Rightarrow> int \<Rightarrow> string" where
  "tunnel_key name pid start port =
     name @ '':'' @ strconv_Itoa pid @ '':'' @ start @ '':'' @ strconv_Itoa port"

definition tunnelPath :: "string \<Rightarrow> string io" where
  "tunnelPath key =
     bindM DevdDir (\<lambda>devdDir.
     bindM (askM o_uid) (\<lambda>uid.
     let dir = filepath_Join [''/tmp'', ''devd-'' @ strconv_Itoa uid];
         digest = sha256_Sum256 (devdDir @ [CHR 0x00] @ key) in
     thenM (wrapM ''create tunnel directory'' (os_MkdirAll dir 448))
     (thenM (wrapM ''secure tunnel directory'' (os_Chmod dir 448))
     (bindM (wrapM ''allocate tunnel socket path'' (os_CreateTemp dir (hex_EncodeToString (take 8 digest) @ ''-'') ''.sock'')) (\<lambda>file.
      tryM sys_noop (\<lambda>_. returnM file)
        (\<lambda>e. thenM (ignoreM (os_Remove file)) (failM e)))))))"

text \<open>\<^verbatim>\<open>ensureTunnel\<close> up to the receive from \<^verbatim>\<open>tunnel.Ready\<close>: the address of the tunnel to wait
  for.\<close>

definition ensureTunnel :: "Workspace \<Rightarrow> int \<Rightarrow> Proxy \<Rightarrow> (nat \<times> Proxy) io" where
  "ensureTunnel workspace port p =
     bindM (ReadProcess (filepath_Join [ws_WorkspaceDir workspace, ''process.json''])) (\<lambda>process.
     case process of
       None \<Rightarrow> failM (Msg ''workspace has no matching launch receipt'')
     | Some process \<Rightarrow>
         if pr_PID process \<noteq> ws_PID workspace then failM (Msg ''workspace has no matching launch receipt'')
         else
           bindM (wrapM ''inspect workspace process'' (Running process)) (\<lambda>live.
           if \<not> live then failM (Msg ''workspace process has exited'')
           else
             let key = tunnel_key (ws_Name workspace) (pr_PID process) (pr_StartTime process) port in
             if px_stopCh p then failM (Msg ''proxy stopped'')
             else case map_of (px_tunnels p) key of
               Some a \<Rightarrow> returnM (a, p)
             | None \<Rightarrow>
                 bindM (tunnelPath key) (\<lambda>path.
                 let a = length (px_heap p);
                     tunnel = \<lparr>tn_key = key, tn_Workspace = ws_Name workspace, tn_Port = port, tn_Path = path,
                               tn_Cmd = None, tn_Ready = False, tn_Err = None\<rparr> in
                 returnM (a, spawn [Launching key a workspace]
                   (p\<lparr>px_heap := px_heap p @ [tunnel], px_tunnels := (key, a) # px_tunnels p\<rparr>)))))"

text \<open>With both an error and a text, the Go error wraps the first and prints the second after it.\<close>

definition tunnelExitError :: "string \<Rightarrow> error option \<Rightarrow> string \<Rightarrow> error" where
  "tunnelExitError message err stderr =
     (let stderr = strings_TrimSpace stderr in
      case err of
        None \<Rightarrow> if stderr = [] then Msg message else Msg (message @ '': '' @ stderr)
      | Some e \<Rightarrow> if stderr = [] then Wrap message e else Joined [Wrap message e, Msg stderr])"

definition finishTunnelStart :: "string \<Rightarrow> nat \<Rightarrow> error option \<Rightarrow> Proxy \<Rightarrow> Proxy io" where
  "finishTunnelStart key a err p =
     (let p = (if err \<noteq> None then unmap key a p else p);
          p = set_tunnel a (\<lambda>t. t\<lparr>tn_Err := err, tn_Ready := True\<rparr>) p in
      if err \<noteq> None then thenM (ignoreM (os_Remove (tn_Path (px_heap p ! a)))) (returnM p) else returnM p)"

definition removeTunnel :: "string \<Rightarrow> nat \<Rightarrow> Proxy \<Rightarrow> Proxy io" where
  "removeTunnel key a p =
     (let p = unmap key a p in thenM (ignoreM (os_Remove (tn_Path (px_heap p ! a)))) (returnM p))"

definition tunnel_args :: "string \<Rightarrow> Workspace \<Rightarrow> Tunnel \<Rightarrow> string list" where
  "tunnel_args keyPath workspace tunnel =
     [''ssh'', ''-N'', ''-o'', ''BatchMode=yes'', ''-o'', ''StrictHostKeyChecking=no'', ''-o'', ''UserKnownHostsFile=/dev/null'',
      ''-o'', ''LogLevel=ERROR'', ''-o'', ''ExitOnForwardFailure=yes'', ''-o'', ''StreamLocalBindUnlink=yes'',
      ''-o'', ''ServerAliveInterval=15'', ''-o'', ''ServerAliveCountMax=2'', ''-i'', keyPath,
      ''-p'', strconv_Itoa (ws_SSHPort workspace),
      ''-L'', tn_Path tunnel @ '':127.0.0.1:'' @ strconv_Itoa (tn_Port tunnel), ''root@127.0.0.1'']"

text \<open>The first stage of \<^verbatim>\<open>startTunnel\<close>, up to the start of ssh.\<close>

definition launch_ssh :: "string \<Rightarrow> nat \<Rightarrow> Workspace \<Rightarrow> Proxy \<Rightarrow> Proxy io" where
  "launch_ssh key a workspace p =
     (let tunnel = px_heap p ! a in
      thenM (ignoreM (os_Remove (tn_Path tunnel)))
      (tryM PrivateKeyPath
        (\<lambda>keyPath.
           tryM (sys_spawn (tunnel_args keyPath workspace tunnel))
             (\<lambda>pid. returnM (spawn [Launched key a pid, Reaping a pid] (p\<lparr>px_started := a # px_started p\<rparr>)))
             (\<lambda>e. finishTunnelStart key a (Some (Wrap ''start SSH tunnel'' e)) p))
        (\<lambda>e. finishTunnelStart key a (Some e) p)))"

text \<open>The second stage: the process is published only while the tunnel is still owned.\<close>

definition publish_cmd :: "string \<Rightarrow> nat \<Rightarrow> int \<Rightarrow> Proxy \<Rightarrow> Proxy io" where
  "publish_cmd key a pid p =
     (if \<not> mapped p key a
      then bindM (send_signal ''SIGKILL'' a pid p) (\<lambda>p. finishTunnelStart key a (Some (Msg ''tunnel start canceled'')) p)
      else returnM (spawn [Starting key a pid] (set_tunnel a (\<lambda>t. t\<lparr>tn_Cmd := Some pid\<rparr>) p)))"

text \<open>What a goroutine receives when it has to wait for something: the case of a \<^verbatim>\<open>select\<close>.\<close>

datatype event = Incoming | AcceptFails | Exits "error option" string | Ticks | TimesOut | SeesStop

text \<open>The \<^verbatim>\<open>select\<close> loop of \<^verbatim>\<open>startTunnel\<close>; \<open>None\<close> when the chosen case is not ready.\<close>

definition await_ready :: "event \<Rightarrow> string \<Rightarrow> nat \<Rightarrow> int \<Rightarrow> Proxy \<Rightarrow> Proxy io option" where
  "await_ready ev key a pid p =
     (case ev of
        Exits err stderr \<Rightarrow>
          if a \<in> set (px_reaped p)
          then Some (finishTunnelStart key a (Some (tunnelExitError ''SSH tunnel exited before ready'' err stderr)) p) else None
      | Ticks \<Rightarrow> Some (tryM (os_Stat (tn_Path (px_heap p ! a)))
            (\<lambda>info. case info of
               Special m \<Rightarrow> bindM (finishTunnelStart key a None p) (\<lambda>p. returnM (spawn [Up key a pid] p))
             | _ \<Rightarrow> returnM (spawn [Starting key a pid] p))
            (\<lambda>_. returnM (spawn [Starting key a pid] p)))
      | TimesOut \<Rightarrow> Some (bindM (send_signal ''SIGTERM'' a pid p)
            (\<lambda>p. finishTunnelStart key a (Some (Msg ''SSH tunnel was not ready after 5s'')) p))
      | SeesStop \<Rightarrow>
          if px_stopCh p
          then Some (bindM (send_signal ''SIGTERM'' a pid p) (\<lambda>p. finishTunnelStart key a (Some (Msg ''proxy stopped'')) p)) else None
      | _ \<Rightarrow> None)"

section \<open>Goroutines\<close>

text \<open>One round of \<^verbatim>\<open>acceptLoop\<close>. An accept that fails for any reason ends the loop.\<close>

definition acceptLoop :: "event \<Rightarrow> nat \<Rightarrow> int \<Rightarrow> Proxy \<Rightarrow> Proxy io option" where
  "acceptLoop ev l port p =
     (if l \<in> set (px_closed p) then Some (returnM p)
      else case ev of
        Incoming \<Rightarrow> Some (returnM (spawn [Routing port, Accepting l port] p))
      | AcceptFails \<Rightarrow> Some (returnM p)
      | _ \<Rightarrow> None)"

text \<open>One step of a goroutine that has been taken out of \<open>px_threads\<close>; its continuation and the
  goroutines it starts are put back. \<open>None\<close>: it is blocked.\<close>

fun advance :: "event \<Rightarrow> thread \<Rightarrow> Proxy \<Rightarrow> Proxy io option" where
  "advance ev (Accepting l port) p = acceptLoop ev l port p"
| "advance ev (Routing port) p =
     Some (tryM (targetForPort port) (\<lambda>target. returnM (spawn [Ensuring port 0 target] p)) (\<lambda>_. returnM p))"
| "advance ev (Ensuring port attempt target) p =
     Some (tryM (ensureTunnel target port p) (\<lambda>(a, p). returnM (spawn [Waiting port attempt target a] p)) (\<lambda>_. returnM p))"
| "advance ev (Waiting port attempt target a) p =
     (if tn_Ready (px_heap p ! a)
      then Some (returnM (if tn_Err (px_heap p ! a) = None then spawn [Dialing port attempt target a] p else p)) else None)"
| "advance ev (Dialing port attempt target a) p =
     Some (tryM (sys_dial (tn_Path (px_heap p ! a)))
       (\<lambda>_. returnM (spawn [Copying a] p))
       (\<lambda>_. returnM (spawn [Dropping port attempt target a] (unmap (tn_key (px_heap p ! a)) a p))))"
| "advance ev (Dropping port attempt target a) p =
     Some (bindM (retire a p) (\<lambda>p. returnM (if Suc attempt < 2 then spawn [Ensuring port (Suc attempt) target] p else p)))"
| "advance ev (Copying a) p = Some (returnM p)"
| "advance ev (Launching key a workspace) p = Some (launch_ssh key a workspace p)"
| "advance ev (Launched key a pid) p = Some (publish_cmd key a pid p)"
| "advance ev (Starting key a pid) p = await_ready ev key a pid p"
| "advance ev (Up key a pid) p = (if a \<in> set (px_reaped p) then Some (removeTunnel key a p) else None)"
| "advance ev (Reaping a pid) p = Some (returnM (p\<lparr>px_reaped := a # px_reaped p\<rparr>))"

text \<open>The daemon process: a goroutine runs, the main goroutine or a control connection ensures a port,
  the reconciliation releases ports, \<^verbatim>\<open>Stop\<close> runs (in its two parts), or something happens elsewhere on the
  host. A call that kills the daemon has no successor.\<close>

inductive daemon_step :: "Proxy \<times> world \<Rightarrow> Proxy \<times> world \<Rightarrow> bool" where
  goroutine: "px_threads p = xs @ t # ys \<Longrightarrow> advance ev t (p\<lparr>px_threads := xs @ ys\<rparr>) = Some m \<Longrightarrow>
    m w = (Ok p', w') \<Longrightarrow> daemon_step (p, w) (p', w')"
| ensures: "ensurePort port p w = (Ok p', w') \<Longrightarrow> daemon_step (p, w) (p', w')"
| releases: "release ports p w = (Ok p', w') \<Longrightarrow> daemon_step (p, w) (p', w')"
| closes: "daemon_step (p, w) (close_stopCh p, w)"
| sweeps: "px_stopCh p \<Longrightarrow> sweep p w = (Ok p', w') \<Longrightarrow> daemon_step (p, w) (p', w')"
| elsewhere: "daemon_step (p, w) (p, w')"

definition reachable :: "Proxy \<Rightarrow> bool" where
  "reachable p \<longleftrightarrow> (\<exists>w w'. daemon_step\<^sup>*\<^sup>* (New, w) (p, w'))"

end
