(* ===== verification/ProxyInv.thy ===== *)
theory ProxyInv
  imports Proxy
begin

text \<open>
  The invariant of the proxy's transition system, one lemma per kind of transition, and that every
  reachable state satisfies it.
\<close>

section \<open>Effects on the state\<close>

lemma send_signal_Ok:
  assumes "send_signal sig a pid p w = (Ok p', w')"
  shows "(a \<in> set (px_reaped p) \<and> p' = p) \<or> p' = p\<lparr>px_signalled := a # px_signalled p\<rparr>"
  using assms by (auto simp: send_signal_def elim!: thenM_OkE split: if_splits)

lemma finishTunnelStart_Ok:
  assumes "finishTunnelStart key a err p w = (Ok p', w')"
  shows "p' = set_tunnel a (\<lambda>t. t\<lparr>tn_Err := err, tn_Ready := True\<rparr>) (if err \<noteq> None then unmap key a p else p)"
  using assms by (auto simp: finishTunnelStart_def Let_def elim!: thenM_OkE split: if_splits)

lemma retire_Ok:
  assumes "retire a p w = (Ok p', w')"
  shows "p' = p \<and> (tn_Cmd (px_heap p ! a) = None \<or> a \<in> set (px_reaped p)) \<or> p' = p\<lparr>px_signalled := a # px_signalled p\<rparr>"
  using assms unfolding retire_def signal_cmd_def
  by (auto elim!: bindM_OkE thenM_OkE split: option.splits dest!: send_signal_Ok)

lemma retire_all_Ok:
  assumes "retire_all as p w = (Ok p', w')"
  shows "\<exists>s. p' = p\<lparr>px_signalled := s @ px_signalled p\<rparr> \<and>
    (\<forall>a\<in>set as. tn_Cmd (px_heap p ! a) = None \<or> a \<in> set (px_reaped p) \<or> a \<in> set s)"
  using assms
proof (induction as arbitrary: p w)
  case Nil
  then show ?case by (auto intro!: exI[of _ "[]"])
next
  case (Cons a as)
  obtain q w1 where r: "retire a p w = (Ok q, w1)" and rest: "retire_all as q w1 = (Ok p', w')"
    using Cons(2) by (auto elim!: bindM_OkE)
  obtain s where s: "p' = q\<lparr>px_signalled := s @ px_signalled q\<rparr>"
    "\<forall>a\<in>set as. tn_Cmd (px_heap q ! a) = None \<or> a \<in> set (px_reaped q) \<or> a \<in> set s"
    using Cons(1)[OF rest] by blast
  obtain u where "q = p\<lparr>px_signalled := u @ px_signalled p\<rparr>"
    "tn_Cmd (px_heap p ! a) = None \<or> a \<in> set (px_reaped p) \<or> a \<in> set u"
    using retire_Ok[OF r] by (elim disjE conjE) (auto intro: that[of "[]"] that[of "[a]"])
  then show ?case using s by (intro exI[of _ "s @ u"]) auto
qed

section \<open>The invariant\<close>

text \<open>The goroutine that will close \<^verbatim>\<open>tunnel.Ready\<close>.\<close>

fun launcher :: "nat \<Rightarrow> thread \<Rightarrow> bool" where
  "launcher a (Launching k b ws) = (b = a)"
| "launcher a (Launched k b pid) = (b = a)"
| "launcher a (Starting k b pid) = (b = a)"
| "launcher a _ = False"

abbreviation tun :: "Proxy \<Rightarrow> nat \<Rightarrow> Tunnel" where
  "tun p a \<equiv> px_heap p ! a"

fun thread_ok :: "Proxy \<Rightarrow> thread \<Rightarrow> bool" where
  "thread_ok p (Waiting port i ws a) = (a < length (px_heap p))"
| "thread_ok p (Dialing port i ws a) = (a < length (px_heap p) \<and> tn_Ready (tun p a) \<and> tn_Err (tun p a) = None)"
| "thread_ok p (Dropping port i ws a) = (a < length (px_heap p) \<and> tn_Ready (tun p a) \<and> tn_Err (tun p a) = None)"
| "thread_ok p (Launching k a ws) = (a < length (px_heap p) \<and> tn_key (tun p a) = k \<and> tn_Cmd (tun p a) = None)"
| "thread_ok p (Launched k a pid) =
     (a < length (px_heap p) \<and> tn_key (tun p a) = k \<and> tn_Cmd (tun p a) = None \<and> a \<in> set (px_started p))"
| "thread_ok p (Starting k a pid) = (a < length (px_heap p) \<and> tn_key (tun p a) = k \<and> tn_Cmd (tun p a) = Some pid)"
| "thread_ok p (Up k a pid) = (a < length (px_heap p) \<and> tn_key (tun p a) = k \<and> tn_Cmd (tun p a) = Some pid)"
| "thread_ok p _ = True"

definition tunnels_ok :: "Proxy \<Rightarrow> bool" where
  "tunnels_ok p \<longleftrightarrow> distinct (map fst (px_tunnels p)) \<and>
     (\<forall>(k, a)\<in>set (px_tunnels p). a < length (px_heap p) \<and> tn_key (tun p a) = k \<and>
        (tn_Ready (tun p a) \<longrightarrow> tn_Err (tun p a) = None))"

definition starts_ok :: "thread list \<Rightarrow> Proxy \<Rightarrow> bool" where
  "starts_ok ts p \<longleftrightarrow> (\<forall>a<length (px_heap p).
     length (filter (launcher a) ts) = (if tn_Ready (tun p a) then 0 else 1) \<and>
     (tn_Ready (tun p a) \<and> tn_Err (tun p a) = None \<longrightarrow> tn_Cmd (tun p a) \<noteq> None))"

text \<open>Somebody is responsible for the ssh process of a tunnel.\<close>

definition accounted :: "thread list \<Rightarrow> Proxy \<Rightarrow> nat \<Rightarrow> bool" where
  "accounted ts p a \<longleftrightarrow> a \<in> set (px_signalled p) \<or> a \<in> set (px_reaped p) \<or>
     (\<exists>k pid. Launched k a pid \<in> set ts) \<or>
     (tn_Cmd (tun p a) \<noteq> None \<and> (mapped p (tn_key (tun p a)) a \<or> (\<exists>port i ws. Dropping port i ws a \<in> set ts)))"

definition ports_ok :: "Proxy \<Rightarrow> bool" where
  "ports_ok p \<longleftrightarrow> distinct (owned p) \<and>
     (\<forall>(port, l)\<in>set (px_listeners p). 1 \<le> port \<and> port \<le> 65535 \<and> l < px_next p \<and> l \<notin> set (px_closed p)) \<and>
     (\<forall>l\<in>set (px_closed p). l < px_next p) \<and> distinct (map snd (px_listeners p)) \<and>
     (px_swept p \<longrightarrow> px_stopCh p \<and> px_listeners p = [] \<and> px_tunnels p = [])"

definition proxy_inv :: "thread list \<Rightarrow> Proxy \<Rightarrow> bool" where
  "proxy_inv ts p \<longleftrightarrow> tunnels_ok p \<and> list_all (thread_ok p) ts \<and> starts_ok ts p \<and>
     (\<forall>a\<in>set (px_started p). a < length (px_heap p) \<and> accounted ts p a) \<and> ports_ok p"

lemma proxy_inv_New: "proxy_inv [] New"
  by (simp add: proxy_inv_def tunnels_ok_def starts_ok_def ports_ok_def New_def owned_def)

lemma spawn_simps [simp]:
  "px_listeners (spawn ts p) = px_listeners p" "px_tunnels (spawn ts p) = px_tunnels p" "px_stopCh (spawn ts p) = px_stopCh p"
  "px_heap (spawn ts p) = px_heap p" "px_threads (spawn ts p) = px_threads p @ ts" "px_next (spawn ts p) = px_next p"
  "px_closed (spawn ts p) = px_closed p" "px_started (spawn ts p) = px_started p" "px_signalled (spawn ts p) = px_signalled p"
  "px_reaped (spawn ts p) = px_reaped p" "px_swept (spawn ts p) = px_swept p" "owned (spawn ts p) = owned p"
  "mapped (spawn ts p) k a = mapped p k a"
  by (simp_all add: spawn_def owned_def mapped_def)

lemma proxy_invI:
  "tunnels_ok p \<Longrightarrow> list_all (thread_ok p) ts \<Longrightarrow> starts_ok ts p \<Longrightarrow>
   (\<And>a. a \<in> set (px_started p) \<Longrightarrow> a < length (px_heap p) \<and> accounted ts p a) \<Longrightarrow> ports_ok p \<Longrightarrow> proxy_inv ts p"
  by (simp add: proxy_inv_def)

lemma proxy_invD:
  assumes "proxy_inv ts p"
  shows "tunnels_ok p" "list_all (thread_ok p) ts" "starts_ok ts p" "ports_ok p"
    "a \<in> set (px_started p) \<Longrightarrow> a < length (px_heap p)" "a \<in> set (px_started p) \<Longrightarrow> accounted ts p a"
  using assms by (simp_all add: proxy_inv_def)

lemma thread_ok_mono:
  assumes "thread_ok p t" "px_heap q = px_heap p" "set (px_started p) \<subseteq> set (px_started q)"
  shows "thread_ok q t"
  using assms by (cases t) auto

lemma threads_ok_mono:
  "list_all (thread_ok p) ts \<Longrightarrow> px_heap q = px_heap p \<Longrightarrow> set (px_started p) \<subseteq> set (px_started q) \<Longrightarrow> list_all (thread_ok q) ts"
  by (auto simp: list_all_iff intro: thread_ok_mono)

text \<open>Goroutines that are not responsible for a process come and go freely.\<close>

fun neutral :: "thread \<Rightarrow> bool" where
  "neutral (Dropping port i ws a) = False"
| "neutral t = (\<forall>a. \<not> launcher a t)"

lemma neutral_facts:
  assumes "neutral t"
  shows "\<not> launcher a t" "t \<noteq> Launched k a pid" "t \<noteq> Dropping port i ws a"
  using assms by (cases t; auto)+

lemma filter_neutral: "list_all neutral us \<Longrightarrow> filter (launcher a) us = []"
  by (induction us) (auto simp: neutral_facts)

lemma inv_neutral:
  assumes inv: "proxy_inv (vs @ ts) p" and n: "list_all neutral vs" "list_all neutral us" "list_all (thread_ok p) us"
  shows "proxy_inv (ts @ us) p"
proof (rule proxy_invI)
  show "list_all (thread_ok p) (ts @ us)" using proxy_invD(2)[OF inv] n(3) by simp
  show "starts_ok (ts @ us) p" using proxy_invD(3)[OF inv] n(1,2) by (simp add: starts_ok_def filter_neutral)
  fix a assume a: "a \<in> set (px_started p)"
  have "accounted (vs @ ts) p a" using proxy_invD(6)[OF inv a] .
  moreover have "Launched k a pid \<notin> set vs" "Dropping port i ws a \<notin> set vs" for k pid port i ws
    using n(1) by (auto simp: list_all_iff)
  ultimately show "a < length (px_heap p) \<and> accounted (ts @ us) p a"
    using proxy_invD(5)[OF inv a] by (auto simp: accounted_def)
qed (use proxy_invD[OF inv] in simp_all)

lemma inv_signal:
  "proxy_inv ts p \<Longrightarrow> proxy_inv ts (p\<lparr>px_signalled := s @ px_signalled p\<rparr>)"
  by (auto simp: proxy_inv_def tunnels_ok_def starts_ok_def ports_ok_def accounted_def mapped_def owned_def
      intro: threads_ok_mono)

lemma inv_reaped: "proxy_inv ts p \<Longrightarrow> proxy_inv ts (p\<lparr>px_reaped := a # px_reaped p\<rparr>)"
  by (auto simp: proxy_inv_def tunnels_ok_def starts_ok_def ports_ok_def accounted_def mapped_def owned_def
      intro: threads_ok_mono)

lemma inv_close_stopCh: "proxy_inv ts p \<Longrightarrow> proxy_inv ts (close_stopCh p)"
  by (auto simp: close_stopCh_def proxy_inv_def tunnels_ok_def starts_ok_def ports_ok_def accounted_def mapped_def owned_def
      intro: threads_ok_mono)

lemma inv_set_threads: "proxy_inv ts (p\<lparr>px_threads := us\<rparr>) = proxy_inv ts p"
proof -
  have "thread_ok (p\<lparr>px_threads := us\<rparr>) t = thread_ok p t" for t by (cases t) auto
  then show ?thesis
    by (simp add: proxy_inv_def tunnels_ok_def starts_ok_def ports_ok_def accounted_def mapped_def owned_def list_all_iff)
qed

lemma inv_spawn: "proxy_inv ts (spawn us p) = proxy_inv ts p"
  unfolding spawn_def by (rule inv_set_threads)

lemma starts_ok_cong:
  assumes "\<And>a. length (filter (launcher a) us) = length (filter (launcher a) ts)" "starts_ok ts p"
  shows "starts_ok us p"
  using assms by (simp add: starts_ok_def)

lemma inv_reorder: "proxy_inv (xs @ t # ys) p \<longleftrightarrow> proxy_inv (t # xs @ ys) p"
proof -
  have "accounted (xs @ t # ys) p a = accounted (t # xs @ ys) p a" for a by (auto simp: accounted_def)
  moreover have "starts_ok (xs @ t # ys) p = starts_ok (t # xs @ ys) p"
    by (rule iffI; erule starts_ok_cong[rotated]; simp)
  ultimately show ?thesis by (auto simp: proxy_inv_def)
qed

section \<open>Transitions of tunnels\<close>

lemma mapped_iff: "distinct (map fst (px_tunnels p)) \<Longrightarrow> mapped p k a \<longleftrightarrow> (k, a) \<in> set (px_tunnels p)"
  by (simp add: mapped_def)

lemma unmap_simps [simp]:
  "px_listeners (unmap k a p) = px_listeners p" "px_stopCh (unmap k a p) = px_stopCh p" "px_heap (unmap k a p) = px_heap p"
  "px_threads (unmap k a p) = px_threads p" "px_next (unmap k a p) = px_next p" "px_closed (unmap k a p) = px_closed p"
  "px_started (unmap k a p) = px_started p" "px_signalled (unmap k a p) = px_signalled p"
  "px_reaped (unmap k a p) = px_reaped p" "px_swept (unmap k a p) = px_swept p" "owned (unmap k a p) = owned p"
  by (simp_all add: unmap_def owned_def)

lemma set_tunnel_simps [simp]:
  "px_listeners (set_tunnel a f p) = px_listeners p" "px_stopCh (set_tunnel a f p) = px_stopCh p"
  "px_heap (set_tunnel a f p) = (px_heap p)[a := f (px_heap p ! a)]" "px_tunnels (set_tunnel a f p) = px_tunnels p"
  "px_threads (set_tunnel a f p) = px_threads p" "px_next (set_tunnel a f p) = px_next p" "px_closed (set_tunnel a f p) = px_closed p"
  "px_started (set_tunnel a f p) = px_started p" "px_signalled (set_tunnel a f p) = px_signalled p"
  "px_reaped (set_tunnel a f p) = px_reaped p" "px_swept (set_tunnel a f p) = px_swept p" "owned (set_tunnel a f p) = owned p"
  "mapped (set_tunnel a f p) k b = mapped p k b"
  by (simp_all add: set_tunnel_def owned_def mapped_def)

lemma unmap_tunnels: "tunnels_ok p \<Longrightarrow> set (px_tunnels (unmap k a p)) = set (px_tunnels p) - {(k, a)}"
  by (auto simp: tunnels_ok_def unmap_def mapped_iff dest: eq_key_imp_eq_value)

lemma unmap_distinct: "distinct (map fst (px_tunnels p)) \<Longrightarrow> distinct (map fst (px_tunnels (unmap k a p)))"
  by (simp add: unmap_def distinct_filter_map)

lemma unmap_mapped: "tunnels_ok p \<Longrightarrow> mapped (unmap k a p) j b \<longleftrightarrow> mapped p j b \<and> (j, b) \<noteq> (k, a)"
  using unmap_tunnels[of p k a] unmap_distinct[of p k a] by (auto simp: mapped_iff tunnels_ok_def)

lemma inv_unmap:
  assumes inv: "proxy_inv ts p" and acc: "a \<in> set (px_started p) \<Longrightarrow> accounted ts (unmap k a p) a"
    and key: "a < length (px_heap p)" "tn_key (tun p a) = k"
  shows "proxy_inv ts (unmap k a p)"
proof (rule proxy_invI)
  note i = proxy_invD[OF inv]
  show "tunnels_ok (unmap k a p)"
    using i(1) unmap_tunnels[OF i(1), of k a] unmap_distinct[of p k a] by (auto simp: tunnels_ok_def)
  show "list_all (thread_ok (unmap k a p)) ts" using i(2) by (rule threads_ok_mono) simp_all
  show "starts_ok ts (unmap k a p)" using i(3) by (simp add: starts_ok_def)
  show "ports_ok (unmap k a p)" using i(4) by (auto simp: ports_ok_def unmap_def owned_def)
  fix b assume "b \<in> set (px_started (unmap k a p))"
  then have b: "b \<in> set (px_started p)" by simp
  show "b < length (px_heap (unmap k a p)) \<and> accounted ts (unmap k a p) b"
  proof (cases "b = a")
    case False
    then show ?thesis using i(5,6)[OF b] by (auto simp: accounted_def unmap_mapped[OF i(1)])
  qed (use acc b i(5)[OF b] in simp)
qed

text \<open>Closing \<^verbatim>\<open>tunnel.Ready\<close>: the launcher ends.\<close>

lemma only_launcher:
  assumes "proxy_inv (t # ts) p" "launcher a t" "a < length (px_heap p)"
  shows "\<not> tn_Ready (tun p a)" "filter (launcher a) ts = []"
proof -
  have "length (filter (launcher a) (t # ts)) = (if tn_Ready (tun p a) then 0 else 1)"
    using proxy_invD(3)[OF assms(1)] assms(3) unfolding starts_ok_def by blast
  then show "\<not> tn_Ready (tun p a)" "filter (launcher a) ts = []" using assms(2) by (auto split: if_splits)
qed

lemma launcher_same: "launcher a t \<Longrightarrow> launcher b t \<Longrightarrow> a = b"
  by (cases t) auto

lemma no_launcher: "filter (launcher a) ts = [] \<Longrightarrow> t \<in> set ts \<Longrightarrow> \<not> launcher a t"
  by (auto simp: filter_empty_conv)

lemma thread_ok_set:
  assumes "thread_ok p t" "a < length (px_heap p)" "\<not> launcher a t" "\<not> tn_Ready (tun p a)" "tn_key (f (tun p a)) = tn_key (tun p a)"
    "tn_Cmd (f (tun p a)) = tn_Cmd (tun p a)"
  shows "thread_ok (set_tunnel a f p) t"
  using assms by (cases t) (auto simp: nth_list_update)

lemma accounted_rest: "accounted (t # ts) p b \<Longrightarrow> launcher a t \<Longrightarrow> b \<noteq> a \<Longrightarrow> accounted ts p b"
  by (cases t) (auto simp: accounted_def)

lemma inv_ready:
  assumes inv: "proxy_inv (t # ts) p" and a: "launcher a t" "a < length (px_heap p)"
    and acc: "a \<in> set (px_started p) \<Longrightarrow> accounted ts p a"
    and err: "if err = None then tn_Cmd (tun p a) \<noteq> None else \<forall>k. (k, a) \<notin> set (px_tunnels p)"
  shows "proxy_inv ts (set_tunnel a (\<lambda>t. t\<lparr>tn_Err := err, tn_Ready := True\<rparr>) p)"
proof (rule proxy_invI)
  note i = proxy_invD[OF inv] and o = only_launcher[OF inv a]
  let ?q = "set_tunnel a (\<lambda>t. t\<lparr>tn_Err := err, tn_Ready := True\<rparr>) p"
  show "tunnels_ok ?q" using i(1) err a(2) by (cases err) (auto simp: tunnels_ok_def nth_list_update)
  show "list_all (thread_ok ?q) ts"
    using i(2) o(1) a(2) no_launcher[OF o(2)] by (auto simp: list_all_iff intro!: thread_ok_set)
  show "starts_ok ts ?q"
    unfolding starts_ok_def
  proof (intro allI impI)
    fix b assume "b < length (px_heap ?q)"
    then have b: "length (filter (launcher b) (t # ts)) = (if tn_Ready (tun p b) then 0 else 1)"
      "tn_Ready (tun p b) \<and> tn_Err (tun p b) = None \<longrightarrow> tn_Cmd (tun p b) \<noteq> None"
      using i(3) by (simp_all add: starts_ok_def)
    show "length (filter (launcher b) ts) = (if tn_Ready (tun ?q b) then 0 else 1) \<and>
        (tn_Ready (tun ?q b) \<and> tn_Err (tun ?q b) = None \<longrightarrow> tn_Cmd (tun ?q b) \<noteq> None)"
    proof (cases "b = a")
      case True
      then show ?thesis using o(2) err a(2) by simp
    next
      case False
      then have "\<not> launcher b t" using launcher_same[OF a(1)] by blast
      then show ?thesis using b False by simp
    qed
  qed
  show "ports_ok ?q" using i(4) by (simp add: ports_ok_def)
  fix b assume "b \<in> set (px_started ?q)"
  then have b: "b \<in> set (px_started p)" by simp
  have "accounted ts p b"
  proof (cases "b = a")
    case False
    then show ?thesis using accounted_rest[OF i(6)[OF b] a(1)] by simp
  qed (use acc b in simp)
  then show "b < length (px_heap ?q) \<and> accounted ts ?q b"
    using i(5)[OF b] a(2) by (auto simp: accounted_def nth_list_update)
qed

lemma inv_finish_err:
  assumes inv: "proxy_inv (t # ts) p" and a: "launcher a t" "a < length (px_heap p)" "tn_key (tun p a) = k"
    and acc: "a \<in> set (px_started p) \<Longrightarrow> a \<in> set (px_signalled p) \<or> a \<in> set (px_reaped p)"
  shows "proxy_inv ts (set_tunnel a (\<lambda>t. t\<lparr>tn_Err := Some e, tn_Ready := True\<rparr>) (unmap k a p))"
proof (rule inv_ready[of t])
  show "proxy_inv (t # ts) (unmap k a p)"
    using acc by (intro inv_unmap[OF inv _ a(2,3)]) (auto simp: accounted_def)
  have ok: "tunnels_ok p" using proxy_invD(1)[OF inv] .
  show "if Some e = None then tn_Cmd (tun (unmap k a p) a) \<noteq> None else \<forall>j. (j, a) \<notin> set (px_tunnels (unmap k a p))"
    using ok a(3) by (auto simp: unmap_tunnels[OF ok] tunnels_ok_def)
qed (use a acc in \<open>auto simp: accounted_def\<close>)

text \<open>As long as its process is not published, only its launcher answers for a tunnel.\<close>

lemma unpublished:
  assumes inv: "proxy_inv (t # ts) p" and a: "launcher a t" "a < length (px_heap p)" "tn_Cmd (tun p a) = None"
    and st: "a \<in> set (px_started p)" "\<forall>k pid. t \<noteq> Launched k a pid"
  shows "a \<in> set (px_signalled p) \<or> a \<in> set (px_reaped p)"
proof -
  have "Launched k a pid \<notin> set ts" for k pid using no_launcher[OF only_launcher(2)[OF inv a(1,2)]] by fastforce
  then show ?thesis using proxy_invD(6)[OF inv st(1)] st(2) a(3) by (auto simp: accounted_def)
qed

lemma inv_started:
  assumes inv: "proxy_inv (Launching k a ws # ts) p"
  shows "proxy_inv (ts @ [Launched k a pid, Reaping a pid]) (p\<lparr>px_started := a # px_started p\<rparr>)"
proof (rule proxy_invI)
  note i = proxy_invD[OF inv]
  let ?q = "p\<lparr>px_started := a # px_started p\<rparr>"
  have a: "a < length (px_heap p)" "tn_key (tun p a) = k" "tn_Cmd (tun p a) = None" using i(2) by simp_all
  show "tunnels_ok ?q" using i(1) by (simp add: tunnels_ok_def)
  show "list_all (thread_ok ?q) (ts @ [Launched k a pid, Reaping a pid])"
    using i(2) threads_ok_mono[of p ts ?q] by auto
  show "starts_ok (ts @ [Launched k a pid, Reaping a pid]) ?q"
    by (rule starts_ok_cong[of _ "Launching k a ws # ts"]) (use i(3) in \<open>auto simp: starts_ok_def\<close>)
  show "ports_ok ?q" using i(4) by (simp add: ports_ok_def owned_def)
  fix b assume b: "b \<in> set (px_started ?q)"
  show "b < length (px_heap ?q) \<and> accounted (ts @ [Launched k a pid, Reaping a pid]) ?q b"
  proof (cases "b = a")
    case False
    with b have b': "b \<in> set (px_started p)" by simp
    then have "accounted ts p b" using accounted_rest[OF i(6)[OF b'], of a] False by simp
    then show ?thesis using i(5)[OF b'] by (auto simp: accounted_def mapped_def)
  qed (use a in \<open>auto simp: accounted_def\<close>)
qed

lemma inv_publish:
  assumes inv: "proxy_inv (Launched k a pid # ts) p" and m: "mapped p k a"
  shows "proxy_inv (ts @ [Starting k a pid]) (set_tunnel a (\<lambda>t. t\<lparr>tn_Cmd := Some pid\<rparr>) p)"
proof (rule proxy_invI)
  note i = proxy_invD[OF inv]
  let ?q = "set_tunnel a (\<lambda>t. t\<lparr>tn_Cmd := Some pid\<rparr>) p"
  have a: "a < length (px_heap p)" "tn_key (tun p a) = k" "tn_Cmd (tun p a) = None" using i(2) by simp_all
  note o = only_launcher[OF inv _ a(1), simplified]
  show "tunnels_ok ?q" using i(1) a(1) by (auto simp: tunnels_ok_def nth_list_update)
  have "thread_ok ?q t" if t: "t \<in> set ts" for t
  proof -
    have "\<not> launcher a t" using no_launcher[OF o(2) t] .
    moreover have "thread_ok p t" using i(2) t by (simp add: list_all_iff)
    ultimately show ?thesis using a o(1) by (cases t) (auto simp: nth_list_update)
  qed
  then show "list_all (thread_ok ?q) (ts @ [Starting k a pid])" using a by (simp add: list_all_iff)
  show "starts_ok (ts @ [Starting k a pid]) ?q"
    using i(3) a(1) o(1) by (auto simp: starts_ok_def nth_list_update)
  show "ports_ok ?q" using i(4) by (simp add: ports_ok_def)
  fix b assume "b \<in> set (px_started ?q)"
  then have b: "b \<in> set (px_started p)" by simp
  show "b < length (px_heap ?q) \<and> accounted (ts @ [Starting k a pid]) ?q b"
  proof (cases "b = a")
    case False
    then have "accounted ts p b" using accounted_rest[OF i(6)[OF b], of a] by simp
    then show ?thesis using i(5)[OF b] False by (auto simp: accounted_def)
  qed (use a m in \<open>auto simp: accounted_def\<close>)
qed

lemma inv_new_tunnel:
  assumes inv: "proxy_inv ts p" and new: "map_of (px_tunnels p) k = None" "\<not> px_stopCh p"
    and t: "tn_key t = k" "tn_Cmd t = None" "\<not> tn_Ready t"
  shows "proxy_inv (ts @ [Launching k (length (px_heap p)) ws])
    (p\<lparr>px_heap := px_heap p @ [t], px_tunnels := (k, length (px_heap p)) # px_tunnels p\<rparr>)"
proof (rule proxy_invI)
  note i = proxy_invD[OF inv]
  let ?q = "p\<lparr>px_heap := px_heap p @ [t], px_tunnels := (k, length (px_heap p)) # px_tunnels p\<rparr>"
  have old: "tun ?q a = tun p a" if "a < length (px_heap p)" for a using that by (simp add: nth_append)
  show "tunnels_ok ?q" using i(1) new(1) t by (auto simp: tunnels_ok_def nth_append map_of_eq_None_iff)
  have "thread_ok ?q u" if "thread_ok p u" for u using that by (cases u) (auto simp: nth_append)
  then show "list_all (thread_ok ?q) (ts @ [Launching k (length (px_heap p)) ws])"
    using i(2) t by (simp add: list_all_iff)
  have none: "filter (launcher (length (px_heap p))) ts = []"
    using i(2) by (auto simp: filter_empty_conv list_all_iff elim!: launcher.elims(2))
  show "starts_ok (ts @ [Launching k (length (px_heap p)) ws]) ?q"
    unfolding starts_ok_def
  proof (intro allI impI)
    fix a assume "a < length (px_heap ?q)"
    then show "length (filter (launcher a) (ts @ [Launching k (length (px_heap p)) ws])) = (if tn_Ready (tun ?q a) then 0 else 1) \<and>
        (tn_Ready (tun ?q a) \<and> tn_Err (tun ?q a) = None \<longrightarrow> tn_Cmd (tun ?q a) \<noteq> None)"
      using none t i(3) by (cases "a = length (px_heap p)") (simp_all add: starts_ok_def nth_append)
  qed
  show "ports_ok ?q" using i(4) new(2) by (auto simp: ports_ok_def owned_def)
  fix a assume "a \<in> set (px_started ?q)"
  then have a: "a \<in> set (px_started p)" by simp
  have "mapped ?q j a" if "mapped p j a" for j using that i(5)[OF a] new(1) by (auto simp: mapped_def)
  then show "a < length (px_heap ?q) \<and> accounted (ts @ [Launching k (length (px_heap p)) ws]) ?q a"
    using i(5,6)[OF a] old[OF i(5)[OF a]] by (auto simp: accounted_def)
qed

lemma inv_dropping:
  assumes "proxy_inv ts p" "thread_ok p (Dropping port j ws a)"
  shows "proxy_inv (ts @ [Dropping port j ws a]) p"
proof (rule proxy_invI)
  note i = proxy_invD[OF assms(1)]
  show "list_all (thread_ok p) (ts @ [Dropping port j ws a])" using i(2) assms(2) by simp
  show "starts_ok (ts @ [Dropping port j ws a]) p" using i(3) by (rule starts_ok_cong[rotated]) simp
  fix b assume "b \<in> set (px_started p)"
  then show "b < length (px_heap p) \<and> accounted (ts @ [Dropping port j ws a]) p b"
    using i(5,6)[of b] by (auto simp: accounted_def)
qed (use proxy_invD[OF assms(1)] in simp_all)

lemma inv_dropped:
  assumes inv: "proxy_inv (Dropping port j ws a # ts) p" and acc: "a \<in> set (px_signalled p) \<or> a \<in> set (px_reaped p)"
  shows "proxy_inv ts p"
proof (rule proxy_invI)
  note i = proxy_invD[OF inv]
  show "list_all (thread_ok p) ts" using i(2) by simp
  show "starts_ok ts p" using i(3) by (rule starts_ok_cong[rotated]) simp
  fix b assume "b \<in> set (px_started p)"
  then show "b < length (px_heap p) \<and> accounted ts p b"
    using i(5,6)[of b] acc by (auto simp: accounted_def)
qed (use proxy_invD[OF inv] in simp_all)

lemma inv_close_listeners: "proxy_inv ts p \<Longrightarrow> proxy_inv ts (close_listeners f p)"
proof (rule proxy_invI)
  assume inv: "proxy_inv ts p"
  note i = proxy_invD[OF inv]
  show "tunnels_ok (close_listeners f p)" using i(1) by (simp add: tunnels_ok_def close_listeners_def)
  show "list_all (thread_ok (close_listeners f p)) ts"
    using i(2) by (rule threads_ok_mono) (simp_all add: close_listeners_def)
  show "starts_ok ts (close_listeners f p)" using i(3) by (simp add: starts_ok_def close_listeners_def)
  have "distinct (map snd (px_listeners p))" using i(4) by (simp add: ports_ok_def)
  then have l: "x = y" if "(x, l) \<in> set (px_listeners p)" "(y, l) \<in> set (px_listeners p)" for x y l
    using that by (force simp: distinct_map inj_on_def)
  show "ports_ok (close_listeners f p)"
    using i(4) by (auto simp: ports_ok_def close_listeners_def owned_def distinct_filter_map dest: l)
  fix a assume "a \<in> set (px_started (close_listeners f p))"
  then have "a \<in> set (px_started p)" by (simp add: close_listeners_def)
  then show "a < length (px_heap (close_listeners f p)) \<and> accounted ts (close_listeners f p) a"
    using i(5,6)[of a] by (simp add: close_listeners_def accounted_def mapped_def)
qed

lemma drop_tunnels_Ok:
  assumes "drop_tunnels f p w = (Ok p', w')"
  shows "\<exists>s. p' = p\<lparr>px_tunnels := filter (\<lambda>(key, a). f (tn_Port (tun p a))) (px_tunnels p), px_signalled := s @ px_signalled p\<rparr> \<and>
    (\<forall>(key, a)\<in>set (px_tunnels p). f (tn_Port (tun p a)) \<or> tn_Cmd (tun p a) = None \<or> a \<in> set (px_reaped p) \<or> a \<in> set s)"
  using retire_all_Ok[OF assms[unfolded drop_tunnels_def Let_def]] by (auto simp: split_beta) fastforce

lemma inv_drop_tunnels:
  assumes inv: "proxy_inv ts p" and run: "drop_tunnels f p w = (Ok p', w')"
  shows "proxy_inv ts p'"
proof (rule proxy_invI)
  note i = proxy_invD[OF inv]
  obtain s where p': "p' = p\<lparr>px_tunnels := filter (\<lambda>(key, a). f (tn_Port (tun p a))) (px_tunnels p), px_signalled := s @ px_signalled p\<rparr>"
    and s: "\<forall>(key, a)\<in>set (px_tunnels p). f (tn_Port (tun p a)) \<or> tn_Cmd (tun p a) = None \<or> a \<in> set (px_reaped p) \<or> a \<in> set s"
    using drop_tunnels_Ok[OF run] by blast
  show ok: "tunnels_ok p'" using i(1) by (auto simp: p' tunnels_ok_def distinct_filter_map)
  show "list_all (thread_ok p') ts" using i(2) by (rule threads_ok_mono) (simp_all add: p')
  show "starts_ok ts p'" using i(3) by (simp add: p' starts_ok_def)
  show "ports_ok p'" using i(4) by (auto simp: p' ports_ok_def owned_def)
  fix a assume "a \<in> set (px_started p')"
  then have a: "a \<in> set (px_started p)" by (simp add: p')
  have "mapped p' k a \<or> a \<in> set (px_reaped p) \<or> a \<in> set s" if "mapped p k a" "tn_Cmd (tun p a) \<noteq> None" for k
    using that s i(1) ok by (auto simp: mapped_iff tunnels_ok_def) (auto simp: p')
  then show "a < length (px_heap p') \<and> accounted ts p' a"
    using i(5,6)[OF a] by (auto simp: accounted_def p')
qed

section \<open>Every step keeps the invariant\<close>

lemma finish_err_inv:
  assumes "proxy_inv (t # px_threads p) p" "launcher a t" "a < length (px_heap p)" "tn_key (tun p a) = k"
    "a \<in> set (px_started p) \<Longrightarrow> a \<in> set (px_signalled p) \<or> a \<in> set (px_reaped p)"
    "finishTunnelStart k a (Some e) p w = (Ok p', w')"
  shows "proxy_inv (px_threads p') p'"
  using inv_finish_err[OF assms(1-5)] finishTunnelStart_Ok[OF assms(6)] by simp

text \<open>Ending the start of a tunnel after its process was signalled.\<close>

lemma cancel_inv:
  assumes inv: "proxy_inv (t # px_threads p) p" "launcher a t" "a < length (px_heap p)" "tn_key (tun p a) = k"
    and run: "bindM (send_signal sig a pid p) (finishTunnelStart k a (Some e)) w = (Ok p', w')"
  shows "proxy_inv (px_threads p') p'"
proof -
  obtain q w1 where q: "send_signal sig a pid p w = (Ok q, w1)" "finishTunnelStart k a (Some e) q w1 = (Ok p', w')"
    using run by (auto elim!: bindM_OkE)
  from send_signal_Ok[OF q(1)] have "px_threads q = px_threads p" "px_heap q = px_heap p" "px_started q = px_started p"
    "a \<in> set (px_signalled q) \<or> a \<in> set (px_reaped q)" "proxy_inv (t # px_threads p) q"
    using inv(1) inv_signal[of _ p "[a]"] by auto
  then show ?thesis using finish_err_inv[OF _ inv(2) _ _ _ q(2)] inv(3,4) by simp
qed

lemma launch_ssh_inv:
  assumes inv: "proxy_inv (Launching k a ws # px_threads p) p" and run: "launch_ssh k a ws p w = (Ok p', w')"
  shows "proxy_inv (px_threads p') p'"
proof -
  have a: "a < length (px_heap p)" "tn_key (tun p a) = k" "tn_Cmd (tun p a) = None"
    using proxy_invD(2)[OF inv] by simp_all
  have un: "a \<in> set (px_signalled p) \<or> a \<in> set (px_reaped p)" if "a \<in> set (px_started p)"
    using unpublished[OF inv _ a(1,3) that] by simp
  have fail: "proxy_inv (px_threads q) q" if "finishTunnelStart k a (Some e) p w1 = (Ok q, w2)" for q e w1 w2
    using finish_err_inv[OF inv _ a(1,2) un that] by simp
  show ?thesis
    using run unfolding launch_ssh_def Let_def
    by (auto simp: inv_spawn elim!: thenM_OkE tryM_OkE intro: fail inv_started[OF inv])
qed

lemma publish_cmd_inv:
  assumes inv: "proxy_inv (Launched k a pid # px_threads p) p" and run: "publish_cmd k a pid p w = (Ok p', w')"
  shows "proxy_inv (px_threads p') p'"
proof (cases "mapped p k a")
  case True
  then have "p' = spawn [Starting k a pid] (set_tunnel a (\<lambda>t. t\<lparr>tn_Cmd := Some pid\<rparr>) p)"
    using run by (simp add: publish_cmd_def)
  then show ?thesis using inv_publish[OF inv True] by (simp add: inv_spawn)
next
  case False
  have "a < length (px_heap p)" "tn_key (tun p a) = k" using proxy_invD(2)[OF inv] by simp_all
  then show ?thesis using run False cancel_inv[OF inv, of a k] by (simp add: publish_cmd_def)
qed

lemma await_ready_inv:
  assumes inv: "proxy_inv (Starting k a pid # px_threads p) p"
    and run: "await_ready ev k a pid p = Some m" "m w = (Ok p', w')"
  shows "proxy_inv (px_threads p') p'"
proof -
  have a: "a < length (px_heap p)" "tn_key (tun p a) = k" "tn_Cmd (tun p a) = Some pid"
    using proxy_invD(2)[OF inv] by simp_all
  have stay: "proxy_inv (px_threads p @ [Starting k a pid]) p"
    using inv inv_reorder[of "px_threads p" "Starting k a pid" "[]" p] by simp
  have up: "proxy_inv (px_threads r @ [Up k a pid]) r" if "finishTunnelStart k a None p w1 = (Ok r, w2)" for r w1 w2
  proof -
    have r: "r = set_tunnel a (\<lambda>t. t\<lparr>tn_Err := None, tn_Ready := True\<rparr>) p" using finishTunnelStart_Ok[OF that] by simp
    have "accounted (px_threads p) p a" if "a \<in> set (px_started p)"
      using proxy_invD(6)[OF inv that] by (auto simp: accounted_def)
    then have "proxy_inv (px_threads p) r" unfolding r using a by (intro inv_ready[OF inv]) auto
    then show ?thesis using inv_neutral[of "[]" "px_threads p" r "[Up k a pid]"] a r by simp
  qed
  have fail: "proxy_inv (px_threads q) q"
    if "finishTunnelStart k a (Some e) p w1 = (Ok q, w2)" "a \<in> set (px_reaped p)" for q e w1 w2
    using finish_err_inv[OF inv _ a(1,2) _ that(1)] that(2) by simp
  have cancel: "proxy_inv (px_threads q) q"
    if "bindM (send_signal sig a pid p) (finishTunnelStart k a (Some e)) w1 = (Ok q, w2)" for sig q e w1 w2
    using cancel_inv[OF inv _ a(1,2) that] by simp
  show ?thesis
  proof (cases ev)
    case Ticks
    then have "tryM (os_Stat (tn_Path (tun p a)))
        (\<lambda>info. case info of Special m \<Rightarrow> bindM (finishTunnelStart k a None p) (\<lambda>p. returnM (spawn [Up k a pid] p))
          | _ \<Rightarrow> returnM (spawn [Starting k a pid] p))
        (\<lambda>_. returnM (spawn [Starting k a pid] p)) w = (Ok p', w')"
      using run by (simp add: await_ready_def)
    then show ?thesis
      by (cases rule: tryM_cases) (auto simp: inv_spawn stay split: node.splits elim!: bindM_OkE dest: up)
  qed (use run fail cancel in \<open>auto simp: await_ready_def split: if_splits\<close>)
qed

definition new_tunnel :: "string \<Rightarrow> string \<Rightarrow> int \<Rightarrow> string \<Rightarrow> Tunnel" where
  "new_tunnel key name port path = \<lparr>tn_key = key, tn_Workspace = name, tn_Port = port, tn_Path = path,
     tn_Cmd = None, tn_Ready = False, tn_Err = None\<rparr>"

lemma ensureTunnel_OkE:
  assumes "ensureTunnel ws port p w = (Ok (a, q), w')"
  obtains process w1 w2 key where
    "ReadProcess (filepath_Join [ws_WorkspaceDir ws, ''process.json'']) w = (Ok (Some process), w1)"
    "pr_PID process = ws_PID ws" "Running process w1 = (Ok True, w2)" "\<not> px_stopCh p"
    "key = tunnel_key (ws_Name ws) (pr_PID process) (pr_StartTime process) port"
    "map_of (px_tunnels p) key = Some a \<and> q = p \<or>
     map_of (px_tunnels p) key = None \<and> a = length (px_heap p) \<and>
       (\<exists>path. tunnelPath key w2 = (Ok path, w') \<and> q = spawn [Launching key a ws]
          (p\<lparr>px_heap := px_heap p @ [new_tunnel key (ws_Name ws) port path], px_tunnels := (key, a) # px_tunnels p\<rparr>))"
  using assms unfolding ensureTunnel_def Let_def new_tunnel_def
  by (auto elim!: bindM_OkE split: option.splits if_splits)

lemma ensureTunnel_inv:
  assumes inv: "proxy_inv (px_threads p) p" and run: "ensureTunnel ws port p w = (Ok (a, q), w')"
  shows "proxy_inv (px_threads q) q \<and> a < length (px_heap q)"
  using run
proof (rule ensureTunnel_OkE)
  fix key process w1 w2
  assume ns: "\<not> px_stopCh p" and "map_of (px_tunnels p) key = Some a \<and> q = p \<or>
     map_of (px_tunnels p) key = None \<and> a = length (px_heap p) \<and>
       (\<exists>path. tunnelPath key w2 = (Ok path, w') \<and> q = spawn [Launching key a ws]
          (p\<lparr>px_heap := px_heap p @ [new_tunnel key (ws_Name ws) port path], px_tunnels := (key, a) # px_tunnels p\<rparr>))"
  then show ?thesis
  proof (elim disjE conjE exE)
    assume "map_of (px_tunnels p) key = Some a" "q = p"
    then show ?thesis using proxy_invD(1)[OF inv] inv by (auto simp: tunnels_ok_def dest!: map_of_SomeD)
  next
    fix path assume "map_of (px_tunnels p) key = None" "a = length (px_heap p)" "q = spawn [Launching key a ws]
          (p\<lparr>px_heap := px_heap p @ [new_tunnel key (ws_Name ws) port path], px_tunnels := (key, a) # px_tunnels p\<rparr>)"
    then show ?thesis
      using inv_new_tunnel[OF inv _ ns, of key "new_tunnel key (ws_Name ws) port path" ws]
      by (simp add: inv_spawn new_tunnel_def)
  qed
qed

lemma ensurePort_Ok:
  assumes "ensurePort port p w = (Ok p', w')"
  shows "1 \<le> port \<and> port \<le> 65535 \<and> \<not> px_stopCh p \<and> (port \<in> set (owned p) \<and> p' = p \<or> port \<notin> set (owned p) \<and>
    p' = spawn [Accepting (px_next p) port] (p\<lparr>px_listeners := (port, px_next p) # px_listeners p, px_next := Suc (px_next p)\<rparr>))"
  using assms by (auto simp: ensurePort_def elim!: thenM_OkE split: if_splits)

lemma ensurePort_inv:
  assumes inv: "proxy_inv (px_threads p) p" and run: "ensurePort port p w = (Ok p', w')"
  shows "proxy_inv (px_threads p') p'"
proof -
  let ?q = "p\<lparr>px_listeners := (port, px_next p) # px_listeners p, px_next := Suc (px_next p)\<rparr>"
  have "proxy_inv (px_threads p) ?q"
    if "port \<notin> set (owned p)" "1 \<le> port" "port \<le> 65535" "\<not> px_stopCh p"
  proof (rule proxy_invI)
    note i = proxy_invD[OF inv]
    show "tunnels_ok ?q" using i(1) by (simp add: tunnels_ok_def)
    show "list_all (thread_ok ?q) (px_threads p)" using i(2) by (rule threads_ok_mono) simp_all
    show "starts_ok (px_threads p) ?q" using i(3) by (simp add: starts_ok_def)
    show "ports_ok ?q" using i(4) that by (fastforce simp: ports_ok_def owned_def)
    fix a assume "a \<in> set (px_started ?q)"
    then show "a < length (px_heap ?q) \<and> accounted (px_threads p) ?q a"
      using i(5,6)[of a] by (simp add: accounted_def mapped_def)
  qed
  then show ?thesis
    using ensurePort_Ok[OF run] inv inv_neutral[of "[]" "px_threads p" ?q "[Accepting (px_next p) port]"]
    by (auto simp: inv_spawn)
qed

lemma release_inv:
  assumes "proxy_inv ts p" "release ports p w = (Ok p', w')"
  shows "proxy_inv ts p'"
  using inv_drop_tunnels[OF inv_close_listeners[OF assms(1)] assms(2)[unfolded release_def]] .

lemma sweep_inv:
  assumes inv: "proxy_inv ts p" and stop: "px_stopCh p" and run: "sweep p w = (Ok p', w')"
  shows "proxy_inv ts p'"
proof -
  obtain q w1 where q: "drop_tunnels (\<lambda>_. False) (close_listeners (\<lambda>_. False) p) w = (Ok q, w1)" "p' = q\<lparr>px_swept := True\<rparr>"
    using run unfolding sweep_def by (auto elim!: bindM_OkE)
  have i: "proxy_inv ts q" using inv_drop_tunnels[OF inv_close_listeners[OF inv] q(1)] .
  have "px_listeners q = []" "px_tunnels q = []" "px_stopCh q"
    using drop_tunnels_Ok[OF q(1)] stop by (auto simp: close_listeners_def)
  moreover have "thread_ok (q\<lparr>px_swept := True\<rparr>) t = thread_ok q t" for t by (cases t) auto
  ultimately show ?thesis
    using i unfolding q(2)
    by (simp add: proxy_inv_def tunnels_ok_def starts_ok_def ports_ok_def accounted_def mapped_def owned_def list_all_iff)
qed

lemma dropping_inv:
  assumes inv: "proxy_inv (Dropping port j ws a # px_threads p) p" and run: "retire a p w = (Ok q, w')"
  shows "proxy_inv (px_threads q) q \<and> px_threads q = px_threads p"
proof -
  have a: "a < length (px_heap p)" "tn_Ready (tun p a)" "tn_Err (tun p a) = None" using proxy_invD(2)[OF inv] by simp_all
  then have "tn_Cmd (tun p a) \<noteq> None" using proxy_invD(3)[OF inv] by (auto simp: starts_ok_def)
  then have "q = p \<and> a \<in> set (px_reaped p) \<or> q = p\<lparr>px_signalled := a # px_signalled p\<rparr>" using retire_Ok[OF run] by auto
  then show ?thesis
    using inv_dropped[OF inv] inv_dropped[OF inv_signal[OF inv, of "[a]"]] by auto
qed

lemma inv_retained: "proxy_inv (t # ts) p \<Longrightarrow> neutral t \<Longrightarrow> list_all neutral us \<Longrightarrow> list_all (thread_ok p) us \<Longrightarrow> proxy_inv (ts @ us) p"
  using inv_neutral[of "[t]" ts p us] by simp

lemma advance_inv:
  assumes inv: "proxy_inv (t # px_threads p) p" and run: "advance ev t p = Some m" "m w = (Ok p', w')"
  shows "proxy_inv (px_threads p') p'"
proof (cases t)
  case (Accepting l port)
  then show ?thesis using run inv_retained[OF inv, of "[Routing port, Accepting l port]"] inv_retained[OF inv, of "[]"]
    by (auto simp: acceptLoop_def inv_spawn split: if_splits event.splits)
next
  case (Routing port)
  then show ?thesis using run inv_retained[OF inv, of "[Ensuring port 0 ws]" for ws] inv_retained[OF inv, of "[]"]
    by (auto simp: inv_spawn elim!: tryM_OkE)
next
  case (Ensuring port j ws)
  have "proxy_inv (px_threads p) p" using inv_retained[OF inv, of "[]"] Ensuring by simp
  then show ?thesis using run Ensuring ensureTunnel_inv inv_neutral[of "[]" _ _ "[Waiting port j ws a]" for a]
    by (fastforce simp: inv_spawn elim!: tryM_OkE)
next
  case (Waiting port j ws a)
  then show ?thesis using run inv_retained[OF inv, of "[Dialing port j ws a]"] inv_retained[OF inv, of "[]"] proxy_invD(2)[OF inv]
    by (auto simp: inv_spawn split: if_splits)
next
  case (Dialing port j ws a)
  have a: "thread_ok p (Dropping port j ws a)" using proxy_invD(2)[OF inv] Dialing by simp
  have i: "proxy_inv (px_threads p) p" using inv_retained[OF inv, of "[]"] Dialing by simp
  have "tn_Cmd (tun p a) \<noteq> None" using proxy_invD(3)[OF inv] a by (auto simp: starts_ok_def)
  moreover have "Dropping port j ws a \<in> set (px_threads p @ [Dropping port j ws a])" by simp
  ultimately have "accounted (px_threads p @ [Dropping port j ws a]) (unmap (tn_key (tun p a)) a p) a"
    unfolding accounted_def unmap_simps by blast
  then have "proxy_inv (px_threads p @ [Dropping port j ws a]) (unmap (tn_key (tun p a)) a p)"
    using inv_unmap[OF inv_dropping[OF i a]] a by simp
  then show ?thesis using run Dialing inv_retained[OF inv, of "[Copying a]"]
    by (auto simp: inv_spawn elim!: tryM_OkE)
next
  case (Dropping port j ws a)
  obtain q where q: "retire a p w = (Ok q, w')"
    "p' = (if Suc j < 2 then spawn [Ensuring port (Suc j) ws] q else q)"
    using run Dropping by (auto elim!: bindM_OkE)
  have i: "proxy_inv (px_threads q) q" using dropping_inv[OF inv[unfolded Dropping] q(1)] by (rule conjunct1)
  then show ?thesis using inv_neutral[of "[]" "px_threads q" q "[Ensuring port (Suc j) ws]"] q(2)
    by (auto simp: inv_spawn split: if_splits)
next
  case (Launching k a ws)
  then show ?thesis using run launch_ssh_inv[OF inv[unfolded Launching]] by simp
next
  case (Launched k a pid)
  then show ?thesis using run publish_cmd_inv[OF inv[unfolded Launched]] by simp
next
  case (Starting k a pid)
  then show ?thesis using run await_ready_inv[OF inv[unfolded Starting]] by simp
next
  case (Up k a pid)
  have a: "a < length (px_heap p)" "tn_key (tun p a) = k" using proxy_invD(2)[OF inv] Up by simp_all
  have i: "proxy_inv (px_threads p) p" using inv_retained[OF inv, of "[]"] Up by simp
  then have "proxy_inv (px_threads p) (unmap k a p)" if "a \<in> set (px_reaped p)"
    using that by (intro inv_unmap[OF i _ a]) (simp add: accounted_def)
  then show ?thesis using run Up by (auto simp: removeTunnel_def Let_def elim!: thenM_OkE split: if_splits)
next
  case (Copying a)
  then show ?thesis using run inv_retained[OF inv, of "[]"] by auto
next
  case (Reaping a pid)
  then show ?thesis using run inv_reaped[OF inv_retained[OF inv, of "[]"]] by auto
qed

inductive_cases daemon_stepE: "daemon_step (p, w) (p', w')"

lemma step_inv:
  assumes step: "daemon_step (p, w) (p', w')" and inv: "proxy_inv (px_threads p) p"
  shows "proxy_inv (px_threads p') p'"
  using step
proof (rule daemon_stepE)
  fix xs t ys ev m
  assume t: "px_threads p = xs @ t # ys" "advance ev t (p\<lparr>px_threads := xs @ ys\<rparr>) = Some m" "m w = (Ok p', w')"
  have "proxy_inv (t # xs @ ys) (p\<lparr>px_threads := xs @ ys\<rparr>)"
    using inv t(1) by (simp add: inv_reorder inv_set_threads)
  then show ?thesis using advance_inv[of t "p\<lparr>px_threads := xs @ ys\<rparr>"] t(2,3) by simp
next
  fix ports assume r: "release ports p w = (Ok p', w')"
  have "px_threads p' = px_threads p" using drop_tunnels_Ok[OF r[unfolded release_def]] by (auto simp: close_listeners_def)
  then show ?thesis using release_inv[OF inv r] by simp
next
  assume s: "px_stopCh p" "sweep p w = (Ok p', w')"
  have "px_threads p' = px_threads p" 
    using s(2) unfolding sweep_def by (auto elim!: bindM_OkE simp: close_listeners_def dest!: drop_tunnels_Ok)
  then show ?thesis using sweep_inv[OF inv s] by simp
next
  assume "p' = close_stopCh p"
  moreover have "px_threads (close_stopCh p) = px_threads p" by (simp add: close_stopCh_def)
  ultimately show ?thesis using inv_close_stopCh[OF inv] by simp
qed (use inv ensurePort_inv in auto)

lemma reachable_inv:
  assumes "reachable p"
  shows "proxy_inv (px_threads p) p"
proof -
  have "proxy_inv (px_threads (fst s')) (fst s')" if "daemon_step\<^sup>*\<^sup>* s s'" "proxy_inv (px_threads (fst s)) (fst s)" for s s'
    using that
  proof induction
    case (step y z)
    then show ?case using step_inv[of "fst y" "snd y" "fst z" "snd z"] by simp
  qed
  from this[of "(New, w)" "(p, w')" for w w'] show ?thesis
    using assms proxy_inv_New by (auto simp: reachable_def New_def)
qed

end
