(* ===== verification/ProxyLaws.thy ===== *)
theory ProxyLaws
  imports ProxyInv LifecycleLaws
begin

text \<open>
  What the proxy promises: which ports it owns after ensuring and reconciling, where a connection
  is routed, and, for every interleaving of its goroutines, that no ssh process it has started is lost and that a
  stopped proxy stays empty.
\<close>

section \<open>What holds in every interleaving\<close>

text \<open>C2. The proxy loses no ssh process. Whatever its goroutines, the reconciliation, control requests and \<^verbatim>\<open>Stop\<close> do
  in whatever order, each process that was started for a tunnel has been sent a signal,
  or has been waited for, or its starting goroutine is about to decide whether to publish or to kill
  it, or it is published and either still mapped or being dropped by a goroutine that is about
  to signal it. A mapped tunnel is found under its own key and has not failed.\<close>

theorem proxy_loses_no_process:
  assumes "reachable p"
  shows "(\<forall>a\<in>set (px_started p).
      a \<in> set (px_signalled p) \<or> a \<in> set (px_reaped p) \<or> (\<exists>k pid. Launched k a pid \<in> set (px_threads p)) \<or>
      (tn_Cmd (px_heap p ! a) \<noteq> None \<and>
        (mapped p (tn_key (px_heap p ! a)) a \<or> (\<exists>port i ws. Dropping port i ws a \<in> set (px_threads p))))) \<and>
    (\<forall>(k, a)\<in>set (px_tunnels p). tn_key (px_heap p ! a) = k \<and> (tn_Ready (px_heap p ! a) \<longrightarrow> tn_Err (px_heap p ! a) = None))"
proof -
  note i = proxy_invD[OF reachable_inv[OF assms]]
  show ?thesis using i(1) i(6) by (auto simp: accounted_def tunnels_ok_def)
qed

text \<open>C22. A stopped proxy stays empty: once \<^verbatim>\<open>Stop\<close> has run, no goroutine, request or
  reconciliation makes it own a port or a tunnel again. At all times it owns every port at most
  once, only valid ports, and none of them through a closed listener.\<close>

theorem stopped_proxy_stays_empty:
  assumes "reachable p"
  shows "(px_swept p \<longrightarrow> owned p = [] \<and> px_tunnels p = []) \<and> distinct (owned p) \<and>
    (\<forall>(port, l)\<in>set (px_listeners p). 1 \<le> port \<and> port \<le> 65535 \<and> l \<notin> set (px_closed p))"
  using proxy_invD(4)[OF reachable_inv[OF assms]] by (auto simp: ports_ok_def owned_def)

lemma length_filter_one: "length (filter P xs) = 1 \<Longrightarrow> \<exists>x\<in>set xs. P x"
  by (cases "filter P xs") (auto dest: filter_eq_ConsD)

text \<open>C17. No connection waits for a tunnel that nobody is starting. A goroutine that waits for
  \<^verbatim>\<open>tunnel.Ready\<close> finds it closed, or there is exactly one goroutine that will close it, and that one
  can take a step. \<^verbatim>\<open>Ready\<close> is never closed twice: the tunnel of a starting goroutine
  is not ready.\<close>

theorem waiting_is_served:
  assumes "reachable p" "Waiting port i ws a \<in> set (px_threads p)"
  shows "tn_Ready (px_heap p ! a) \<or>
    length (filter (launcher a) (px_threads p)) = 1 \<and>
    (\<exists>xs t ys ev. px_threads p = xs @ t # ys \<and> launcher a t \<and> advance ev t (p\<lparr>px_threads := xs @ ys\<rparr>) \<noteq> None)"
proof -
  note inv = proxy_invD[OF reachable_inv[OF assms(1)]]
  have "a < length (px_heap p)" using inv(2) assms(2) by (auto simp: list_all_iff)
  then have n: "length (filter (launcher a) (px_threads p)) = (if tn_Ready (px_heap p ! a) then 0 else 1)"
    using inv(3) by (simp add: starts_ok_def)
  have go: "\<exists>ev. advance ev t q \<noteq> None" if "launcher a t" for t q
    using that by (cases t) (auto simp: await_ready_def intro!: exI[of _ TimesOut])
  show ?thesis
  proof (cases "tn_Ready (px_heap p ! a)")
    case False
    then obtain t where t: "t \<in> set (px_threads p)" "launcher a t" using n length_filter_one[of "launcher a"] by force
    obtain xs ys where "px_threads p = xs @ t # ys" using split_list[OF t(1)] by blast
    then show ?thesis using go[OF t(2)] t(2) n False by (metis (no_types))
  qed simp
qed

section \<open>Ports\<close>

text \<open>An error list names a port.\<close>

definition reported :: "int \<Rightarrow> error list \<Rightarrow> bool" where
  "reported port errs \<longleftrightarrow> (\<exists>e. Wrap (preempt_text port) e \<in> set errs)"

lemma reported_simps [simp]:
  "reported port (xs @ ys) \<longleftrightarrow> reported port xs \<or> reported port ys"
  "reported port (Wrap (preempt_text q) e # xs) \<longleftrightarrow> port = q \<or> reported port xs" "\<not> reported port []"
  by (auto simp: reported_def preempt_text_def)

lemma ensure_loop_Ok:
  assumes "ensure_loop ports errs p w = (Ok (errs', p'), w')"
  shows "set (owned p) \<subseteq> set (owned p') \<and> set (owned p') \<subseteq> set (owned p) \<union> set ports \<and> px_tunnels p' = px_tunnels p \<and>
    px_heap p' = px_heap p \<and> (\<exists>more. errs' = errs @ more \<and>
      (\<forall>port\<in>set ports. port \<in> set (owned p') \<or> reported port more))"
  using assms
proof (induction ports arbitrary: errs p w)
  case (Cons port ports)
  from Cons(2)[simplified] show ?case
  proof (cases rule: tryM_cases)
    case (ok q w1)
    have "port \<in> set (owned q)" "set (owned p) \<subseteq> set (owned q)" "set (owned q) \<subseteq> insert port (set (owned p))"
      "px_tunnels q = px_tunnels p" "px_heap q = px_heap p"
      using ensurePort_Ok[OF ok(1)] by (auto simp: owned_def)
    then show ?thesis using Cons(1)[OF ok(2)] by auto
  next
    case (err e w1)
    obtain more where "errs' = (errs @ [Wrap (preempt_text port) e]) @ more"
      "\<forall>port\<in>set ports. port \<in> set (owned p') \<or> reported port more"
      using Cons(1)[OF err(2)] by blast
    then have "\<exists>more. errs' = errs @ more \<and> (\<forall>q\<in>set (port # ports). q \<in> set (owned p') \<or> reported q more)"
      by (intro exI[of _ "[Wrap (preempt_text port) e] @ more"]) auto
    then show ?thesis using Cons(1)[OF err(2)] by auto
  qed simp
qed simp

lemma EnsurePorts_Ok:
  assumes "EnsurePorts ports p w = (Ok (err, p'), w')"
  shows "set (owned p) \<subseteq> set (owned p') \<and> set (owned p') \<subseteq> set (owned p) \<union> set ports \<and> px_tunnels p' = px_tunnels p \<and>
    px_heap p' = px_heap p \<and>
    (case err of
       None \<Rightarrow> set ports \<subseteq> set (owned p')
     | Some e \<Rightarrow> \<exists>errs. e = Joined errs \<and>
         (\<forall>port\<in>set ports. port \<in> set (owned p') \<or> reported port errs))"
proof -
  obtain errs where "ensure_loop ports [] p w = (Ok (errs, p'), w')" "err = errors_Join errs"
    using assms unfolding EnsurePorts_def by (auto elim!: bindM_OkE)
  then show ?thesis using ensure_loop_Ok[of ports "[]" p w errs p' w'] by (auto simp: errors_Join_def)
qed

lemma release_Ok:
  assumes "release ports p w = (Ok p', w')"
  shows "owned p' = filter (\<lambda>q. q \<in> set ports) (owned p)"
    "px_tunnels p' = filter (\<lambda>(k, a). tn_Port (tun p a) \<in> set ports) (px_tunnels p)" "px_heap p' = px_heap p"
  using drop_tunnels_Ok[OF assms[unfolded release_def]]
  by (auto simp: close_listeners_def owned_def filter_map comp_def case_prod_unfold)

text \<open>C21. Ensuring and reconciling ports. \<^verbatim>\<open>EnsurePorts\<close> gives up no port; when it reports no error it
  owns every requested port, and a requested port that it does not own is named in the error.
  \<^verbatim>\<open>ReconcilePorts\<close> keeps the ports it already owned among the requested ones, owns nothing else,
  owns exactly the requested ports when it reports no error, and keeps precisely the
  tunnels of requested ports.\<close>

theorem ports_owned:
  assumes "EnsurePorts ports p w = (Ok (err, q), w1)" "ReconcilePorts ports p v = (Ok (err', q'), v1)"
  shows "set (owned p) \<subseteq> set (owned q) \<and> (err = None \<longrightarrow> set ports \<subseteq> set (owned q)) \<and>
    (\<forall>e. err = Some e \<longrightarrow> (\<exists>errs. e = Joined errs \<and> (\<forall>port\<in>set ports - set (owned q). reported port errs))) \<and>
    set (owned p) \<inter> set ports \<subseteq> set (owned q') \<and> set (owned q') \<subseteq> set ports \<and>
    (err' = None \<longrightarrow> set (owned q') = set ports) \<and>
    px_tunnels q' = filter (\<lambda>(k, a). tn_Port (px_heap p ! a) \<in> set ports) (px_tunnels p)"
proof -
  obtain r v2 where r: "release ports p v = (Ok r, v2)" "EnsurePorts ports r v2 = (Ok (err', q'), v1)"
    using assms(2) unfolding ReconcilePorts_def by (auto elim!: bindM_OkE)
  show ?thesis
    using EnsurePorts_Ok[OF assms(1)] EnsurePorts_Ok[OF r(2)] release_Ok[OF r(1)]
    by (auto split: option.splits)
qed

section \<open>Routing\<close>

text \<open>The workspaces a port could be routed to, and the one it is routed to.\<close>

definition declares :: "tables \<Rightarrow> int \<Rightarrow> Workspace \<Rightarrow> bool" where
  "declares t port ws \<longleftrightarrow> ws \<in> set (t_workspaces t) \<and> ws_State ws = running \<and> (ws_Name ws, port) \<in> set (t_reserved t)"

definition routes_to :: "tables \<Rightarrow> int \<Rightarrow> Workspace \<Rightarrow> bool" where
  "routes_to t port ws \<longleftrightarrow> declares t port ws \<and> (ws_IsActive ws \<or> (\<forall>v. declares t port v \<longrightarrow> v = ws))"

lemma pick_target_routes:
  assumes "schema_ok t" "routing_ok t"
  shows "pick_target (sql_running_for_port port t) = Inr ws \<longleftrightarrow> routes_to t port ws"
proof -
  let ?l = "sql_running_for_port port t"
  have s: "set ?l = {v. declares t port v}" by (auto simp: sql_running_for_port_set declares_def)
  have d: "distinct ?l" using sql_running_for_port_distinct[OF assms(1)] .
  have one: "v = u" if "declares t port u" "declares t port v" "ws_IsActive u" "ws_IsActive v" for u v
  proof -
    have "length (filter ws_IsActive (t_workspaces t)) \<le> 1" using assms(2) by (simp add: routing_ok_def)
    moreover have "u \<in> set (filter ws_IsActive (t_workspaces t))" "v \<in> set (filter ws_IsActive (t_workspaces t))"
      using that by (auto simp: declares_def)
    ultimately show ?thesis by (cases "filter ws_IsActive (t_workspaces t)") (auto simp del: set_filter)
  qed
  show ?thesis
  proof (cases "find ws_IsActive ?l")
    case (Some u)
    then have u: "declares t port u" "ws_IsActive u" using s by (auto simp: find_Some_iff)
    then have "routes_to t port ws \<longleftrightarrow> ws = u" using one unfolding routes_to_def by blast
    then show ?thesis using Some by (auto simp: pick_target_def)
  next
    case None
    then have "\<not> ws_IsActive v" if "declares t port v" for v using that s by (auto simp: find_None_iff)
    then have "routes_to t port ws \<longleftrightarrow> set ?l = {ws}" using s by (auto simp: routes_to_def)
    also have "\<dots> \<longleftrightarrow> ?l = [ws]"
    proof
      assume l: "set ?l = {ws}"
      then have "length ?l = 1" using distinct_card[OF d] by simp
      then obtain x where "?l = [x]" by (auto simp: length_Suc_conv)
      with l show "?l = [ws]" by simp
    qed simp
    also have "\<dots> \<longleftrightarrow> pick_target ?l = Inr ws" using None by (auto simp: pick_target_def split: list.splits)
    finally show ?thesis by blast
  qed
qed

lemma routes_to_unique:
  assumes "schema_ok t" "routing_ok t" "routes_to t port u" "routes_to t port v"
  shows "v = u"
  using assms(3,4) unfolding pick_target_routes[OF assms(1,2), symmetric] by simp

lemma targetForPort_run:
  assumes "tx w = None" "schema_ok (db w)" "routing_ok (db w)" "targetForPort port w = (r, w')"
  shows "(\<forall>ws. r = Ok ws \<longrightarrow> routes_to (db w) port ws) \<and>
    (calm w \<longrightarrow> (\<forall>ws. routes_to (db w) port ws \<longrightarrow> r = Ok ws) \<and> ((\<nexists>ws. routes_to (db w) port ws) \<longrightarrow> (\<exists>e. r = Err e)))"
proof -
  let ?l = "sql_running_for_port port (db w)"
  note pick = pick_target_routes[OF assms(2,3), of port]
  have run: "r = (case pick_target ?l of Inl e \<Rightarrow> Err e | Inr ws \<Rightarrow> Ok ws) \<or> (\<exists>e. r = Err e \<and> \<not> calm w) \<or> r = Crash \<and> \<not> calm w"
    using assms(1,4)
    by (auto simp: targetForPort_def GetRunningWorkspacesForPort_def sql_query_def syscall_def syscall_part_def Let_def cur_def
        bindM_def liftM_def returnM_def failM_def calm_def split: fault.splits sum.splits)
  show ?thesis using run pick by (cases "pick_target ?l") auto
qed

text \<open>C16. A connection to a port is routed to the running workspace that declares the port and is
  active, or else to the only running workspace that declares it; in a consistent database
  there is at most one such workspace. If there is none (nobody declares the port, or several do and none
  is active), \<^verbatim>\<open>targetForPort\<close> fails, and it fails otherwise only when the query fails.\<close>

theorem targetForPort_refines_routing:
  assumes "tx w = None" "schema_ok (db w)" "routing_ok (db w)" "targetForPort port w = (r, w')"
  shows "(\<forall>ws. r = Ok ws \<longrightarrow> routes_to (db w) port ws) \<and>
    (calm w \<longrightarrow> (\<forall>ws. routes_to (db w) port ws \<longrightarrow> r = Ok ws) \<and> ((\<nexists>ws. routes_to (db w) port ws) \<longrightarrow> (\<exists>e. r = Err e)))"
  using targetForPort_run[OF assms] .

text \<open>C19. Switching moves the traffic: after a successful \<^verbatim>\<open>SetActiveWorkspace\<close> every connection to a
  port that the named workspace declares is routed to it, whoever else declares the port.\<close>

theorem switch_moves_traffic:
  assumes "tx w = None" "schema_ok (db w)" "routing_ok (db w)" "SetActiveWorkspace name w = (Ok (), w1)"
    and "(name, port) \<in> set (t_reserved (db w))" "targetForPort port w1 = (Ok ws, w2)"
  shows "ws_Name ws = name \<and> ws_IsActive ws"
proof -
  have inv: "tx w1 = None \<and> db_inv (db w1)"
    using maintainsD[OF inv_SetActiveWorkspace assms(4)] assms(1-3) by (simp add: keeps_inv_def db_inv_def)
  obtain v where v: "v \<in> set (t_workspaces (db w))" "ws_Name v = name" "ws_State v = running"
    and new: "db w1 = (db w)\<lparr>t_workspaces := map (set_active name) (t_workspaces (db w))\<rparr>"
    using atomicD[OF SetActiveWorkspace_atomic assms(1,4)] by (auto elim!: activate_row_Inr)
  have "set_active name v \<in> set (t_workspaces (db w1))" using v(1) by (simp add: new)
  then have "declares (db w1) port (set_active name v)" "ws_IsActive (set_active name v)" "ws_Name (set_active name v) = name"
    using v assms(5) by (simp_all add: declares_def) (simp_all add: new set_active_def)
  then have "routes_to (db w1) port (set_active name v)" by (simp add: routes_to_def)
  moreover have "routes_to (db w1) port ws"
    using targetForPort_run[OF _ _ _ assms(6)] inv by (simp add: db_inv_def)
  ultimately have "ws = set_active name v"
    using routes_to_unique[of "db w1"] inv by (simp add: db_inv_def)
  then show ?thesis using v(2) by (simp add: set_active_def)
qed

section \<open>Tunnels\<close>

lemma no_colon_Itoa: "CHR '':'' \<notin> set (strconv_Itoa i)"
  using strconv_Itoa_chars[of "CHR '':''" i] by (auto simp: is_digit_def)

lemma first_field:
  assumes "c \<notin> set x" "c \<notin> set y" "x @ c # s = y @ c # t"
  shows "x = y \<and> s = t"
  using assms
proof (induction x arbitrary: y)
  case Nil
  then show ?case by (cases y) auto
next
  case (Cons a x)
  then show ?case by (cases y) auto
qed

lemma last_field:
  assumes "c \<notin> set x" "c \<notin> set y" "s @ c # x = t @ c # y"
  shows "s = t \<and> x = y"
proof -
  have "rev (s @ c # x) = rev (t @ c # y)" by (simp only: assms(3))
  then have "rev x @ c # rev s = rev y @ c # rev t" by (simp only: rev_append rev.simps append_assoc append.simps)
  from first_field[OF _ _ this] show ?thesis using assms(1,2) by simp
qed

text \<open>The key of a tunnel determines workspace, process and port.\<close>

lemma tunnel_key_inject:
  assumes "CHR '':'' \<notin> set name" "CHR '':'' \<notin> set name'"
  shows "tunnel_key name pid start port = tunnel_key name' pid' start' port' \<longleftrightarrow>
    name = name' \<and> pid = pid' \<and> start = start' \<and> port = port'"
proof
  assume eq: "tunnel_key name pid start port = tunnel_key name' pid' start' port'"
  then have 1: "name = name'" and
    2: "strconv_Itoa pid @ CHR '':'' # start @ CHR '':'' # strconv_Itoa port = strconv_Itoa pid' @ CHR '':'' # start' @ CHR '':'' # strconv_Itoa port'"
    using first_field[OF assms] by (auto simp: tunnel_key_def)
  then have 3: "pid = pid'" and 4: "start @ CHR '':'' # strconv_Itoa port = start' @ CHR '':'' # strconv_Itoa port'"
    using first_field[OF no_colon_Itoa no_colon_Itoa 2] by auto
  from 1 3 last_field[OF no_colon_Itoa no_colon_Itoa 4] show "name = name' \<and> pid = pid' \<and> start = start' \<and> port = port'" by simp
qed simp

text \<open>C20. A tunnel belongs to one incarnation of one workspace. \<^verbatim>\<open>ensureTunnel\<close> hands out a tunnel only when the
  receipt's process has the recorded number and was found running; the tunnel is the one
  mapped under the key made of the workspace's name, the process's number and birth identity
  and the port, and two such keys are equal only if all four are: a restarted VM, another
  workspace or another port never shares a tunnel. Nothing is handed out once the proxy is stopped.\<close>

theorem ensureTunnel_incarnation:
  assumes "ensureTunnel ws port p w = (Ok (a, q), w')" "CHR '':'' \<notin> set (ws_Name ws)"
  shows "\<not> px_stopCh p \<and>
    (\<exists>process w1 w2. ReadProcess (filepath_Join [ws_WorkspaceDir ws, ''process.json'']) w = (Ok (Some process), w1) \<and>
       pr_PID process = ws_PID ws \<and> Running process w1 = (Ok True, w2) \<and>
       mapped q (tunnel_key (ws_Name ws) (ws_PID ws) (pr_StartTime process) port) a \<and>
       (\<forall>name pid start port'. CHR '':'' \<notin> set name \<longrightarrow>
          mapped q (tunnel_key name pid start port') a \<longrightarrow> reachable p \<longrightarrow>
          name = ws_Name ws \<and> pid = ws_PID ws \<and> start = pr_StartTime process \<and> port' = port))"
  using assms(1)
proof (rule ensureTunnel_OkE)
  fix process w1 w2 key
  assume rd: "ReadProcess (filepath_Join [ws_WorkspaceDir ws, ''process.json'']) w = (Ok (Some process), w1)"
    "pr_PID process = ws_PID ws" "Running process w1 = (Ok True, w2)" "\<not> px_stopCh p"
    and key: "key = tunnel_key (ws_Name ws) (pr_PID process) (pr_StartTime process) port"
    and out: "map_of (px_tunnels p) key = Some a \<and> q = p \<or>
     map_of (px_tunnels p) key = None \<and> a = length (px_heap p) \<and>
       (\<exists>path. tunnelPath key w2 = (Ok path, w') \<and> q = spawn [Launching key a ws]
          (p\<lparr>px_heap := px_heap p @ [new_tunnel key (ws_Name ws) port path], px_tunnels := (key, a) # px_tunnels p\<rparr>))"
  have m: "mapped q key a" using out by (auto simp: mapped_def)
  have "k = key" if "mapped q k a" "reachable p" for k
  proof -
    have "proxy_inv (px_threads q) q" using ensureTunnel_inv[OF reachable_inv[OF that(2)] assms(1)] ..
    from proxy_invD(1)[OF this] have "tn_key (tun q a) = k" "tn_key (tun q a) = key"
      using that(1) m by (auto simp: tunnels_ok_def mapped_def dest!: map_of_SomeD)
    then show ?thesis by simp
  qed
  then show ?thesis using rd m tunnel_key_inject[OF _ assms(2)] unfolding key by (metis (no_types, lifting))
qed

section \<open>Examples\<close>

text \<open>The running workspace \<^verbatim>\<open>a\<close> with its receipt, and a host on which it runs.\<close>

definition ws7 :: Workspace where
  "ws7 = (row ''a'' 0 running True)\<lparr>ws_PID := 7\<rparr>"

definition host7 :: world where
  "host7 = blank\<lparr>db := \<lparr>t_workspaces = [ws7, row ''b'' 1 running False], t_reserved = [(''a'', 3000), (''b'', 3000), (''b'', 4000)]\<rparr>,
     procs := [(7, \<lparr>p_ident = ''42'', p_holds = []\<rparr>)],
     fs := (fs blank)(''/d/workspaces/a/process.json'' \<mapsto> Reg 5 384 (Process_text vm7))\<rparr>"

definition key7 :: string where
  "key7 = tunnel_key ''a'' 7 ''42'' 3000"

lemma hex_no_slash: "slash \<notin> set (hex_EncodeToString s)"
proof
  assume "slash \<in> set (hex_EncodeToString s)"
  then have "base_char slash" using hex_base_char[of s] by (auto simp: list_all_iff)
  then show False by (simp add: base_char_def)
qed
lemma dir7: "filepath_Join [''/tmp'', ''devd-501''] = ''/tmp/devd-501''" by code_simp
lemma itoa7: "strconv_Itoa 501 = ''501''" by code_simp
lemma anc7: "ancestors ''/tmp/devd-501'' = [''/tmp'', ''/tmp/devd-501'']" "ancestors ''/d'' = [''/d'']" by code_simp+
lemma path7: "filepath_Join [''/d/workspaces/a'', ''process.json''] = ''/d/workspaces/a/process.json''" by code_simp

lemma tunnelPath7: "\<exists>path w'. tunnelPath key (host7\<lparr>steps := n, clock := c\<rparr>) = (Ok path, w')"
  using hex_no_slash[of "take 8 (sha256_Sum256 (''/d'' @ [CHR 0x00] @ key))"]
  by (simp add: tunnelPath_def Let_def bindM_def thenM_def tryM_def wrapM_def DevdDir_def os_Getenv_def askM_def
     os_MkdirAll_def syscall_def syscall_part_def host7_def blank_def quiet_def tick_def returnM_def itoa7 dir7 anc7
     os_Chmod_def set_file_def os_CreateTemp_def is_dir_def sys_noop_def free_name.simps)

lemma receipt7:
  "ReadProcess (filepath_Join [ws_WorkspaceDir ws7, ''process.json'']) host7 = (Ok (Some vm7), host7\<lparr>steps := 1, clock := 1\<rparr>)"
  "Running vm7 (host7\<lparr>steps := 1, clock := 1\<rparr>) = (Ok True, host7\<lparr>steps := 2, clock := 2\<rparr>)"
proof -
  have dec: "json_Unmarshal Process_fields (Process_text vm7) zero_Process = Inr vm7"
    by (rule process_codec.dec_enc) (simp add: vm7_def Process_ok_def valid_ascii)
  have "os_ReadFile ''/d/workspaces/a/process.json'' host7 = (Ok (Process_text vm7), host7\<lparr>steps := 1, clock := 1\<rparr>)"
    by (simp add: os_ReadFile_def syscall_def syscall_part_def host7_def blank_def quiet_def tick_def)
  then show "ReadProcess (filepath_Join [ws_WorkspaceDir ws7, ''process.json'']) host7 = (Ok (Some vm7), host7\<lparr>steps := 1, clock := 1\<rparr>)"
    using dec by (simp add: ReadProcess_def ws7_def row_def path7 tryM_def bindM_def wrapM_def liftM_def returnM_def vm7_def)
  show "Running vm7 (host7\<lparr>steps := 1, clock := 1\<rparr>) = (Ok True, host7\<lparr>steps := 2, clock := 2\<rparr>)"
    by (simp add: Running_def processIdentity_def wrapM_def tryM_def bindM_def returnM_def sys_identity_def syscall_def syscall_part_def
       vm7_def host7_def blank_def quiet_def tick_def)
qed

lemma ensureTunnel7:
  assumes "\<not> px_stopCh p" "px_tunnels p = []" "px_heap p = []"
  shows "\<exists>path w'. ensureTunnel ws7 3000 p host7 = (Ok (0, spawn [Launching key7 0 ws7]
      (p\<lparr>px_heap := [new_tunnel key7 ''a'' 3000 path], px_tunnels := [(key7, 0)]\<rparr>)), w')"
proof -
  obtain path w' where t: "tunnelPath key7 (host7\<lparr>steps := 2, clock := 2\<rparr>) = (Ok path, w')"
    using tunnelPath7 by metis
  have v: "pr_PID vm7 = 7" "pr_StartTime vm7 = ''42''" "ws_PID ws7 = 7" "ws_Name ws7 = ''a''" by (simp_all add: vm7_def ws7_def row_def)
  show ?thesis
    unfolding ensureTunnel_def bindM_def receipt7(1)
    using receipt7(2) t assms
    by (intro exI[of _ path] exI[of _ w']) (simp add: v key7_def new_tunnel_def wrapM_def tryM_def bindM_def returnM_def Let_def)
qed

lemma reachable_go:
  assumes "reachable p" "px_threads p = xs @ t # ys"
    "case advance ev t (p\<lparr>px_threads := xs @ ys\<rparr>) of None \<Rightarrow> False | Some m \<Rightarrow> fst (m w) = Ok p'"
  shows "reachable p'"
proof -
  obtain m where m: "advance ev t (p\<lparr>px_threads := xs @ ys\<rparr>) = Some m" "fst (m w) = Ok p'"
    using assms(3) by (auto split: option.splits)
  obtain v v' where "daemon_step\<^sup>*\<^sup>* (New, v) (p, v')" using assms(1) by (auto simp: reachable_def)
  also have "daemon_step (p, v') (p, w)" by (rule daemon_step.elsewhere)
  also have "daemon_step (p, w) (p', snd (m w))"
    using assms(2) m by (intro daemon_step.goroutine[of p xs t ys ev m]) (auto intro: run_pair)
  finally show ?thesis by (auto simp: reachable_def)
qed

definition px1 :: Proxy where
  "px1 = New\<lparr>px_listeners := [(3000, 0)], px_next := 1, px_threads := [Accepting 0 3000]\<rparr>"

definition px2 :: "string \<Rightarrow> Proxy" where
  "px2 path = px1\<lparr>px_heap := [new_tunnel key7 ''a'' 3000 path], px_tunnels := [(key7, 0)],
     px_threads := [Accepting 0 3000, Launching key7 0 ws7, Waiting 3000 0 ws7 0]\<rparr>"

definition px3 :: "string \<Rightarrow> Proxy" where
  "px3 path = (px2 path)\<lparr>px_threads := [Accepting 0 3000, Waiting 3000 0 ws7 0, Launched key7 0 7, Reaping 0 7], px_started := [0]\<rparr>"

lemma reachable1: "reachable px1"
proof -
  have "ensurePort 3000 New blank = (Ok px1, snd (ensurePort 3000 New blank))"
    by (simp add: ensurePort_def New_def owned_def thenM_def bindM_def wrapM_def tryM_def sys_listen_def syscall_def
        syscall_part_def blank_def quiet_def returnM_def px1_def spawn_def)
  then have "daemon_step (New, blank) (px1, snd (ensurePort 3000 New blank))" by (rule daemon_step.ensures)
  then show ?thesis unfolding reachable_def by blast
qed

lemma reachable2: "\<exists>path. reachable (px2 path)"
proof -
  have a: "reachable (px1\<lparr>px_threads := [Routing 3000, Accepting 0 3000]\<rparr>)"
    by (rule reachable_go[OF reachable1, where t = "Accepting 0 3000" and xs = "[]" and ys = "[]" and ev = Incoming and w = blank])
      (simp_all add: acceptLoop_def px1_def New_def spawn_def returnM_def)
  have "fst (targetForPort 3000 host7) = Ok ws7" by code_simp
  then have r: "fst (tryM (targetForPort 3000) (\<lambda>t. returnM (f t)) h host7) = Ok (f ws7)" for f :: "Workspace \<Rightarrow> Proxy" and h
    by (cases "targetForPort 3000 host7") (auto simp: tryM_def returnM_def)
  have b: "reachable (px1\<lparr>px_threads := [Accepting 0 3000, Ensuring 3000 0 ws7]\<rparr>)"
    by (rule reachable_go[OF a, where t = "Routing 3000" and xs = "[]" and ys = "[Accepting 0 3000]" and ev = Incoming and w = host7])
      (simp_all add: r px1_def New_def spawn_def)
  let ?p = "px1\<lparr>px_threads := [Accepting 0 3000]\<rparr>"
  obtain path w' where e: "ensureTunnel ws7 3000 ?p host7 = (Ok (0, spawn [Launching key7 0 ws7]
      (?p\<lparr>px_heap := [new_tunnel key7 ''a'' 3000 path], px_tunnels := [(key7, 0)]\<rparr>)), w')"
    using ensureTunnel7[of ?p] by (auto simp: px1_def New_def)
  have "reachable (px2 path)"
    by (rule reachable_go[OF b, where t = "Ensuring 3000 0 ws7" and xs = "[Accepting 0 3000]" and ys = "[]" and ev = Incoming and w = host7])
      (use e in \<open>simp_all add: tryM_def returnM_def spawn_def px2_def px1_def\<close>)
  then show ?thesis ..
qed

lemma launch7: "fst (launch_ssh k a ws p blank) = Ok (spawn [Launched k a 7, Reaping a 7] (p\<lparr>px_started := a # px_started p\<rparr>))"
proof -
  have rm: "ignoreM (os_Remove q) blank = (Ok (), tick blank)" for q
    by (simp add: ignoreM_def tryM_def os_Remove_def syscall_def syscall_part_def blank_def quiet_def tick_def returnM_def)
  have "fst (PrivateKeyPath (tick blank)) = Ok ''/d/ssh/devd_ed25519''" by code_simp
  then obtain w2 where k: "PrivateKeyPath (tick blank) = (Ok ''/d/ssh/devd_ed25519'', w2)" by (metis prod.collapse)
  have "orc w2 = quiet"
    using maintainsD[OF env.m_key_paths(1) k] by (simp add: same_env_def blank_def)
  then have "fst (sys_spawn args w2) = Ok 7" for args
    by (simp add: sys_spawn_def syscall_def syscall_part_def quiet_def Let_def)
  then obtain w3 where "sys_spawn (tunnel_args ''/d/ssh/devd_ed25519'' ws (tun p a)) w2 = (Ok 7, w3)" by (metis prod.collapse)
  then show ?thesis
    unfolding launch_ssh_def Let_def thenM_def bindM_def rm outcome.case prod.case tryM_def k by (simp add: returnM_def)
qed

lemma reachable3: "\<exists>path. reachable (px3 path)"
proof -
  obtain path where p: "reachable (px2 path)" using reachable2 ..
  have "reachable (px3 path)"
    by (rule reachable_go[OF p, where t = "Launching key7 0 ws7" and xs = "[Accepting 0 3000]" and ys = "[Waiting 3000 0 ws7 0]"
          and ev = Incoming and w = blank])
      (simp_all add: launch7 px3_def px2_def px1_def New_def spawn_def)
  then show ?thesis ..
qed

text \<open>A connection to port 3000 of workspace \<^verbatim>\<open>a\<close> waits while its ssh process, number 7, is being started.\<close>

theorem proxy_loses_no_process_witness:
  "\<exists>path. reachable (px3 path) \<and> px_started (px3 path) = [0] \<and> Launched key7 0 7 \<in> set (px_threads (px3 path)) \<and>
     mapped (px3 path) key7 0 \<and> tn_key (px_heap (px3 path) ! 0) = key7"
proof -
  obtain path where r: "reachable (px3 path)" using reachable3 ..
  have m: "px_started (px3 path) = [0]" "Launched key7 0 7 \<in> set (px_threads (px3 path))" "px_tunnels (px3 path) = [(key7, 0)]"
    by (simp_all add: px3_def px2_def)
  then show ?thesis using proxy_loses_no_process[OF r] r by (auto simp: mapped_def)
qed

theorem waiting_is_served_witness:
  "\<exists>path. reachable (px2 path) \<and> Waiting 3000 0 ws7 0 \<in> set (px_threads (px2 path)) \<and>
     length (filter (launcher 0) (px_threads (px2 path))) = 1"
proof -
  obtain path where r: "reachable (px2 path)" using reachable2 ..
  have m: "Waiting 3000 0 ws7 0 \<in> set (px_threads (px2 path))" "\<not> tn_Ready (px_heap (px2 path) ! 0)"
    by (simp_all add: px2_def new_tunnel_def)
  then show ?thesis using waiting_is_served[OF r m(1)] r by blast
qed

theorem stopped_proxy_stays_empty_witness:
  "reachable px1 \<and> owned px1 = [3000] \<and> distinct (owned px1) \<and> (\<exists>p. reachable p \<and> px_swept p \<and> owned p = [] \<and> px_tunnels p = [])"
proof -
  have "fst (sweep (close_stopCh px1) blank) = Ok (px1\<lparr>px_stopCh := True, px_listeners := [], px_closed := [0], px_swept := True\<rparr>)"
    by (simp add: sweep_def drop_tunnels_def close_listeners_def close_stopCh_def bindM_def px1_def New_def returnM_def)
  from run_pair[OF this] obtain q w where q: "sweep (close_stopCh px1) blank = (Ok q, w)" "px_swept q" by fastforce
  obtain v v' where "daemon_step\<^sup>*\<^sup>* (New, v) (px1, v')" using reachable1 by (auto simp: reachable_def)
  also have "daemon_step (px1, v') (close_stopCh px1, v')" by (rule daemon_step.closes)
  also have "daemon_step (close_stopCh px1, v') (close_stopCh px1, blank)" by (rule daemon_step.elsewhere)
  also have "daemon_step (close_stopCh px1, blank) (q, w)" by (rule daemon_step.sweeps[OF _ q(1)]) (simp add: close_stopCh_def)
  finally have r: "reachable q" by (auto simp: reachable_def)
  have "owned px1 = [3000]" by (simp add: px1_def owned_def)
  then show ?thesis
    using stopped_proxy_stays_empty[OF reachable1] stopped_proxy_stays_empty[OF r] r q(2) reachable1 by blast
qed

theorem ports_owned_witness:
  "\<exists>q q'. fst (EnsurePorts [3000, 4000] px1 blank) = Ok (None, q) \<and> fst (ReconcilePorts [4000] px1 blank) = Ok (None, q') \<and>
     owned px1 = [3000] \<and> {3000, 4000} \<subseteq> set (owned q) \<and>
     (\<exists>r v. fst (ReconcilePorts [3000, 4000] px1 blank) = Ok (None, r) \<and> set (owned r) = {3000, 4000})"
proof -
  note run = EnsurePorts_def ReconcilePorts_def release_def drop_tunnels_def close_listeners_def ensurePort_def errors_Join_def
    thenM_def bindM_def wrapM_def tryM_def sys_listen_def syscall_def syscall_part_def tick_def returnM_def owned_def spawn_def Let_def
    px1_def New_def blank_def quiet_def
  have e: "\<exists>q. fst (EnsurePorts [3000, 4000] px1 blank) = Ok (None, q)" by (simp add: run)
  have r: "\<exists>q. fst (ReconcilePorts [3000, 4000] px1 blank) = Ok (None, q)" by (simp add: run)
  have r': "\<exists>q. fst (ReconcilePorts [4000] px1 blank) = Ok (None, q)" by (simp add: run)
  obtain q q' q'' where q: "fst (EnsurePorts [3000, 4000] px1 blank) = Ok (None, q)"
    "fst (ReconcilePorts [3000, 4000] px1 blank) = Ok (None, q')" "fst (ReconcilePorts [4000] px1 blank) = Ok (None, q'')"
    using e r r' by blast
  have "owned px1 = [3000]" by (simp add: px1_def owned_def)
  then show ?thesis using ports_owned[OF run_pair[OF q(1)] run_pair[OF q(2)]] q by auto
qed

theorem targetForPort_refines_routing_witness:
  "fst (targetForPort 3000 host7) = Ok ws7 \<and> routes_to (db host7) 3000 ws7 \<and>
   (\<exists>e. fst (targetForPort 5000 host7) = Err e)"
proof -
  have ok: "fst (targetForPort 3000 host7) = Ok ws7" by code_simp
  have no: "fst (targetForPort 5000 host7) = Err (Msg ''no running workspace declares this port'')" by code_simp
  have "tx host7 = None" "schema_ok (db host7)" "routing_ok (db host7)"
    by (simp_all add: host7_def blank_def schema_ok_def routing_ok_def names_of_def ws7_def row_def row_ok_def)
  from targetForPort_refines_routing[OF this run_pair[OF ok]] show ?thesis using ok no by simp
qed

theorem switch_moves_traffic_witness:
  "fst (SetActiveWorkspace ''b'' host7) = Ok () \<and>
   fst (targetForPort 3000 (snd (SetActiveWorkspace ''b'' host7))) = Ok (row ''b'' 1 running True) \<and>
   ws_Name (row ''b'' 1 running True) = ''b'' \<and> ws_IsActive (row ''b'' 1 running True)"
proof -
  have s: "fst (SetActiveWorkspace ''b'' host7) = Ok ()" by code_simp
  have t: "fst (targetForPort 3000 (snd (SetActiveWorkspace ''b'' host7))) = Ok (row ''b'' 1 running True)" by code_simp
  have h: "tx host7 = None" "schema_ok (db host7)" "routing_ok (db host7)" "(''b'', 3000) \<in> set (t_reserved (db host7))"
    by (simp_all add: host7_def blank_def schema_ok_def routing_ok_def names_of_def ws7_def row_def row_ok_def)
  show ?thesis using switch_moves_traffic[OF h(1-3) run_pair[OF s] h(4) run_pair[OF t]] s t by blast
qed

theorem ensureTunnel_incarnation_witness:
  "\<exists>path w'. ensureTunnel ws7 3000 (px1\<lparr>px_threads := [Accepting 0 3000]\<rparr>) host7 = (Ok (0, (px2 path)\<lparr>px_threads :=
       [Accepting 0 3000, Launching key7 0 ws7]\<rparr>), w') \<and> mapped (px2 path) key7 0 \<and> \<not> px_stopCh px1"
proof -
  let ?p = "px1\<lparr>px_threads := [Accepting 0 3000]\<rparr>"
  obtain path w' where e: "ensureTunnel ws7 3000 ?p host7 = (Ok (0, spawn [Launching key7 0 ws7]
      (?p\<lparr>px_heap := [new_tunnel key7 ''a'' 3000 path], px_tunnels := [(key7, 0)]\<rparr>)), w')"
    using ensureTunnel7[of ?p] by (auto simp: px1_def New_def)
  moreover have "spawn [Launching key7 0 ws7] (?p\<lparr>px_heap := [new_tunnel key7 ''a'' 3000 path], px_tunnels := [(key7, 0)]\<rparr>) =
      (px2 path)\<lparr>px_threads := [Accepting 0 3000, Launching key7 0 ws7]\<rparr>"
    by (simp add: px2_def px1_def spawn_def)
  ultimately have e': "ensureTunnel ws7 3000 ?p host7 = (Ok (0, (px2 path)\<lparr>px_threads := [Accepting 0 3000, Launching key7 0 ws7]\<rparr>), w')"
    by simp
  have c: "CHR '':'' \<notin> set (ws_Name ws7)" by (simp add: ws7_def row_def)
  have "mapped (px2 path) key7 0" by (simp add: mapped_def px2_def)
  then show ?thesis using ensureTunnel_incarnation[OF e' c] e' by auto
qed

section \<open>A port nobody accepts on\<close>

text \<open>One failed accept, for example because the process has too many open files, ends the loop of a listener for good: the proxy then
  owns a port, its listener is open, no goroutine accepts on it, and \<^verbatim>\<open>ensurePort\<close> reports success without starting one.\<close>

lemma accept_error_leaves_port_deaf:
  "\<exists>p. reachable p \<and> 3000 \<in> set (owned p) \<and> \<not> px_stopCh p \<and> px_closed p = [] \<and>
     (\<forall>l port. Accepting l port \<notin> set (px_threads p)) \<and> (\<forall>w. ensurePort 3000 p w = (Ok p, w))"
proof -
  let ?p = "px1\<lparr>px_threads := []\<rparr>"
  have "reachable ?p"
    by (rule reachable_go[OF reachable1, where t = "Accepting 0 3000" and xs = "[]" and ys = "[]" and ev = AcceptFails and w = blank])
      (simp_all add: px1_def acceptLoop_def returnM_def New_def)
  then show ?thesis
    by (intro exI[of _ ?p]) (simp add: px1_def New_def owned_def ensurePort_def returnM_def)
qed

end
