(* ===== verification/Relay.thy ===== *)
theory Relay
  imports Prelude
begin

text \<open>
  The last part of \<^verbatim>\<open>handleConnection\<close> in \<^verbatim>\<open>internal/proxy/proxy.go\<close> and \<^verbatim>\<open>copyConnection\<close>: two goroutines copy bytes between
  the client and the workspace, one in each direction, and the connections are closed when both have reported.
  (In theory \<open>Proxy\<close> this part of a connection is the single step of \<open>Copying\<close>.)
\<close>

section \<open>State\<close>

text \<open>Where \<^verbatim>\<open>copyConnection\<close> is: in \<^verbatim>\<open>io.Copy\<close> before a read or a write, before \<^verbatim>\<open>CloseWrite\<close>, before the send to
  \<^verbatim>\<open>done\<close>, at its end.\<close>

datatype copy_pc = Reading | Writing | Shutting | Reporting | Finished

text \<open>One direction. \<open>fl_sent\<close>: the bytes the sender has put into the source connection, \<open>fl_ended\<close>: it has closed its side;
  \<open>fl_read\<close>: how many were read; \<open>fl_buf\<close>: read and not yet written; \<open>fl_delivered\<close>: written to the
  destination; \<open>fl_failed\<close>: a read or write failed; \<open>fl_shut\<close>: the destination was told that no more will come.\<close>

record flow =
  fl_sent :: string
  fl_ended :: bool
  fl_read :: nat
  fl_buf :: string
  fl_delivered :: string
  fl_failed :: bool
  fl_shut :: bool
  fl_pc :: copy_pc

definition new_flow :: flow where
  "new_flow = \<lparr>fl_sent = [], fl_ended = False, fl_read = 0, fl_buf = [], fl_delivered = [], fl_failed = False,
     fl_shut = False, fl_pc = Reading\<rparr>"

text \<open>What the network answers: how many bytes a read gives, or that it fails; whether a write succeeds, or how many bytes it
  wrote before it failed.\<close>

datatype answer = Gives nat | ReadFails | Accepts | WriteFails nat

section \<open>The program\<close>

text \<open>A step of \<^verbatim>\<open>copyConnection\<close>; \<open>None\<close>: it is blocked, or the answer does not fit. \<^verbatim>\<open>io.Copy\<close> ends without an
  error when the sender has closed its side and everything was read. Both kinds of connection have \<^verbatim>\<open>CloseWrite\<close>.\<close>

fun copyConnection :: "answer \<Rightarrow> flow \<Rightarrow> flow option" where
  "copyConnection ans f =
     (case fl_pc f of
        Reading \<Rightarrow>
          (let rest = drop (fl_read f) (fl_sent f) in
           case ans of
             Gives n \<Rightarrow>
               if 0 < n \<and> n \<le> length rest \<and> n \<le> 32768
               then Some (f\<lparr>fl_read := fl_read f + n, fl_buf := take n rest, fl_pc := Writing\<rparr>)
               else if n = 0 \<and> rest = [] \<and> fl_ended f then Some (f\<lparr>fl_pc := Shutting\<rparr>)
               else None
           | ReadFails \<Rightarrow> Some (f\<lparr>fl_failed := True, fl_pc := Shutting\<rparr>)
           | _ \<Rightarrow> None)
      | Writing \<Rightarrow>
          (case ans of
             Accepts \<Rightarrow> Some (f\<lparr>fl_delivered := fl_delivered f @ fl_buf f, fl_buf := [], fl_pc := Reading\<rparr>)
           | WriteFails n \<Rightarrow>
               if n < length (fl_buf f)
               then Some (f\<lparr>fl_delivered := fl_delivered f @ take n (fl_buf f), fl_buf := [], fl_failed := True, fl_pc := Shutting\<rparr>)
               else None
           | _ \<Rightarrow> None)
      | Shutting \<Rightarrow> Some (f\<lparr>fl_shut := True, fl_pc := Reporting\<rparr>)
      | Reporting \<Rightarrow> Some (f\<lparr>fl_pc := Finished\<rparr>)
      | Finished \<Rightarrow> None)"

text \<open>The connection: both directions, the messages in \<^verbatim>\<open>done\<close>, how many \<^verbatim>\<open>handleConnection\<close> has received, and which of
  the two sockets are open.\<close>

record relay =
  rl_up :: flow
  rl_down :: flow
  rl_done :: nat
  rl_received :: nat
  rl_upstream_open :: bool
  rl_client_open :: bool

definition new_relay :: relay where
  "new_relay = \<lparr>rl_up = new_flow, rl_down = new_flow, rl_done = 0, rl_received = 0, rl_upstream_open = True, rl_client_open = True\<rparr>"

text \<open>A goroutine that reports puts a message into the buffered channel.\<close>

definition reports :: "flow \<Rightarrow> flow \<Rightarrow> nat" where
  "reports f f' = (if fl_pc f = Reporting \<and> fl_pc f' = Finished then 1 else 0)"

definition step_up :: "answer \<Rightarrow> relay \<Rightarrow> relay option" where
  "step_up ans r = map_option (\<lambda>f. r\<lparr>rl_up := f, rl_done := rl_done r + reports (rl_up r) f\<rparr>) (copyConnection ans (rl_up r))"

definition step_down :: "answer \<Rightarrow> relay \<Rightarrow> relay option" where
  "step_down ans r = map_option (\<lambda>f. r\<lparr>rl_down := f, rl_done := rl_done r + reports (rl_down r) f\<rparr>) (copyConnection ans (rl_down r))"

text \<open>The main goroutine of the connection: two receives, then the deferred \<^verbatim>\<open>upstream.Close()\<close> and \<^verbatim>\<open>client.Close()\<close>.\<close>

definition step_main :: "relay \<Rightarrow> relay option" where
  "step_main r =
     (if rl_received r < 2
      then if 0 < rl_done r then Some (r\<lparr>rl_done := rl_done r - 1, rl_received := Suc (rl_received r)\<rparr>) else None
      else if rl_upstream_open r then Some (r\<lparr>rl_upstream_open := False\<rparr>)
      else if rl_client_open r then Some (r\<lparr>rl_client_open := False\<rparr>)
      else None)"

text \<open>The steps of the program, and what the two ends do.\<close>

inductive program_step :: "relay \<Rightarrow> relay \<Rightarrow> bool" where
  up: "step_up ans r = Some r' \<Longrightarrow> program_step r r'"
| down: "step_down ans r = Some r' \<Longrightarrow> program_step r r'"
| main: "step_main r = Some r' \<Longrightarrow> program_step r r'"

inductive end_step :: "relay \<Rightarrow> relay \<Rightarrow> bool" where
  client_sends: "\<not> fl_ended (rl_up r) \<Longrightarrow> end_step r (r\<lparr>rl_up := (rl_up r)\<lparr>fl_sent := fl_sent (rl_up r) @ bs\<rparr>\<rparr>)"
| client_ends: "end_step r (r\<lparr>rl_up := (rl_up r)\<lparr>fl_ended := True\<rparr>\<rparr>)"
| workspace_sends: "\<not> fl_ended (rl_down r) \<Longrightarrow> end_step r (r\<lparr>rl_down := (rl_down r)\<lparr>fl_sent := fl_sent (rl_down r) @ bs\<rparr>\<rparr>)"
| workspace_ends: "end_step r (r\<lparr>rl_down := (rl_down r)\<lparr>fl_ended := True\<rparr>\<rparr>)"

definition relay_step :: "relay \<Rightarrow> relay \<Rightarrow> bool" where
  "relay_step r r' \<longleftrightarrow> program_step r r' \<or> end_step r r'"

section \<open>Invariants\<close>

definition flow_ok :: "flow \<Rightarrow> bool" where
  "flow_ok f \<longleftrightarrow>
     fl_read f \<le> length (fl_sent f) \<and>
     prefix (fl_delivered f @ fl_buf f) (take (fl_read f) (fl_sent f)) \<and>
     (\<not> fl_failed f \<longrightarrow> fl_delivered f @ fl_buf f = take (fl_read f) (fl_sent f)) \<and>
     (fl_pc f \<noteq> Writing \<longrightarrow> fl_buf f = []) \<and>
     (fl_pc f \<in> {Shutting, Reporting, Finished} \<and> \<not> fl_failed f \<longrightarrow> fl_ended f \<and> fl_delivered f = fl_sent f) \<and>
     (fl_failed f \<longrightarrow> fl_pc f \<in> {Shutting, Reporting, Finished}) \<and>
     (fl_shut f \<longleftrightarrow> fl_pc f \<in> {Reporting, Finished})"

lemma new_flow_ok: "flow_ok new_flow"
  by (simp add: flow_ok_def new_flow_def)

lemma flow_ok_copy:
  assumes "flow_ok f" "copyConnection ans f = Some f'"
  shows "flow_ok f'"
proof (cases "fl_pc f")
  case Reading
  have "take (fl_read f + n) (fl_sent f) = take (fl_read f) (fl_sent f) @ take n (drop (fl_read f) (fl_sent f))" for n
    by (simp add: take_add)
  then show ?thesis using assms Reading
    by (auto simp: flow_ok_def Let_def split: answer.splits if_splits)
next
  case Writing
  then show ?thesis using assms
    by (auto simp: flow_ok_def split: answer.splits if_splits)
      (metis append.assoc append_take_drop_id prefixI)
qed (use assms in \<open>auto simp: flow_ok_def\<close>)

lemma flow_ok_sends: "flow_ok f \<Longrightarrow> \<not> fl_ended f \<Longrightarrow> flow_ok (f\<lparr>fl_sent := fl_sent f @ bs\<rparr>)"
  by (auto simp: flow_ok_def)

lemma flow_ok_ends: "flow_ok f \<Longrightarrow> flow_ok (f\<lparr>fl_ended := True\<rparr>)"
  by (auto simp: flow_ok_def)

definition finished :: "flow \<Rightarrow> nat" where
  "finished f = (if fl_pc f = Finished then 1 else 0)"

definition relay_inv :: "relay \<Rightarrow> bool" where
  "relay_inv r \<longleftrightarrow> flow_ok (rl_up r) \<and> flow_ok (rl_down r) \<and>
     rl_done r + rl_received r = finished (rl_up r) + finished (rl_down r) \<and> rl_received r \<le> 2 \<and>
     (rl_received r < 2 \<longrightarrow> rl_upstream_open r \<and> rl_client_open r) \<and> (rl_upstream_open r \<longrightarrow> rl_client_open r)"

lemma reports_finished: "copyConnection ans f = Some f' \<Longrightarrow> finished f' = finished f + reports f f'"
  by (auto simp: finished_def reports_def Let_def split: copy_pc.splits answer.splits if_splits)

lemma new_relay_inv: "relay_inv new_relay"
  by (simp add: relay_inv_def new_relay_def new_flow_ok finished_def) (simp add: new_flow_def)

lemma relay_inv_program: "program_step r r' \<Longrightarrow> relay_inv r \<Longrightarrow> relay_inv r'"
proof (induction rule: program_step.induct)
  case (up ans r r')
  then obtain f where f: "copyConnection ans (rl_up r) = Some f" "r' = r\<lparr>rl_up := f, rl_done := rl_done r + reports (rl_up r) f\<rparr>"
    by (auto simp: step_up_def simp del: copyConnection.simps)
  then show ?case using up(2) flow_ok_copy[OF _ f(1)] reports_finished[OF f(1)] by (simp add: relay_inv_def)
next
  case (down ans r r')
  then obtain f where f: "copyConnection ans (rl_down r) = Some f" "r' = r\<lparr>rl_down := f, rl_done := rl_done r + reports (rl_down r) f\<rparr>"
    by (auto simp: step_down_def simp del: copyConnection.simps)
  then show ?case using down(2) flow_ok_copy[OF _ f(1)] reports_finished[OF f(1)] by (simp add: relay_inv_def)
next
  case (main r r')
  then show ?case by (auto simp: step_main_def relay_inv_def split: if_splits)
qed

lemma relay_inv_end: "end_step r r' \<Longrightarrow> relay_inv r \<Longrightarrow> relay_inv r'"
  by (induction rule: end_step.induct) (auto simp: relay_inv_def finished_def flow_ok_sends flow_ok_ends)

lemma relay_inv_reachable: "relay_step\<^sup>*\<^sup>* new_relay r \<Longrightarrow> relay_inv r"
  by (induction rule: rtranclp_induct) (auto simp: new_relay_inv relay_step_def relay_inv_program relay_inv_end)

section \<open>An example\<close>

text \<open>A client that sends two bytes and ends; the workspace ends without an answer.\<close>

definition demo_ended :: relay where
  "demo_ended = new_relay\<lparr>rl_up := new_flow\<lparr>fl_sent := ''hi'', fl_ended := True\<rparr>, rl_down := new_flow\<lparr>fl_ended := True\<rparr>\<rparr>"

definition demo_read :: relay where
  "demo_read = demo_ended\<lparr>rl_up := (rl_up demo_ended)\<lparr>fl_read := 2, fl_buf := ''hi'', fl_pc := Writing\<rparr>\<rparr>"

definition demo_shut :: relay where
  "demo_shut = demo_ended\<lparr>rl_up := (rl_up demo_ended)\<lparr>fl_read := 2, fl_delivered := ''hi'', fl_shut := True, fl_pc := Reporting\<rparr>\<rparr>"

lemma demo_ended_reached: "relay_step\<^sup>*\<^sup>* new_relay demo_ended"
proof -
  define a where "a = new_relay\<lparr>rl_up := (rl_up new_relay)\<lparr>fl_sent := fl_sent (rl_up new_relay) @ ''hi''\<rparr>\<rparr>"
  define b where "b = a\<lparr>rl_up := (rl_up a)\<lparr>fl_ended := True\<rparr>\<rparr>"
  have "end_step new_relay a" unfolding a_def by (rule client_sends) (simp add: new_relay_def new_flow_def)
  moreover have "end_step a b" unfolding b_def by (rule client_ends)
  moreover have "end_step b (b\<lparr>rl_down := (rl_down b)\<lparr>fl_ended := True\<rparr>\<rparr>)" by (rule workspace_ends)
  moreover have "b\<lparr>rl_down := (rl_down b)\<lparr>fl_ended := True\<rparr>\<rparr> = demo_ended"
    by (simp add: b_def a_def demo_ended_def new_relay_def new_flow_def)
  ultimately show ?thesis unfolding relay_step_def by (metis (no_types, lifting) r_into_rtranclp rtranclp_trans)
qed

lemma demo_first_step: "program_step demo_ended demo_read"
  by (rule up[of "Gives 2"]) (simp add: step_up_def reports_def demo_read_def demo_ended_def new_relay_def new_flow_def Let_def numeral_2_eq_2)

lemma demo_shut_reached: "relay_step\<^sup>*\<^sup>* new_relay demo_shut"
proof -
  define c where "c = demo_read\<lparr>rl_up := (rl_up demo_read)\<lparr>fl_delivered := ''hi'', fl_buf := [], fl_pc := Reading\<rparr>\<rparr>"
  define d where "d = c\<lparr>rl_up := (rl_up c)\<lparr>fl_pc := Shutting\<rparr>\<rparr>"
  note defs = d_def c_def demo_shut_def demo_read_def demo_ended_def new_relay_def new_flow_def step_up_def reports_def
  have "program_step demo_read c" by (rule up[of Accepts]) (simp add: defs)
  moreover have "program_step c d" by (rule up[of "Gives 0"]) (simp add: defs)
  moreover have "program_step d demo_shut" by (rule up[of Accepts]) (simp add: defs)
  ultimately have "relay_step demo_ended demo_read \<and> relay_step demo_read c \<and> relay_step c d \<and> relay_step d demo_shut"
    using demo_first_step by (simp add: relay_step_def)
  then show ?thesis using demo_ended_reached by (meson rtranclp.rtrancl_into_rtrancl)
qed

text \<open>C15. In every interleaving of the two copying goroutines, the main goroutine of the connection and its two ends: what
  has been delivered in a direction is a prefix of what was sent, in order. A side is told that no more bytes will come only after the
  other side has ended and, unless a read or a write failed, received everything. The end of one direction does not cut off the other: as long as
  one of them is still copying, both sockets stay open.\<close>

theorem relay_delivers:
  assumes "relay_step\<^sup>*\<^sup>* new_relay r"
  shows "(\<forall>f\<in>{rl_up r, rl_down r}.
      prefix (fl_delivered f) (fl_sent f) \<and>
      (fl_shut f \<longrightarrow> fl_failed f \<or> fl_ended f \<and> fl_delivered f = fl_sent f) \<and>
      (fl_pc f \<noteq> Finished \<longrightarrow> rl_upstream_open r \<and> rl_client_open r))"
proof -
  have inv: "relay_inv r" by (rule relay_inv_reachable[OF assms])
  have "prefix (fl_delivered f) (fl_sent f) \<and> (fl_shut f \<longrightarrow> fl_failed f \<or> fl_ended f \<and> fl_delivered f = fl_sent f)"
    if "flow_ok f" for f
    using that append_prefixD[of "fl_delivered f" "fl_buf f"] take_is_prefix[of "fl_read f" "fl_sent f"]
    by (auto simp: flow_ok_def intro: prefix_order.trans)
  moreover have "rl_upstream_open r \<and> rl_client_open r" if "fl_pc (rl_up r) \<noteq> Finished \<or> fl_pc (rl_down r) \<noteq> Finished"
  proof -
    have "finished (rl_up r) + finished (rl_down r) < 2" using that by (auto simp: finished_def)
    then show ?thesis using inv by (simp add: relay_inv_def)
  qed
  ultimately show ?thesis using inv by (auto simp: relay_inv_def)
qed

theorem relay_delivers_witness: "fl_shut (rl_up demo_shut) \<and> fl_delivered (rl_up demo_shut) = fl_sent (rl_up demo_shut) \<and>
    rl_client_open demo_shut"
  using relay_delivers[OF demo_shut_reached] by (simp add: demo_shut_def demo_ended_def new_relay_def new_flow_def)

section \<open>Termination\<close>

fun pc_rank :: "copy_pc \<Rightarrow> nat" where
  "pc_rank Reading = 3"
| "pc_rank Writing = 4"
| "pc_rank Shutting = 2"
| "pc_rank Reporting = 1"
| "pc_rank Finished = 0"

definition flow_work :: "flow \<Rightarrow> nat" where
  "flow_work f = 2 * (length (fl_sent f) - fl_read f) + pc_rank (fl_pc f)"

definition relay_work :: "relay \<Rightarrow> nat" where
  "relay_work r = flow_work (rl_up r) + flow_work (rl_down r) + (2 - rl_received r) +
     (if rl_upstream_open r then 1 else 0) + (if rl_client_open r then 1 else 0)"

lemma flow_work_copy: "copyConnection ans f = Some f' \<Longrightarrow> flow_work f' < flow_work f"
  by (auto simp: flow_work_def Let_def split: copy_pc.splits answer.splits if_splits)

lemma relay_work_step: "program_step r r' \<Longrightarrow> relay_work r' < relay_work r"
proof (induction rule: program_step.induct)
  case (up ans r r')
  then show ?case using flow_work_copy[of ans "rl_up r"]
    by (auto simp: step_up_def relay_work_def simp del: copyConnection.simps)
next
  case (down ans r r')
  then show ?case using flow_work_copy[of ans "rl_down r"]
    by (auto simp: step_down_def relay_work_def simp del: copyConnection.simps)
qed (auto simp: step_main_def relay_work_def split: if_splits)

lemma copy_not_blocked:
  assumes "fl_ended f" "fl_pc f \<noteq> Finished"
  shows "\<exists>ans f'. copyConnection ans f = Some f'"
proof (cases "fl_pc f")
  case Reading
  show ?thesis
  proof (cases "drop (fl_read f) (fl_sent f) = []")
    case True
    then show ?thesis using Reading assms(1) by (intro exI[of _ "Gives 0"]) simp
  next
    case False
    then show ?thesis using Reading by (intro exI[of _ "Gives 1"]) (auto simp: Suc_le_eq)
  qed
next
  case Writing
  then show ?thesis by (intro exI[of _ Accepts]) simp
qed (use assms in auto)

lemma relay_not_blocked:
  assumes inv: "relay_inv r" and e: "fl_ended (rl_up r)" "fl_ended (rl_down r)" and o: "rl_upstream_open r \<or> rl_client_open r"
  shows "\<exists>r'. program_step r r'"
proof (cases "fl_pc (rl_up r) = Finished \<and> fl_pc (rl_down r) = Finished")
  case True
  then have "rl_received r < 2 \<longrightarrow> 0 < rl_done r" using inv by (simp add: relay_inv_def finished_def)
  then have "\<exists>r'. step_main r = Some r'" using o by (auto simp: step_main_def)
  then show ?thesis using program_step.main by blast
next
  case False
  then consider ans f where "copyConnection ans (rl_up r) = Some f" | ans f where "copyConnection ans (rl_down r) = Some f"
    using copy_not_blocked[OF e(1)] copy_not_blocked[OF e(2)] by blast
  then show ?thesis
    by cases (use program_step.up program_step.down in \<open>fastforce simp: step_up_def step_down_def simp del: copyConnection.simps\<close>)+
qed

lemma program_keeps_ended:
  "program_step r r' \<Longrightarrow> fl_ended (rl_up r) \<and> fl_ended (rl_down r) \<Longrightarrow> fl_ended (rl_up r') \<and> fl_ended (rl_down r')"
  by (induction rule: program_step.induct)
    (auto simp: step_up_def step_down_def step_main_def Let_def split: copy_pc.splits answer.splits if_splits)

text \<open>C27. The relay of a connection ends. Once both ends have closed their sides, the program takes at most \<open>relay_work\<close> more steps,
  whatever the network answers, and it stops only with both sockets closed.\<close>

theorem relay_ends:
  assumes "relay_step\<^sup>*\<^sup>* new_relay r" "fl_ended (rl_up r)" "fl_ended (rl_down r)" "(program_step ^^ n) r r'"
  shows "n + relay_work r' \<le> relay_work r \<and>
    ((\<forall>r''. \<not> program_step r' r'') \<longleftrightarrow> \<not> rl_upstream_open r' \<and> \<not> rl_client_open r')"
proof -
  have "relay_inv r' \<and> fl_ended (rl_up r') \<and> fl_ended (rl_down r') \<and> n + relay_work r' \<le> relay_work r"
    using assms(4)
  proof (induction n arbitrary: r')
    case 0
    then show ?case using assms(2,3) relay_inv_reachable[OF assms(1)] by auto
  next
    case (Suc n)
    then obtain q where q: "(program_step ^^ n) r q" "program_step q r'" by auto
    show ?case using Suc(1)[OF q(1)] relay_inv_program[OF q(2)] relay_work_step[OF q(2)] program_keeps_ended[OF q(2)] by auto
  qed
  moreover have "\<not> program_step r' r''" if "relay_inv r'" "\<not> rl_upstream_open r'" "\<not> rl_client_open r'" for r''
  proof
    have "rl_received r' = 2" using that by (auto simp: relay_inv_def)
    then have "fl_pc (rl_up r') = Finished" "fl_pc (rl_down r') = Finished"
      using that(1) by (auto simp: relay_inv_def finished_def split: if_splits)
    moreover assume "program_step r' r''"
    ultimately show False using that(2,3) \<open>rl_received r' = 2\<close>
      by (auto elim!: program_step.cases simp: step_up_def step_down_def step_main_def)
  qed
  ultimately show ?thesis using relay_not_blocked[of r'] by blast
qed

theorem relay_ends_witness: "1 + relay_work demo_read \<le> relay_work demo_ended \<and> (\<exists>r. program_step demo_read r)"
proof -
  have 1: "(program_step ^^ 1) demo_ended demo_read" using demo_first_step by (simp add: eq_OO)
  have e: "fl_ended (rl_up demo_ended)" "fl_ended (rl_down demo_ended)" "rl_client_open demo_read"
    by (simp_all add: demo_read_def demo_ended_def new_relay_def)
  show ?thesis using relay_ends[OF demo_ended_reached e(1,2) 1] e(3) by blast
qed

end
