(* ===== verification/Daemon.thy ===== *)
theory Daemon
  imports ProxyLaws Frames
begin

text \<open>
  \<^verbatim>\<open>internal/cli/daemon.go\<close>, the side of the daemon: its start and shutdown, the answers to control
  requests and the periodic reconciliation; and what holds of the client and the daemon together.
\<close>

section \<open>Error texts\<close>

text \<open>\<^verbatim>\<open>err.Error()\<close>: what the daemon sends back. Texts of system errors are those of Linux.\<close>

fun errno_text :: "errno \<Rightarrow> string" where
  "errno_text ENOENT = ''no such file or directory''"
| "errno_text EEXIST = ''file exists''"
| "errno_text EWOULDBLOCK = ''resource temporarily unavailable''"
| "errno_text ENOTEMPTY = ''directory not empty''"
| "errno_text ENOTDIR = ''not a directory''"
| "errno_text EISDIR = ''is a directory''"
| "errno_text EADDRINUSE = ''address already in use''"
| "errno_text ESRCH = ''no such process''"
| "errno_text EIO = ''input/output error''"
| "errno_text EINVAL = ''invalid argument''"
| "errno_text ECONNREFUSED = ''connection refused''"
| "errno_text ENOTSUP = ''operation not supported''"
| "errno_text ENODATA = ''no data available''"
| "errno_text EPERM = ''operation not permitted''"

fun err_Error :: "error \<Rightarrow> string" where
  "err_Error (Sys e) = errno_text e"
| "err_Error (Msg s) = s"
| "err_Error (Wrap s e) = s @ '': '' @ err_Error e"
| "err_Error (Joined es) = strings_Join (map err_Error es) (CHR 0x0A)"

section \<open>Control requests\<close>

text \<open>\<^verbatim>\<open>handleDaemonControl\<close> on the text of a request: the reply it sends, whether it then sends
  \<^verbatim>\<open>SIGTERM\<close> to its own process, and the proxy. Reading the connection can fail. (A request is one JSON
  value and a newline; text after it, which the decoder would leave unread, is an error here.) The ports of a request are bound in one step here; in the code the
  mutex is taken for each port, so that another goroutine can run in between. The text of an error quotes an unknown command without escapes.\<close>

definition handleDaemonControl :: "string \<Rightarrow> Proxy \<Rightarrow> ((string \<times> bool) \<times> Proxy) io" where
  "handleDaemonControl text p =
     (let reply = (\<lambda>err shutdown p. thenM (ignoreM sys_noop) (returnM ((encode_response \<lparr>ds_Error = err\<rparr>, shutdown), p))) in
      tryM sys_noop
        (\<lambda>_. case json_Unmarshal daemonRequest_fields text zero_daemonRequest of
           Inl e \<Rightarrow> reply (''decode request: '' @ err_Error e) False p
         | Inr request \<Rightarrow>
             if dq_Command request = ''ensure''
             then bindM (EnsurePorts (dq_Ports request) p)
               (\<lambda>(err, p). reply (case err of None \<Rightarrow> [] | Some e \<Rightarrow> err_Error e) False p)
             else if dq_Command request = ''shutdown'' then reply [] True p
             else reply (''unknown daemon command '' @ CHR 0x22 # dq_Command request @ [CHR 0x22]) False p)
        (\<lambda>e. reply (''decode request: '' @ err_Error e) False p))"

text \<open>One round of \<^verbatim>\<open>reconcileDaemonPorts\<close>.\<close>

definition reconcile_round :: "Proxy \<Rightarrow> Proxy io" where
  "reconcile_round p =
     tryM LockMetadata
       (\<lambda>lock. bindM (tryM GetAllReservedPorts
                  (\<lambda>ports. bindM (ReconcilePorts ports p) (\<lambda>(err, p). returnM p))
                  (\<lambda>_. returnM p))
         (\<lambda>p. thenM (ignoreM (sys_close lock)) (returnM p)))
       (\<lambda>_. returnM p)"

section \<open>The daemon process\<close>

text \<open>\<^verbatim>\<open>runDaemon\<close>. \<open>serve\<close> is what the goroutines do from the moment the daemon is ready until it
  receives a signal.\<close>

definition serve_ports :: "(Proxy \<Rightarrow> Proxy io) \<Rightarrow> Proxy io" where
  "serve_ports serve =
     tryM GetAllReservedPorts
       (\<lambda>ports. bindM (EnsurePorts ports New) (\<lambda>(err, p). bindM (serve p) Stop_proxy))
       (\<lambda>e. thenM (Stop_proxy New) (failM (Wrap ''read reserved ports'' e)))"

definition run_locked :: "(Proxy \<Rightarrow> Proxy io) \<Rightarrow> Proxy io" where
  "run_locked serve =
     bindM DaemonSocketPath (\<lambda>socketPath.
     thenM (tryM (os_Remove socketPath) returnM
        (\<lambda>e. if os_IsNotExist e then returnM () else failM (Wrap ''remove stale daemon socket'' e)))
     (thenM (wrapM ''listen on daemon socket'' (sys_listen_unix socketPath))
     (deferM
       (thenM (wrapM ''secure daemon socket'' (os_Chmod socketPath 384))
       (thenM Open
       (deferM (serve_ports serve) sys_noop)))
       (thenM (ignoreM sys_noop) (os_Remove socketPath)))))"

definition runDaemon :: "(Proxy \<Rightarrow> Proxy io) \<Rightarrow> Proxy io" where
  "runDaemon serve =
     bindM DaemonLockPath (\<lambda>lockPath.
     bindM (wrapM ''open daemon lock'' (sys_open_create lockPath 384)) (\<lambda>lock.
     deferM
       (tryM (sys_flock_nb lock) (\<lambda>_. run_locked serve) (\<lambda>_. failM (Msg ''proxy daemon is already running'')))
       (sys_close lock)))"

text \<open>The goroutines of the daemon until it receives a signal, as a sequence of events: a connection on the control socket with its
  request, a failed accept (which ends \<^verbatim>\<open>serveDaemonControl\<close>), a tick of \<^verbatim>\<open>reconcileDaemonPorts\<close>, a step of a goroutine of the
  proxy. The finer interleaving of requests and rounds with the proxy is \<open>daemon_step\<close>.\<close>

datatype daemon_event = Control string | ControlFails | Second | Runs nat event

definition run_goroutine :: "nat \<Rightarrow> event \<Rightarrow> Proxy \<Rightarrow> Proxy io" where
  "run_goroutine n ev p =
     (if n < length (px_threads p)
      then case advance ev (px_threads p ! n) (p\<lparr>px_threads := take n (px_threads p) @ drop (Suc n) (px_threads p)\<rparr>) of
          None \<Rightarrow> returnM p
        | Some m \<Rightarrow> m
      else returnM p)"

fun serveDaemonControl :: "daemon_event list \<Rightarrow> bool \<Rightarrow> Proxy \<Rightarrow> Proxy io" where
  "serveDaemonControl [] accepting p = returnM p"
| "serveDaemonControl (Control text # evs) accepting p =
     (if accepting
      then bindM (handleDaemonControl text p) (\<lambda>((reply, shutdown), p). serveDaemonControl evs accepting p)
      else serveDaemonControl evs accepting p)"
| "serveDaemonControl (ControlFails # evs) accepting p = serveDaemonControl evs False p"
| "serveDaemonControl (Second # evs) accepting p = bindM (reconcile_round p) (\<lambda>p. serveDaemonControl evs accepting p)"
| "serveDaemonControl (Runs n ev # evs) accepting p = bindM (run_goroutine n ev p) (\<lambda>p. serveDaemonControl evs accepting p)"

section \<open>Client and daemon\<close>

lemma ascii_append [simp]: "ascii (s @ t) \<longleftrightarrow> ascii s \<and> ascii t"
  by (simp add: ascii_def)

lemma ascii_Cons [simp]: "ascii (c # s) \<longleftrightarrow> byte c < 128 \<and> ascii s" "ascii []"
  by (simp_all add: ascii_def)

lemma ascii_Itoa: "ascii (strconv_Itoa i)"
proof -
  have "byte c < 128" if "c \<in> set (strconv_Itoa i)" for c
    using strconv_Itoa_chars[OF that] by (auto simp: is_digit_def)
  then show ?thesis by (simp add: ascii_def list_all_iff)
qed

lemma ascii_errno: "ascii (errno_text e)"
  by (cases e) (simp_all add: ascii_def)

lemma ensurePort_Err: "ensurePort port p w = (Err e, w') \<Longrightarrow> ascii (err_Error e)"
proof -
  have a: "ascii ''bind 0.0.0.0:''" "ascii ''invalid TCP port''" "ascii ''proxy stopped''" "ascii '': ''" by (simp_all add: ascii_def)
  have "\<exists>n. e = Sys n" if "sys_listen port w = (Err e, w')" for e w'
    using that by (auto simp: sys_listen_def syscall_def syscall_part_def Let_def split: fault.splits if_splits)
  then show "ensurePort port p w = (Err e, w') \<Longrightarrow> ascii (err_Error e)"
    using a ascii_errno ascii_Itoa
    by (auto simp: ensurePort_def thenM_def bindM_def wrapM_def tryM_def returnM_def failM_def
        split: if_splits prod.splits outcome.splits)
qed

lemma strings_Join_text: "xs \<noteq> [] \<Longrightarrow> \<forall>x\<in>set xs. x \<noteq> [] \<and> ascii x \<Longrightarrow> byte c < 128 \<Longrightarrow>
  strings_Join xs c \<noteq> [] \<and> ascii (strings_Join xs c)"
  by (induction xs c rule: strings_Join.induct) (auto simp: ascii_def)

lemma ensure_loop_texts:
  assumes "ensure_loop ports errs p w = (Ok (errs', p'), w')" "\<forall>e\<in>set errs. err_Error e \<noteq> [] \<and> ascii (err_Error e)"
  shows "\<forall>e\<in>set errs'. err_Error e \<noteq> [] \<and> ascii (err_Error e)"
  using assms
proof (induction ports arbitrary: errs p w)
  case (Cons port ports)
  from Cons(2)[simplified] show ?case
  proof (cases rule: tryM_cases)
    case (err e w1)
    have "ascii (preempt_text port)" "ascii '': ''" using ascii_Itoa by (auto simp: preempt_text_def ascii_def)
    then show ?thesis using Cons(1)[OF err(2)] Cons(3) ensurePort_Err[OF err(1)] by (auto simp: preempt_text_def)
  next
    case (ok q w1)
    then show ?thesis using Cons(1)[OF ok(2) Cons(3)] by simp
  qed simp
qed simp

lemma EnsurePorts_text:
  assumes "EnsurePorts ports p w = (Ok (Some e, p'), w')"
  shows "err_Error e \<noteq> [] \<and> ascii (err_Error e)"
proof -
  obtain errs where "ensure_loop ports [] p w = (Ok (errs, p'), w')" "e = Joined errs" "errs \<noteq> []"
    using assms unfolding EnsurePorts_def by (auto elim!: bindM_OkE simp: errors_Join_def split: if_splits)
  then show ?thesis using ensure_loop_texts[of ports "[]"] strings_Join_text[of "map err_Error errs" "CHR 0x0A"] by auto
qed

text \<open>A reply to an \<^verbatim>\<open>ensure\<close> request, as the client decodes it.\<close>

lemma ensure_reply:
  assumes run: "handleDaemonControl (encode_request \<lparr>dq_Command = ''ensure'', dq_Ports = ports\<rparr>) p w = (Ok ((reply, shutdown), p'), w')"
    and ok: "\<forall>port\<in>set ports. - (2 ^ 63) \<le> port \<and> port < 2 ^ 63"
    and dec: "json_Unmarshal daemonResponse_fields reply zero_daemonResponse = Inr response" "ds_Error response = []"
  shows "set ports \<subseteq> set (owned p') \<and> set (owned p) \<subseteq> set (owned p') \<and> \<not> shutdown"
proof -
  let ?q = "\<lparr>dq_Command = ''ensure'', dq_Ports = ports\<rparr>"
  have q: "json_Unmarshal daemonRequest_fields (encode_request ?q) zero_daemonRequest = Inr ?q"
    by (rule request_codec.dec_enc) (use ok in \<open>simp add: request_ok_def valid_ascii\<close>)
  have empty: "err = []" if "reply = encode_response \<lparr>ds_Error = err\<rparr>" "ascii err" for err
  proof -
    have "response = \<lparr>ds_Error = err\<rparr>"
      using response_codec.dec_enc[of "\<lparr>ds_Error = err\<rparr>"] that dec(1) valid_ascii[of err] by (simp add: ascii_def)
    then show ?thesis using dec(2) by simp
  qed
  from run[unfolded handleDaemonControl_def Let_def] show ?thesis
  proof (cases rule: tryM_cases)
    case (ok u w1)
    then obtain err w2 where e: "EnsurePorts ports p w1 = (Ok (err, p'), w2)" "\<not> shutdown"
      "reply = encode_response \<lparr>ds_Error = (case err of None \<Rightarrow> [] | Some e \<Rightarrow> err_Error e)\<rparr>"
      by (auto simp: q elim!: bindM_OkE thenM_OkE)
    then have "err = None" using empty EnsurePorts_text[of ports p w1] by (cases err) auto
    then show ?thesis using EnsurePorts_Ok[OF e(1)] e(2) by simp
  next
    case (err e w1)
    have "\<exists>n. e = Sys n" using err(1) by (auto simp: sys_noop_def syscall_def syscall_part_def Let_def split: fault.splits)
    then have "ascii (''decode request: '' @ err_Error e)" using ascii_errno by (auto simp: ascii_def)
    moreover have "reply = encode_response \<lparr>ds_Error = ''decode request: '' @ err_Error e\<rparr>"
      using err(2) by (auto elim!: thenM_OkE)
    ultimately show ?thesis using empty by blast
  qed simp
qed

lemma request_exchanged:
  assumes "requestProxyDaemon ports c = (Ok (True, None), c')"
  obtains reply c1 c2 where "sys_exchange (encode_request \<lparr>dq_Command = ''ensure'', dq_Ports = ports\<rparr>) c1 = (Ok reply, c2)"
    "orc c1 = orc c" "response_error reply = None"
proof -
  have same: "DaemonSocketPath u = (r, v) \<Longrightarrow> orc v = orc u" "sys_dial q u = (r', v) \<Longrightarrow> orc v = orc u"
    "sys_noop u = (r', v) \<Longrightarrow> orc v = orc u" for u v r r' q
    using maintainsD[OF env.m_devd_paths(2), of u r v] maintainsD[OF env.m_dial, of q u r' v] maintainsD[OF env.m_noop, of u r' v]
    by (auto simp: same_env_def)
  show thesis
    using assms unfolding requestProxyDaemon_def sendProxyDaemonRequest_def
    by (auto elim!: tryM_OkE deferM_OkE dest!: same intro: that)
qed

text \<open>The client's world \<open>c\<close> is connected to a daemon in state \<open>(p, w)\<close> when its replies are the ones the daemon gives.\<close>

definition connected_to :: "world \<Rightarrow> Proxy \<Rightarrow> world \<Rightarrow> Proxy \<Rightarrow> bool" where
  "connected_to c p w p' \<longleftrightarrow> (\<forall>n text reply. o_reply (orc c) n text = Inr reply \<longrightarrow>
     (\<exists>shutdown w'. handleDaemonControl text p w = (Ok ((reply, shutdown), p'), w')))"

text \<open>C13. Client and daemon together: when \<^verbatim>\<open>requestProxyDaemon\<close> reports that a daemon was reached and
  gave no error, then after that request the daemon's proxy owns every requested port, and
  it has given up none: the guarantee on which \<^verbatim>\<open>startWorkspace\<close> relies before it boots a VM.
  The messages are the JSON texts that the two sides really exchange. The request is handled without a reconciliation or a stop in
  between; those the transition system of the proxy interleaves.\<close>

theorem ensure_request_owns_ports:
  assumes "requestProxyDaemon ports c = (Ok (True, None), c')" "connected_to c p w p'"
    and "\<forall>port\<in>set ports. - (2 ^ 63) \<le> port \<and> port < 2 ^ 63"
  shows "set ports \<subseteq> set (owned p') \<and> set (owned p) \<subseteq> set (owned p')"
proof -
  let ?q = "\<lparr>dq_Command = ''ensure'', dq_Ports = ports\<rparr>"
  obtain reply c1 c2 where x: "sys_exchange (encode_request ?q) c1 = (Ok reply, c2)" "orc c1 = orc c" and d: "response_error reply = None"
    using request_exchanged[OF assms(1)] .
  obtain response where r: "json_Unmarshal daemonResponse_fields reply zero_daemonResponse = Inr response" "ds_Error response = []"
    using d by (auto simp: response_error_def split: sum.splits if_splits)
  have "o_reply (orc c) (steps c1) (encode_request ?q) = Inr reply"
    using syscall_OkE[OF x(1)[unfolded sys_exchange_def]] x(2) by simp
  then obtain shutdown w' where "handleDaemonControl (encode_request ?q) p w = (Ok ((reply, shutdown), p'), w')"
    using assms(2) unfolding connected_to_def by blast
  from ensure_reply[OF this assms(3) r] show ?thesis by simp
qed

text \<open>A client whose requests are answered by a daemon that already owns port 3000.\<close>

definition client_demo :: world where
  "client_demo = blank\<lparr>orc := quiet\<lparr>o_dial := \<lambda>_ _. True, o_reply := \<lambda>_ text.
     if text = encode_request \<lparr>dq_Command = ''ensure'', dq_Ports = [3000, 4000]\<rparr> then Inr (encode_response \<lparr>ds_Error = []\<rparr>)
     else Inl (Sys EIO)\<rparr>\<rparr>"

theorem ensure_request_owns_ports_witness:
  "fst (requestProxyDaemon [3000, 4000] client_demo) = Ok (True, None) \<and>
   (\<exists>p'. connected_to client_demo px1 blank p' \<and> {3000, 4000} \<subseteq> set (owned p'))"
proof -
  let ?q = "\<lparr>dq_Command = ''ensure'', dq_Ports = [3000, 4000]\<rparr>"
  have "response_error (encode_response \<lparr>ds_Error = []\<rparr>) = None"
    using response_codec.dec_enc[of "\<lparr>ds_Error = []\<rparr>"] by (simp add: response_error_def valid_ascii)
  moreover have "filepath_Join [''/d'', ''daemon.sock''] = ''/d/daemon.sock''" by code_simp
  then have "fst (DaemonSocketPath client_demo) = Ok ''/d/daemon.sock''"
    by (simp add: DaemonSocketPath_def DevdDir_def os_Getenv_def askM_def bindM_def thenM_def returnM_def os_MkdirAll_def
        syscall_part_def Let_def client_demo_def blank_def quiet_def tick_def anc7)
  then obtain c1 where c1: "DaemonSocketPath client_demo = (Ok ''/d/daemon.sock'', c1)" by (metis prod.collapse)
  moreover have "orc c1 = orc client_demo"
    using maintainsD[OF env.m_devd_paths(2) c1] by (simp add: same_env_def)
  then have "orc c1 = quiet\<lparr>o_dial := \<lambda>_ _. True, o_reply := o_reply (orc client_demo)\<rparr>"
    "o_reply (orc client_demo) n (encode_request ?q) = Inr (encode_response \<lparr>ds_Error = []\<rparr>)" for n
    by (simp_all add: client_demo_def)
  ultimately have ok: "fst (requestProxyDaemon [3000, 4000] client_demo) = Ok (True, None)"
    by (simp add: requestProxyDaemon_def sendProxyDaemonRequest_def tryM_def deferM_def thenM_def bindM_def ignoreM_def returnM_def
        sys_dial_def sys_noop_def sys_exchange_def syscall_def syscall_part_def Let_def quiet_def)
  have q: "json_Unmarshal daemonRequest_fields (encode_request ?q) zero_daemonRequest = Inr ?q"
    by (rule request_codec.dec_enc) (simp add: request_ok_def valid_ascii)
  have "\<exists>p' v. EnsurePorts [3000, 4000] px1 (tick blank) = (Ok (None, p'), v) \<and> o_fault (orc v) (steps v) = Proceed"
    by (simp add: EnsurePorts_def ensurePort_def errors_Join_def thenM_def bindM_def wrapM_def tryM_def sys_listen_def
        syscall_def syscall_part_def tick_def returnM_def owned_def spawn_def Let_def px1_def New_def blank_def quiet_def)
  then obtain p' v where e: "EnsurePorts [3000, 4000] px1 (tick blank) = (Ok (None, p'), v)" "o_fault (orc v) (steps v) = Proceed" by blast
  have n: "sys_noop blank = (Ok (), tick blank)"
    by (simp add: sys_noop_def syscall_def syscall_part_def blank_def quiet_def Let_def)
  obtain v' where "ignoreM sys_noop v = (Ok (), v')"
    using e(2) by (simp add: ignoreM_def tryM_def sys_noop_def syscall_def syscall_part_def returnM_def Let_def)
  then have "handleDaemonControl (encode_request ?q) px1 blank = (Ok ((encode_response \<lparr>ds_Error = []\<rparr>, False), p'), v')"
    using e(1) n q by (simp add: handleDaemonControl_def Let_def tryM_def bindM_def thenM_def returnM_def)
  then have c: "connected_to client_demo px1 blank p'"
    by (auto simp: connected_to_def client_demo_def split: if_splits)
  show ?thesis using ensure_request_owns_ports[OF run_pair[OF ok] c] ok c by auto
qed

section \<open>One daemon\<close>

text \<open>Steps that at most create files and take no lock.\<close>

definition undisturbed :: "world \<Rightarrow> world \<Rightarrow> bool" where
  "undisturbed w w' \<longleftrightarrow> same_env w w' \<and> flocks w' = flocks w \<and> next_fd w' = next_fd w \<and>
     (\<forall>q x. fs w q = Some x \<longrightarrow> fs w' q = Some x)"

interpretation und: change undisturbed
  by unfold_locales (auto simp: undisturbed_def same_env_def tick_def)

lemma und_DaemonLockPath: "maintains undisturbed DaemonLockPath"
proof -
  have "mkdir_missing m ds f = Inr g \<Longrightarrow> f q = Some x \<Longrightarrow> g q = Some x" for m ds f g q x
    using mkdir_missing_intact[of m ds f g q] by simp
  then have "maintains undisturbed (os_MkdirAll p m)" for p m
    unfolding os_MkdirAll_def
    by (intro und.m_syscall_part) (auto simp: undisturbed_def same_env_def split: sum.splits)
  then show ?thesis
    unfolding DaemonLockPath_def DevdDir_def os_Getenv_def os_UserHomeDir_def
    by (intro und.rules) (auto intro!: und.rules)
qed

lemma open_create_run:
  assumes "wrapM s (sys_open_create p m) w = (r, w')"
  shows "flocks w' = flocks w \<and> (\<forall>q x. fs w q = Some x \<longrightarrow> fs w' q = Some x)"
proof -
  obtain r1 where "sys_open_create p m w = (r1, w')"
    using assms by (auto simp: wrapM_def tryM_def returnM_def failM_def split: prod.splits outcome.splits)
  then show ?thesis
    by (auto simp: sys_open_create_def syscall_def syscall_part_def Let_def open_fd_def set_file_def
        split: fault.splits option.splits node.splits if_splits)
qed

lemma flock_nb_busy:
  assumes "sys_flock_nb fd w = (r, w')" "fds w fd = Some i" "flocks w i = Some g" "g \<noteq> fd"
  shows "(\<forall>u. r \<noteq> Ok u) \<and> flocks w' = flocks w \<and> fs w' = fs w"
  using assms
  by (auto simp: sys_flock_nb_def syscall_def syscall_part_def Let_def lock_busy_def split: fault.splits)

lemma refused_lock:
  assumes run: "deferM (tryM (sys_flock_nb lock) f (\<lambda>_. failM e)) (sys_close lock) w = (r, w')"
    and busy: "fds w lock = Some i" "flocks w i = Some g" "g \<noteq> lock"
  shows "(\<forall>p. r \<noteq> Ok p) \<and> flocks w' i = Some g \<and> fs w' = fs w"
proof -
  obtain r1 w1 where fl: "sys_flock_nb lock w = (r1, w1)" by fastforce
  note b = flock_nb_busy[OF fl busy]
  have "w' = (if r1 = Crash then w1 else snd (sys_close lock w1)) \<and> (\<forall>p. r \<noteq> Ok p)"
    using run fl b by (cases r1) (auto simp: deferM_def tryM_def failM_def thenM_def bindM_def ignoreM_def returnM_def split: prod.splits outcome.splits)
  moreover have "fs (snd (sys_close lock w1)) = fs w1"
    by (auto simp: sys_close_def syscall_part_def Let_def close_fd_def split: fault.splits)
  ultimately show ?thesis
    using b busy(2,3) close_run[of lock w1] by (auto simp: released_def)
qed

text \<open>C23. There is one daemon. If another process already holds the daemon's lock file, \<^verbatim>\<open>runDaemon\<close>
  fails (or dies) without serving anything, takes no lock from it, and every existing file is left as it was; in
  particular the socket of the running daemon is not removed.\<close>

theorem second_daemon_harmless:
  assumes "runDaemon serve w = (r, w')" "fds_fresh w" "devd_root (orc w) = Inr d"
    and "fs w (filepath_Join [d, ''daemon.lock'']) = Some (Reg i m c)" "flocks w i = Some g"
  shows "(\<forall>p. r \<noteq> Ok p) \<and> flocks w' i = Some g \<and> (\<forall>q x. fs w q = Some x \<longrightarrow> fs w' q = Some x)"
  using assms(1)[unfolded runDaemon_def]
proof (cases rule: bindM_cases)
  case (go path w1)
  have u: "undisturbed w w1" using maintainsD[OF und_DaemonLockPath go(1)] .
  have path: "path = filepath_Join [d, ''daemon.lock'']"
    using go(1) assms(3) unfolding DaemonLockPath_def by (auto elim!: bindM_OkE DevdDir_OkE)
  then have f: "fs w1 path = Some (Reg i m c)" using u assms(4) by (simp add: undisturbed_def)
  from go(2) show ?thesis
  proof (cases rule: bindM_cases)
    case opened: (go lock w2)
    have w2: "lock = next_fd w1" "fds w2 lock = Some i" "flocks w2 = flocks w1" "fs w2 = fs w1"
      using syscall_OkE[OF opened(1)[simplified, unfolded sys_open_create_def]] f by (auto simp: open_fd_def)
    have "g \<noteq> lock" using assms(2,5) u w2(1) by (auto simp: fds_fresh_def undisturbed_def)
    then show ?thesis
      using refused_lock[OF opened(2) w2(2)] u assms(5) w2 by (auto simp: undisturbed_def)
  qed (use u assms(5) open_create_run[of _ path 384 w1] in \<open>auto simp: undisturbed_def\<close>)
qed (use maintainsD[OF und_DaemonLockPath] assms(5) in \<open>auto simp: undisturbed_def\<close>)

text \<open>A host on which descriptor 1 of another process holds the lock.\<close>

definition daemon_demo :: world where
  "daemon_demo = blank\<lparr>fs := (fs blank)(''/d/daemon.lock'' \<mapsto> Reg 5 384 [], ''/d/daemon.sock'' \<mapsto> Special 384),
     flocks := (\<lambda>_. None)(5 \<mapsto> 1)\<rparr>"

theorem second_daemon_harmless_witness:
  "fst (runDaemon returnM daemon_demo) = Err (Msg ''proxy daemon is already running'') \<and>
   flocks (snd (runDaemon returnM daemon_demo)) 5 = Some 1 \<and>
   fs (snd (runDaemon returnM daemon_demo)) ''/d/daemon.sock'' = Some (Special 384)"
proof -
  have ok: "fst (runDaemon returnM daemon_demo) = Err (Msg ''proxy daemon is already running'')" by code_simp
  have "filepath_Join [''/d'', ''daemon.lock''] = ''/d/daemon.lock''" by code_simp
  then have h: "fds_fresh daemon_demo" "devd_root (orc daemon_demo) = Inr ''/d''" "flocks daemon_demo 5 = Some 1"
    "fs daemon_demo (filepath_Join [''/d'', ''daemon.lock'']) = Some (Reg 5 384 [])"
    "fs daemon_demo ''/d/daemon.sock'' = Some (Special 384)"
    by (simp_all add: daemon_demo_def fds_fresh_def blank_def quiet_def devd_root_def)
  show ?thesis
    using second_daemon_harmless[OF surjective_pairing h(1,2,4,3)] ok h(5) by blast
qed

section \<open>The daemon runs the proxy\<close>

lemma reachable_stepI: "reachable p \<Longrightarrow> daemon_step (p, w) (p', w') \<Longrightarrow> reachable p'"
proof -
  assume "reachable p" and s: "daemon_step (p, w) (p', w')"
  then obtain v v' where "daemon_step\<^sup>*\<^sup>* (New, v) (p, v')" by (auto simp: reachable_def)
  also have "daemon_step (p, v') (p, w)" by (rule daemon_step.elsewhere)
  also note s
  finally show "reachable p'" by (auto simp: reachable_def)
qed

lemma reachable_New: "reachable New"
  by (auto simp: reachable_def)

lemma reachable_ensure_loop:
  "ensure_loop ports errs p w = (Ok (errs', p'), w') \<Longrightarrow> reachable p \<Longrightarrow> reachable p'"
proof (induction ports arbitrary: errs p w)
  case (Cons port ports)
  from Cons.prems(1)[simplified] show ?case
  proof (cases rule: tryM_cases)
    case (ok q w1)
    then show ?thesis using Cons.IH[OF ok(2)] reachable_stepI[OF Cons.prems(2) daemon_step.ensures[OF ok(1)]] by simp
  next
    case (err e w1)
    then show ?thesis using Cons.IH[OF err(2) Cons.prems(2)] by simp
  qed simp
qed simp

lemma reachable_EnsurePorts: "EnsurePorts ports p w = (Ok (e, p'), w') \<Longrightarrow> reachable p \<Longrightarrow> reachable p'"
  unfolding EnsurePorts_def by (auto elim!: bindM_OkE intro: reachable_ensure_loop)

lemma reachable_ReconcilePorts: "ReconcilePorts ports p w = (Ok (e, p'), w') \<Longrightarrow> reachable p \<Longrightarrow> reachable p'"
  unfolding ReconcilePorts_def
  by (auto elim!: bindM_OkE intro: reachable_EnsurePorts reachable_stepI[OF _ daemon_step.releases])

lemma reachable_reconcile_round: "reconcile_round p w = (Ok p', w') \<Longrightarrow> reachable p \<Longrightarrow> reachable p'"
  unfolding reconcile_round_def
  by (auto elim!: tryM_OkE bindM_OkE thenM_OkE intro: reachable_ReconcilePorts)

lemma reachable_handle:
  "handleDaemonControl text p w = (Ok (r, p'), w') \<Longrightarrow> reachable p \<Longrightarrow> reachable p'"
  unfolding handleDaemonControl_def Let_def
  by (auto elim!: tryM_OkE bindM_OkE thenM_OkE intro: reachable_EnsurePorts split: sum.splits if_splits)

lemma reachable_run_goroutine:
  assumes "run_goroutine n ev p w = (Ok p', w')" "reachable p"
  shows "reachable p'"
proof (cases "n < length (px_threads p)")
  case True
  let ?q = "p\<lparr>px_threads := take n (px_threads p) @ drop (Suc n) (px_threads p)\<rparr>"
  show ?thesis
  proof (cases "advance ev (px_threads p ! n) ?q")
    case (Some m)
    then have "m w = (Ok p', w')" using assms(1) True by (simp add: run_goroutine_def)
    from daemon_step.goroutine[OF id_take_nth_drop[OF True] Some this] show ?thesis
      by (rule reachable_stepI[OF assms(2)])
  qed (use assms True in \<open>simp add: run_goroutine_def\<close>)
qed (use assms in \<open>simp add: run_goroutine_def\<close>)

lemma reachable_serve:
  "serveDaemonControl evs accepting p w = (Ok p', w') \<Longrightarrow> reachable p \<Longrightarrow> reachable p'"
proof (induction evs accepting p arbitrary: w rule: serveDaemonControl.induct)
  case (2 msg evs accepting p)
  show ?case
  proof (cases accepting)
    case True
    with 2(3) obtain r q w1 where q: "handleDaemonControl msg p w = (Ok (r, q), w1)" "serveDaemonControl evs accepting q w1 = (Ok p', w')"
      by (auto elim!: bindM_OkE)
    then show ?thesis using 2(1)[OF True q(2) reachable_handle[OF q(1) 2(4)]] by simp
  next
    case False
    then show ?thesis using 2(2)[OF False] 2(3,4) by simp
  qed
next
  case (4 evs accepting p)
  then show ?case by (auto elim!: bindM_OkE intro: reachable_reconcile_round)
next
  case (5 n ev evs accepting p)
  then show ?case by (auto elim!: bindM_OkE intro: reachable_run_goroutine)
qed auto

lemma reachable_Stop: "Stop_proxy p w = (Ok p', w') \<Longrightarrow> reachable p \<Longrightarrow> reachable p' \<and> px_swept p'"
proof -
  assume run: "Stop_proxy p w = (Ok p', w')" and "reachable p"
  then have "reachable (close_stopCh p)" using reachable_stepI[OF _ daemon_step.closes] by blast
  moreover have "daemon_step (close_stopCh p, w) (p', w')"
    using run by (intro daemon_step.sweeps) (simp_all add: close_stopCh_def Stop_proxy_def)
  moreover have "px_swept p'" using run by (auto simp: Stop_proxy_def sweep_def elim!: bindM_OkE)
  ultimately show ?thesis using reachable_stepI by blast
qed

lemma serve_ports_reachable:
  "serve_ports (serveDaemonControl evs True) w = (Ok p, w') \<Longrightarrow> reachable p \<and> px_swept p"
  unfolding serve_ports_def
  by (auto elim!: tryM_OkE bindM_OkE thenM_OkE dest: reachable_Stop reachable_serve reachable_EnsurePorts[OF _ reachable_New])

text \<open>C14. The daemon implements the proxy. Whatever requests, failed accepts, reconciliation rounds and goroutine steps it serves before it receives a signal,
  the proxy it leaves is one that the transition system of the proxy reaches, so that everything proved of reachable proxies
  holds of the daemon's; and a daemon that returns has released every port and every tunnel.\<close>

theorem daemon_refines_proxy:
  assumes "runDaemon (serveDaemonControl evs True) w = (Ok p, w')"
  shows "reachable p \<and> owned p = [] \<and> px_tunnels p = []"
proof -
  obtain u u' where "serve_ports (serveDaemonControl evs True) u = (Ok p, u')"
    using assms unfolding runDaemon_def run_locked_def
    by (auto elim!: bindM_OkE tryM_OkE deferM_OkE thenM_OkE)
  from serve_ports_reachable[OF this] show ?thesis
    using proxy_invD(4)[OF reachable_inv[of p]] by (auto simp: ports_ok_def owned_def)
qed

theorem daemon_refines_proxy_witness:
  "\<exists>p. fst (runDaemon (serveDaemonControl [ControlFails] True) blank) = Ok p \<and>
     reachable p \<and> owned p = []"
proof -
  have "case fst (runDaemon (serveDaemonControl [ControlFails] True) blank) of Ok p \<Rightarrow> True | _ \<Rightarrow> False"
    by code_simp
  then obtain p where p: "fst (runDaemon (serveDaemonControl [ControlFails] True) blank) = Ok p"
    by (auto split: outcome.splits)
  with daemon_refines_proxy[OF run_pair[OF p]] show ?thesis by blast
qed

end
