(* ===== verification/ImageHelper.thy ===== *)
theory ImageHelper
  imports GoStrings "HOL-Library.Char_ord" "HOL-Library.List_Lexorder"
begin

text \<open>
  \<^verbatim>\<open>cmd/devd-image-helper/main_linux.go\<close>: the program that runs in the conversion VM and copies the root
  file system of an image, mounted read-only at \<^verbatim>\<open>/source\<close>, onto an empty ext4 disk mounted at \<^verbatim>\<open>/target\<close>.

  The source is a tree: since it does not change, \<^verbatim>\<open>copyEntry\<close> takes the file that the source path
  names. Directory entries are in the order of \<^verbatim>\<open>os.ReadDir\<close>. The target is a file system with
  inodes; a path is the list of its components, and \<^verbatim>\<open>filepath.Join\<close> with an entry's name appends it. A path that
  leads through a symbolic link is an error of the model (\<open>through_link\<close>), where Linux would follow it; that can only
  happen in \<^verbatim>\<open>sanitizeIdentity\<close>, since \<^verbatim>\<open>copyEntry\<close> creates the directories it works in. Every system call may fail. Error texts leave out the path they
  name in the program.
\<close>

section \<open>Files\<close>

datatype ftype = FDir | FReg string | FLink string | FFifo | FChr nat | FBlk nat | FSock | FOther

text \<open>Mode bits include setuid, setgid and sticky; times are in nanoseconds.\<close>

record attrs =
  at_uid :: int
  at_gid :: int
  at_mode :: nat
  at_atime :: int
  at_mtime :: int
  at_xattrs :: "(string \<times> string) list"

text \<open>A file of the source: device and inode number, type, attributes, and the entries of a directory.\<close>

datatype stree = SNode (sn_key: "nat \<times> nat") (sn_type: ftype) (sn_attrs: attrs) (sn_entries: "(string \<times> stree) list")

record inode =
  in_type :: ftype
  in_attrs :: attrs

type_synonym gpath = "string list"

text \<open>The target, the mounted file systems, and the environment: which call fails, after how many entries the reading of a directory by
  \<^verbatim>\<open>filepath.Glob\<close> fails, and the time.\<close>

record guest =
  g_fault :: "nat \<Rightarrow> errno option"
  g_scan :: "nat \<Rightarrow> nat option"
  g_now :: "nat \<Rightarrow> int"
  g_steps :: nat
  g_mounts :: "string list"
  g_names :: "(gpath \<times> nat) list"
  g_inodes :: "nat \<Rightarrow> inode"
  g_next :: nat

type_synonym 'a gio = "guest \<Rightarrow> 'a result \<times> guest"

section \<open>Combinators and system calls\<close>

definition greturn :: "'a \<Rightarrow> 'a gio" where
  "greturn x g = (Inr x, g)"

definition gfail :: "error \<Rightarrow> 'a gio" where
  "gfail e g = (Inl e, g)"

definition gtry :: "'a gio \<Rightarrow> ('a \<Rightarrow> 'b gio) \<Rightarrow> (error \<Rightarrow> 'b gio) \<Rightarrow> 'b gio" where
  "gtry m f h g = (case m g of (Inr x, g') \<Rightarrow> f x g' | (Inl e, g') \<Rightarrow> h e g')"

definition gbind :: "'a gio \<Rightarrow> ('a \<Rightarrow> 'b gio) \<Rightarrow> 'b gio" where
  "gbind m f = gtry m f gfail"

definition gthen :: "'a gio \<Rightarrow> 'b gio \<Rightarrow> 'b gio" where
  "gthen m k = gbind m (\<lambda>_. k)"

definition gwrap :: "string \<Rightarrow> 'a gio \<Rightarrow> 'a gio" where
  "gwrap s m = gtry m greturn (\<lambda>e. gfail (Wrap s e))"

text \<open>\<^verbatim>\<open>defer c()\<close>, whose error is dropped.\<close>

definition gdefer :: "'a gio \<Rightarrow> unit gio \<Rightarrow> 'a gio" where
  "gdefer m c g = (case m g of (r, g') \<Rightarrow> (r, snd (c g')))"

definition gcall :: "(guest \<Rightarrow> 'a result \<times> guest) \<Rightarrow> 'a gio" where
  "gcall f g =
     (let g1 = g\<lparr>g_steps := Suc (g_steps g)\<rparr> in
      case g_fault g (g_steps g) of Some e \<Rightarrow> (Inl (Sys e), g1) | None \<Rightarrow> f g1)"

text \<open>A call that only reads the source, or has no effect on the target.\<close>

definition gread :: "'a \<Rightarrow> 'a gio" where
  "gread x = gcall (\<lambda>g. (Inr x, g))"

definition node_of :: "guest \<Rightarrow> gpath \<Rightarrow> inode option" where
  "node_of g p = map_option (g_inodes g) (map_of (g_names g) p)"

definition is_gdir :: "guest \<Rightarrow> gpath \<Rightarrow> bool" where
  "is_gdir g p = (case node_of g p of Some n \<Rightarrow> in_type n = FDir | None \<Rightarrow> False)"

definition set_inode :: "nat \<Rightarrow> (inode \<Rightarrow> inode) \<Rightarrow> guest \<Rightarrow> guest" where
  "set_inode i f g = g\<lparr>g_inodes := (g_inodes g)(i := f (g_inodes g i))\<rparr>"

definition set_mtime :: "int \<Rightarrow> inode \<Rightarrow> inode" where
  "set_mtime t n = n\<lparr>in_attrs := (in_attrs n)\<lparr>at_mtime := t\<rparr>\<rparr>"

text \<open>Adding or removing an entry changes the modification time of its directory.\<close>

definition touch_parent :: "gpath \<Rightarrow> guest \<Rightarrow> guest" where
  "touch_parent p g =
     (case map_of (g_names g) (butlast p) of None \<Rightarrow> g | Some d \<Rightarrow> set_inode d (set_mtime (g_now g (g_steps g))) g)"

definition add_name :: "gpath \<Rightarrow> nat \<Rightarrow> guest \<Rightarrow> guest" where
  "add_name p i g = (touch_parent p g)\<lparr>g_names := (p, i) # g_names g\<rparr>"

definition new_inode :: "ftype \<Rightarrow> nat \<Rightarrow> guest \<Rightarrow> inode" where
  "new_inode ty mode g =
     \<lparr>in_type = ty, in_attrs = \<lparr>at_uid = 0, at_gid = 0, at_mode = mode, at_atime = g_now g (g_steps g),
       at_mtime = g_now g (g_steps g), at_xattrs = []\<rparr>\<rparr>"

text \<open>\<^verbatim>\<open>mkdir\<close>, \<^verbatim>\<open>open(O_CREAT|O_EXCL)\<close>, \<^verbatim>\<open>symlink\<close>, \<^verbatim>\<open>mkfifo\<close> and \<^verbatim>\<open>mknod\<close>.\<close>

definition g_create :: "gpath \<Rightarrow> ftype \<Rightarrow> nat \<Rightarrow> unit gio" where
  "g_create p ty mode = gcall (\<lambda>g.
     (if map_of (g_names g) p \<noteq> None then (Inl (Sys EEXIST), g)
      else if \<not> is_gdir g (butlast p) then (Inl (Sys ENOENT), g)
      else let i = g_next g in
        (Inr (), add_name p i (g\<lparr>g_inodes := (g_inodes g)(i := new_inode ty mode g), g_next := Suc i\<rparr>))))"

definition g_link :: "gpath \<Rightarrow> gpath \<Rightarrow> unit gio" where
  "g_link old new = gcall (\<lambda>g.
     (case map_of (g_names g) old of
        None \<Rightarrow> (Inl (Sys ENOENT), g)
      | Some i \<Rightarrow>
          if map_of (g_names g) new \<noteq> None then (Inl (Sys EEXIST), g)
          else if \<not> is_gdir g (butlast new) then (Inl (Sys ENOENT), g)
          else if is_gdir g old then (Inl (Sys EPERM), g)
          else (Inr (), add_name new i g)))"

text \<open>Calls that change the inode of a path.\<close>

definition g_update :: "gpath \<Rightarrow> (inode \<Rightarrow> inode) \<Rightarrow> unit gio" where
  "g_update p f = gcall (\<lambda>g.
     (case map_of (g_names g) p of None \<Rightarrow> (Inl (Sys ENOENT), g) | Some i \<Rightarrow> (Inr (), set_inode i f g)))"

definition write_data :: "string \<Rightarrow> inode \<Rightarrow> inode" where
  "write_data data n = n\<lparr>in_type := (case in_type n of FReg old \<Rightarrow> FReg data | ty \<Rightarrow> ty)\<rparr>"

text \<open>\<^verbatim>\<open>lchown\<close> takes privileges away: the setuid and setgid bits of a file that is no directory, and its
  capabilities.\<close>

definition chown_attrs :: "int \<Rightarrow> int \<Rightarrow> inode \<Rightarrow> inode" where
  "chown_attrs uid gid n =
     n\<lparr>in_attrs := (in_attrs n)\<lparr>at_uid := uid, at_gid := gid,
         at_mode := (if in_type n = FDir then at_mode (in_attrs n) else at_mode (in_attrs n) mod 1024),
         at_xattrs := filter (\<lambda>(k, v). k \<noteq> ''security.capability'') (at_xattrs (in_attrs n))\<rparr>\<rparr>"

definition chmod_attrs :: "nat \<Rightarrow> inode \<Rightarrow> inode" where
  "chmod_attrs mode n = n\<lparr>in_attrs := (in_attrs n)\<lparr>at_mode := mode\<rparr>\<rparr>"

definition utimes_attrs :: "int \<Rightarrow> int \<Rightarrow> inode \<Rightarrow> inode" where
  "utimes_attrs atime mtime n = n\<lparr>in_attrs := (in_attrs n)\<lparr>at_atime := atime, at_mtime := mtime\<rparr>\<rparr>"

definition set_xattr :: "string \<Rightarrow> string \<Rightarrow> inode \<Rightarrow> inode" where
  "set_xattr k v n =
     n\<lparr>in_attrs := (in_attrs n)\<lparr>at_xattrs := (k, v) # filter (\<lambda>(j, u). j \<noteq> k) (at_xattrs (in_attrs n))\<rparr>\<rparr>"

section \<open>Copying metadata\<close>

definition xattr_wanted :: "string \<Rightarrow> bool" where
  "xattr_wanted name \<longleftrightarrow> name \<noteq> [] \<and> \<not> prefix ''user.containers.'' name \<and>
     (prefix ''user.'' name \<or> prefix ''security.'' name \<or> prefix ''trusted.'' name \<or> prefix ''system.'' name)"

definition copy_xattr :: "stree \<Rightarrow> gpath \<Rightarrow> string \<Rightarrow> unit gio" where
  "copy_xattr source target name =
     (case map_of (at_xattrs (sn_attrs source)) name of
        None \<Rightarrow> gfail (Wrap ''read xattr'' (Sys ENODATA))
      | Some value \<Rightarrow>
          gthen (gwrap ''read xattr'' (gread ()))
          (gthen (if value \<noteq> [] then gwrap ''read xattr'' (gread ()) else greturn ())
          (gwrap ''write xattr'' (g_update target (set_xattr name value)))))"

fun copy_xattr_names :: "stree \<Rightarrow> gpath \<Rightarrow> string list \<Rightarrow> unit gio" where
  "copy_xattr_names source target [] = greturn ()"
| "copy_xattr_names source target (name # names) =
     (if \<not> xattr_wanted name then copy_xattr_names source target names
      else gthen (copy_xattr source target name) (copy_xattr_names source target names))"

text \<open>The name list of \<^verbatim>\<open>llistxattr\<close>: every name is followed by a zero byte.\<close>

definition xattr_list :: "stree \<Rightarrow> string" where
  "xattr_list source = concat (map (\<lambda>(k, v). k @ [CHR 0x00]) (at_xattrs (sn_attrs source)))"

definition copyXattrs :: "stree \<Rightarrow> gpath \<Rightarrow> unit gio" where
  "copyXattrs source target =
     gtry (gread (length (xattr_list source)))
       (\<lambda>size. if size = 0 then greturn ()
          else gthen (gwrap ''list xattrs'' (gread ()))
            (copy_xattr_names source target (strings_Split (xattr_list source) (CHR 0x00))))
       (\<lambda>e. if errors_Is e ENOTSUP \<or> errors_Is e ENODATA \<or> errors_Is e ENOENT then greturn ()
          else gfail (Wrap ''list xattrs'' e))"

definition applyMetadata :: "stree \<Rightarrow> gpath \<Rightarrow> bool \<Rightarrow> unit gio" where
  "applyMetadata source target symlink =
     (let st = sn_attrs source in
      gthen (gwrap ''chown'' (g_update target (chown_attrs (at_uid st) (at_gid st))))
      (gthen (if symlink then greturn () else gwrap ''chmod'' (g_update target (chmod_attrs (at_mode st))))
      (gthen (gwrap ''set timestamps'' (g_update target (utimes_attrs (at_atime st) (at_mtime st))))
      (copyXattrs source target))))"

section \<open>Copying files\<close>

type_synonym copier = "nat \<times> nat \<Rightarrow> gpath option"

definition copyRegular :: "string \<Rightarrow> gpath \<Rightarrow> unit gio" where
  "copyRegular data target =
     gthen (gwrap ''open'' (gread ()))
     (gdefer
       (gthen (gwrap ''create'' (g_create target (FReg []) 384))
       (gthen (gtry (g_update target (write_data data)) greturn
                (\<lambda>e. gthen (gtry (gread ()) greturn (\<lambda>_. greturn ())) (gfail (Wrap ''copy'' e))))
       (gwrap ''close'' (gread ()))))
       (gread ()))"

fun copyEntry :: "stree \<Rightarrow> gpath \<Rightarrow> copier \<Rightarrow> copier gio"
  and copyEntries :: "(string \<times> stree) list \<Rightarrow> gpath \<Rightarrow> copier \<Rightarrow> copier gio" where
  "copyEntry (SNode key ty st es) target c =
     (let source = SNode key ty st es in
      gthen (gwrap ''stat'' (gread ()))
      (gthen (gwrap ''read Linux metadata'' (gread ()))
      (case ty of
         FDir \<Rightarrow>
           gthen (gtry (g_create target FDir 448) greturn
                    (\<lambda>e. if errors_Is e EEXIST then greturn () else gfail (Wrap ''create directory'' e)))
           (gthen (gwrap ''read directory'' (gread ()))
           (gbind (copyEntries es target c) (\<lambda>c.
            gthen (applyMetadata source target False) (greturn c))))
       | FReg data \<Rightarrow>
           (case c key of
              Some first \<Rightarrow> gthen (gwrap ''create hardlink'' (g_link first target)) (greturn c)
            | None \<Rightarrow>
                gthen (copyRegular data target)
                (gthen (applyMetadata source target False) (greturn (c(key \<mapsto> target)))))
       | FLink link \<Rightarrow>
           gthen (gwrap ''read symlink'' (gread ()))
           (gthen (gwrap ''create symlink'' (g_create target (FLink link) 511))
           (gthen (applyMetadata source target True) (greturn c)))
       | FFifo \<Rightarrow>
           gthen (gwrap ''create fifo'' (g_create target FFifo (at_mode st mod 512)))
           (gthen (applyMetadata source target False) (greturn c))
       | FChr rdev \<Rightarrow>
           gthen (gwrap ''create device'' (g_create target (FChr rdev) (at_mode st mod 512)))
           (gthen (applyMetadata source target False) (greturn c))
       | FBlk rdev \<Rightarrow>
           gthen (gwrap ''create device'' (g_create target (FBlk rdev) (at_mode st mod 512)))
           (gthen (applyMetadata source target False) (greturn c))
       | FSock \<Rightarrow> greturn c
       | FOther \<Rightarrow> gfail (Msg ''unsupported file type''))))"
| "copyEntries [] target c = greturn c"
| "copyEntries ((name, source) # es) target c =
     gbind (copyEntry source (target @ [name]) c) (\<lambda>c. copyEntries es target c)"

section \<open>The helper\<close>

definition targetDir :: gpath where "targetDir = [''target'']"

definition system_names :: "string list" where
  "system_names = [''dev'', ''proc'', ''sys'', ''run'', ''mnt'', ''lost+found'', ''.krunvm.lock'']"

text \<open>\<^verbatim>\<open>os.MkdirAll\<close> of a path of the target: the missing directories, outermost first.\<close>

fun g_mkdirs :: "nat \<Rightarrow> gpath list \<Rightarrow> unit gio" where
  "g_mkdirs mode [] = greturn ()"
| "g_mkdirs mode (p # ps) = gtry (g_create p FDir mode) (\<lambda>_. g_mkdirs mode ps)
     (\<lambda>e g. if errors_Is e EEXIST \<and> is_gdir g p then g_mkdirs mode ps g
            else if errors_Is e EEXIST then (Inl (Sys ENOTDIR), g) else (Inl e, g))"

definition g_MkdirAll :: "gpath \<Rightarrow> nat \<Rightarrow> unit gio" where
  "g_MkdirAll p mode = g_mkdirs mode (map (\<lambda>k. take k p) [1..<Suc (length p)])"

definition drop_names :: "(gpath \<Rightarrow> bool) \<Rightarrow> guest \<Rightarrow> guest" where
  "drop_names P g = g\<lparr>g_names := filter (\<lambda>(q, i). \<not> P q) (g_names g)\<rparr>"

text \<open>Whether a directory above the last component of a path is a symbolic link.\<close>

definition through_link :: "guest \<Rightarrow> gpath \<Rightarrow> bool" where
  "through_link g p = list_ex (\<lambda>k. case node_of g (take k p) of
     Some n \<Rightarrow> (case in_type n of FLink l \<Rightarrow> True | _ \<Rightarrow> False) | None \<Rightarrow> False) [1..<length p]"

text \<open>\<^verbatim>\<open>os.Remove\<close> unlinks a file or an empty directory.\<close>

definition g_Remove :: "gpath \<Rightarrow> unit gio" where
  "g_Remove p = gcall (\<lambda>g.
     (if through_link g p then (Inl (Msg ''symbolic link''), g)
      else if map_of (g_names g) p = None then (Inl (Sys ENOENT), g)
      else if list_ex (\<lambda>(q, i). strict_prefix p q) (g_names g) then (Inl (Sys ENOTEMPTY), g)
      else (Inr (), drop_names (\<lambda>q. q = p) (touch_parent p g))))"

definition g_RemoveAll :: "gpath \<Rightarrow> unit gio" where
  "g_RemoveAll p = gcall (\<lambda>g.
     (if map_of (g_names g) p = None then (Inr (), g) else (Inr (), drop_names (prefix p) (touch_parent p g))))"

text \<open>\<^verbatim>\<open>filepath.Glob\<close> of a directory and a name that begins with a text. It ignores an error of the system calls by which it
  reads the directory: the entries it has not seen by then are not among its matches, and nobody is told.\<close>

definition dir_entries :: "gpath \<Rightarrow> guest \<Rightarrow> string list" where
  "dir_entries dir g = map last (filter (\<lambda>p. p \<noteq> [] \<and> butlast p = dir) (map fst (g_names g)))"

definition g_Readdirnames :: "gpath \<Rightarrow> guest \<Rightarrow> string list" where
  "g_Readdirnames dir g =
     (case g_scan g (g_steps g) of None \<Rightarrow> dir_entries dir g | Some k \<Rightarrow> take k (dir_entries dir g))"

definition g_Glob :: "gpath \<Rightarrow> string \<Rightarrow> gpath list gio" where
  "g_Glob dir pre g =
     (if through_link g (dir @ [pre]) then Inl (Msg ''symbolic link'')
      else Inr (map (\<lambda>name. dir @ [name]) (filter (prefix pre) (sort (g_Readdirnames dir g)))),
      g\<lparr>g_steps := Suc (g_steps g)\<rparr>)"

fun remove_matches :: "gpath list \<Rightarrow> unit gio" where
  "remove_matches [] = greturn ()"
| "remove_matches (p # ps) =
     gtry (g_Remove p) (\<lambda>_. remove_matches ps)
       (\<lambda>e. if errors_Is e ENOENT then remove_matches ps else gfail (Wrap ''remove SSH host key'' e))"

text \<open>\<^verbatim>\<open>os.WriteFile(p, nil, mode)\<close> at a free path.\<close>

definition g_WriteEmpty :: "gpath \<Rightarrow> nat \<Rightarrow> unit gio" where
  "g_WriteEmpty p mode = gthen (g_create p (FReg []) mode) (gread ())"

definition sanitizeIdentity :: "unit gio" where
  "sanitizeIdentity =
     gbind (g_Glob (targetDir @ [''etc'', ''ssh'']) ''ssh_host_'') (\<lambda>matches.
     gthen (remove_matches matches)
     (let machineID = targetDir @ [''etc'', ''machine-id'']; dbus = targetDir @ [''var'', ''lib'', ''dbus'', ''machine-id''] in
      gthen (gwrap ''create machine-id directory'' (g_MkdirAll (butlast machineID) 493))
      (gthen (gwrap ''replace machine-id'' (g_RemoveAll machineID))
      (gthen (gwrap ''sanitize machine-id'' (g_WriteEmpty machineID 420))
      (gthen (gwrap ''chown machine-id'' (g_update machineID (chown_attrs 0 0)))
      (gtry (g_Remove dbus) greturn
        (\<lambda>e. if errors_Is e ENOENT then greturn () else gfail (Wrap ''sanitize dbus machine-id'' e))))))))"

fun copy_root :: "(string \<times> stree) list \<Rightarrow> copier \<Rightarrow> copier gio" where
  "copy_root [] c = greturn c"
| "copy_root ((name, source) # es) c =
     (if name \<in> set system_names
      then gthen (gwrap ''create empty system directory'' (g_MkdirAll (targetDir @ [name]) 493)) (copy_root es c)
      else gbind (copyEntry source (targetDir @ [name]) c) (\<lambda>c. copy_root es c))"

definition g_mount :: "string \<Rightarrow> unit gio" where
  "g_mount d = gcall (\<lambda>g. (Inr (), g\<lparr>g_mounts := d # g_mounts g\<rparr>))"

definition g_unmount :: "string \<Rightarrow> unit gio" where
  "g_unmount d = gcall (\<lambda>g. (if d \<in> set (g_mounts g) then (Inr (), g\<lparr>g_mounts := remove1 d (g_mounts g)\<rparr>) else (Inl (Sys EINVAL), g)))"

text \<open>\<^verbatim>\<open>run\<close>. The deferred unmount of the target happens only when it is still mounted.\<close>

definition copy_image :: "(string \<times> stree) list \<Rightarrow> unit gio" where
  "copy_image entries =
     gthen (gwrap ''read OCI rootfs'' (gread ()))
     (gthen (copy_root entries (\<lambda>_. None))
     sanitizeIdentity)"

definition run_helper :: "(string \<times> stree) list \<Rightarrow> unit gio" where
  "run_helper entries =
     gthen (gwrap ''create source mountpoint'' (gread ()))
     (gthen (gwrap ''create target mountpoint'' (gread ()))
     (gthen (gwrap ''mount OCI rootfs'' (g_mount ''/source''))
     (gdefer
       (gthen (gwrap ''mount ext4 target'' (g_mount ''/target''))
       (gtry
         (gthen (copy_image entries) (gwrap ''unmount ext4 target'' (g_unmount ''/target'')))
         (\<lambda>_. gwrap ''unmount OCI rootfs'' (g_unmount ''/source''))
         (\<lambda>e. gthen (gtry (g_unmount ''/target'') greturn (\<lambda>_. greturn ())) (gfail e))))
       (g_unmount ''/source''))))"

text \<open>\<^verbatim>\<open>main\<close>: the exit status and what is printed to standard output. \<^verbatim>\<open>vm.Pack\<close> accepts the disk when the status is zero and the
  output has the marker.\<close>

definition helper_main :: "(string \<times> stree) list \<Rightarrow> guest \<Rightarrow> (int \<times> string) \<times> guest" where
  "helper_main entries g =
     (case run_helper entries g of
        (Inr u, g') \<Rightarrow> ((0, ''DEVD_IMAGE_COMPLETE'' @ [CHR 0x0A]), g')
      | (Inl e, g') \<Rightarrow> ((1, []), g'))"

end
