(* ===== verification/ImageHelperLaws.thy ===== *)
theory ImageHelperLaws
  imports ImageHelper
begin

text \<open>
  What the image helper leaves on the disk: every file of the image with its type and metadata, files that share an
  inode still sharing one, and nothing of the image's machine identity.
\<close>

named_theorems gok \<open>when a command of the image helper succeeds\<close>

section \<open>Successful runs\<close>

lemma gtry_ok:
  assumes "gtry m f h g = (Inr y, g')"
  obtains (ok) x g1 where "m g = (Inr x, g1)" "f x g1 = (Inr y, g')"
    | (failed) e g1 where "m g = (Inl e, g1)" "h e g1 = (Inr y, g')"
  using assms by (auto simp: gtry_def split: prod.splits sum.splits)

lemma gbind_ok [gok]: "gbind m f g = (Inr y, g') \<longleftrightarrow> (\<exists>x g1. m g = (Inr x, g1) \<and> f x g1 = (Inr y, g'))"
  by (auto simp: gbind_def gtry_def gfail_def split: prod.splits sum.splits)

lemma gthen_ok [gok]: "gthen m k g = (Inr y, g') \<longleftrightarrow> (\<exists>x g1. m g = (Inr x, g1) \<and> k g1 = (Inr y, g'))"
  by (auto simp: gthen_def gbind_ok)

lemma gwrap_ok [gok]: "gwrap s m g = (Inr y, g') \<longleftrightarrow> m g = (Inr y, g')"
  by (auto simp: gwrap_def gtry_def gfail_def greturn_def split: prod.splits sum.splits)

lemma greturn_ok [gok]: "greturn x g = (Inr y, g') \<longleftrightarrow> y = x \<and> g' = g"
  by (auto simp: greturn_def)

lemma gfail_ok [gok]: "gfail e g \<noteq> (Inr y, g')"
  by (simp add: gfail_def)

lemma gread_ok [gok]:
  "gread x g = (Inr y, g') \<longleftrightarrow> g_fault g (g_steps g) = None \<and> y = x \<and> g' = g\<lparr>g_steps := Suc (g_steps g)\<rparr>"
  by (auto simp: gread_def gcall_def Let_def split: option.splits)

lemma gread_any: "\<exists>k. snd (gread x g) = g\<lparr>g_steps := k\<rparr>"
  by (auto simp: gread_def gcall_def Let_def split: option.splits)

lemma gdefer_ok [gok]:
  "gdefer m c g = (Inr y, g') \<longleftrightarrow> (\<exists>g1. m g = (Inr y, g1) \<and> g' = snd (c g1))"
  by (auto simp: gdefer_def split: prod.splits)

section \<open>Names and inodes\<close>

lemma node_of_steps [simp]: "node_of (g\<lparr>g_steps := k\<rparr>) = node_of g"
  by (simp add: node_of_def fun_eq_iff)

lemma is_gdir_steps [simp]: "is_gdir (g\<lparr>g_steps := k\<rparr>) = is_gdir g"
  by (simp add: is_gdir_def fun_eq_iff)

lemma set_inode_sel [simp]:
  "g_names (set_inode i f g) = g_names g"
  "g_fault (set_inode i f g) = g_fault g" "g_scan (set_inode i f g) = g_scan g"
  "g_next (set_inode i f g) = g_next g"
  "g_inodes (set_inode i f g) = (g_inodes g)(i := f (g_inodes g i))"
  "g_now (set_inode i f g) = g_now g"
  "g_steps (set_inode i f g) = g_steps g"
  "g_mounts (set_inode i f g) = g_mounts g"
  by (simp_all add: set_inode_def)

lemma set_inode_comp: "set_inode i h (set_inode i f g) = set_inode i (h \<circ> f) g"
  by (simp add: set_inode_def)

lemma set_inode_steps: "set_inode i f (g\<lparr>g_steps := k\<rparr>) = (set_inode i f g)\<lparr>g_steps := k\<rparr>"
  by (simp add: set_inode_def)

lemma touch_parent_sel [simp]:
  "g_names (touch_parent p g) = g_names g"
  "g_fault (touch_parent p g) = g_fault g" "g_scan (touch_parent p g) = g_scan g"
  "g_next (touch_parent p g) = g_next g"
  "g_mounts (touch_parent p g) = g_mounts g"
  by (simp_all add: touch_parent_def split: option.splits)

text \<open>One path's inode changed by a function, in any number of calls.\<close>

definition upd :: "gpath \<Rightarrow> (inode \<Rightarrow> inode) \<Rightarrow> guest \<Rightarrow> guest \<Rightarrow> bool" where
  "upd p f g g' \<longleftrightarrow> (\<exists>i k. map_of (g_names g) p = Some i \<and> g' = (set_inode i f g)\<lparr>g_steps := k\<rparr>)"

lemma upd_id: "map_of (g_names g) p = Some i \<Longrightarrow> upd p (\<lambda>n. n) g (g\<lparr>g_steps := k\<rparr>)"
  by (auto simp: upd_def set_inode_def)

lemma upd_steps:
  "upd p f g g' \<Longrightarrow> upd p f (g\<lparr>g_steps := k\<rparr>) g'"
  "upd p f g g' \<Longrightarrow> upd p f g (g'\<lparr>g_steps := k\<rparr>)"
  by (auto simp: upd_def set_inode_def) 

lemma upd_trans: "upd p f g g1 \<Longrightarrow> upd p h g1 g' \<Longrightarrow> upd p (\<lambda>n. h (f n)) g g'"
  by (auto simp: upd_def set_inode_steps set_inode_comp comp_def)

lemma upd_names: "upd p f g g' \<Longrightarrow> g_names g' = g_names g"
  by (auto simp: upd_def)

lemma upd_node: "upd p f g g' \<Longrightarrow> \<exists>n. node_of g p = Some n \<and> node_of g' p = Some (f n)"
  by (auto simp: upd_def node_of_def)

lemma g_update_ok:
  assumes "g_update p f g = (Inr y, g')"
  shows "upd p f g g'"
  using assms
  by (auto simp: g_update_def gcall_def Let_def upd_def set_inode_steps split: option.splits)

section \<open>Metadata\<close>

text \<open>What an inode has to be for a file of the source.\<close>

definition xattrs_copied :: "attrs \<Rightarrow> attrs \<Rightarrow> bool" where
  "xattrs_copied st a \<longleftrightarrow>
     (\<forall>k. map_of (at_xattrs a) k = (if xattr_wanted k then map_of (at_xattrs st) k else None))"

definition copy_of :: "stree \<Rightarrow> inode \<Rightarrow> bool" where
  "copy_of s n \<longleftrightarrow>
     (let st = sn_attrs s; a = in_attrs n in
      in_type n = sn_type s \<and> at_uid a = at_uid st \<and> at_gid a = at_gid st \<and>
      ((\<forall>l. sn_type s \<noteq> FLink l) \<longrightarrow> at_mode a = at_mode st) \<and>
      at_atime a = at_atime st \<and> at_mtime a = at_mtime st \<and> xattrs_copied st a)"

text \<open>Names of extended attributes have no zero byte.\<close>

definition xattr_names_ok :: "attrs \<Rightarrow> bool" where
  "xattr_names_ok st \<longleftrightarrow> (\<forall>(k, v)\<in>set (at_xattrs st). CHR 0x00 \<notin> set k)"

definition only_xattrs :: "(inode \<Rightarrow> inode) \<Rightarrow> bool" where
  "only_xattrs f \<longleftrightarrow> (\<forall>n. f n = n\<lparr>in_attrs := (in_attrs n)\<lparr>at_xattrs := at_xattrs (in_attrs (f n))\<rparr>\<rparr>)"

lemma only_xattrs_comp: "only_xattrs f \<Longrightarrow> only_xattrs h \<Longrightarrow> only_xattrs (\<lambda>n. h (f n))"
  unfolding only_xattrs_def
proof
  fix n
  assume f: "\<forall>n. f n = n\<lparr>in_attrs := (in_attrs n)\<lparr>at_xattrs := at_xattrs (in_attrs (f n))\<rparr>\<rparr>"
    and h: "\<forall>n. h n = n\<lparr>in_attrs := (in_attrs n)\<lparr>at_xattrs := at_xattrs (in_attrs (h n))\<rparr>\<rparr>"
  have "h (f n) = (f n)\<lparr>in_attrs := (in_attrs (f n))\<lparr>at_xattrs := at_xattrs (in_attrs (h (f n)))\<rparr>\<rparr>"
    using h by blast
  also have "\<dots> = n\<lparr>in_attrs := (in_attrs n)\<lparr>at_xattrs := at_xattrs (in_attrs (h (f n)))\<rparr>\<rparr>"
    by (subst (1 2) f[rule_format, of n]) simp
  finally show "h (f n) = n\<lparr>in_attrs := (in_attrs n)\<lparr>at_xattrs := at_xattrs (in_attrs (h (f n)))\<rparr>\<rparr>" .
qed

lemma only_xattrs_id: "only_xattrs (\<lambda>n. n)"
  by (simp add: only_xattrs_def)

lemma only_xattrs_set: "only_xattrs (set_xattr k v)"
  by (simp add: only_xattrs_def set_xattr_def)

lemma map_of_set_xattr:
  "map_of (at_xattrs (in_attrs (set_xattr k v n))) = (map_of (at_xattrs (in_attrs n)))(k \<mapsto> v)"
proof
  fix j
  have "j \<noteq> k \<Longrightarrow> map_of (filter (\<lambda>(j, u). j \<noteq> k) xs) j = map_of xs j" for xs :: "(string \<times> string) list"
    by (induction xs) auto
  then show "map_of (at_xattrs (in_attrs (set_xattr k v n))) j = ((map_of (at_xattrs (in_attrs n)))(k \<mapsto> v)) j"
    by (simp add: set_xattr_def)
qed

lemma copy_xattr_ok:
  assumes "copy_xattr s p name g = (Inr y, g')"
  shows "\<exists>v. map_of (at_xattrs (sn_attrs s)) name = Some v \<and> upd p (set_xattr name v) g g'"
  using assms
  by (auto simp: copy_xattr_def gok upd_def set_inode_def split: option.splits if_splits dest!: g_update_ok)

lemma copy_xattr_names_ok:
  assumes "copy_xattr_names s p names g = (Inr y, g')" "map_of (g_names g) p \<noteq> None"
  shows "\<exists>f. upd p f g g' \<and> only_xattrs f \<and>
    (\<forall>n k. map_of (at_xattrs (in_attrs (f n))) k =
       (if k \<in> set names \<and> xattr_wanted k then map_of (at_xattrs (sn_attrs s)) k else map_of (at_xattrs (in_attrs n)) k))"
  using assms
proof (induction names arbitrary: g)
  case Nil
  then show ?case
    using upd_id[of g p _ "g_steps g"] only_xattrs_id by (auto simp: gok)
next
  case (Cons name names)
  show ?case
  proof (cases "xattr_wanted name")
    case False
    with Cons.prems Cons.IH[of g] obtain f where f: "upd p f g g'" "only_xattrs f"
      "\<forall>n k. map_of (at_xattrs (in_attrs (f n))) k =
       (if k \<in> set names \<and> xattr_wanted k then map_of (at_xattrs (sn_attrs s)) k else map_of (at_xattrs (in_attrs n)) k)"
      by auto
    then show ?thesis using False by (intro exI[of _ f]) auto
  next
    case True
    with Cons.prems obtain y1 g1 where g1: "copy_xattr s p name g = (Inr y1, g1)" "copy_xattr_names s p names g1 = (Inr y, g')"
      by (auto simp: gok)
    from copy_xattr_ok[OF g1(1)] obtain v where v: "map_of (at_xattrs (sn_attrs s)) name = Some v" "upd p (set_xattr name v) g g1"
      by blast
    have "map_of (g_names g1) p \<noteq> None" using Cons.prems(2) upd_names[OF v(2)] by simp
    from Cons.IH[OF g1(2) this] obtain f where f: "upd p f g1 g'" "only_xattrs f"
      "\<forall>n k. map_of (at_xattrs (in_attrs (f n))) k =
       (if k \<in> set names \<and> xattr_wanted k then map_of (at_xattrs (sn_attrs s)) k else map_of (at_xattrs (in_attrs n)) k)"
      by blast
    have "only_xattrs (\<lambda>n. f (set_xattr name v n))" by (rule only_xattrs_comp[OF only_xattrs_set f(2)])
    with upd_trans[OF v(2) f(1)] show ?thesis
      using f(3) v(1) True by (intro exI[of _ "\<lambda>n. f (set_xattr name v n)"] conjI) (auto simp: map_of_set_xattr)
  qed
qed

lemma split_xattr_list:
  assumes "xattr_names_ok (sn_attrs s)"
  shows "strings_Split (xattr_list s) (CHR 0x00) = map fst (at_xattrs (sn_attrs s)) @ [[]]"
proof -
  have "\<forall>(k, v)\<in>set xs. CHR 0x00 \<notin> set k \<Longrightarrow>
    strings_Split (concat (map (\<lambda>(k, v). k @ [CHR 0x00]) xs)) (CHR 0x00) = map fst xs @ [[]]" for xs :: "(string \<times> string) list"
    by (induction xs) (auto simp: strings_Split_append)
  then show ?thesis using assms by (simp add: xattr_list_def xattr_names_ok_def)
qed

text \<open>The codes that the program takes for an answer are never given for another reason.\<close>

definition honest :: "guest \<Rightarrow> bool" where
  "honest g \<longleftrightarrow> (\<forall>k. g_fault g k \<notin> {Some ENOENT, Some EEXIST, Some ENOTSUP, Some ENODATA})"

lemma honest_steps [simp]: "honest (g\<lparr>g_steps := k\<rparr>) = honest g"
  by (simp add: honest_def)

lemma honest_upd: "upd p f g g' \<Longrightarrow> honest g' = honest g"
  by (auto simp: upd_def honest_def)

lemma copyXattrs_ok:
  assumes run: "copyXattrs s p g = (Inr y, g')" and g: "honest g" "map_of (g_names g) p \<noteq> None"
    and ok: "xattr_names_ok (sn_attrs s)"
  shows "\<exists>f. upd p f g g' \<and> only_xattrs f \<and>
    (\<forall>n k. map_of (at_xattrs (in_attrs (f n))) k =
       (if xattr_wanted k \<and> map_of (at_xattrs (sn_attrs s)) k \<noteq> None then map_of (at_xattrs (sn_attrs s)) k
        else map_of (at_xattrs (in_attrs n)) k))"
  using run[unfolded copyXattrs_def]
proof (cases rule: gtry_ok)
  case (failed e g1)
  with g(1) show ?thesis
    by (auto simp: gread_def gcall_def Let_def honest_def gok split: option.splits if_splits)
next
  case (ok size g1)
  then have g1: "g1 = g\<lparr>g_steps := Suc (g_steps g)\<rparr>" "size = length (xattr_list s)" by (auto simp: gok)
  show ?thesis
  proof (cases "xattr_list s = []")
    case True
    then have "at_xattrs (sn_attrs s) = []" by (cases "at_xattrs (sn_attrs s)") (auto simp: xattr_list_def)
    moreover have "g' = g1" using ok(2) True g1 by (simp add: gok)
    ultimately show ?thesis
      using g(2) g1(1) upd_id[of g p] only_xattrs_id by auto
  next
    case False
    with ok(2) g1 obtain g2 k where g2: "g2 = g\<lparr>g_steps := k\<rparr>"
      "copy_xattr_names s p (strings_Split (xattr_list s) (CHR 0x00)) g2 = (Inr y, g')"
      by (auto simp: gok)
    from copy_xattr_names_ok[OF this(2)] g2(1) g(2) obtain f where f: "upd p f g2 g'" "only_xattrs f"
      "\<forall>n k. map_of (at_xattrs (in_attrs (f n))) k =
       (if k \<in> set (map fst (at_xattrs (sn_attrs s)) @ [[]]) \<and> xattr_wanted k then map_of (at_xattrs (sn_attrs s)) k
        else map_of (at_xattrs (in_attrs n)) k)"
      by (auto simp: split_xattr_list[OF assms(4)])
    have "upd p f g g'" using upd_steps(1)[OF f(1), of "g_steps g"] g2(1) by simp
    then show ?thesis using f(2,3)
      by (intro exI[of _ f]) (auto simp: map_of_eq_None_iff xattr_wanted_def)
  qed
qed

lemma applyMetadata_ok:
  assumes run: "applyMetadata s p symlink g = (Inr y, g')" and g: "honest g" and ok: "xattr_names_ok (sn_attrs s)"
    and sym: "symlink \<longleftrightarrow> (\<exists>l. sn_type s = FLink l)"
  shows "\<exists>f. upd p f g g' \<and>
    (\<forall>n. in_type n = sn_type s \<and> at_xattrs (in_attrs n) = [] \<longrightarrow> copy_of s (f n))"
proof -
  let ?st = "sn_attrs s"
  let ?chmod = "\<lambda>n. if symlink then n else chmod_attrs (at_mode ?st) n"
  from run obtain y1 g1 y2 g2 y3 g3 where
    1: "g_update p (chown_attrs (at_uid ?st) (at_gid ?st)) g = (Inr y1, g1)" and
    2: "(if symlink then greturn () else gwrap ''chmod'' (g_update p (chmod_attrs (at_mode ?st)))) g1 = (Inr y2, g2)" and
    3: "g_update p (utimes_attrs (at_atime ?st) (at_mtime ?st)) g2 = (Inr y3, g3)" and
    4: "copyXattrs s p g3 = (Inr y, g')"
    unfolding applyMetadata_def Let_def by (auto simp: gok)
  note u1 = g_update_ok[OF 1] and u3 = g_update_ok[OF 3]
  obtain i where "map_of (g_names g1) p = Some i" using u1 upd_names[OF u1] by (auto simp: upd_def)
  then have u2: "upd p ?chmod g1 g2"
    using 2 upd_id[of g1 p i "g_steps g1"] by (cases symlink) (auto simp: gok dest: g_update_ok)
  note u = upd_trans[OF upd_trans[OF u1 u2] u3]
  have "map_of (g_names g3) p \<noteq> None" using u by (auto simp: upd_def)
  from copyXattrs_ok[OF 4 _ this ok] honest_upd[OF u] g obtain f where f: "upd p f g3 g'" "only_xattrs f"
    "\<forall>n k. map_of (at_xattrs (in_attrs (f n))) k =
       (if xattr_wanted k \<and> map_of (at_xattrs ?st) k \<noteq> None then map_of (at_xattrs ?st) k
        else map_of (at_xattrs (in_attrs n)) k)"
    by blast
  have c: "copy_of s (f n)" if n: "in_type n = sn_type s" "at_uid (in_attrs n) = at_uid ?st" "at_gid (in_attrs n) = at_gid ?st"
    "\<not> symlink \<longrightarrow> at_mode (in_attrs n) = at_mode ?st" "at_atime (in_attrs n) = at_atime ?st"
    "at_mtime (in_attrs n) = at_mtime ?st" "at_xattrs (in_attrs n) = []" for n
  proof -
    have "f n = n\<lparr>in_attrs := (in_attrs n)\<lparr>at_xattrs := at_xattrs (in_attrs (f n))\<rparr>\<rparr>"
      using f(2) unfolding only_xattrs_def by blast
    then obtain xs where xs: "f n = n\<lparr>in_attrs := (in_attrs n)\<lparr>at_xattrs := xs\<rparr>\<rparr>" by blast
    moreover have "map_of xs k = (if xattr_wanted k then map_of (at_xattrs ?st) k else None)" for k
      using f(3)[rule_format, of n k] n(7) xs by auto
    ultimately show ?thesis using n sym by (auto simp: copy_of_def xattrs_copied_def)
  qed
  show ?thesis
    by (rule exI, rule conjI, rule upd_trans[OF u f(1)])
      (auto simp: utimes_attrs_def chmod_attrs_def chown_attrs_def intro!: c)
qed

section \<open>The files of an image\<close>

text \<open>The files of a tree that are copied to a path, each with its own path. Sockets are left out.\<close>

fun image_files :: "stree \<Rightarrow> gpath \<Rightarrow> (gpath \<times> stree) list"
  and image_entries :: "(string \<times> stree) list \<Rightarrow> gpath \<Rightarrow> (gpath \<times> stree) list" where
  "image_files (SNode key ty st es) p =
     (if ty = FSock then [] else (p, SNode key ty st es) # (if ty = FDir then image_entries es p else []))"
| "image_entries [] p = []"
| "image_entries ((name, s) # es) p = image_files s (p @ [name]) @ image_entries es p"

fun is_reg :: "stree \<Rightarrow> bool" where
  "is_reg (SNode key ty st es) = (case ty of FReg data \<Rightarrow> True | _ \<Rightarrow> False)"

text \<open>A directory has different names for its entries; one inode has one content and one set of attributes.\<close>

fun tree_ok :: "stree \<Rightarrow> bool"
  and entries_ok :: "(string \<times> stree) list \<Rightarrow> bool" where
  "tree_ok (SNode key ty st es) = (xattr_names_ok st \<and> (ty = FDir \<longrightarrow> entries_ok es))"
| "entries_ok [] = True"
| "entries_ok ((name, s) # es) = (name \<notin> fst ` set es \<and> tree_ok s \<and> entries_ok es)"

definition coherent :: "(gpath \<times> stree) set \<Rightarrow> bool" where
  "coherent F \<longleftrightarrow> (\<forall>(q, s)\<in>F. \<forall>(q', s')\<in>F.
     is_reg s \<and> is_reg s' \<and> sn_key s = sn_key s' \<longrightarrow> sn_type s = sn_type s' \<and> sn_attrs s = sn_attrs s')"

lemma coherent_mono: "coherent F \<Longrightarrow> D \<subseteq> F \<Longrightarrow> coherent D"
  unfolding coherent_def by blast

lemma image_prefix:
  "(q, s) \<in> set (image_files t p) \<Longrightarrow> prefix p q"
  "(q, s) \<in> set (image_entries es p) \<Longrightarrow> \<exists>(name, t)\<in>set es. prefix (p @ [name]) q"
  by (induction t p and es p rule: image_files_image_entries.induct) 
    (auto split: if_splits dest: append_prefixD)

section \<open>The invariant of the copier\<close>

text \<open>\<open>D\<close>: the files copied so far.\<close>

definition copy_inv :: "(gpath \<times> stree) set \<Rightarrow> copier \<Rightarrow> guest \<Rightarrow> bool" where
  "copy_inv D c g \<longleftrightarrow>
     (\<forall>q i. map_of (g_names g) q = Some i \<longrightarrow> i < g_next g) \<and>
     (\<forall>(q, s)\<in>D. \<exists>n. node_of g q = Some n \<and> copy_of s n) \<and>
     (\<forall>key f. c key = Some f \<longrightarrow> (\<exists>s. (f, s) \<in> D \<and> is_reg s \<and> sn_key s = key)) \<and>
     (\<forall>(q, s)\<in>D. is_reg s \<longrightarrow> (\<exists>f. c (sn_key s) = Some f \<and> map_of (g_names g) f = map_of (g_names g) q)) \<and>
     (\<forall>q q' i. map_of (g_names g) q = Some i \<and> map_of (g_names g) q' = Some i \<longrightarrow>
        q = q' \<or> (\<exists>s s'. (q, s) \<in> D \<and> (q', s') \<in> D \<and> is_reg s \<and> is_reg s' \<and> sn_key s = sn_key s')) \<and>
     (\<forall>q s s'. (q, s) \<in> D \<and> (q, s') \<in> D \<longrightarrow> s = s')"

definition done_paths :: "(gpath \<times> stree) set \<Rightarrow> gpath set" where
  "done_paths D = fst ` D"

lemma copy_invD:
  assumes "copy_inv D c g"
  shows "map_of (g_names g) q = Some i \<Longrightarrow> i < g_next g"
    and "(q, s) \<in> D \<Longrightarrow> \<exists>n. node_of g q = Some n \<and> copy_of s n"
    and "c key = Some f \<Longrightarrow> \<exists>s. (f, s) \<in> D \<and> is_reg s \<and> sn_key s = key"
    and "(q, s) \<in> D \<Longrightarrow> is_reg s \<Longrightarrow> \<exists>f. c (sn_key s) = Some f \<and> map_of (g_names g) f = map_of (g_names g) q"
    and "map_of (g_names g) q = Some i \<Longrightarrow> map_of (g_names g) q' = Some i \<Longrightarrow>
      q = q' \<or> (\<exists>s s'. (q, s) \<in> D \<and> (q', s') \<in> D \<and> is_reg s \<and> is_reg s' \<and> sn_key s = sn_key s')"
    and "(q, s) \<in> D \<Longrightarrow> (q, s') \<in> D \<Longrightarrow> s = s'"
  using assms unfolding copy_inv_def by blast+

lemma copy_inv_steps [simp]: "copy_inv D c (g\<lparr>g_steps := k\<rparr>) = copy_inv D c g"
  by (simp add: copy_inv_def)

text \<open>A path that is not done has an inode of its own.\<close>

lemma own_inode:
  assumes "copy_inv D c g" "map_of (g_names g) p = Some i" "p \<notin> done_paths D" "map_of (g_names g) q = Some i"
  shows "q = p"
  using copy_invD(5)[OF assms(1,2,4)] assms(3) by (auto simp: done_paths_def rev_image_eqI)

lemma upd_other:
  assumes "copy_inv D c g" "upd p f g g'" "p \<notin> done_paths D" "q \<noteq> p"
  shows "node_of g' q = node_of g q"
proof -
  obtain i k where i: "map_of (g_names g) p = Some i" "g' = (set_inode i f g)\<lparr>g_steps := k\<rparr>"
    using assms(2) by (auto simp: upd_def)
  have "map_of (g_names g) q \<noteq> Some i" using own_inode[OF assms(1) i(1) assms(3)] assms(4) by blast
  then show ?thesis using i(2) by (cases "map_of (g_names g) q") (auto simp: node_of_def)
qed

lemma copy_inv_upd:
  assumes inv: "copy_inv D c g" and u: "upd p f g g'" and p: "p \<notin> done_paths D"
  shows "copy_inv D c g'"
proof -
  have n: "g_names g' = g_names g" "g_next g' = g_next g" using u by (auto simp: upd_def)
  have "\<exists>n. node_of g' q = Some n \<and> copy_of s n" if "(q, s) \<in> D" for q s
  proof -
    have "q \<noteq> p" using that p by (force simp: done_paths_def)
    then show ?thesis using copy_invD(2)[OF inv that] upd_other[OF inv u p] by simp
  qed
  then show ?thesis using inv n by (simp add: copy_inv_def) blast
qed

text \<open>A file that is finished.\<close>

lemma copy_inv_finish:
  assumes inv: "copy_inv D c g" and p: "p \<notin> done_paths D" and n: "node_of g p = Some n" "copy_of t n"
  shows "\<not> is_reg t \<Longrightarrow> copy_inv (insert (p, t) D) c g"
    and "is_reg t \<Longrightarrow> c (sn_key t) = None \<Longrightarrow> copy_inv (insert (p, t) D) (c(sn_key t \<mapsto> p)) g"
proof -
  have only: "(p, s) \<notin> D" for s using p by (force simp: done_paths_def)
  show "copy_inv (insert (p, t) D) c g" if "\<not> is_reg t"
    using inv that n only by (simp add: copy_inv_def) blast
  show "copy_inv (insert (p, t) D) (c(sn_key t \<mapsto> p)) g" if t: "is_reg t" "c (sn_key t) = None"
  proof -
    have k: "sn_key s \<noteq> sn_key t" if "(q, s) \<in> D" "is_reg s" for q s
      using copy_invD(4)[OF inv that] t(2) by auto
    show ?thesis unfolding copy_inv_def
    proof (intro conjI)
      show "\<forall>(q, s)\<in>insert (p, t) D. is_reg s \<longrightarrow>
          (\<exists>f. (c(sn_key t \<mapsto> p)) (sn_key s) = Some f \<and> map_of (g_names g) f = map_of (g_names g) q)"
        using k copy_invD(4)[OF inv] by fastforce
      show "\<forall>key f. (c(sn_key t \<mapsto> p)) key = Some f \<longrightarrow> (\<exists>s. (f, s) \<in> insert (p, t) D \<and> is_reg s \<and> sn_key s = key)"
        using copy_invD(3)[OF inv] t(1) by (auto split: if_splits) blast
      show "\<forall>q q' i. map_of (g_names g) q = Some i \<and> map_of (g_names g) q' = Some i \<longrightarrow> q = q' \<or>
          (\<exists>s s'. (q, s) \<in> insert (p, t) D \<and> (q', s') \<in> insert (p, t) D \<and> is_reg s \<and> is_reg s' \<and> sn_key s = sn_key s')"
        using copy_invD(5)[OF inv] by blast
    qed (use copy_invD(1,2,6)[OF inv] n only in auto)
  qed
qed

section \<open>What a call leaves alone\<close>

text \<open>New names \<open>N\<close>; of the old ones only the directory \<open>d\<close> changes, in its modification time.\<close>

definition grown :: "gpath \<Rightarrow> gpath set \<Rightarrow> guest \<Rightarrow> guest \<Rightarrow> bool" where
  "grown d N g g' \<longleftrightarrow>
     g_fault g' = g_fault g \<and> g_scan g' = g_scan g \<and> g_mounts g' = g_mounts g \<and>
     dom (map_of (g_names g')) = dom (map_of (g_names g)) \<union> N \<and>
     (\<forall>q. map_of (g_names g) q \<noteq> None \<longrightarrow> map_of (g_names g') q = map_of (g_names g) q) \<and>
     (\<forall>q. map_of (g_names g) q \<noteq> None \<and> q \<noteq> d \<longrightarrow> node_of g' q = node_of g q) \<and>
     (\<exists>m. node_of g' d = map_option (set_mtime m) (node_of g d))"

lemma set_mtime_same: "set_mtime (at_mtime (in_attrs n)) n = n"
  by (simp add: set_mtime_def)

lemma set_mtime_twice [simp]: "set_mtime a (set_mtime b n) = set_mtime a n"
  by (simp add: set_mtime_def)

lemma set_mtime_sel [simp]:
  "in_type (set_mtime m n) = in_type n"
  "at_xattrs (in_attrs (set_mtime m n)) = at_xattrs (in_attrs n)"
  by (simp_all add: set_mtime_def)

lemma grown_refl: "grown d {} g (g\<lparr>g_steps := k\<rparr>)"
proof -
  have "\<exists>m. node_of g d = map_option (set_mtime m) (node_of g d)"
    by (cases "node_of g d") (auto intro: set_mtime_same[symmetric])
  then show ?thesis by (simp add: grown_def)
qed

lemma grown_trans:
  assumes 1: "grown d N g g1" and 2: "grown d M g1 g2"
  shows "grown d (N \<union> M) g g2"
proof -
  have "dom (map_of (g_names g1)) = dom (map_of (g_names g)) \<union> N" using 1 by (simp add: grown_def)
  then have sub: "map_of (g_names g) q \<noteq> None \<Longrightarrow> map_of (g_names g1) q \<noteq> None" for q by blast
  obtain a where a: "node_of g1 d = map_option (set_mtime a) (node_of g d)" using 1 by (auto simp: grown_def)
  obtain b where b: "node_of g2 d = map_option (set_mtime b) (node_of g1 d)" using 2 by (auto simp: grown_def)
  have "node_of g2 d = map_option (set_mtime b) (node_of g d)"
    using a b by (cases "node_of g d") auto
  then show ?thesis using 1 2 sub by (auto simp: grown_def)
qed

lemma grown_steps [simp]:
  "grown d N g (g'\<lparr>g_steps := k\<rparr>) = grown d N g g'"
  "grown d N (g\<lparr>g_steps := k\<rparr>) g' = grown d N g g'"
  by (simp_all add: grown_def)

lemma is_gdir_grown: "grown d N g g' \<Longrightarrow> is_gdir g q \<Longrightarrow> is_gdir g' q"
proof -
  assume g: "grown d N g g'" and q: "is_gdir g q"
  then obtain n where n: "node_of g q = Some n" "in_type n = FDir" by (auto simp: is_gdir_def split: option.splits)
  then have "map_of (g_names g) q \<noteq> None" by (auto simp: node_of_def)
  with g n show "is_gdir g' q" by (cases "q = d") (auto simp: grown_def is_gdir_def)
qed

lemma honest_grown: "grown d N g g' \<Longrightarrow> honest g' = honest g"
  by (auto simp: grown_def honest_def)

lemma butlast_neq: "p \<noteq> [] \<Longrightarrow> butlast p \<noteq> p"
  by (metis append_butlast_last_id append_self_conv not_Cons_self2)

lemma add_name_sel [simp]:
  "g_names (add_name p i g) = (p, i) # g_names g"
  "g_fault (add_name p i g) = g_fault g" "g_scan (add_name p i g) = g_scan g"
  "g_next (add_name p i g) = g_next g"
  "g_mounts (add_name p i g) = g_mounts g"
  by (simp_all add: add_name_def)

lemma add_name_node:
  assumes inv: "copy_inv D c g" and d: "map_of (g_names g) (butlast p) = Some d" "butlast p \<notin> done_paths D"
    and p: "p \<noteq> []"
  shows "q \<noteq> p \<Longrightarrow> q \<noteq> butlast p \<Longrightarrow> node_of (add_name p i g) q = node_of g q"
    and "node_of (add_name p i g) (butlast p) = Some (set_mtime (g_now g (g_steps g)) (g_inodes g d))"
    and "i \<noteq> d \<Longrightarrow> node_of (add_name p i g) p = Some (g_inodes g i)"
proof -
  have e: "add_name p i g = (set_inode d (set_mtime (g_now g (g_steps g))) g)\<lparr>g_names := (p, i) # g_names g\<rparr>"
    using d(1) by (simp add: add_name_def touch_parent_def)
  show "node_of (add_name p i g) q = node_of g q" if "q \<noteq> p" "q \<noteq> butlast p"
    using own_inode[OF inv d(1) d(2), of q] that
    by (cases "map_of (g_names g) q") (auto simp: e node_of_def)
  show "node_of (add_name p i g) (butlast p) = Some (set_mtime (g_now g (g_steps g)) (g_inodes g d))"
    using d(1) butlast_neq[OF p] by (simp add: e node_of_def)
  show "i \<noteq> d \<Longrightarrow> node_of (add_name p i g) p = Some (g_inodes g i)"
    by (simp add: e node_of_def)
qed

lemma add_name_grown:
  assumes inv: "copy_inv D c g" and d: "is_gdir g (butlast p)" "butlast p \<notin> done_paths D"
    and p: "map_of (g_names g) p = None" "p \<noteq> []"
  shows "grown (butlast p) {p} g (add_name p i g)"
proof -
  obtain d where dd: "map_of (g_names g) (butlast p) = Some d"
    using d(1) by (auto simp: is_gdir_def node_of_def split: option.splits)
  note n = add_name_node[OF inv dd d(2) p(2)]
  have "node_of g (butlast p) = Some (g_inodes g d)" using dd by (simp add: node_of_def)
  then have "\<exists>m. node_of (add_name p i g) (butlast p) = map_option (set_mtime m) (node_of g (butlast p))"
    using n(2) by auto
  moreover have "node_of (add_name p i g) q = node_of g q" if "map_of (g_names g) q \<noteq> None" "q \<noteq> butlast p" for q
    using n(1) that p(1) by (cases "q = p") auto
  ultimately show ?thesis using p(1) by (auto simp: grown_def)
qed

lemma done_named: "copy_inv D c g \<Longrightarrow> (q, s) \<in> D \<Longrightarrow> map_of (g_names g) q \<noteq> None"
  using copy_invD(2) by (fastforce simp: node_of_def)

lemma add_name_done:
  assumes inv: "copy_inv D c g" and d: "is_gdir g (butlast p)" "butlast p \<notin> done_paths D"
    and p: "map_of (g_names g) p = None" "p \<noteq> []" and q: "(q, s) \<in> D"
  shows "\<exists>n. node_of (add_name p i g) q = Some n \<and> copy_of s n"
    and "map_of ((p, i) # g_names g) q = map_of (g_names g) q"
proof -
  note gr = add_name_grown[OF inv d p, of i]
  have "q \<noteq> butlast p" using d(2) q by (force simp: done_paths_def)
  then have "node_of (add_name p i g) q = node_of g q"
    using gr done_named[OF inv q] by (simp add: grown_def)
  then show "\<exists>n. node_of (add_name p i g) q = Some n \<and> copy_of s n" using copy_invD(2)[OF inv q] by simp
  show "map_of ((p, i) # g_names g) q = map_of (g_names g) q" using done_named[OF inv q] p(1) by auto
qed

lemma copy_inv_add_name:
  assumes inv: "copy_inv D c g" and d: "is_gdir g (butlast p)" "butlast p \<notin> done_paths D"
    and p: "map_of (g_names g) p = None" "p \<noteq> []"
    and i: "i < g_next g" "\<And>q. map_of (g_names g) q \<noteq> Some i"
  shows "copy_inv D c (add_name p i g)"
proof -
  note old = add_name_done[OF inv d p]
  show ?thesis unfolding copy_inv_def
  proof (intro conjI)
    show "\<forall>q j. map_of (g_names (add_name p i g)) q = Some j \<longrightarrow> j < g_next (add_name p i g)"
      using copy_invD(1)[OF inv] i(1) by auto
    show "\<forall>(q, s)\<in>D. is_reg s \<longrightarrow>
        (\<exists>f. c (sn_key s) = Some f \<and> map_of (g_names (add_name p i g)) f = map_of (g_names (add_name p i g)) q)"
    proof safe
      fix q u assume "(q, u) \<in> D" "is_reg u"
      with copy_invD(3,4)[OF inv] old(2)
      show "\<exists>f. c (sn_key u) = Some f \<and> map_of (g_names (add_name p i g)) f = map_of (g_names (add_name p i g)) q"
        by (metis add_name_sel(1))
    qed
    show "\<forall>q q' j. map_of (g_names (add_name p i g)) q = Some j \<and> map_of (g_names (add_name p i g)) q' = Some j \<longrightarrow>
        q = q' \<or> (\<exists>s s'. (q, s) \<in> D \<and> (q', s') \<in> D \<and> is_reg s \<and> is_reg s' \<and> sn_key s = sn_key s')"
      using copy_invD(5)[OF inv] i(2) by (auto split: if_splits)
  qed (use old(1) copy_invD(3,6)[OF inv] in auto)
qed

lemma copy_inv_link:
  assumes inv: "copy_inv D c g" and d: "is_gdir g (butlast p)" "butlast p \<notin> done_paths D"
    and p: "map_of (g_names g) p = None" "p \<noteq> []"
    and f: "c (sn_key t) = Some f" "map_of (g_names g) f = Some i" and t: "is_reg t" "coherent (insert (p, t) D)"
  shows "copy_inv (insert (p, t) D) c (add_name p i g)"
proof -
  note old = add_name_done[OF inv d p]
  obtain s where s: "(f, s) \<in> D" "is_reg s" "sn_key s = sn_key t" using copy_invD(3)[OF inv f(1)] by blast
  have "sn_type s = sn_type t \<and> sn_attrs s = sn_attrs t" using t s unfolding coherent_def by blast
  then have same: "copy_of t n = copy_of s n" for n by (simp add: copy_of_def)
  obtain n where n: "node_of (add_name p i g) f = Some n" "copy_of s n" using old(1)[OF s(1)] by blast
  have "node_of (add_name p i g) p = node_of (add_name p i g) f"
    using f(2) p(1) by (auto simp: node_of_def)
  with n same have p_ok: "\<exists>n. node_of (add_name p i g) p = Some n \<and> copy_of t n" by simp
  have only: "(p, s) \<notin> D" for s using done_named[OF inv, of p s] p(1) by auto
  have f_neq: "f \<noteq> p" using f(2) p(1) by auto
  show ?thesis unfolding copy_inv_def
  proof (intro conjI)
    show "\<forall>q j. map_of (g_names (add_name p i g)) q = Some j \<longrightarrow> j < g_next (add_name p i g)"
      using copy_invD(1)[OF inv] f(2) by auto
    show "\<forall>(q, u)\<in>insert (p, t) D. is_reg u \<longrightarrow>
        (\<exists>f. c (sn_key u) = Some f \<and> map_of (g_names (add_name p i g)) f = map_of (g_names (add_name p i g)) q)"
    proof safe
      show "\<exists>f. c (sn_key t) = Some f \<and> map_of (g_names (add_name p i g)) f = map_of (g_names (add_name p i g)) p"
        using f f_neq by auto
    next
      fix q u assume "(q, u) \<in> D" "is_reg u"
      with copy_invD(3,4)[OF inv] old(2)
      show "\<exists>f. c (sn_key u) = Some f \<and> map_of (g_names (add_name p i g)) f = map_of (g_names (add_name p i g)) q"
        by (metis add_name_sel(1))
    qed
    have link: "\<exists>s'. (q, s') \<in> D \<and> is_reg s' \<and> sn_key s' = sn_key t" if "map_of (g_names g) q = Some i" for q
      using copy_invD(5)[OF inv that f(2)] copy_invD(6)[OF inv s(1)] s by metis
    show "\<forall>q q' j. map_of (g_names (add_name p i g)) q = Some j \<and> map_of (g_names (add_name p i g)) q' = Some j \<longrightarrow>
        q = q' \<or> (\<exists>s s'. (q, s) \<in> insert (p, t) D \<and> (q', s') \<in> insert (p, t) D \<and> is_reg s \<and> is_reg s' \<and>
          sn_key s = sn_key s')"
      using copy_invD(5)[OF inv] link t(1) by (auto split: if_splits) metis+
    show "\<forall>key f. c key = Some f \<longrightarrow> (\<exists>s. (f, s) \<in> insert (p, t) D \<and> is_reg s \<and> sn_key s = key)"
      using copy_invD(3)[OF inv] by blast
  qed (use old(1) p_ok only copy_invD(6)[OF inv] in auto)
qed

lemma is_gdir_named: "is_gdir g q \<Longrightarrow> map_of (g_names g) q \<noteq> None"
  by (auto simp: is_gdir_def node_of_def split: option.splits)

lemma g_create_ok:
  assumes run: "g_create p ty mode g = (Inr y, g')"
    and inv: "copy_inv D c g" and d: "butlast p \<notin> done_paths D" and p: "p \<noteq> []"
  shows "copy_inv D c g'" "grown (butlast p) {p} g g'"
    "\<exists>n. node_of g' p = Some n \<and> in_type n = ty \<and> at_xattrs (in_attrs n) = []"
    "map_of (g_names g) p = None" "is_gdir g (butlast p)"
proof -
  let ?i = "g_next g"
  obtain k n where g': "g' = add_name p ?i (g\<lparr>g_steps := k, g_inodes := (g_inodes g)(?i := n), g_next := Suc ?i\<rparr>)"
    and n: "in_type n = ty" "at_xattrs (in_attrs n) = []"
    and free: "map_of (g_names g) p = None" and dir: "is_gdir g (butlast p)"
    using run by (auto simp: g_create_def gcall_def Let_def new_inode_def split: option.splits if_splits)
  define g1 where "g1 = g\<lparr>g_steps := k, g_inodes := (g_inodes g)(?i := n), g_next := Suc ?i\<rparr>"
  have node: "node_of g1 q = node_of g q" for q
    using copy_invD(1)[OF inv, of q] by (cases "map_of (g_names g) q") (auto simp: g1_def node_of_def)
  have inv1: "copy_inv D c g1"
    using inv unfolding copy_inv_def node by (auto simp: g1_def less_SucI)
  have dir1: "is_gdir g1 (butlast p)" using dir by (simp add: is_gdir_def node)
  have free1: "map_of (g_names g1) p = None" using free by (simp add: g1_def)
  have new: "map_of (g_names g1) q \<noteq> Some ?i" for q using copy_invD(1)[OF inv, of q] by (auto simp: g1_def)
  have "?i < g_next g1" by (simp add: g1_def)
  then show "copy_inv D c g'"
    using copy_inv_add_name[OF inv1 dir1 d free1 p _ new] by (simp add: g' g1_def[symmetric])
  have "grown (butlast p) {p} g1 g'"
    using add_name_grown[OF inv1 dir1 d free1 p] by (simp add: g' g1_def[symmetric])
  then show "grown (butlast p) {p} g g'"
    by (simp add: grown_def node) (simp add: g1_def)
  obtain dd where dd: "map_of (g_names g1) (butlast p) = Some dd" using is_gdir_named[OF dir1] by blast
  have "node_of g' p = Some n"
    using add_name_node(3)[OF inv1 dd d p, of ?i] new[of "butlast p"] dd by (simp add: g' g1_def[symmetric]) (simp add: g1_def)
  with n show "\<exists>n. node_of g' p = Some n \<and> in_type n = ty \<and> at_xattrs (in_attrs n) = []" by blast
  show "map_of (g_names g) p = None" by (rule free)
  show "is_gdir g (butlast p)" by (rule dir)
qed

lemma g_link_ok:
  assumes run: "g_link f p g = (Inr y, g')" and inv: "copy_inv D c g" and d: "butlast p \<notin> done_paths D" and p: "p \<noteq> []"
    and f: "c (sn_key t) = Some f" and t: "is_reg t" "coherent (insert (p, t) D)"
  shows "copy_inv (insert (p, t) D) c g'" "grown (butlast p) {p} g g'"
proof -
  obtain i k where i: "map_of (g_names g) f = Some i" and g': "g' = add_name p i (g\<lparr>g_steps := k\<rparr>)"
    and free: "map_of (g_names g) p = None" and dir: "is_gdir g (butlast p)"
    using run by (auto simp: g_link_def gcall_def Let_def split: option.splits if_splits)
  define g1 where "g1 = g\<lparr>g_steps := k\<rparr>"
  have inv1: "copy_inv D c g1" using inv by (simp add: g1_def)
  have dir1: "is_gdir g1 (butlast p)" using dir by (simp add: g1_def)
  have names: "map_of (g_names g1) p = None" "map_of (g_names g1) f = Some i" using free i by (simp_all add: g1_def)
  show "copy_inv (insert (p, t) D) c g'"
    using copy_inv_link[OF inv1 dir1 d names(1) p f names(2) t] by (simp add: g' g1_def[symmetric])
  show "grown (butlast p) {p} g g'"
    using add_name_grown[OF inv1 dir1 d names(1) p] by (simp add: g' g1_def)
qed

lemma grown_upd:
  assumes gr: "grown d N g g1" and p: "map_of (g_names g) p = None" "p \<noteq> d"
    and u: "upd p f g1 g'" and inv: "copy_inv D c g1" "p \<notin> done_paths D"
  shows "grown d N g g'"
proof -
  note o = upd_other[OF inv(1) u inv(2)]
  have "g_fault g' = g_fault g1" "g_scan g' = g_scan g1" "g_mounts g' = g_mounts g1" using u by (auto simp: upd_def)
  moreover have "node_of g' q = node_of g q" if "map_of (g_names g) q \<noteq> None" "q \<noteq> d" for q
  proof -
    have "q \<noteq> p" using that(1) p(1) by auto
    with o gr that show ?thesis by (simp add: grown_def)
  qed
  ultimately show ?thesis
    using gr o[of d] p(2) upd_names[OF u] by (simp add: grown_def)
qed

text \<open>A file that has been created becomes a copy when its metadata is applied.\<close>

lemma finish_ok:
  assumes run: "applyMetadata t p symlink g1 = (Inr y, g')" and h: "honest g1"
    and ok: "xattr_names_ok (sn_attrs t)" and sym: "symlink \<longleftrightarrow> (\<exists>l. sn_type t = FLink l)"
    and inv: "copy_inv D c g1" "p \<notin> done_paths D"
    and n: "node_of g1 p = Some n" "in_type n = sn_type t" "at_xattrs (in_attrs n) = []"
    and gr: "grown d N g g1" "map_of (g_names g) p = None" "p \<noteq> d"
  shows "copy_inv D c g'" "\<exists>n. node_of g' p = Some n \<and> copy_of t n" "grown d N g g'"
proof -
  from applyMetadata_ok[OF run h ok sym] obtain f where f: "upd p f g1 g'"
    "\<And>n. in_type n = sn_type t \<Longrightarrow> at_xattrs (in_attrs n) = [] \<Longrightarrow> copy_of t (f n)"
    by blast
  show "copy_inv D c g'" by (rule copy_inv_upd[OF inv(1) f(1) inv(2)])
  show "\<exists>n. node_of g' p = Some n \<and> copy_of t n"
    using upd_node[OF f(1)] f(2)[OF n(2,3)] n(1) by auto
  show "grown d N g g'" by (rule grown_upd[OF gr f(1) inv])
qed

definition copy_post :: "(gpath \<times> stree) set \<Rightarrow> (gpath \<times> stree) set \<Rightarrow> gpath \<Rightarrow> guest \<Rightarrow> copier \<Rightarrow> guest \<Rightarrow> bool" where
  "copy_post D F d g c' g' \<longleftrightarrow> copy_inv (F \<union> D) c' g' \<and> grown d (fst ` F) g g'"

lemma leaf_ok:
  assumes run: "gthen (gwrap msg (g_create p (sn_type t) mode)) (gthen (applyMetadata t p symlink) (greturn c)) g = (Inr c', g')"
    and inv: "copy_inv D c g" and h: "honest g" and p: "p \<notin> done_paths D" "butlast p \<notin> done_paths D" "p \<noteq> []"
    and ok: "xattr_names_ok (sn_attrs t)" and sym: "symlink \<longleftrightarrow> (\<exists>l. sn_type t = FLink l)" and t: "\<not> is_reg t"
  shows "copy_post D {(p, t)} (butlast p) g c' g'"
proof -
  from run obtain y1 g1 y2 where 1: "g_create p (sn_type t) mode g = (Inr y1, g1)"
    and 2: "applyMetadata t p symlink g1 = (Inr y2, g')" and c': "c' = c"
    by (auto simp: gok)
  note cr = g_create_ok[OF 1 inv p(2,3)]
  obtain n where n: "node_of g1 p = Some n" "in_type n = sn_type t" "at_xattrs (in_attrs n) = []" using cr(3) by blast
  have h1: "honest g1" using h honest_grown[OF cr(2)] by simp
  have neq: "p \<noteq> butlast p" using butlast_neq[OF p(3)] by simp
  note fin = finish_ok[OF 2 h1 ok sym cr(1) p(1) n cr(2) cr(4) neq]
  obtain n' where n': "node_of g' p = Some n'" "copy_of t n'" using fin(2) by blast
  show ?thesis using copy_inv_finish(1)[OF fin(1) p(1) n' t] fin(3) by (simp add: copy_post_def c')
qed

lemma copyRegular_ok:
  assumes run: "copyRegular data p g = (Inr y, g')" and inv: "copy_inv D c g"
    and p: "p \<notin> done_paths D" "butlast p \<notin> done_paths D" "p \<noteq> []"
  shows "copy_inv D c g'" "grown (butlast p) {p} g g'" "map_of (g_names g) p = None"
    "\<exists>n. node_of g' p = Some n \<and> in_type n = FReg data \<and> at_xattrs (in_attrs n) = []"
proof -
  from run obtain k y1 g1 y2 g2 g3 y3 g4 where
    1: "g_create p (FReg []) 384 (g\<lparr>g_steps := k\<rparr>) = (Inr y1, g1)" and
    2: "gtry (g_update p (write_data data)) greturn
          (\<lambda>e. gthen (gtry (gread ()) greturn (\<lambda>_. greturn ())) (gfail (Wrap ''copy'' e))) g1 = (Inr y2, g2)" and
    3: "gread () g2 = (Inr y3, g3)" and 4: "g' = snd (gread () g3)"
    unfolding copyRegular_def by (auto simp: gok)
  have inv0: "copy_inv D c (g\<lparr>g_steps := k\<rparr>)" using inv by simp
  note cr = g_create_ok[OF 1 inv0 p(2,3)]
  obtain n where n: "node_of g1 p = Some n" "in_type n = FReg []" "at_xattrs (in_attrs n) = []" using cr(3) by blast
  have u2: "upd p (write_data data) g1 g2"
    using 2 by (rule gtry_ok) (auto simp: gok dest: g_update_ok)
  obtain j where g': "g' = g2\<lparr>g_steps := j\<rparr>"
    using 3 4 gread_any[of "()" g3] by (auto simp: gok)
  have u: "upd p (write_data data) g1 g'" using upd_steps(2)[OF u2] g' by simp
  have neq: "p \<noteq> butlast p" using butlast_neq[OF p(3)] by simp
  show "copy_inv D c g'" by (rule copy_inv_upd[OF cr(1) u p(1)])
  show "grown (butlast p) {p} g g'" using grown_upd[OF cr(2) cr(4) neq u cr(1) p(1)] by simp
  show "map_of (g_names g) p = None" using cr(4) by simp
  show "\<exists>n. node_of g' p = Some n \<and> in_type n = FReg data \<and> at_xattrs (in_attrs n) = []"
    using upd_node[OF u] n by (auto simp: write_data_def)
qed

section \<open>Copying a tree\<close>

lemma regular_ok:
  assumes run: "(case c (sn_key t) of
         Some first \<Rightarrow> gthen (gwrap m1 (g_link first p)) (greturn c)
       | None \<Rightarrow> gthen (copyRegular data p)
           (gthen (applyMetadata t p False) (greturn (c(sn_key t \<mapsto> p))))) g = (Inr c', g')"
    and t: "sn_type t = FReg data" "is_reg t" "xattr_names_ok (sn_attrs t)" "coherent (insert (p, t) D)"
    and inv: "copy_inv D c g" and h: "honest g" and p: "p \<notin> done_paths D" "butlast p \<notin> done_paths D" "p \<noteq> []"
  shows "copy_post D {(p, t)} (butlast p) g c' g'"
proof (cases "c (sn_key t)")
  case (Some f)
  with run obtain y where "g_link f p g = (Inr y, g')" "c' = c" by (auto simp: gok)
  with g_link_ok[OF this(1) inv p(2,3) Some t(2,4)] show ?thesis by (simp add: copy_post_def)
next
  case None
  with run obtain y1 g1 y2 where 1: "copyRegular data p g = (Inr y1, g1)"
    and 2: "applyMetadata t p False g1 = (Inr y2, g')" and c': "c' = c(sn_key t \<mapsto> p)"
    by (auto simp: gok)
  note cr = copyRegular_ok[OF 1 inv p]
  obtain n where n: "node_of g1 p = Some n" "in_type n = sn_type t" "at_xattrs (in_attrs n) = []"
    using cr(4) t(1) by auto
  have h1: "honest g1" using h honest_grown[OF cr(2)] by simp
  have neq: "p \<noteq> butlast p" using butlast_neq[OF p(3)] by simp
  have sym: "False \<longleftrightarrow> (\<exists>l. sn_type t = FLink l)" using t(1) by simp
  note fin = finish_ok[OF 2 h1 t(3) sym cr(1) p(1) n cr(2) cr(3) neq]
  obtain n' where n': "node_of g' p = Some n'" "copy_of t n'" using fin(2) by blast
  show ?thesis using copy_inv_finish(2)[OF fin(1) p(1) n' t(2) None] fin(3) by (simp add: copy_post_def c')
qed

lemma grown_below:
  assumes 1: "grown d {p} g g1" and d: "map_of (g_names g) d \<noteq> None" and p: "map_of (g_names g) p = None"
    and 2: "grown p N g1 g2"
  shows "grown d (insert p N) g g2"
proof -
  have sub: "map_of (g_names g) q \<noteq> None \<Longrightarrow> map_of (g_names g1) q \<noteq> None \<and> q \<noteq> p" for q
    using 1 p by (auto simp: grown_def)
  have same: "map_of (g_names g) q \<noteq> None \<Longrightarrow>
      map_of (g_names g2) q = map_of (g_names g1) q \<and> node_of g2 q = node_of g1 q" for q
    using 2 sub[of q] by (simp add: grown_def)
  show ?thesis using 1 2 same d by (simp add: grown_def)
qed

lemma mkdir_fails:
  assumes "g_create p ty mode g = (Inl e, g')" "honest g" "errors_Is e EEXIST"
  shows "map_of (g_names g) p \<noteq> None"
  using assms by (auto simp: g_create_def gcall_def Let_def honest_def split: option.splits if_splits)

text \<open>The precondition of \<^verbatim>\<open>copyEntry\<close>: its target and everything beneath it is free, its directory unfinished.\<close>

definition copy_pre :: "(gpath \<times> stree) set \<Rightarrow> (gpath \<times> stree) set \<Rightarrow> gpath \<Rightarrow> copier \<Rightarrow> guest \<Rightarrow> bool" where
  "copy_pre D F d c g \<longleftrightarrow> copy_inv D c g \<and> honest g \<and> d \<notin> done_paths D \<and> coherent (F \<union> D)"

definition free_at :: "gpath \<Rightarrow> guest \<Rightarrow> bool" where
  "free_at p g \<longleftrightarrow> (\<forall>q. prefix p q \<longrightarrow> map_of (g_names g) q = None)"

lemma free_at_done: "free_at p g \<Longrightarrow> copy_inv D c g \<Longrightarrow> p \<notin> done_paths D"
  using done_named by (fastforce simp: free_at_def done_paths_def)

lemma free_at_sub: "free_at p g \<Longrightarrow> prefix p q \<Longrightarrow> free_at q g"
  unfolding free_at_def using prefix_order.trans by blast

lemma free_at_steps [simp]: "free_at p (g\<lparr>g_steps := k\<rparr>) = free_at p g"
  by (simp add: free_at_def)

lemma free_at_grown:
  assumes "free_at p g" "grown d N g g'" "\<And>q. q \<in> N \<Longrightarrow> \<not> prefix p q"
  shows "free_at p g'"
  using assms unfolding free_at_def grown_def by blast

lemma directory_ok:
  assumes run: "applyMetadata t p False g2 = (Inr y, g')" and t: "sn_type t = FDir" "\<not> is_reg t" "xattr_names_ok (sn_attrs t)"
    and mk: "g_create p FDir mode g = (Inr y0, g1)" and pre: "copy_pre D F (butlast p) c g" and p: "p \<noteq> []" "free_at p g"
    and post: "copy_post D F p g1 c' g2" and F: "\<And>q s. (q, s) \<in> F \<Longrightarrow> q \<noteq> p"
  shows "copy_post D (insert (p, t) F) (butlast p) g c' g'"
proof -
  have inv: "copy_inv D c g" and h: "honest g" and d: "butlast p \<notin> done_paths D" using pre by (auto simp: copy_pre_def)
  note cr = g_create_ok[OF mk inv d p(1)]
  have pD: "p \<notin> done_paths (F \<union> D)" using F free_at_done[OF p(2) inv] by (force simp: done_paths_def)
  have gr12: "grown p (fst ` F) g1 g2" and inv2: "copy_inv (F \<union> D) c' g2" using post by (auto simp: copy_post_def)
  note gr = grown_below[OF cr(2) is_gdir_named[OF cr(5)] cr(4) gr12]
  obtain n where n: "node_of g2 p = Some n" "in_type n = sn_type t" "at_xattrs (in_attrs n) = []"
    using cr(3) gr12 t(1) by (auto simp: grown_def)
  have h2: "honest g2" using h honest_grown[OF gr] by simp
  have neq: "p \<noteq> butlast p" using butlast_neq[OF p(1)] by simp
  have sym: "False \<longleftrightarrow> (\<exists>l. sn_type t = FLink l)" using t(1) by simp
  note fin = finish_ok[OF run h2 t(3) sym inv2 pD n gr cr(4) neq]
  obtain n' where n': "node_of g' p = Some n'" "copy_of t n'" using fin(2) by blast
  show ?thesis using copy_inv_finish(1)[OF fin(1) pD n' t(2)] fin(3) by (simp add: copy_post_def)
qed

lemma two_reads:
  assumes "gthen (gwrap a (gread ())) (gthen (gwrap b (gread ())) m) g = (Inr y, g')"
  shows "\<exists>k. m (g\<lparr>g_steps := k\<rparr>) = (Inr y, g')"
  using assms by (auto simp: gok)

lemma copy_pre_steps [simp]: "copy_pre D F d c (g\<lparr>g_steps := k\<rparr>) = copy_pre D F d c g"
  by (simp add: copy_pre_def)

lemma copy_post_steps [simp]: "copy_post D F d (g\<lparr>g_steps := k\<rparr>) c' g' = copy_post D F d g c' g'"
  by (simp add: copy_post_def)

lemma copy_post_trans:
  assumes "copy_post D F d g c1 g1" "copy_post (F \<union> D) E d g1 c' g'"
  shows "copy_post D (F \<union> E) d g c' g'"
proof -
  have "E \<union> (F \<union> D) = F \<union> E \<union> D" by blast
  then show ?thesis using assms grown_trans[of d "fst ` F" g g1 "fst ` E" g'] by (auto simp: copy_post_def image_Un)
qed

lemma copy_pre_next:
  assumes "copy_pre D (F \<union> E) d c g" "copy_post D F d g c1 g1" "\<And>q s. (q, s) \<in> F \<Longrightarrow> q \<noteq> d"
  shows "copy_pre (F \<union> D) E d c1 g1"
proof -
  have "honest g1" using assms(1,2) honest_grown by (auto simp: copy_pre_def copy_post_def)
  moreover have "d \<notin> done_paths (F \<union> D)" using assms(1,3) by (force simp: copy_pre_def done_paths_def)
  moreover have "E \<union> (F \<union> D) = F \<union> E \<union> D" by blast
  ultimately show ?thesis using assms(1,2) by (simp add: copy_pre_def copy_post_def)
qed

lemma prefix_snoc_neq: "prefix (p @ [x]) q \<Longrightarrow> q \<noteq> p"
  by (auto simp: prefix_def)

lemma prefix_snoc_same: "prefix (p @ [x]) q \<Longrightarrow> prefix (p @ [y]) q \<Longrightarrow> x = y"
  by (auto simp: prefix_def)

lemma snoc_not_prefix: "\<not> prefix (p @ [x]) p"
  using prefix_length_le by fastforce

lemma copyEntry_dir:
  assumes run: "copyEntry (SNode key FDir st es) p c g = (Inr c', g')"
    and pre: "copy_pre D (set (image_files (SNode key FDir st es) p)) (butlast p) c g"
    and t: "xattr_names_ok st" and p: "p \<noteq> []" "free_at p g"
    and IH: "\<And>g1 g2 c'. copyEntries es p c g1 = (Inr c', g2) \<Longrightarrow> copy_pre D (set (image_entries es p)) p c g1 \<Longrightarrow>
      (\<And>name s. (name, s) \<in> set es \<Longrightarrow> free_at (p @ [name]) g1) \<Longrightarrow>
      copy_post D (set (image_entries es p)) p g1 c' g2"
  shows "copy_post D (set (image_files (SNode key FDir st es) p)) (butlast p) g c' g'"
proof -
  let ?t = "SNode key FDir st es" and ?F = "set (image_entries es p)"
  from run have "gthen (gwrap ''stat'' (gread ())) (gthen (gwrap ''read Linux metadata'' (gread ()))
      (gthen (gtry (g_create p FDir 448) greturn
          (\<lambda>e. if errors_Is e EEXIST then greturn () else gfail (Wrap ''create directory'' e)))
        (gthen (gwrap ''read directory'' (gread ()))
          (gbind (copyEntries es p c) (\<lambda>c. gthen (applyMetadata ?t p False) (greturn c)))))) g = (Inr c', g')"
    by (simp add: Let_def)
  from two_reads[OF this] obtain k y1 g1 j g2 c2 y3 where
    1: "gtry (g_create p FDir 448) greturn
          (\<lambda>e. if errors_Is e EEXIST then greturn () else gfail (Wrap ''create directory'' e)) (g\<lparr>g_steps := k\<rparr>) = (Inr y1, g1)" and
    2: "copyEntries es p c (g1\<lparr>g_steps := j\<rparr>) = (Inr c', g2)" and
    3: "applyMetadata ?t p False g2 = (Inr y3, g')"
    by (auto simp: gok)
  let ?g = "g\<lparr>g_steps := k\<rparr>"
  have inv: "copy_inv D c ?g" and h: "honest ?g" and d: "butlast p \<notin> done_paths D"
    and co: "coherent (?F \<union> D)"
    using pre by (auto simp: copy_pre_def intro: coherent_mono)
  have mk: "g_create p FDir 448 ?g = (Inr y1, g1)"
    using 1
  proof (cases rule: gtry_ok)
    case (failed e g2)
    with p(2) mkdir_fails[OF failed(1) h] show ?thesis by (auto simp: gok free_at_def split: if_splits)
  qed (simp add: gok)
  note cr = g_create_ok[OF mk inv d p(1)]
  have pre1: "copy_pre D ?F p c (g1\<lparr>g_steps := j\<rparr>)"
    using cr(1) honest_grown[OF cr(2)] h co free_at_done[OF _ inv, of p] p(2) by (simp add: copy_pre_def)
  have fr: "free_at (p @ [name]) (g1\<lparr>g_steps := j\<rparr>)" for name
    using free_at_grown[OF free_at_sub[OF p(2), of "p @ [name]"], of "butlast p" "{p}" g1] cr(2) snoc_not_prefix by simp
  have "copy_post D ?F p g1 c' g2" using IH[OF 2 pre1 fr] by simp
  moreover have "copy_pre D ?F (butlast p) c ?g" using inv h d co by (simp add: copy_pre_def)
  moreover have "q \<noteq> p" if "(q, s) \<in> ?F" for q s using image_prefix(2)[OF that] prefix_snoc_neq by fastforce
  ultimately have "copy_post D (insert (p, ?t) ?F) (butlast p) ?g c' g'"
    using p(2) by (intro directory_ok[OF 3 _ _ _ mk _ p(1)]) (simp_all add: t)
  then show ?thesis by simp
qed

lemma copyEntry_file:
  assumes run: "copyEntry (SNode key ty st es) p c g = (Inr c', g')" and ty: "ty \<noteq> FDir"
    and pre: "copy_pre D (set (image_files (SNode key ty st es) p)) (butlast p) c g"
    and t: "xattr_names_ok st" and p: "p \<noteq> []" "free_at p g"
  shows "copy_post D (set (image_files (SNode key ty st es) p)) (butlast p) g c' g'"
proof -
  let ?t = "SNode key ty st es"
  from two_reads[OF run[unfolded copyEntry.simps Let_def]] obtain k where k:
    "(case ty of FDir \<Rightarrow> undefined
       | FReg data \<Rightarrow>
           (case c (sn_key ?t) of
              Some first \<Rightarrow> gthen (gwrap ''create hardlink'' (g_link first p)) (greturn c)
            | None \<Rightarrow>
                gthen (copyRegular data p) (gthen (applyMetadata ?t p False) (greturn (c(sn_key ?t \<mapsto> p)))))
       | FLink link \<Rightarrow>
           gthen (gwrap ''read symlink'' (gread ()))
           (gthen (gwrap ''create symlink'' (g_create p (sn_type ?t) 511)) (gthen (applyMetadata ?t p True) (greturn c)))
       | FFifo \<Rightarrow> gthen (gwrap ''create fifo'' (g_create p (sn_type ?t) (at_mode st mod 512)))
           (gthen (applyMetadata ?t p False) (greturn c))
       | FChr rdev \<Rightarrow> gthen (gwrap ''create device'' (g_create p (sn_type ?t) (at_mode st mod 512)))
           (gthen (applyMetadata ?t p False) (greturn c))
       | FBlk rdev \<Rightarrow> gthen (gwrap ''create device'' (g_create p (sn_type ?t) (at_mode st mod 512)))
           (gthen (applyMetadata ?t p False) (greturn c))
       | FSock \<Rightarrow> greturn c
       | FOther \<Rightarrow> gfail (Msg ''unsupported file type'')) (g\<lparr>g_steps := k\<rparr>) = (Inr c', g')"
    using ty by (cases ty) (auto simp only: ftype.case stree.sel simp_thms)
  have inv: "copy_inv D c (g\<lparr>g_steps := j\<rparr>)" and h: "honest (g\<lparr>g_steps := j\<rparr>)" for j
    using pre by (auto simp: copy_pre_def)
  have pp: "p \<notin> done_paths D" "butlast p \<notin> done_paths D"
    using pre free_at_done[OF p(2)] by (auto simp: copy_pre_def)
  have ok: "xattr_names_ok (sn_attrs ?t)" using t by simp
  note leaf = leaf_ok[OF _ inv h pp p(1) ok]
  show ?thesis
  proof (cases ty)
    case (FReg data)
    have "copy_post D {(p, ?t)} (butlast p) (g\<lparr>g_steps := k\<rparr>) c' g'"
      using k pre FReg ok by (intro regular_ok[OF _ _ _ ok _ inv h pp p(1)]) (auto simp: copy_pre_def)
    then show ?thesis using FReg by simp
  next
    case (FLink link)
    with k obtain j where "gthen (gwrap ''create symlink'' (g_create p (sn_type ?t) 511))
        (gthen (applyMetadata ?t p True) (greturn c)) (g\<lparr>g_steps := j\<rparr>) = (Inr c', g')"
      by (simp add: gthen_ok[of "gwrap ''read symlink'' _"]) (auto simp: gwrap_ok gread_ok)
    from leaf[OF this] show ?thesis using FLink by simp
  next
    case FFifo
    with k have "gthen (gwrap ''create fifo'' (g_create p (sn_type ?t) (at_mode st mod 512)))
        (gthen (applyMetadata ?t p False) (greturn c)) (g\<lparr>g_steps := k\<rparr>) = (Inr c', g')" by simp
    from leaf[OF this] show ?thesis using FFifo by simp
  next
    case (FChr rdev)
    with k have "gthen (gwrap ''create device'' (g_create p (sn_type ?t) (at_mode st mod 512)))
        (gthen (applyMetadata ?t p False) (greturn c)) (g\<lparr>g_steps := k\<rparr>) = (Inr c', g')" by simp
    from leaf[OF this] show ?thesis using FChr by simp
  next
    case (FBlk rdev)
    with k have "gthen (gwrap ''create device'' (g_create p (sn_type ?t) (at_mode st mod 512)))
        (gthen (applyMetadata ?t p False) (greturn c)) (g\<lparr>g_steps := k\<rparr>) = (Inr c', g')" by simp
    from leaf[OF this] show ?thesis using FBlk by simp
  next
    case FSock
    with k pre show ?thesis using grown_refl[of "butlast p" g k] by (auto simp: gok copy_post_def copy_pre_def)
  qed (use k ty in \<open>auto simp: gok\<close>)
qed

lemma copyEntries_step:
  assumes run: "copyEntry s (p @ [name]) c g = (Inr c1, g1)" "copyEntries es p c1 g1 = (Inr c', g')"
    and pre: "copy_pre D (set (image_entries ((name, s) # es) p)) p c g"
    and es: "name \<notin> fst ` set es" "\<And>m u. (m, u) \<in> set ((name, s) # es) \<Longrightarrow> free_at (p @ [m]) g"
    and IH1: "copy_pre D (set (image_files s (p @ [name]))) p c g \<Longrightarrow> copy_post D (set (image_files s (p @ [name]))) p g c1 g1"
    and IH2: "copy_pre (set (image_files s (p @ [name])) \<union> D) (set (image_entries es p)) p c1 g1 \<Longrightarrow>
      (\<And>m u. (m, u) \<in> set es \<Longrightarrow> free_at (p @ [m]) g1) \<Longrightarrow>
      copy_post (set (image_files s (p @ [name])) \<union> D) (set (image_entries es p)) p g1 c' g'"
  shows "copy_post D (set (image_entries ((name, s) # es) p)) p g c' g'"
proof -
  let ?F = "set (image_files s (p @ [name]))" and ?E = "set (image_entries es p)"
  have F: "prefix (p @ [name]) q" if "(q, u) \<in> ?F" for q u using image_prefix(1)[OF that] .
  have "coherent (?F \<union> D)" using pre by (auto simp: copy_pre_def intro: coherent_mono)
  then have post1: "copy_post D ?F p g c1 g1" using pre by (intro IH1) (simp add: copy_pre_def)
  have "copy_pre D (?F \<union> ?E) p c g" using pre by simp
  then have pre2: "copy_pre (?F \<union> D) ?E p c1 g1" using post1
  proof (rule copy_pre_next)
    show "q \<noteq> p" if "(q, u) \<in> ?F" for q u using prefix_snoc_neq[OF F[OF that]] .
  qed
  have "free_at (p @ [m]) g1" if m: "(m, u) \<in> set es" for m u
  proof (rule free_at_grown)
    show "free_at (p @ [m]) g" using es(2)[of m u] m by simp
    show "grown p (fst ` ?F) g g1" using post1 by (simp add: copy_post_def)
    have "m \<noteq> name" using es(1) m by force
    then show "\<not> prefix (p @ [m]) q" if "q \<in> fst ` ?F" for q using that F prefix_snoc_same[of p m q name] by auto
  qed
  from copy_post_trans[OF post1 IH2[OF pre2 this]] show ?thesis by simp
qed

lemma copy_tree:
  "copyEntry t p c g = (Inr c', g') \<Longrightarrow> copy_pre D (set (image_files t p)) (butlast p) c g \<Longrightarrow> tree_ok t \<Longrightarrow>
    p \<noteq> [] \<Longrightarrow> free_at p g \<Longrightarrow> copy_post D (set (image_files t p)) (butlast p) g c' g'"
  "copyEntries es p c g = (Inr c', g') \<Longrightarrow> copy_pre D (set (image_entries es p)) p c g \<Longrightarrow> entries_ok es \<Longrightarrow>
    (\<And>name s. (name, s) \<in> set es \<Longrightarrow> free_at (p @ [name]) g) \<Longrightarrow> copy_post D (set (image_entries es p)) p g c' g'"
proof (induction t p c and es p c arbitrary: D g c' g' and D g c' g' rule: copyEntry_copyEntries.induct)
  case (1 key ty st es p c)
  show ?case
  proof (cases "ty = FDir")
    case True
    show ?thesis
      unfolding True
    proof (rule copyEntry_dir)
      fix g1 g2 c''
      assume "copyEntries es p c g1 = (Inr c'', g2)" "copy_pre D (set (image_entries es p)) p c g1"
        "\<And>name s. (name, s) \<in> set es \<Longrightarrow> free_at (p @ [name]) g1"
      with 1(1)[OF refl True] 1(4) True show "copy_post D (set (image_entries es p)) p g1 c'' g2" by simp
    qed (use 1(2-) True in simp_all)
  next
    case False
    with copyEntry_file[OF 1(2) _ 1(3) _ 1(5,6)] 1(4) show ?thesis by simp
  qed
next
  case (2 p c)
  then show ?case using grown_refl[of p g "g_steps g"] by (auto simp: gok copy_post_def copy_pre_def)
next
  case (3 name s es p c)
  from 3(3) obtain c1 g1 where 1: "copyEntry s (p @ [name]) c g = (Inr c1, g1)" and 2: "copyEntries es p c1 g1 = (Inr c', g')"
    by (auto simp: gok)
  show ?case
  proof (rule copyEntries_step[OF 1 2 3(4)])
    show "copy_post D (set (image_files s (p @ [name]))) p g c1 g1" if "copy_pre D (set (image_files s (p @ [name]))) p c g"
      using 3(1)[OF 1] that 3(5) 3(6)[of name s] by simp
    show "copy_post (set (image_files s (p @ [name])) \<union> D) (set (image_entries es p)) p g1 c' g'"
      if "copy_pre (set (image_files s (p @ [name])) \<union> D) (set (image_entries es p)) p c1 g1"
        "\<And>m u. (m, u) \<in> set es \<Longrightarrow> free_at (p @ [m]) g1"
      using 3(2)[OF 2 that(1) _ that(2)] 3(5) by simp
  qed (use 3(5,6) in auto)
qed

end
