(* ===== verification/ImageRunLaws.thy ===== *)
theory ImageRunLaws
  imports ImageHelperLaws
begin

text \<open>
  The run of the image helper: the target is a well-formed file system at every point; the top level of the
  image; the removal of the machine identity, which depends on whether its directory can be read; the theorems about the whole run.
\<close>

section \<open>The target is a file system\<close>

definition fs_ok :: "guest \<Rightarrow> bool" where
  "fs_ok g \<longleftrightarrow>
     map_of (g_names g) [] = None \<and>
     (\<forall>q i. map_of (g_names g) q = Some i \<longrightarrow> i < g_next g) \<and>
     (\<forall>q. map_of (g_names g) q \<noteq> None \<longrightarrow> q = targetDir \<or> is_gdir g (butlast q)) \<and>
     (\<forall>d q i. is_gdir g d \<and> map_of (g_names g) d = Some i \<and> map_of (g_names g) q = Some i \<longrightarrow> q = d)"

lemma fs_okD:
  assumes "fs_ok g"
  shows "map_of (g_names g) [] = None"
    and "map_of (g_names g) q = Some i \<Longrightarrow> i < g_next g"
    and "map_of (g_names g) q = Some i \<Longrightarrow> q \<noteq> targetDir \<Longrightarrow> is_gdir g (butlast q)"
    and "is_gdir g d \<Longrightarrow> map_of (g_names g) d = Some i \<Longrightarrow> map_of (g_names g) q = Some i \<Longrightarrow> q = d"
  using assms unfolding fs_ok_def by auto

lemma fs_ok_steps [simp]: "fs_ok (g\<lparr>g_steps := k\<rparr>) = fs_ok g"
  by (simp add: fs_ok_def)

lemma is_gdir_iff: "is_gdir g q \<longleftrightarrow> (\<exists>i. map_of (g_names g) q = Some i \<and> in_type (g_inodes g i) = FDir)"
  by (auto simp: is_gdir_def node_of_def split: option.splits)

lemma fs_ok_inodes:
  assumes "fs_ok g" "g_names g' = g_names g" "g_next g \<le> g_next g'"
    and "\<And>i. i < g_next g \<Longrightarrow> in_type (g_inodes g' i) = FDir \<longleftrightarrow> in_type (g_inodes g i) = FDir"
  shows "fs_ok g'"
proof -
  have "is_gdir g' q = is_gdir g q" for q
    using assms(2,4) fs_okD(2)[OF assms(1)] by (auto simp: is_gdir_iff)
  moreover have "i < g_next g'" if "map_of (g_names g) q = Some i" for q i
    using fs_okD(2)[OF assms(1) that] assms(3) by simp
  ultimately show ?thesis using assms(1,2) by (simp add: fs_ok_def)
qed

definition gkeeps :: "'a gio \<Rightarrow> bool" where
  "gkeeps m \<longleftrightarrow> (\<forall>g. fs_ok g \<longrightarrow> fs_ok (snd (m g)))"

named_theorems gkeep \<open>commands that keep the target well-formed\<close>

lemma gkeeps_return [gkeep]: "gkeeps (greturn x)"
  by (simp add: gkeeps_def greturn_def)

lemma gkeeps_fail [gkeep]: "gkeeps (gfail e)"
  by (simp add: gkeeps_def gfail_def)

lemma gkeeps_try [gkeep]: "gkeeps m \<Longrightarrow> (\<And>x. gkeeps (f x)) \<Longrightarrow> (\<And>e. gkeeps (h e)) \<Longrightarrow> gkeeps (gtry m f h)"
  by (simp add: gkeeps_def gtry_def split: prod.splits sum.splits) (metis snd_conv)

lemma gkeeps_bind [gkeep]: "gkeeps m \<Longrightarrow> (\<And>x. gkeeps (f x)) \<Longrightarrow> gkeeps (gbind m f)"
  by (simp add: gbind_def gkeeps_try gkeeps_fail)

lemma gkeeps_then [gkeep]: "gkeeps m \<Longrightarrow> gkeeps k \<Longrightarrow> gkeeps (gthen m k)"
  by (simp add: gthen_def gkeeps_bind)

lemma gkeeps_wrap [gkeep]: "gkeeps m \<Longrightarrow> gkeeps (gwrap s m)"
  by (simp add: gwrap_def gkeeps_try gkeeps_return gkeeps_fail)

lemma gkeeps_defer [gkeep]: "gkeeps m \<Longrightarrow> gkeeps c \<Longrightarrow> gkeeps (gdefer m c)"
  by (simp add: gkeeps_def gdefer_def split: prod.splits) (metis snd_conv)

lemma gkeeps_if [gkeep]: "(b \<Longrightarrow> gkeeps m) \<Longrightarrow> (\<not> b \<Longrightarrow> gkeeps k) \<Longrightarrow> gkeeps (if b then m else k)"
  by simp

lemma gkeeps_call: "(\<And>g. fs_ok g \<Longrightarrow> fs_ok (snd (f g))) \<Longrightarrow> gkeeps (gcall f)"
  by (auto simp: gkeeps_def gcall_def Let_def split: option.splits)

lemma gkeeps_read [gkeep]: "gkeeps (gread x)"
  unfolding gread_def by (rule gkeeps_call) simp

lemma gkeeps_update [gkeep]: "(\<And>n. in_type (f n) = FDir \<longleftrightarrow> in_type n = FDir) \<Longrightarrow> gkeeps (g_update p f)"
  unfolding g_update_def
proof (rule gkeeps_call)
  fix g assume f: "\<And>n. in_type (f n) = FDir \<longleftrightarrow> in_type n = FDir" and ok: "fs_ok g"
  have "fs_ok (set_inode i f g)" for i by (rule fs_ok_inodes[OF ok]) (auto simp: f)
  with ok show "fs_ok (snd (case map_of (g_names g) p of None \<Rightarrow> (Inl (Sys ENOENT), g) | Some i \<Rightarrow> (Inr (), set_inode i f g)))"
    by (simp split: option.splits)
qed

lemma touch_parent_type: "in_type (g_inodes (touch_parent p g) i) = in_type (g_inodes g i)"
  by (simp add: touch_parent_def split: option.splits)

lemma fs_ok_touch: "fs_ok g \<Longrightarrow> fs_ok (touch_parent p g)"
  by (erule fs_ok_inodes) (simp_all add: touch_parent_type)

lemma is_gdir_touch [simp]: "is_gdir (touch_parent p g) = is_gdir g"
  by (simp add: is_gdir_iff touch_parent_type fun_eq_iff)

lemma fs_ok_add_name:
  assumes ok: "fs_ok g" and p: "map_of (g_names g) p = None" "is_gdir g (butlast p)"
    and i: "i < g_next g" "\<And>q. map_of (g_names g) q = Some i \<Longrightarrow> in_type (g_inodes g i) \<noteq> FDir"
  shows "fs_ok (add_name p i g)"
proof -
  have dir: "is_gdir (add_name p i g) q \<longleftrightarrow> (if q = p then in_type (g_inodes g i) = FDir else is_gdir g q)" for q
    by (simp add: is_gdir_iff add_name_def touch_parent_type)
  have "p \<noteq> []" using p(2) fs_okD(1)[OF ok] by (auto simp: is_gdir_iff)
  moreover from this have "butlast p \<noteq> p" by (rule butlast_neq)
  moreover have "q = targetDir \<or> is_gdir g (butlast q) \<and> butlast q \<noteq> p" if "map_of (g_names g) q = Some j" for q j
    using fs_okD(3)[OF ok that] p(1) by (auto simp: is_gdir_iff)
  moreover have "map_of (g_names g) q = Some i \<Longrightarrow> \<not> is_gdir g q" for q using i(2) by (auto simp: is_gdir_iff)
  ultimately show ?thesis
    using ok p i(1) i(2) unfolding fs_ok_def by (auto simp: dir split: if_splits)
qed

lemma gkeeps_create [gkeep]: "gkeeps (g_create p ty mode)"
  unfolding g_create_def
proof (rule gkeeps_call)
  fix g assume ok: "fs_ok g"
  let ?g = "g\<lparr>g_inodes := (g_inodes g)(g_next g := new_inode ty mode g), g_next := Suc (g_next g)\<rparr>"
  have ok': "fs_ok ?g" by (rule fs_ok_inodes[OF ok]) auto
  have "is_gdir ?g q = is_gdir g q" for q
    using fs_okD(2)[OF ok, of q] by (cases "map_of (g_names g) q") (auto simp: is_gdir_iff)
  then have "fs_ok (add_name p (g_next g) ?g)" if "map_of (g_names g) p = None" "is_gdir g (butlast p)"
    using that fs_okD(2)[OF ok] by (intro fs_ok_add_name[OF ok']) fastforce+
  with ok show "fs_ok (snd (if map_of (g_names g) p \<noteq> None then (Inl (Sys EEXIST), g)
      else if \<not> is_gdir g (butlast p) then (Inl (Sys ENOENT), g)
      else let i = g_next g in
        (Inr (), add_name p i (g\<lparr>g_inodes := (g_inodes g)(i := new_inode ty mode g), g_next := Suc i\<rparr>))))"
    by (simp add: Let_def)
qed

lemma gkeeps_link [gkeep]: "gkeeps (g_link old new)"
  unfolding g_link_def
  by (rule gkeeps_call)
    (auto split: option.splits intro!: fs_ok_add_name dest: fs_okD(2) simp: is_gdir_iff)

lemma fs_ok_drop:
  assumes ok: "fs_ok g" and P: "\<And>q. P (butlast q) \<Longrightarrow> map_of (g_names g) q \<noteq> None \<Longrightarrow> P q"
  shows "fs_ok (drop_names P g)"
proof -
  have f: "map_of (filter (\<lambda>(q, i). \<not> P q) xs) q = (if P q then None else map_of xs q)" for xs :: "(gpath \<times> nat) list" and q
    by (induction xs) auto
  have dir: "is_gdir (drop_names P g) q \<longleftrightarrow> \<not> P q \<and> is_gdir g q" for q
    by (auto simp: is_gdir_iff drop_names_def f)
  show ?thesis
    using ok P unfolding fs_ok_def dir by (auto simp: drop_names_def f)
qed

lemma butlast_prefix: "prefix (butlast q) q"
  by (cases q rule: rev_cases) auto

lemma named_member: "map_of xs q \<noteq> None \<Longrightarrow> \<exists>i. (q, i) \<in> set xs"
  using map_of_SomeD by fastforce

lemma gkeeps_Remove [gkeep]: "gkeeps (g_Remove p)"
  unfolding g_Remove_def
proof (rule gkeeps_call)
  fix g assume ok: "fs_ok g"
  have "fs_ok (drop_names (\<lambda>q. q = p) (touch_parent p g))"
    if e: "\<not> list_ex (\<lambda>(q, i). strict_prefix p q) (g_names g)" "map_of (g_names g) p \<noteq> None"
  proof (rule fs_ok_drop[OF fs_ok_touch[OF ok]])
    fix q assume q: "butlast q = p" "map_of (g_names (touch_parent p g)) q \<noteq> None"
    show "q = p"
      using e(1) named_member[of "g_names g" q] q butlast_prefix[of q] unfolding strict_prefix_def list_ex_iff
      by fastforce
  qed
  with ok show "fs_ok (snd (if through_link g p then (Inl (Msg ''symbolic link''), g)
      else if map_of (g_names g) p = None then (Inl (Sys ENOENT), g)
      else if list_ex (\<lambda>(q, i). strict_prefix p q) (g_names g) then (Inl (Sys ENOTEMPTY), g)
      else (Inr (), drop_names (\<lambda>q. q = p) (touch_parent p g))))"
    by simp
qed

lemma gkeeps_RemoveAll [gkeep]: "gkeeps (g_RemoveAll p)"
  unfolding g_RemoveAll_def
proof (rule gkeeps_call)
  fix g assume ok: "fs_ok g"
  have "fs_ok (drop_names (prefix p) (touch_parent p g))"
    using butlast_prefix prefix_order.trans by (intro fs_ok_drop[OF fs_ok_touch[OF ok]]) blast
  with ok show "fs_ok (snd (if map_of (g_names g) p = None then (Inr (), g)
      else (Inr (), drop_names (prefix p) (touch_parent p g))))"
    by simp
qed

lemma gkeeps_mkdirs [gkeep]: "gkeeps (g_mkdirs mode ps)"
proof (induction ps)
  case (Cons p ps)
  show ?case unfolding g_mkdirs.simps
  proof (intro gkeeps_try gkeep Cons)
    fix e
    show "gkeeps (\<lambda>g. if errors_Is e EEXIST \<and> is_gdir g p then g_mkdirs mode ps g
            else if errors_Is e EEXIST then (Inl (Sys ENOTDIR), g) else (Inl e, g))"
      using Cons by (simp add: gkeeps_def)
  qed
qed (simp add: gkeep)

lemma gkeeps_MkdirAll [gkeep]: "gkeeps (g_MkdirAll p mode)"
  unfolding g_MkdirAll_def by (rule gkeeps_mkdirs)

lemma gkeeps_attrs [gkeep]:
  "gkeeps (g_update p (chown_attrs u v))" "gkeeps (g_update p (chmod_attrs m))"
  "gkeeps (g_update p (utimes_attrs a b))" "gkeeps (g_update p (set_xattr k x))" "gkeeps (g_update p (write_data d))"
  by (rule gkeeps_update; simp add: chown_attrs_def chmod_attrs_def utimes_attrs_def set_xattr_def write_data_def
      split: ftype.splits)+

lemma gkeeps_copy_xattr_names [gkeep]: "gkeeps (copy_xattr_names s p names)"
  by (induction names) (auto simp: copy_xattr_def intro!: gkeep split: option.splits)

lemma gkeeps_applyMetadata [gkeep]: "gkeeps (applyMetadata s p symlink)"
  unfolding applyMetadata_def copyXattrs_def Let_def by (intro gkeep)

lemma gkeeps_copyRegular [gkeep]: "gkeeps (copyRegular data p)"
  unfolding copyRegular_def by (intro gkeep)

lemma gkeeps_copyEntry [gkeep]: "gkeeps (copyEntry t p c)"
  and gkeeps_copyEntries: "gkeeps (copyEntries es p c)"
proof (induction t p c and es p c rule: copyEntry_copyEntries.induct)
  case (1 key ty st es p c)
  then show ?case
    by (cases ty; cases "c key"; simp only: copyEntry.simps Let_def ftype.case option.case; intro gkeep; simp)
qed (auto intro!: gkeep)

lemma gkeeps_copy_root [gkeep]: "gkeeps (copy_root es c)"
  by (induction es c rule: copy_root.induct) (auto intro!: gkeep)

lemma gkeeps_remove_matches [gkeep]: "gkeeps (remove_matches ps)"
  by (induction ps) (auto intro!: gkeep)

lemma gkeeps_Glob [gkeep]: "gkeeps (g_Glob d pre)"
  by (simp add: gkeeps_def g_Glob_def)

lemma gkeeps_WriteEmpty [gkeep]: "gkeeps (g_WriteEmpty p mode)"
  unfolding g_WriteEmpty_def by (intro gkeep)

lemma gkeeps_sanitizeIdentity [gkeep]: "gkeeps sanitizeIdentity"
  unfolding sanitizeIdentity_def Let_def by (intro gkeep)

lemma gkeeps_mounts [gkeep]: "gkeeps (g_mount d)" "gkeeps (g_unmount d)"
  unfolding g_mount_def g_unmount_def
  by (rule gkeeps_call; simp add: fs_ok_def is_gdir_iff)+

lemma gkeeps_run_helper: "gkeeps (run_helper es)"
  unfolding run_helper_def copy_image_def by (intro gkeep)

section \<open>The machine identity\<close>

definition etcDir :: gpath where "etcDir = targetDir @ [''etc'']"
definition sshDir :: gpath where "sshDir = targetDir @ [''etc'', ''ssh'']"
definition machineID :: gpath where "machineID = targetDir @ [''etc'', ''machine-id'']"
definition dbusDir :: gpath where "dbusDir = targetDir @ [''var'', ''lib'', ''dbus'']"
definition dbusMachineID :: gpath where "dbusMachineID = targetDir @ [''var'', ''lib'', ''dbus'', ''machine-id'']"

definition host_key :: "gpath \<Rightarrow> bool" where
  "host_key q \<longleftrightarrow> q \<noteq> [] \<and> butlast q = sshDir \<and> prefix ''ssh_host_'' (last q)"

definition identity_path :: "gpath \<Rightarrow> bool" where
  "identity_path q \<longleftrightarrow> host_key q \<or> prefix machineID q \<or> q = dbusMachineID"

text \<open>Directories in which the removal changes entries.\<close>

definition identity_dirs :: "gpath list" where
  "identity_dirs = [targetDir, etcDir, sshDir, dbusDir]"

lemmas identity_defs = etcDir_def sshDir_def machineID_def dbusDir_def dbusMachineID_def targetDir_def

lemma identity_butlast [simp]:
  "butlast machineID = etcDir" "butlast etcDir = targetDir" "butlast dbusMachineID = dbusDir" "machineID \<noteq> targetDir"
  "dbusMachineID \<noteq> targetDir" "identity_path machineID" "identity_path dbusMachineID" "\<not> host_key etcDir" "\<not> host_key machineID"
  "\<not> identity_path targetDir" "\<not> identity_path etcDir" "etcDir \<noteq> dbusMachineID" "machineID \<noteq> dbusMachineID"
  "etcDir \<in> set identity_dirs" "targetDir \<in> set identity_dirs" "dbusDir \<in> set identity_dirs" "sshDir \<in> set identity_dirs"
  "etcDir \<noteq> []" "machineID \<noteq> []" "machineID \<noteq> etcDir" "targetDir \<noteq> []" "etcDir \<noteq> targetDir" "machineID \<noteq> dbusDir"
  by (simp_all add: identity_defs host_key_def identity_path_def identity_dirs_def)

text \<open>What the removal removes, when \<open>ms\<close> are the host keys it has found.\<close>

definition gone :: "gpath list \<Rightarrow> gpath \<Rightarrow> bool" where
  "gone ms q \<longleftrightarrow> q \<in> set ms \<or> prefix machineID q \<or> q = dbusMachineID"

lemma gone_simps [simp]: "gone ms machineID" "gone ms dbusMachineID" "p \<in> set ms \<Longrightarrow> gone ms p"
  by (simp_all add: gone_def)

lemma gone_identity: "\<forall>p\<in>set ms. host_key p \<Longrightarrow> gone ms q \<Longrightarrow> identity_path q"
  by (auto simp: gone_def identity_path_def)

text \<open>Outside of that every name keeps its file, and only the directories above change, in their modification time.\<close>

definition spared :: "gpath list \<Rightarrow> guest \<Rightarrow> guest \<Rightarrow> bool" where
  "spared ms g g' \<longleftrightarrow> g_fault g' = g_fault g \<and> g_scan g' = g_scan g \<and> g_mounts g' = g_mounts g \<and>
     (\<forall>q n. \<not> gone ms q \<and> node_of g q = Some n \<longrightarrow>
        map_of (g_names g') q = map_of (g_names g) q \<and>
        (\<exists>m. node_of g' q = Some (set_mtime m n)) \<and> (q \<notin> set identity_dirs \<longrightarrow> node_of g' q = Some n)) \<and>
     (\<forall>q. map_of (g_names g') q \<noteq> None \<longrightarrow> map_of (g_names g) q \<noteq> None \<or> q = etcDir \<or> q = machineID)"

lemma spared_refl: "spared ms g (g\<lparr>g_steps := k\<rparr>)"
  using set_mtime_same by (auto simp: spared_def) metis

lemma spared_steps [simp]:
  "spared ms g (g'\<lparr>g_steps := k\<rparr>) = spared ms g g'"
  "spared ms (g\<lparr>g_steps := k\<rparr>) g' = spared ms g g'"
  by (simp_all add: spared_def)

lemma sparedD:
  assumes "spared ms g g'"
  shows "\<not> gone ms q \<Longrightarrow> node_of g q = Some n \<Longrightarrow> map_of (g_names g') q = map_of (g_names g) q"
    and "\<not> gone ms q \<Longrightarrow> node_of g q = Some n \<Longrightarrow> \<exists>m. node_of g' q = Some (set_mtime m n)"
    and "\<not> gone ms q \<Longrightarrow> node_of g q = Some n \<Longrightarrow> q \<notin> set identity_dirs \<Longrightarrow> node_of g' q = Some n"
    and "map_of (g_names g') q \<noteq> None \<Longrightarrow> map_of (g_names g) q \<noteq> None \<or> q = etcDir \<or> q = machineID"
  using assms unfolding spared_def by blast+

lemma spared_trans:
  assumes 1: "spared ms g g1" and 2: "spared ms g1 g2"
  shows "spared ms g g2"
  unfolding spared_def
proof (intro conjI allI impI; (elim conjE)?)
  fix q n assume q: "\<not> gone ms q" "node_of g q = Some n"
  obtain a where a: "node_of g1 q = Some (set_mtime a n)" using sparedD(2)[OF 1 q] by blast
  show "map_of (g_names g2) q = map_of (g_names g) q" using sparedD(1)[OF 1 q] sparedD(1)[OF 2 q(1) a] by simp
  show "\<exists>m. node_of g2 q = Some (set_mtime m n)" using sparedD(2)[OF 2 q(1) a] by simp
  show "node_of g2 q = Some n" if "q \<notin> set identity_dirs"
    using sparedD(3)[OF 2 q(1) sparedD(3)[OF 1 q that] that] .
next
  show "g_fault g2 = g_fault g" "g_scan g2 = g_scan g" "g_mounts g2 = g_mounts g" using 1 2 by (simp_all add: spared_def)
  show "map_of (g_names g) q \<noteq> None \<or> q = etcDir \<or> q = machineID" if "map_of (g_names g2) q \<noteq> None" for q
    using sparedD(4)[OF 1] sparedD(4)[OF 2 that] by blast
qed

lemma spared_honest: "spared ms g g' \<Longrightarrow> honest g' = honest g"
  by (simp add: spared_def honest_def)

lemma touch_parent_node:
  assumes "fs_ok g" "is_gdir g (butlast p)"
  shows "\<exists>m. \<forall>q. node_of (touch_parent p g) q = (if q = butlast p then map_option (set_mtime m) (node_of g q) else node_of g q)"
proof -
  obtain d where d: "map_of (g_names g) (butlast p) = Some d" using assms(2) by (auto simp: is_gdir_iff)
  have "node_of (touch_parent p g) q =
      (if q = butlast p then map_option (set_mtime (g_now g (g_steps g))) (node_of g q) else node_of g q)" for q
    using d fs_okD(4)[OF assms d, of q]
    by (cases "map_of (g_names g) q") (auto simp: touch_parent_def node_of_def)
  then show ?thesis by blast
qed

lemma drop_names_map [simp]: "map_of (g_names (drop_names P g)) q = (if P q then None else map_of (g_names g) q)"
proof -
  have "map_of (filter (\<lambda>(q, i). \<not> P q) xs) q = (if P q then None else map_of xs q)" for xs :: "(gpath \<times> nat) list"
    by (induction xs) auto
  then show ?thesis by (simp add: drop_names_def)
qed

lemma spared_drop:
  assumes "fs_ok g" "is_gdir g (butlast p)" "butlast p \<in> set identity_dirs" "\<And>q. P q \<Longrightarrow> gone ms q"
  shows "spared ms g (drop_names P (touch_parent p g))"
proof -
  obtain m where m: "\<And>q. node_of (touch_parent p g) q = (if q = butlast p then map_option (set_mtime m) (node_of g q) else node_of g q)"
    using touch_parent_node[OF assms(1,2)] by blast
  have n: "node_of (drop_names P (touch_parent p g)) q = (if P q then None else node_of (touch_parent p g) q)" for q
    by (simp add: node_of_def drop_names_map) (simp add: drop_names_def)
  have "g_fault (drop_names P (touch_parent p g)) = g_fault g" "g_scan (drop_names P (touch_parent p g)) = g_scan g" "g_mounts (drop_names P (touch_parent p g)) = g_mounts g"
    by (simp_all add: drop_names_def)
  then show ?thesis using assms(3,4) set_mtime_same
    by (auto simp: spared_def n m split: if_splits) metis
qed

lemma g_Remove_ok:
  assumes "g_Remove p g = (Inr y, g')" "fs_ok g" "gone ms p" "butlast p \<in> set identity_dirs" "p \<noteq> targetDir"
  shows "spared ms g g'" "map_of (g_names g') p = None" "\<And>q. q \<noteq> p \<Longrightarrow> q \<noteq> butlast p \<Longrightarrow> node_of g' q = node_of g q"
proof -
  obtain k where g': "g' = drop_names (\<lambda>q. q = p) (touch_parent p (g\<lparr>g_steps := k\<rparr>))" and p: "map_of (g_names g) p \<noteq> None"
    using assms(1) by (auto simp: g_Remove_def gcall_def Let_def split: option.splits if_splits)
  have dir: "is_gdir g (butlast p)" using p fs_okD(3)[OF assms(2)] assms(5) by blast
  then show "spared ms g g'"
    using spared_drop[of "g\<lparr>g_steps := k\<rparr>" p "\<lambda>q. q = p"] assms(2-4) by (simp add: g')
  show "node_of g' q = node_of g q" if q: "q \<noteq> p" "q \<noteq> butlast p" for q
  proof -
    have "node_of g' q = node_of (touch_parent p (g\<lparr>g_steps := k\<rparr>)) q"
      using q(1) by (simp add: g' node_of_def) (simp add: drop_names_def)
    also have "\<dots> = node_of g q"
      using touch_parent_node[of "g\<lparr>g_steps := k\<rparr>" p] assms(2) dir q(2) by auto
    finally show ?thesis .
  qed
  show "map_of (g_names g') p = None" by (simp add: g')
qed

lemma absent_error:
  assumes "g_Remove p g = (Inl e, g')" "honest g" "errors_Is e ENOENT"
  shows "\<exists>k. g' = g\<lparr>g_steps := k\<rparr>" "map_of (g_names g) p = None"
  using assms by (auto simp: g_Remove_def gcall_def Let_def honest_def split: option.splits if_splits)

lemma remove_matches_ok:
  assumes "remove_matches ps g = (Inr y, g')" "fs_ok g" "honest g" "\<forall>p\<in>set ps. host_key p \<and> p \<in> set ms"
  shows "spared ms g g' \<and> fs_ok g' \<and> (\<forall>p\<in>set ps. map_of (g_names g') p = None)"
  using assms
proof (induction ps arbitrary: g)
  case Nil
  then show ?case using spared_refl[of ms g "g_steps g"] by (simp add: gok)
next
  case (Cons p ps)
  have p: "gone ms p" "butlast p \<in> set identity_dirs" "p \<noteq> targetDir"
    using Cons.prems(4) by (auto simp: host_key_def identity_dirs_def identity_defs)
  have "\<exists>g1. spared ms g g1 \<and> fs_ok g1 \<and> map_of (g_names g1) p = None \<and> remove_matches ps g1 = (Inr y, g')"
    using Cons.prems(1)[unfolded remove_matches.simps]
  proof (cases rule: gtry_ok)
    case (ok x g1)
    have "fs_ok g1" using gkeeps_Remove[of p] Cons.prems(2) ok(1) unfolding gkeeps_def by (metis snd_conv)
    with g_Remove_ok[OF ok(1) Cons.prems(2) p] ok(2) show ?thesis by blast
  next
    case (failed e g1)
    then have e: "errors_Is e ENOENT" "remove_matches ps g1 = (Inr y, g')" by (auto simp: gok split: if_splits)
    from absent_error[OF failed(1) Cons.prems(3) e(1)] show ?thesis
      using e(2) spared_refl[of ms g "g_steps g"] Cons.prems(2) by (intro exI[of _ g1]) auto
  qed
  then obtain g1 where g1: "spared ms g g1" "fs_ok g1" "map_of (g_names g1) p = None" "remove_matches ps g1 = (Inr y, g')"
    by blast
  have IH: "spared ms g1 g' \<and> fs_ok g' \<and> (\<forall>p\<in>set ps. map_of (g_names g') p = None)"
    using Cons.IH[OF g1(4,2)] Cons.prems(3,4) spared_honest[OF g1(1)] by simp
  have "p \<noteq> etcDir" "p \<noteq> machineID" using Cons.prems(4) by auto
  then have "map_of (g_names g') p = None" using sparedD(4)[of ms g1 g' p] IH g1(3) by blast
  then show ?case using IH spared_trans[OF g1(1)] by simp
qed

lemma spared_create:
  assumes run: "g_create p ty mode g = (Inr y, g')" and ok: "fs_ok g"
    and p: "p = etcDir \<or> p = machineID"
  shows "spared ms g g'" "\<exists>n. node_of g' p = Some n \<and> in_type n = ty \<and> at_mode (in_attrs n) = mode"
    "\<And>q i. map_of (g_names g') p = Some i \<Longrightarrow> map_of (g_names g') q = Some i \<Longrightarrow> q = p"
proof -
  let ?i = "g_next g"
  obtain k n where g': "g' = add_name p ?i (g\<lparr>g_steps := k, g_inodes := (g_inodes g)(?i := n), g_next := Suc ?i\<rparr>)"
    and n: "in_type n = ty" "at_mode (in_attrs n) = mode"
    and free: "map_of (g_names g) p = None" and dir: "is_gdir g (butlast p)"
    using run by (auto simp: g_create_def gcall_def Let_def new_inode_def split: option.splits if_splits)
  define g1 where "g1 = g\<lparr>g_steps := k, g_inodes := (g_inodes g)(?i := n), g_next := Suc ?i\<rparr>"
  have node1: "node_of g1 q = node_of g q" for q
    using fs_okD(2)[OF ok, of q] by (cases "map_of (g_names g) q") (auto simp: g1_def node_of_def)
  have ok1: "fs_ok g1" by (rule fs_ok_inodes[OF ok]) (auto simp: g1_def)
  have dir1: "is_gdir g1 (butlast p)" using dir by (simp add: is_gdir_def node1)
  obtain m where m: "\<And>q. node_of (touch_parent p g1) q = (if q = butlast p then map_option (set_mtime m) (node_of g q) else node_of g q)"
    using touch_parent_node[OF ok1 dir1, unfolded node1] by blast
  have node: "node_of g' q = node_of (touch_parent p g1) q" if "q \<noteq> p" for q
    using that by (simp add: g' g1_def[symmetric] add_name_def node_of_def)
  have names: "map_of (g_names g') q = (if q = p then Some ?i else map_of (g_names g) q)" for q
    by (simp add: g')
  have d: "butlast p \<in> set identity_dirs" using p by auto
  have "node_of g p = None" using free by (simp add: node_of_def)
  then have "node_of g q = Some u \<Longrightarrow> q \<noteq> p" for q u by auto
  then show "spared ms g g'"
    using p d set_mtime_same node m names free unfolding spared_def
    by (auto simp: g') metis+
  obtain j where j: "map_of (g_names g) (butlast p) = Some j" using dir by (auto simp: is_gdir_iff)
  then have "j \<noteq> ?i" using fs_okD(2)[OF ok] by fastforce
  then have "node_of g' p = Some n"
    using j by (simp add: g' add_name_def touch_parent_def node_of_def)
  with n show "\<exists>n. node_of g' p = Some n \<and> in_type n = ty \<and> at_mode (in_attrs n) = mode" by blast
  show "q = p" if "map_of (g_names g') p = Some i" "map_of (g_names g') q = Some i" for q i
    using that fs_okD(2)[OF ok] names by (fastforce split: if_splits)
qed

lemma gkeepsD: "gkeeps m \<Longrightarrow> fs_ok g \<Longrightarrow> m g = (r, g') \<Longrightarrow> fs_ok g'"
  unfolding gkeeps_def by (metis snd_conv)

lemma MkdirAll_child:
  "g_MkdirAll (targetDir @ [name]) mode = g_mkdirs mode [targetDir, targetDir @ [name]]"
  by (simp add: g_MkdirAll_def targetDir_def upt_rec)

lemma mkdirs_cases:
  assumes "g_mkdirs mode (p # ps) g = (Inr y, g')"
  obtains (made) y1 g1 where "g_create p FDir mode g = (Inr y1, g1)" "g_mkdirs mode ps g1 = (Inr y, g')"
    | (there) k where "is_gdir g p" "g_mkdirs mode ps (g\<lparr>g_steps := k\<rparr>) = (Inr y, g')"
  using assms[unfolded g_mkdirs.simps]
proof (cases rule: gtry_ok)
  case (ok x g1)
  then show ?thesis by (rule made)
next
  case (failed e g1)
  obtain k where "g1 = g\<lparr>g_steps := k\<rparr>"
    using failed(1) by (auto simp: g_create_def gcall_def Let_def split: option.splits if_splits)
  with failed(2) there show ?thesis by (auto split: if_splits)
qed

lemma mkdir_etc_ok:
  assumes run: "g_MkdirAll etcDir mode g = (Inr y, g')" and ok: "fs_ok g" "is_gdir g targetDir"
  shows "spared ms g g'" "is_gdir g' etcDir"
proof -
  have "g_mkdirs mode [targetDir, etcDir] g = (Inr y, g')" using run by (simp add: etcDir_def MkdirAll_child)
  then have "\<exists>k. g_mkdirs mode [etcDir] (g\<lparr>g_steps := k\<rparr>) = (Inr y, g')"
  proof (cases rule: mkdirs_cases)
    case (made y1 g1)
    then show ?thesis using ok(2) by (auto simp: g_create_def gcall_def Let_def is_gdir_iff split: option.splits)
  qed blast
  then obtain k where "g_mkdirs mode [etcDir] (g\<lparr>g_steps := k\<rparr>) = (Inr y, g')" by blast
  then have "spared ms g g' \<and> is_gdir g' etcDir"
  proof (cases rule: mkdirs_cases)
    case (made y1 g1)
    then have g1: "g_create etcDir FDir mode (g\<lparr>g_steps := k\<rparr>) = (Inr y1, g')" by (simp add: gok)
    have "fs_ok (g\<lparr>g_steps := k\<rparr>)" using ok(1) by simp
    from spared_create(1,2)[OF g1 this] show ?thesis by (auto simp: is_gdir_def)
  next
    case (there k)
    then have "g' = g\<lparr>g_steps := k\<rparr>" by (simp add: gok)
    then show ?thesis using there(1) spared_refl by simp
  qed
  then show "spared ms g g'" "is_gdir g' etcDir" by auto
qed

lemma g_RemoveAll_ok:
  assumes "g_RemoveAll machineID g = (Inr y, g')" "fs_ok g" "is_gdir g etcDir"
  shows "spared ms g g'" "\<exists>i. map_of (g_names g') etcDir = Some i" "map_of (g_names g') machineID = None"
proof -
  have d: "\<not> prefix machineID etcDir" by (simp add: identity_defs)
  have sp: "spared ms g (drop_names (prefix machineID) (touch_parent machineID (g\<lparr>g_steps := k\<rparr>)))" for k
    using spared_drop[of "g\<lparr>g_steps := k\<rparr>" machineID "prefix machineID"] assms(2,3) by (simp add: gone_def)
  from assms(1) consider k where "g' = g\<lparr>g_steps := k\<rparr>" "map_of (g_names g) machineID = None"
    | k where "g' = drop_names (prefix machineID) (touch_parent machineID (g\<lparr>g_steps := k\<rparr>))"
    by (auto simp: g_RemoveAll_def gcall_def Let_def split: option.splits if_splits)
  then have "spared ms g g' \<and> (\<exists>i. map_of (g_names g') etcDir = Some i) \<and> map_of (g_names g') machineID = None"
    using sp spared_refl d assms(3) by cases (auto simp: is_gdir_iff)
  then show "spared ms g g'" "\<exists>i. map_of (g_names g') etcDir = Some i" "map_of (g_names g') machineID = None" by auto
qed

text \<open>The new \<^verbatim>\<open>machine-id\<close>: an empty file of root.\<close>

definition empty_machine_id :: "inode \<Rightarrow> bool" where
  "empty_machine_id n \<longleftrightarrow> in_type n = FReg [] \<and> at_uid (in_attrs n) = 0 \<and> at_gid (in_attrs n) = 0 \<and> at_mode (in_attrs n) = 420"

lemma machine_id_ok:
  assumes 1: "g_WriteEmpty machineID 420 g = (Inr y, g1)" and 2: "g_update machineID (chown_attrs 0 0) g1 = (Inr z, g')"
    and ok: "fs_ok g"
  shows "spared ms g g'" "\<exists>n. node_of g' machineID = Some n \<and> empty_machine_id n"
proof -
  obtain y0 g0 k where c: "g_create machineID (FReg []) 420 g = (Inr y0, g0)" and g1: "g1 = g0\<lparr>g_steps := k\<rparr>"
    using 1 by (auto simp: g_WriteEmpty_def gok)
  note sc = spared_create[OF c ok]
  have u: "upd machineID (chown_attrs 0 0) g0 g'" using upd_steps(1)[OF g_update_ok[OF 2], of "g_steps g0"] g1 by simp
  obtain n where n: "node_of g0 machineID = Some n" "in_type n = FReg []" "at_mode (in_attrs n) = 420" using sc(2) by auto
  then have "node_of g' machineID = Some (chown_attrs 0 0 n)" using upd_node[OF u] by auto
  then show "\<exists>n. node_of g' machineID = Some n \<and> empty_machine_id n"
    using n by (simp add: empty_machine_id_def chown_attrs_def)
  obtain i j where i: "map_of (g_names g0) machineID = Some i" "g' = (set_inode i (chown_attrs 0 0) g0)\<lparr>g_steps := j\<rparr>"
    using u by (auto simp: upd_def)
  have other: "node_of g' q = node_of g0 q" if "q \<noteq> machineID" for q
    using sc(3)[OF _ i(1), of q] that i by (cases "map_of (g_names g0) q") (auto simp: node_of_def)
  have "spared ms g0 g'"
    using other set_mtime_same i(2) unfolding spared_def by (auto, (metis gone_simps(1))+)
  then show "spared ms g g'" using spared_trans sc(1) by blast
qed

lemma remove_dbus_ok:
  assumes run: "gtry (g_Remove dbusMachineID) greturn
      (\<lambda>e. if errors_Is e ENOENT then greturn () else gfail (Wrap ''sanitize dbus machine-id'' e)) g = (Inr y, g')"
    and g: "fs_ok g" "honest g"
  shows "spared ms g g' \<and> map_of (g_names g') dbusMachineID = None \<and> node_of g' machineID = node_of g machineID"
  using run
proof (cases rule: gtry_ok)
  case (ok x g1)
  then have "g_Remove dbusMachineID g = (Inr y, g')" by (simp add: gok)
  from g_Remove_ok[OF this g(1), of ms] show ?thesis by simp
next
  case (failed e g1)
  then have e: "errors_Is e ENOENT" "g' = g1" by (auto simp: gok split: if_splits)
  from absent_error[OF failed(1) g(2) e(1)] show ?thesis using e(2) spared_refl by auto
qed

text \<open>The matches are host keys on the disk; all of them, if the directory could be read.\<close>

definition found :: "guest \<Rightarrow> gpath list \<Rightarrow> bool" where
  "found g ms \<longleftrightarrow> (\<forall>q\<in>set ms. host_key q) \<and>
     ((\<forall>k. g_scan g k = None) \<longrightarrow> (\<forall>q. host_key q \<and> map_of (g_names g) q \<noteq> None \<longrightarrow> q \<in> set ms)) \<and>
     ((\<forall>k. g_scan g k = Some 0) \<longrightarrow> ms = [])"

lemma Glob_host_keys:
  assumes "g_Glob sshDir ''ssh_host_'' g = (Inr ms, g')"
  shows "found g ms" "g' = g\<lparr>g_steps := Suc (g_steps g)\<rparr>"
proof -
  have ms: "ms = map (\<lambda>name. sshDir @ [name]) (filter (prefix ''ssh_host_'') (sort (g_Readdirnames sshDir g)))"
    and g': "g' = g\<lparr>g_steps := Suc (g_steps g)\<rparr>"
    using assms by (auto simp: g_Glob_def split: if_splits)
  show "g' = g\<lparr>g_steps := Suc (g_steps g)\<rparr>" by (rule g')
  have all: "q \<in> set ms" if "\<forall>k. g_scan g k = None" "host_key q" "map_of (g_names g) q \<noteq> None" for q
  proof -
    have "q \<in> fst ` set (g_names g)" using that(3) by (simp add: map_of_eq_None_iff)
    then have "last q \<in> set (dir_entries sshDir g)" using that(2) by (force simp: dir_entries_def host_key_def)
    moreover have "q = sshDir @ [last q]" using that(2) unfolding host_key_def by (metis append_butlast_last_id)
    ultimately show ?thesis using that(1,2) unfolding ms by (force simp: g_Readdirnames_def host_key_def)
  qed
  moreover have "\<forall>q\<in>set ms. host_key q" by (auto simp: ms host_key_def)
  moreover have "ms = []" if "\<forall>k. g_scan g k = Some 0" using that by (simp add: ms g_Readdirnames_def)
  ultimately show "found g ms" unfolding found_def by blast
qed

lemma sanitizeIdentity_ok:
  assumes run: "sanitizeIdentity g = (Inr y, g')" and g: "fs_ok g" "honest g" "is_gdir g targetDir"
  obtains ms where "found g ms" "spared ms g g'" "\<And>q. q \<in> set ms \<Longrightarrow> map_of (g_names g') q = None"
    "\<exists>n. node_of g' machineID = Some n \<and> empty_machine_id n" "map_of (g_names g') dbusMachineID = None"
proof -
  from run obtain ms g0 y1 g1 y2 g2 y3 g3 y4 g4 y5 g5 where
    0: "g_Glob sshDir ''ssh_host_'' g = (Inr ms, g0)" and
    1: "remove_matches ms g0 = (Inr y1, g1)" and
    2: "g_MkdirAll etcDir 493 g1 = (Inr y2, g2)" and
    3: "g_RemoveAll machineID g2 = (Inr y3, g3)" and
    4: "g_WriteEmpty machineID 420 g3 = (Inr y4, g4)" and
    5: "g_update machineID (chown_attrs 0 0) g4 = (Inr y5, g5)" and
    6: "gtry (g_Remove dbusMachineID) greturn
          (\<lambda>e. if errors_Is e ENOENT then greturn () else gfail (Wrap ''sanitize dbus machine-id'' e)) g5 = (Inr y, g')"
    unfolding sanitizeIdentity_def Let_def sshDir_def[symmetric] machineID_def[symmetric] dbusMachineID_def[symmetric]
    by (auto simp: gok)
  note glob = Glob_host_keys[OF 0]
  have keys: "\<forall>p\<in>set ms. host_key p" using glob(1) by (simp add: found_def)
  then have keys': "\<forall>p\<in>set ms. host_key p \<and> p \<in> set ms" by blast
  have g0: "fs_ok g0" "honest g0" using g by (simp_all add: glob(2))
  note ok1 = remove_matches_ok[OF 1 g0 keys']
  have s1: "spared ms g g1" and f1: "fs_ok g1" using ok1 by (auto simp: glob(2))
  have "\<not> gone ms targetDir" using gone_identity[OF keys, of targetDir] by auto
  then have "is_gdir g1 targetDir"
    using g(3) sparedD(2)[OF s1, of targetDir] by (auto simp: is_gdir_def split: option.splits)
  note ok2 = mkdir_etc_ok[OF 2 f1 this] and f2 = gkeepsD[OF gkeeps_MkdirAll f1 2]
  note ok3 = g_RemoveAll_ok[OF 3 f2 ok2(2)] and f3 = gkeepsD[OF gkeeps_RemoveAll f2 3]
  note ok5 = machine_id_ok[OF 4 5 f3]
  note f4 = gkeepsD[OF gkeeps_WriteEmpty f3 4]
  note f5 = gkeepsD[OF gkeeps_attrs(1) f4 5]
  have s: "spared ms g g5" and s1': "spared ms g1 g5" using s1 ok2(1) ok3(1) ok5(1) spared_trans by metis+
  have h5: "honest g5" using spared_honest[OF s] g(2) by simp
  have 7: "spared ms g5 g'" "map_of (g_names g') dbusMachineID = None" "node_of g' machineID = node_of g5 machineID"
    using remove_dbus_ok[OF 6 f5 h5] by auto
  show thesis
  proof (rule that[OF glob(1) spared_trans[OF s 7(1)] _ _ 7(2)])
    show "\<exists>n. node_of g' machineID = Some n \<and> empty_machine_id n" using ok5(2) 7(3) by simp
    show "map_of (g_names g') q = None" if "q \<in> set ms" for q
    proof -
      have "host_key q" "map_of (g_names g1) q = None" using that keys ok1 by auto
      then show ?thesis using sparedD(4)[OF spared_trans[OF s1' 7(1)], of q] by (cases "map_of (g_names g') q") auto
    qed
  qed
qed

section \<open>The top level of the image\<close>

text \<open>The files copied from an image, and the directories created empty in place of the system's.\<close>

definition root_files :: "(string \<times> stree) list \<Rightarrow> (gpath \<times> stree) list" where
  "root_files es = image_entries (filter (\<lambda>(name, s). name \<notin> set system_names) es) targetDir"

definition system_dirs :: "(string \<times> stree) list \<Rightarrow> gpath list" where
  "system_dirs es = map (\<lambda>(name, s). targetDir @ [name]) (filter (\<lambda>(name, s). name \<in> set system_names) es)"

lemma root_files_Cons:
  "root_files ((name, s) # es) =
     (if name \<in> set system_names then [] else image_files s (targetDir @ [name])) @ root_files es"
  by (simp add: root_files_def)

lemma system_dirs_Cons:
  "system_dirs ((name, s) # es) = (if name \<in> set system_names then [targetDir @ [name]] else []) @ system_dirs es"
  by (simp add: system_dirs_def)

definition root_post :: "(gpath \<times> stree) set \<Rightarrow> (string \<times> stree) list \<Rightarrow> guest \<Rightarrow> copier \<Rightarrow> guest \<Rightarrow> bool" where
  "root_post D es g c' g' \<longleftrightarrow>
     copy_inv (set (root_files es) \<union> D) c' g' \<and> grown targetDir (fst ` set (root_files es) \<union> set (system_dirs es)) g g' \<and>
     (\<forall>d\<in>set (system_dirs es). is_gdir g' d)"

lemma mkdir_system_ok:
  assumes run: "g_MkdirAll (targetDir @ [name]) mode g = (Inr y, g')" and inv: "copy_inv D c g"
    and d: "is_gdir g targetDir" "targetDir \<notin> done_paths D"
  shows "copy_inv D c g'" "grown targetDir {targetDir @ [name]} g g'" "is_gdir g' (targetDir @ [name])"
proof -
  let ?p = "targetDir @ [name]"
  have "\<exists>k. g_mkdirs mode [?p] (g\<lparr>g_steps := k\<rparr>) = (Inr y, g')"
    using run[unfolded MkdirAll_child]
  proof (cases rule: mkdirs_cases)
    case (made y1 g1)
    then show ?thesis using d(1) by (auto simp: g_create_def gcall_def Let_def is_gdir_iff split: option.splits)
  qed blast
  then obtain k where "g_mkdirs mode [?p] (g\<lparr>g_steps := k\<rparr>) = (Inr y, g')" by blast
  then have "copy_inv D c g' \<and> grown targetDir {?p} g g' \<and> is_gdir g' ?p"
  proof (cases rule: mkdirs_cases)
    case (made y1 g1)
    then have g1: "g_create ?p FDir mode (g\<lparr>g_steps := k\<rparr>) = (Inr y1, g')" by (simp add: gok)
    have "copy_inv D c (g\<lparr>g_steps := k\<rparr>)" using inv by simp
    from g_create_ok(1-3)[OF g1 this] d(2) show ?thesis by (auto simp: is_gdir_def)
  next
    case (there j)
    then have g': "g' = g\<lparr>g_steps := j\<rparr>" by (simp add: gok)
    have "grown targetDir {} g g'" unfolding g' by (rule grown_refl)
    then have "grown targetDir {?p} g g'" using there(1) by (auto simp: grown_def is_gdir_iff g' insert_absorb domI)
    then show ?thesis using inv there(1) by (simp add: g')
  qed
  then show "copy_inv D c g'" "grown targetDir {targetDir @ [name]} g g'" "is_gdir g' (targetDir @ [name])" by auto
qed

lemma root_free_next:
  assumes gr: "grown targetDir N g g1" and N: "\<And>q. q \<in> N \<Longrightarrow> prefix (targetDir @ [name]) q"
    and m: "free_at (targetDir @ [m]) g" "m \<noteq> name"
  shows "free_at (targetDir @ [m]) g1"
proof (rule free_at_grown[OF m(1) gr])
  fix q assume "q \<in> N"
  then show "\<not> prefix (targetDir @ [m]) q" using N[of q] m(2) prefix_snoc_same[of targetDir m q name] by auto
qed

lemma copy_root_ok:
  assumes "copy_root es c g = (Inr c', g')" "copy_pre D (set (root_files es)) targetDir c g" "entries_ok es"
    "is_gdir g targetDir" "\<And>name s. (name, s) \<in> set es \<Longrightarrow> name \<notin> set system_names \<Longrightarrow> free_at (targetDir @ [name]) g"
  shows "root_post D es g c' g'"
  using assms
proof (induction es c arbitrary: D g rule: copy_root.induct)
  case (1 c)
  then show ?case using grown_refl[of targetDir g "g_steps g"]
    by (auto simp: root_post_def root_files_def system_dirs_def gok copy_pre_def)
next
  case (2 name s es c)
  let ?p = "targetDir @ [name]"
  have names: "name \<notin> fst ` set es" "tree_ok s" "entries_ok es" using 2(5) by auto
  have ne: "m \<noteq> name" if "(m, u) \<in> set es" for m u using names(1) that by force
  show ?case
  proof (cases "name \<in> set system_names")
    case True
    with 2(3) obtain y g1 where 3: "g_MkdirAll ?p 493 g = (Inr y, g1)" "copy_root es c g1 = (Inr c', g')" by (auto simp: gok)
    have inv: "copy_inv D c g" "targetDir \<notin> done_paths D" using 2(4) by (auto simp: copy_pre_def)
    note mk = mkdir_system_ok[OF 3(1) inv(1) 2(6) inv(2)]
    have "root_post D es g1 c' g'"
    proof (rule 2(1)[OF True 3(2)])
      show "copy_pre D (set (root_files es)) targetDir c g1"
        using 2(4) True mk(1) honest_grown[OF mk(2)] by (simp add: copy_pre_def root_files_Cons)
      show "is_gdir g1 targetDir" by (rule is_gdir_grown[OF mk(2) 2(6)])
      show "free_at (targetDir @ [m]) g1" if "(m, u) \<in> set es" "m \<notin> set system_names" for m u
        using root_free_next[OF mk(2)] 2(7)[of m u] that ne[OF that(1)] by auto
    qed (rule names(3))
    then show ?thesis
      using True grown_trans[OF mk(2), of "fst ` set (root_files es) \<union> set (system_dirs es)" g'] is_gdir_grown[OF _ mk(3)]
      by (auto simp: root_post_def root_files_Cons system_dirs_Cons)
  next
    case False
    let ?F = "set (image_files s ?p)"
    from False 2(3) obtain c1 g1 where 3: "copyEntry s ?p c g = (Inr c1, g1)" "copy_root es c1 g1 = (Inr c', g')"
      by (auto simp: gok)
    have pre: "copy_pre D (?F \<union> set (root_files es)) targetDir c g" using 2(4) False by (simp add: root_files_Cons)
    then have "copy_pre D ?F targetDir c g" by (auto simp: copy_pre_def intro: coherent_mono)
    then have post: "copy_post D ?F targetDir g c1 g1"
      using copy_tree(1)[OF 3(1)] names(2) 2(7)[of name s] False by simp
    then have gr: "grown targetDir (fst ` ?F) g g1" by (simp add: copy_post_def)
    have F: "prefix ?p q" if "q \<in> fst ` ?F" for q using that image_prefix(1) by fastforce
    have "root_post (?F \<union> D) es g1 c' g'"
    proof (rule 2(2)[OF False 3(2)])
      show "copy_pre (?F \<union> D) (set (root_files es)) targetDir c1 g1"
        using pre post
      proof (rule copy_pre_next)
        show "q \<noteq> targetDir" if "(q, u) \<in> ?F" for q u using prefix_snoc_neq[OF image_prefix(1)[OF that]] .
      qed
      show "is_gdir g1 targetDir" by (rule is_gdir_grown[OF gr 2(6)])
      show "free_at (targetDir @ [m]) g1" if "(m, u) \<in> set es" "m \<notin> set system_names" for m u
        using root_free_next[OF gr F] 2(7)[of m u] that ne[OF that(1)] by auto
    qed (rule names(3))
    then show ?thesis
      using False grown_trans[OF gr, of "fst ` set (root_files es) \<union> set (system_dirs es)" g']
      by (auto simp: root_post_def root_files_Cons system_dirs_Cons image_Un Un_ac)
  qed
qed

section \<open>The whole run\<close>

definition same_disk :: "guest \<Rightarrow> guest \<Rightarrow> bool" where
  "same_disk g g' \<longleftrightarrow> g_names g' = g_names g \<and> g_inodes g' = g_inodes g \<and> g_next g' = g_next g \<and> g_fault g' = g_fault g \<and> g_scan g' = g_scan g"

lemma g_mount_ok [gok]:
  "g_mount d g = (Inr y, g') \<longleftrightarrow> g_fault g (g_steps g) = None \<and>
     g' = g\<lparr>g_steps := Suc (g_steps g), g_mounts := d # g_mounts g\<rparr>"
  by (auto simp: g_mount_def gcall_def Let_def split: option.splits)

lemma g_unmount_ok [gok]:
  "g_unmount d g = (Inr y, g') \<longleftrightarrow> g_fault g (g_steps g) = None \<and> d \<in> set (g_mounts g) \<and>
     g' = g\<lparr>g_steps := Suc (g_steps g), g_mounts := remove1 d (g_mounts g)\<rparr>"
  by (auto simp: g_unmount_def gcall_def Let_def split: option.splits if_splits)

lemma g_unmount_absent: "d \<notin> set (g_mounts g) \<Longrightarrow> \<exists>k. snd (g_unmount d g) = g\<lparr>g_steps := k\<rparr>"
  by (auto simp: g_unmount_def gcall_def Let_def split: option.splits)

lemma run_helper_ok:
  assumes run: "run_helper es g = (Inr y, g')"
  obtains g1 c g2 g3 where "same_disk g g1" "g_mounts g1 = ''/target'' # ''/source'' # g_mounts g"
    "copy_root es (\<lambda>_. None) g1 = (Inr c, g2)" "sanitizeIdentity g2 = (Inr (), g3)" "same_disk g3 g'"
    "g_mounts g3 = ''/target'' # ''/source'' # [] \<longrightarrow> g_mounts g' = []"
proof -
  let ?body = "gthen (gwrap ''mount ext4 target'' (g_mount ''/target''))
       (gtry
         (gthen (copy_image es) (gwrap ''unmount ext4 target'' (g_unmount ''/target'')))
         (\<lambda>_. gwrap ''unmount OCI rootfs'' (g_unmount ''/source''))
         (\<lambda>e. gthen (gtry (g_unmount ''/target'') greturn (\<lambda>_. greturn ())) (gfail e)))"
  from run obtain k g4 where b: "?body (g\<lparr>g_steps := k, g_mounts := ''/source'' # g_mounts g\<rparr>) = (Inr y, g4)"
    and g': "g' = snd (g_unmount ''/source'' g4)"
    unfolding run_helper_def by (auto simp: gok)
  from b obtain j where t: "gtry
         (gthen (copy_image es) (gwrap ''unmount ext4 target'' (g_unmount ''/target'')))
         (\<lambda>_. gwrap ''unmount OCI rootfs'' (g_unmount ''/source''))
         (\<lambda>e. gthen (gtry (g_unmount ''/target'') greturn (\<lambda>_. greturn ())) (gfail e))
         (g\<lparr>g_steps := j, g_mounts := ''/target'' # ''/source'' # g_mounts g\<rparr>) = (Inr y, g4)"
    by (auto simp: gok)
  from t obtain i c g2 g3 where
    1: "copy_root es (\<lambda>_. None) (g\<lparr>g_mounts := ''/target'' # ''/source'' # g_mounts g, g_steps := i\<rparr>) = (Inr c, g2)" and
    2: "sanitizeIdentity g2 = (Inr (), g3)" and
    3: "\<exists>l. g4 = g3\<lparr>g_steps := l, g_mounts := remove1 ''/source'' (remove1 ''/target'' (g_mounts g3))\<rparr>"
    by (cases rule: gtry_ok) (auto simp: gok copy_image_def, blast)
  have d: "same_disk g4 (snd (g_unmount d g4))" for d
    by (auto simp: g_unmount_def gcall_def Let_def same_disk_def split: option.splits)
  show thesis
  proof (rule that[OF _ _ 1 2])
    show "same_disk g3 g'" using 3 d[of "''/source''"] by (auto simp: g' same_disk_def)
    show "g_mounts g3 = ''/target'' # ''/source'' # [] \<longrightarrow> g_mounts g' = []"
      using 3 g_unmount_absent[of "''/source''" g4] by (auto simp: g')
  qed (simp_all add: same_disk_def)
qed

text \<open>A disk as \<^verbatim>\<open>mkfs.ext4\<close> leaves it, and the guest before the run.\<close>

definition fresh_disk :: "guest \<Rightarrow> bool" where
  "fresh_disk g \<longleftrightarrow> g_names g = [(targetDir, 2), (targetDir @ [''lost+found''], 11)] \<and> g_next g = 12 \<and>
     in_type (g_inodes g 2) = FDir \<and> in_type (g_inodes g 11) = FDir \<and> g_mounts g = []"

lemma fresh_disk_ok:
  assumes "fresh_disk g" "same_disk g g1"
  shows "fs_ok g1" "copy_inv {} (\<lambda>_. None) g1" "is_gdir g1 targetDir"
    "name \<notin> set system_names \<Longrightarrow> free_at (targetDir @ [name]) g1"
    "map_of (g_names g1) q \<noteq> None \<Longrightarrow> q = targetDir \<or> q = targetDir @ [''lost+found'']"
proof -
  have g: "g_names g1 = [(targetDir, 2), (targetDir @ [''lost+found''], 11)]" "g_next g1 = 12"
    "in_type (g_inodes g1 2) = FDir" "in_type (g_inodes g1 11) = FDir"
    using assms by (simp_all add: fresh_disk_def same_disk_def)
  show "copy_inv {} (\<lambda>_. None) g1" using g by (auto simp: copy_inv_def split: if_splits)
  show "fs_ok g1" using g by (auto simp: fs_ok_def is_gdir_iff targetDir_def split: if_splits)
  show "is_gdir g1 targetDir" using g by (simp add: is_gdir_iff)
  show "map_of (g_names g1) q \<noteq> None \<Longrightarrow> q = targetDir \<or> q = targetDir @ [''lost+found'']"
    using g by (auto split: if_splits)
  show "free_at (targetDir @ [name]) g1" if "name \<notin> set system_names"
    using that g by (auto simp: free_at_def targetDir_def system_names_def prefix_def)
qed

lemma copied_then_spared:
  assumes c: "copy_inv D c g2" and s: "spared ms g2 g3" and q: "(q, s) \<in> D" "\<not> gone ms q"
  shows "\<exists>n. node_of g3 q = Some n \<and> copy_of s (set_mtime (at_mtime (sn_attrs s)) n) \<and>
      (q \<notin> set identity_dirs \<longrightarrow> copy_of s n)"
    and "map_of (g_names g3) q = map_of (g_names g2) q"
proof -
  obtain n where n: "node_of g2 q = Some n" "copy_of s n" using copy_invD(2)[OF c q(1)] by blast
  then have t: "set_mtime (at_mtime (sn_attrs s)) n = n"
    using set_mtime_same[of n] by (simp add: copy_of_def Let_def)
  obtain m where m: "node_of g3 q = Some (set_mtime m n)" using sparedD(2)[OF s q(2) n(1)] by blast
  then show "\<exists>n. node_of g3 q = Some n \<and> copy_of s (set_mtime (at_mtime (sn_attrs s)) n) \<and>
      (q \<notin> set identity_dirs \<longrightarrow> copy_of s n)"
    using sparedD(3)[OF s q(2) n(1)] n(2) by (auto simp: t)
  show "map_of (g_names g3) q = map_of (g_names g2) q" by (rule sparedD(1)[OF s q(2) n(1)])
qed

lemma same_key_same_inode:
  assumes c: "copy_inv D c g" and q: "(q, s) \<in> D" "(q', s') \<in> D" "is_reg s" "is_reg s'"
  shows "map_of (g_names g) q = map_of (g_names g) q' \<longleftrightarrow> sn_key s = sn_key s'"
proof
  obtain i where i: "map_of (g_names g) q = Some i" using done_named[OF c q(1)] by blast
  assume "map_of (g_names g) q = map_of (g_names g) q'"
  then have "map_of (g_names g) q' = Some i" using i by simp
  from copy_invD(5)[OF c i this] show "sn_key s = sn_key s'"
    using copy_invD(6)[OF c] q(1,2) by metis
next
  assume "sn_key s = sn_key s'"
  then show "map_of (g_names g) q = map_of (g_names g) q'"
    using copy_invD(4)[OF c q(1,3)] copy_invD(4)[OF c q(2,4)] by auto
qed

lemma helper_phases:
  assumes run: "run_helper es g = (Inr y, g')" and disk: "fresh_disk g" "honest g"
    and src: "entries_ok es" "coherent (set (root_files es))"
  obtains c g2 g3 ms where "copy_inv (set (root_files es)) c g2" "same_disk g3 g'" "found g2 ms" "g_scan g2 = g_scan g" "spared ms g2 g3"
    "\<And>q. q \<in> set ms \<Longrightarrow> map_of (g_names g3) q = None"
    "\<exists>n. node_of g3 machineID = Some n \<and> empty_machine_id n" "map_of (g_names g3) dbusMachineID = None"
    "\<And>q. map_of (g_names g2) q \<noteq> None \<Longrightarrow>
       q \<in> {targetDir, targetDir @ [''lost+found'']} \<union> fst ` set (root_files es) \<union> set (system_dirs es)"
    "\<And>d. d \<in> set (system_dirs es) \<Longrightarrow> is_gdir g2 d" "g_mounts g' = []"
proof -
  obtain g1 c g2 g3 where p: "same_disk g g1" "g_mounts g1 = ''/target'' # ''/source'' # g_mounts g"
    "copy_root es (\<lambda>_. None) g1 = (Inr c, g2)" "sanitizeIdentity g2 = (Inr (), g3)" "same_disk g3 g'"
    "g_mounts g3 = ''/target'' # ''/source'' # [] \<longrightarrow> g_mounts g' = []"
    using run_helper_ok[OF run] by blast
  note f = fresh_disk_ok[OF disk(1) p(1)]
  have h1: "honest g1" using disk(2) p(1) by (simp add: honest_def same_disk_def)
  have "copy_pre {} (set (root_files es)) targetDir (\<lambda>_. None) g1"
    using f(2) h1 src(2) by (simp add: copy_pre_def done_paths_def)
  from copy_root_ok[OF p(3) this src(1) f(3) f(4)] have post: "root_post {} es g1 c g2" by blast
  then have gr: "grown targetDir (fst ` set (root_files es) \<union> set (system_dirs es)) g1 g2" by (simp add: root_post_def)
  have f2: "fs_ok g2" by (rule gkeepsD[OF gkeeps_copy_root f(1) p(3)])
  have h2: "honest g2" using h1 honest_grown[OF gr] by simp
  obtain ms where s: "found g2 ms" "spared ms g2 g3" "\<And>q. q \<in> set ms \<Longrightarrow> map_of (g_names g3) q = None"
    "\<exists>n. node_of g3 machineID = Some n \<and> empty_machine_id n" "map_of (g_names g3) dbusMachineID = None"
    using sanitizeIdentity_ok[OF p(4) f2 h2 is_gdir_grown[OF gr f(3)]] by metis
  have m: "g_mounts g' = []" using p(2,6) gr s(2) disk(1) by (simp add: grown_def spared_def fresh_disk_def)
  have sc: "g_scan g2 = g_scan g" using gr p(1) by (simp add: grown_def same_disk_def)
  have "q \<in> {targetDir, targetDir @ [''lost+found'']} \<union> fst ` set (root_files es) \<union> set (system_dirs es)"
    if "map_of (g_names g2) q \<noteq> None" for q
  proof -
    have "q \<in> dom (map_of (g_names g2))" using that by blast
    then have "map_of (g_names g1) q \<noteq> None \<or> q \<in> fst ` set (root_files es) \<union> set (system_dirs es)"
      using gr by (auto simp: grown_def)
    then show ?thesis using f(5)[of q] by blast
  qed
  note only = this
  show thesis by (rule that[OF _ p(5) s(1) sc s(2-5) only _ m]) (use post in \<open>auto simp: root_post_def\<close>)
qed

lemma system_dirs_plain: "d \<in> set (system_dirs es) \<Longrightarrow> \<not> identity_path d"
  by (auto simp: system_dirs_def system_names_def identity_path_def host_key_def identity_defs)

lemma same_disk_node: "same_disk g g' \<Longrightarrow> node_of g' q = node_of g q"
  by (simp add: same_disk_def node_of_def)

lemma helper_main_ok: "helper_main es g = ((0, out), g') \<Longrightarrow> run_helper es g = (Inr (), g')"
  by (auto simp: helper_main_def split: prod.splits sum.splits)

text \<open>The directories through which the removal of the identity reaches its files are no symbolic links of the image. (Linux would follow
  such a link, even out of the disk; the model does not.)\<close>

definition plain_dirs :: "(string \<times> stree) list \<Rightarrow> bool" where
  "plain_dirs es \<longleftrightarrow> (\<forall>(q, s)\<in>set (root_files es). q \<in> {etcDir, sshDir, dbusDir, butlast dbusDir, butlast (butlast dbusDir)} \<longrightarrow>
     (case sn_type s of FLink link \<Rightarrow> False | _ \<Rightarrow> True))"

text \<open>C9. A run of the image helper that exits with status zero has put the files of the image on the disk: at the same path, with the type,
  content or link target, owner, permission bits (set-user-id, set-group-id and sticky included), times and
  selected extended attributes of the original; files that share an inode in the image share
  one on the disk, and no others do. What is not copied, as in the code: sockets, and everything at and below the entries
  \<^verbatim>\<open>dev\<close>, \<^verbatim>\<open>proc\<close>, \<^verbatim>\<open>sys\<close>, \<^verbatim>\<open>run\<close>, \<^verbatim>\<open>mnt\<close>, \<^verbatim>\<open>lost+found\<close> and \<^verbatim>\<open>.krunvm.lock\<close> of the top level, in whose place there is a
  directory. Exempt are also the paths of the machine identity, and the
  modification times of the four directories in which the identity is removed. Assumed: no call fails with \<^verbatim>\<open>ENOTSUP\<close>, \<^verbatim>\<open>ENODATA\<close>,
  \<^verbatim>\<open>ENOENT\<close> or \<^verbatim>\<open>EEXIST\<close> without reason (\<open>honest\<close>; the helper takes the first three as \<^emph>\<open>no attributes\<close> when it lists the extended attributes, and then
  drops them silently), and the directories of the identity are no symbolic links.\<close>

theorem helper_copies_image:
  assumes "helper_main es g = ((0, out), g')" "fresh_disk g" "honest g" "entries_ok es" "coherent (set (root_files es))" "plain_dirs es"
  shows "(\<forall>(q, s)\<in>set (root_files es). \<not> identity_path q \<longrightarrow>
      (\<exists>n. node_of g' q = Some n \<and> copy_of s (set_mtime (at_mtime (sn_attrs s)) n) \<and>
        (q \<notin> set identity_dirs \<longrightarrow> copy_of s n))) \<and>
    (\<forall>(q, s)\<in>set (root_files es). \<forall>(q', s')\<in>set (root_files es).
      \<not> identity_path q \<and> \<not> identity_path q' \<and> is_reg s \<and> is_reg s' \<longrightarrow>
      (map_of (g_names g') q = map_of (g_names g') q' \<longleftrightarrow> sn_key s = sn_key s')) \<and>
    (\<forall>d\<in>set (system_dirs es). is_gdir g' d)"
proof -
  obtain c g2 g3 ms where p: "copy_inv (set (root_files es)) c g2" "same_disk g3 g'" "found g2 ms" "spared ms g2 g3"
    "\<And>d. d \<in> set (system_dirs es) \<Longrightarrow> is_gdir g2 d"
    using helper_phases[OF helper_main_ok[OF assms(1)] assms(2-5)] by metis
  note cs = copied_then_spared[OF p(1,4)]
  have out: "\<not> gone ms q" if "\<not> identity_path q" for q using that gone_identity[of ms q] p(3) by (auto simp: found_def)
  have names: "g_names g' = g_names g3" using p(2) by (simp add: same_disk_def)
  show ?thesis
  proof (intro conjI ballI; clarify?)
    fix q s assume "(q, s) \<in> set (root_files es)" "\<not> identity_path q"
    then show "\<exists>n. node_of g' q = Some n \<and> copy_of s (set_mtime (at_mtime (sn_attrs s)) n) \<and>
        (q \<notin> set identity_dirs \<longrightarrow> copy_of s n)"
      using cs(1) same_disk_node[OF p(2)] out by simp
  next
    fix q s q' s' assume q: "(q, s) \<in> set (root_files es)" "\<not> identity_path q" "(q', s') \<in> set (root_files es)"
      "\<not> identity_path q'" "is_reg s" "is_reg s'"
    show "map_of (g_names g') q = map_of (g_names g') q' \<longleftrightarrow> sn_key s = sn_key s'"
      unfolding names cs(2)[OF q(1) out[OF q(2)]] cs(2)[OF q(3) out[OF q(4)]] by (rule same_key_same_inode[OF p(1) q(1,3,5,6)])
  next
    fix d assume d: "d \<in> set (system_dirs es)"
    then obtain n where n: "node_of g2 d = Some n" "in_type n = FDir" using p(5)[OF d] by (auto simp: is_gdir_def split: option.splits)
    have "\<not> gone ms d" using out[of d] system_dirs_plain[OF d] by blast
    from sparedD(2)[OF p(4) this n(1)] show "is_gdir g' d" using n(2) same_disk_node[OF p(2)] by (auto simp: is_gdir_def)
  qed
qed

definition sample_attrs :: attrs where
  "sample_attrs = \<lparr>at_uid = 7, at_gid = 8, at_mode = 2541, at_atime = 100, at_mtime = 200,
     at_xattrs = [(''user.a'', ''x''), (''user.containers.b'', ''y'')]\<rparr>"

definition sample_file :: "nat \<Rightarrow> ftype \<Rightarrow> stree" where
  "sample_file i ty = SNode (1, i) ty sample_attrs []"

definition sample_dir :: "nat \<Rightarrow> (string \<times> stree) list \<Rightarrow> stree" where
  "sample_dir i es = SNode (1, i) FDir sample_attrs es"

definition sample_image :: "(string \<times> stree) list" where
  "sample_image =
     [(''bin'', sample_file 3 (FLink ''b'')),
      (''dev'', sample_dir 4 [(''null'', sample_file 5 (FChr 259))]),
      (''etc'', sample_dir 6 [(''machine-id'', sample_file 7 (FReg ''m'')), (''ssh'', sample_dir 8 [(''ssh_host_k'', sample_file 9 (FReg ''k''))])]),
      (''h'', sample_file 9 (FReg ''k''))]"

definition sample_guest :: guest where
  "sample_guest = \<lparr>g_fault = (\<lambda>_. None), g_scan = (\<lambda>_. None), g_now = int, g_steps = 0, g_mounts = [],
     g_names = [(targetDir, 2), (targetDir @ [''lost+found''], 11)],
     g_inodes = (\<lambda>_. \<lparr>in_type = FDir, in_attrs = sample_attrs\<rparr>), g_next = 12\<rparr>"

lemma sample_run: "fst (run_helper sample_image sample_guest) = Inr ()"
  by code_simp

definition sample_result :: guest where
  "sample_result = snd (run_helper sample_image sample_guest)"

lemma sample_hyps:
  "helper_main sample_image sample_guest = ((0, ''DEVD_IMAGE_COMPLETE'' @ [CHR 0x0A]), sample_result)"
  "fresh_disk sample_guest" "honest sample_guest" "entries_ok sample_image" "coherent (set (root_files sample_image))" "plain_dirs sample_image"
proof -
  show "plain_dirs sample_image" unfolding plain_dirs_def by code_simp
  have "run_helper sample_image sample_guest = (Inr (), sample_result)"
    using sample_run by (simp add: prod_eq_iff sample_result_def)
  then show "helper_main sample_image sample_guest = ((0, ''DEVD_IMAGE_COMPLETE'' @ [CHR 0x0A]), sample_result)"
    by (simp add: helper_main_def)
  show "coherent (set (root_files sample_image))" unfolding coherent_def by code_simp
  show "entries_ok sample_image" 
    by (simp add: sample_image_def sample_dir_def sample_file_def xattr_names_ok_def sample_attrs_def)
qed (simp_all add: fresh_disk_def sample_guest_def honest_def)

theorem helper_copies_image_witness:
  "\<exists>n. node_of sample_result (targetDir @ [''h'']) = Some n \<and>
     copy_of (sample_file 9 (FReg ''k'')) n"
proof -
  have h: "(targetDir @ [''h''], sample_file 9 (FReg ''k'')) \<in> set (root_files sample_image)"
    by (simp add: root_files_def sample_image_def system_names_def sample_file_def sample_dir_def targetDir_def)
  have "\<not> identity_path (targetDir @ [''h''])" "targetDir @ [''h''] \<notin> set identity_dirs"
    by (simp_all add: identity_path_def identity_dirs_def host_key_def identity_defs)
  with h helper_copies_image[OF sample_hyps] show ?thesis by fastforce
qed

text \<open>C24. A run of the image helper that exits with status zero leaves nothing of the image's machine identity on the disk, provided that
  \<^verbatim>\<open>filepath.Glob\<close> could read the directory of the host keys (\<open>g_scan\<close>; the next theorem is about the other case), that no call fails with
  \<^verbatim>\<open>ENOENT\<close>, \<^verbatim>\<open>EEXIST\<close>, \<^verbatim>\<open>ENOTSUP\<close> or \<^verbatim>\<open>ENODATA\<close> without reason, and that the directories of the identity are no symbolic links:
  no SSH host key, an empty \<^verbatim>\<open>machine-id\<close> of root, no \<^verbatim>\<open>machine-id\<close> of D-Bus. Every other name on the disk comes
  from the image or is one of the directories created empty, and both file systems are unmounted, so the disk
  is written.\<close>

theorem helper_removes_identity:
  assumes "helper_main es g = ((0, out), g')" "fresh_disk g" "honest g" "entries_ok es" "coherent (set (root_files es))" "plain_dirs es"
    and "\<forall>k. g_scan g k = None"
  shows "(\<forall>q. host_key q \<longrightarrow> node_of g' q = None) \<and>
    (\<exists>n. node_of g' machineID = Some n \<and> empty_machine_id n) \<and> node_of g' dbusMachineID = None \<and>
    (\<forall>q n. node_of g' q = Some n \<longrightarrow>
       q \<in> {targetDir, targetDir @ [''lost+found''], etcDir, machineID} \<union> fst ` set (root_files es) \<union> set (system_dirs es)) \<and>
    g_mounts g' = []"
proof -
  obtain g2 g3 ms where p: "same_disk g3 g'" "found g2 ms" "g_scan g2 = g_scan g" "spared ms g2 g3"
    "\<And>q. q \<in> set ms \<Longrightarrow> map_of (g_names g3) q = None"
    "\<exists>n. node_of g3 machineID = Some n \<and> empty_machine_id n" "map_of (g_names g3) dbusMachineID = None"
    "\<And>q. map_of (g_names g2) q \<noteq> None \<Longrightarrow>
       q \<in> {targetDir, targetDir @ [''lost+found'']} \<union> fst ` set (root_files es) \<union> set (system_dirs es)"
    "g_mounts g' = []"
    by (rule helper_phases[OF helper_main_ok[OF assms(1)] assms(2-5)]) blast
  have key: "map_of (g_names g3) q = None" if "host_key q" for q
    using p(2,3,5) assms(7) that sparedD(4)[OF p(4), of q] unfolding found_def by (cases "map_of (g_names g3) q") auto
  have "q \<in> {targetDir, targetDir @ [''lost+found''], etcDir, machineID} \<union> fst ` set (root_files es) \<union> set (system_dirs es)"
    if "node_of g' q = Some n" for q n
  proof -
    have "node_of g3 q = Some n" using that same_disk_node[OF p(1)] by simp
    then have "map_of (g_names g3) q \<noteq> None" by (auto simp: node_of_def)
    then show ?thesis using sparedD(4)[OF p(4)] p(8)[of q] by blast
  qed
  moreover have "node_of g3 q = None" if "map_of (g_names g3) q = None" for q using that by (simp add: node_of_def)
  ultimately show ?thesis using key p(6,7,9) unfolding same_disk_node[OF p(1)] by blast
qed

theorem helper_removes_identity_witness:
  "node_of sample_result (sshDir @ [''ssh_host_k'']) = None \<and>
   (\<exists>n. node_of sample_result machineID = Some n \<and> empty_machine_id n)"
proof -
  have "host_key (sshDir @ [''ssh_host_k''])" by (simp add: host_key_def)
  moreover have "\<forall>k. g_scan sample_guest k = None" by (simp add: sample_guest_def)
  ultimately show ?thesis using helper_removes_identity[OF sample_hyps] by blast
qed

text \<open>C38. The removal of the host keys is not safe against errors of the disk. \<^verbatim>\<open>filepath.Glob\<close> does not report that it could not read a
  directory: if reading \<^verbatim>\<open>etc/ssh\<close> fails, and the run exits with status zero all the same, then every SSH host key of the image is on
  the disk, and all workspaces made from the template share it.\<close>

theorem unreadable_directory_keeps_host_keys:
  assumes "helper_main es g = ((0, out), g')" "fresh_disk g" "honest g" "entries_ok es" "coherent (set (root_files es))" "plain_dirs es"
    and "\<forall>k. g_scan g k = Some 0" "(q, s) \<in> set (root_files es)" "host_key q"
  shows "\<exists>n. node_of g' q = Some n \<and> copy_of s n"
proof -
  obtain c g2 g3 ms where p: "copy_inv (set (root_files es)) c g2" "same_disk g3 g'" "found g2 ms" "g_scan g2 = g_scan g" "spared ms g2 g3"
    using helper_phases[OF helper_main_ok[OF assms(1)] assms(2-5)] by metis
  have "ms = []" using p(3,4) assms(7) by (simp add: found_def)
  moreover have "q = sshDir @ [last q]" using assms(9) unfolding host_key_def by (metis append_butlast_last_id)
  then obtain x where "q = sshDir @ [x]" by blast
  ultimately have "\<not> gone ms q" "q \<notin> set identity_dirs"
    by (auto simp: gone_def identity_dirs_def identity_defs)
  then show ?thesis using copied_then_spared(1)[OF p(1,5) assms(8)] same_disk_node[OF p(2)] by auto
qed

definition blind_guest :: guest where
  "blind_guest = sample_guest\<lparr>g_scan := (\<lambda>_. Some 0)\<rparr>"

theorem unreadable_directory_keeps_host_keys_witness:
  "\<exists>n. node_of (snd (helper_main sample_image blind_guest)) (sshDir @ [''ssh_host_k'']) = Some n \<and> copy_of (sample_file 9 (FReg ''k'')) n"
proof -
  have "fst (run_helper sample_image blind_guest) = Inr ()" by code_simp
  then have run: "helper_main sample_image blind_guest = ((0, ''DEVD_IMAGE_COMPLETE'' @ [CHR 0x0A]), snd (helper_main sample_image blind_guest))"
    by (auto simp: helper_main_def split: prod.splits sum.splits)
  have g: "fresh_disk blind_guest" "honest blind_guest" "\<forall>k. g_scan blind_guest k = Some 0"
    by (simp_all add: blind_guest_def fresh_disk_def sample_guest_def honest_def)
  have h: "(sshDir @ [''ssh_host_k''], sample_file 9 (FReg ''k'')) \<in> set (root_files sample_image)"
    by (simp add: root_files_def sample_image_def system_names_def sample_file_def sample_dir_def targetDir_def sshDir_def)
  have "host_key (sshDir @ [''ssh_host_k''])" by (simp add: host_key_def)
  from unreadable_directory_keeps_host_keys[OF run g(1,2) sample_hyps(4,5,6) g(3) h this] show ?thesis .
qed

end
