(* ===== verification/Spec2Isabelle.thy ===== *)
theory Spec2Isabelle
  imports Jsonc Locks Options SshLaws VmLaws StorageLaws LifecycleLaws ForkLaws ProxyLaws Relay Daemon ImageRunLaws
begin

text \<open>
  A verification library for devd, a tool that runs development workspaces as micro VMs.

  \<^bold>\<open>The program.\<close> The command \<^verbatim>\<open>devd\<close> (\<^verbatim>\<open>internal/cli\<close>) keeps its state in a directory: an SQLite
  database of workspaces and declared ports (\<^verbatim>\<open>internal/db\<close>), a directory per workspace with a disk, a boot
  specification and the receipt of the running VM (\<^verbatim>\<open>internal/workspace\<close>, \<^verbatim>\<open>internal/vm\<close>),
  and a cache of image templates (\<^verbatim>\<open>internal/storage\<close>). It maintains a block of \<^verbatim>\<open>~/.ssh/config\<close> and a key pair
  (\<^verbatim>\<open>internal/ssh\<close>). A background daemon (\<^verbatim>\<open>internal/proxy\<close>, \<^verbatim>\<open>internal/cli/daemon.go\<close>) owns the declared
  ports and forwards connections to the active workspace through ssh tunnels. Several commands can run at
  once; they exclude each other with file locks, and any of them can fail or be killed at any
  system call.

  \<^bold>\<open>The host.\<close> Theory \<open>World\<close> has the state of the host as a record (files, locks, processes, signals,
  database, clock) and the system calls as functions \<open>world \<Rightarrow> outcome \<times> world\<close> (type \<open>'a io\<close>); \<open>Err\<close>
  is a Go error, \<open>Crash\<close> the death of the process. Which call fails, how far an interrupted call got, how the
  process table evolves, what an external program or the network answers is read from an environment of which nothing is
  assumed unless a theorem says so. Theory \<open>Effects\<close> states the rules by which a relation between worlds is carried through the combinators
  as a hierarchy of locales (\<open>change\<close>, \<open>ignores_db\<close>, \<open>ignores_locks\<close>, \<open>ignores_files\<close>,
  \<open>ignores_procs\<close>, \<open>ignores_host\<close>): a relation that interprets one of them gets the rules of every
  command for free. Theories \<open>Prelude\<close>, \<open>GoStrings\<close>, \<open>GoPath\<close>, \<open>JsonText\<close>, \<open>Json\<close>, \<open>JsonUtf8\<close> and \<open>Sha256\<close> model the parts of Go's library the
  program uses; the JSON decoder is shown to yield valid UTF-8 only.

  \<^bold>\<open>Components.\<close> Each theory follows one source file or package and keeps its names.
  \<^item> \<open>Config\<close>: \<^verbatim>\<open>config/config.go\<close>. \<open>Jsonc\<close>, \<open>DevContainer\<close>: \<^verbatim>\<open>config/devcontainer.go\<close>; the two passes over JSONC
    text are proved equal to one-pass scanners.
  \<^item> \<open>Tables\<close>, \<open>Database\<close>, \<open>DatabaseLaws\<close>: \<^verbatim>\<open>db/db.go\<close>; the statements as functions on tables, the
    transactions under faults. The locale \<open>transaction\<close> shows once that a body between begin and commit is
    all-or-nothing; the three updates interpret it.
  \<^item> \<open>WorkspaceFiles\<close>, \<open>Locks\<close>: \<^verbatim>\<open>workspace/spec.go\<close>, \<^verbatim>\<open>workspace/lock.go\<close>; atomic replacement of files, round trip
    of the specification, exclusive operation locks.
  \<^item> \<open>Options\<close>: \<^verbatim>\<open>cli/options.go\<close>. \<open>SshConfig\<close>, \<open>SshLaws\<close>: \<^verbatim>\<open>ssh/config.go\<close>, \<^verbatim>\<open>ssh/keys.go\<close>; the
    managed block, and what a crash can do to the user's file. \<open>Names\<close>: \<^verbatim>\<open>cli/names.go\<close>.
  \<^item> \<open>Vm\<close>, \<open>VmLaws\<close>: \<^verbatim>\<open>vm/runtime.go\<close>, \<^verbatim>\<open>vm/process*.go\<close>; a launch leaves a receipt, a stop signals only the process of the
    receipt. \<open>Guest\<close>: \<^verbatim>\<open>vm/guest.go\<close>.
  \<^item> \<open>Storage\<close>, \<open>StorageLaws\<close>: \<^verbatim>\<open>storage/storage.go\<close>, \<^verbatim>\<open>storage/lock.go\<close>. \<open>TemplateFrames\<close>, \<open>TemplateLaws\<close>: the cache of image templates, what a valid entry is and
    that no failure or crash leaves a wrong one. \<open>Frames\<close>: which existing files a command leaves
    alone.
  \<^item> \<open>DaemonClient\<close>: the client's side of \<^verbatim>\<open>cli/daemon.go\<close>. \<open>Lifecycle\<close>, \<open>LifecycleLaws\<close>: \<^verbatim>\<open>cli/lifecycle.go\<close>. \<open>Provision\<close>, \<open>ProvisionLaws\<close>:
    \<^verbatim>\<open>cli/provision.go\<close>; a recorded workspace is complete. \<open>RunLaws\<close>: storage and provisioning together, from the image to the recorded workspace. \<open>ForkLaws\<close>: a fork, from the
    recorded source to the recorded copy. \<open>Commands\<close>, \<open>CommandLaws\<close>: the commands, and theorems about whole commands and sequences
    of them.
  \<^item> \<open>Proxy\<close>, \<open>ProxyInv\<close>, \<open>ProxyLaws\<close>: \<^verbatim>\<open>proxy/proxy.go\<close> as a transition system whose steps are the critical sections
    of its goroutines; its invariant; routing, ports and tunnels. \<open>Relay\<close>: the copying of bytes of one connection. \<open>Daemon\<close>: the daemon's side of
    \<^verbatim>\<open>cli/daemon.go\<close>, client and daemon together, and the daemon as a run of the proxy.
  \<^item> \<open>ImageHelper\<close>, \<open>ImageHelperLaws\<close>, \<open>ImageRunLaws\<close>: \<^verbatim>\<open>cmd/devd-image-helper\<close>, the program inside the conversion VM, on a file system
    with inodes and a directory scan that can fail unnoticed; the invariant of the copier, and what is on the disk after a run.

  \<^bold>\<open>What is shown.\<close> The database stays consistent under every sequence of commands and crashes
  (\<open>installation_invariant\<close>), updates are all-or-nothing; no failure leaves an entry of the template cache that \<^verbatim>\<open>loadTemplate\<close> accepts (manifest of the current format, disk of the right size)
  under a wrong key; a new workspace is recorded only with its complete directory,
  a copy of the template for the digest of its image and the settings of that template's manifest and of the request; a fork copies the disk of a stopped source and leaves it alone,
  inherits what was not overridden and is marked for a new identity; a workspace is recorded as stopped only after its process is
  gone, and removed from disk only after its record; locks exclude each other and running VMs;
  files are replaced atomically; stored texts are read back as written. The proxy loses no ssh process, wakes every
  waiting connection, stays empty once stopped, routes to the active workspace, and a client that
  sees an ensure request succeed knows the ports to be owned; a connection delivers what was sent and ends. The image helper copies
  the files of the image, except sockets, the system directories of the top level and the machine identity, with their metadata and hard links, and removes the machine identity
  provided it can read the directory of the host keys. Five theorems document defects of the code
  (\<open>stored_mount_reparse\<close>, \<open>ssh_config_update_can_lose_text\<close>, \<open>generated_name_rejected\<close>, \<open>unreadable_directory_keeps_host_keys\<close>,
  \<open>accept_error_leaves_port_deaf\<close>).

  \<^bold>\<open>Bounds.\<close> Only the JSON parser runs on fuel, twice the length of the text plus two, which is enough: more fuel does not change the result (\<open>json_parse_enough\<close>). Polling loops (\<open>poll\<close>, \<open>waitForExit_loop\<close>) end because each round advances the clock by
  at least a millisecond towards the deadline; the search for a temporary name makes the 10000 attempts of Go's
  library; the relay ends by \<open>relay_work\<close>; all other loops recurse on a list or a tree.

  \<^bold>\<open>Simplified.\<close> The daemon handles one control request without other goroutines in between, although the code takes the mutex for each port; the text of its error
  quotes an unknown command without escapes. \<open>processIdentity\<close> is one observation of the process table; \<open>linux_identity\<close> and \<open>darwin_identity\<close> are what the
  two systems compute from the data they read, and \<open>linux_identity_robust\<close> that a command name cannot change it. Port numbers are unbounded integers. A killed
  external program leaves whatever files the environment says. When the image helper removes the identity, a path through a symbolic link is an error, where Linux would follow the link; the
  theorems about the run assume plain directories there.

  \<^bold>\<open>Not modelled.\<close> Registration of commands and flags with cobra (\<^verbatim>\<open>cli/root.go\<close>, \<^verbatim>\<open>main.go\<close>) and the text commands print; what
  the guest's shell does with the init script; the companion \<^verbatim>\<open>devd-vm\<close> (C, libkrun); the programs devd
  runs (ssh, cp, buildah, e2fsprogs), which are part of the environment; the interleaving of two
  commands at the level of single system calls, except where a theorem quantifies over what other processes
  do; the writes of a running VM to its disk; experiments and tests.
\<close>

end
